(* ===== verification/Prelude.thy ===== *)
theory Prelude
  imports Main "HOL-Library.Word"
begin

text \<open>
  Shared vocabulary of the development: the machine types of the C sources, byte literals, bounded
  memory writes, the allocator's outcomes, and the generic lemmas on bytes, words and lists that the
  component theories use.  Lemmas meant for \<open>simp add:\<close> are gathered in two collections:
  \<open>byte_simps\<close> (bytes against wider words) and \<open>mem_simps\<close> (bounded writes).
\<close>

unbundle bit_operations_syntax

named_theorems byte_simps \<open>bytes extracted from and assembled into wider words\<close>
named_theorems mem_simps \<open>bounded writes into a fixed block of memory\<close>

section \<open>Machine types\<close>

text \<open>
  \<open>unsigned char\<close>, \<open>uint32_t\<close> and \<open>libssh2_uint64_t\<close> keep their width.  A \<open>size_t\<close> that only counts the
  bytes of an object in memory is a \<open>nat\<close>; where the code subtracts two of them and relies on the
  wrap-around, the subtraction is written with \<open>size_sub\<close>.  The C type \<open>int\<close> of return codes is \<open>int\<close>.
\<close>

type_synonym byte = "8 word"
type_synonym u32 = "32 word"
type_synonym u64 = "64 word"
type_synonym bytes = "byte list"

definition size_max :: nat where
  "size_max = 2 ^ 64 - 1"

text \<open>Subtraction of two \<open>size_t\<close> values, modulo \<open>2 ^ 64\<close> as the LP64 targets compute it.\<close>

definition size_sub :: "nat \<Rightarrow> nat \<Rightarrow> nat" where
  "size_sub a b = nat ((int a - int b) mod 2 ^ 64)"

lemma size_sub_le [simp]: "b \<le> a \<Longrightarrow> a < 2 ^ 64 \<Longrightarrow> size_sub a b = a - b"
  by (simp add: size_sub_def nat_mod_distrib flip: of_nat_diff) 

lemma size_sub_wrap: "a < b \<Longrightarrow> b \<le> 2 ^ 64 \<Longrightarrow> size_sub a b = 2 ^ 64 + a - b"
proof -
  assume ab: "a < b" "b \<le> 2 ^ 64"
  then have "(int a - int b) mod 2 ^ 64 = (int a - int b + 2 ^ 64) mod 2 ^ 64"
    by simp
  also have "\<dots> = int a - int b + 2 ^ 64"
    using ab by (intro mod_pos_pos_trivial) auto
  finally show ?thesis
    using ab by (simp add: size_sub_def nat_diff_distrib' flip: of_nat_diff)
qed

section \<open>Byte literals and C strings\<close>

text \<open>
  A C string literal is written \<open>str ''abc''\<close>.  A C string in memory is the list of its bytes without
  the terminating zero; code that reads up to the terminator uses \<open>c_str\<close> on the raw memory.
\<close>

definition str :: "string \<Rightarrow> bytes" where
  "str s = map of_char s"

lemma length_str [simp]: "length (str s) = length s"
  by (simp add: str_def)

lemma str_Nil [simp]: "str [] = []"
  by (simp add: str_def)

lemma str_Cons: "str (c # s) = of_char c # str s"
  by (simp add: str_def)

lemma str_append: "str (s @ t) = str s @ str t"
  by (simp add: str_def)

text \<open>The bytes before the first zero: what \<open>strlen\<close>, \<open>strcmp\<close> and \<open>%s\<close> see of a memory block.\<close>

definition c_str :: "bytes \<Rightarrow> bytes" where
  "c_str m = takeWhile (\<lambda>b. b \<noteq> 0) m"

lemma c_str_no_zero [simp]: "0 \<notin> set (c_str m)"
  by (auto simp: c_str_def dest: set_takeWhileD)

lemma c_str_id [simp]: "0 \<notin> set m \<Longrightarrow> c_str m = m"
  unfolding c_str_def by (rule takeWhile_eq_all_conv [THEN iffD2]) auto

lemma c_str_append_zero [simp]: "0 \<notin> set m \<Longrightarrow> c_str (m @ 0 # r) = m"
  unfolding c_str_def by (subst takeWhile_append2) auto

section \<open>Bytes and wider words\<close>

lemma byte_and_ff [byte_simps]: "ucast (w AND 0xFF :: 'a::len word) = (ucast w :: byte)"
proof -
  have "w AND 0xFF = take_bit 8 w"
    by (simp add: take_bit_eq_mask mask_eq_exp_minus_1)
  then show ?thesis
    by (intro bit_word_eqI) (auto simp: bit_simps)
qed

lemma bit_byte_ge [simp]: "8 \<le> n \<Longrightarrow> \<not> bit (b :: byte) n"
  using bit_imp_le_length [of b n] by auto

lemma unat_byte_less [simp]: "unat (b :: byte) < 256"
  using unsigned_less [of b] by simp

lemma unat_push_bit_ucast:
  fixes b :: byte
  assumes "n + 8 \<le> LENGTH('a::len)"
  shows "unat (push_bit n (ucast b) :: 'a word) = unat b * 2 ^ n"
proof -
  have "unat b < 2 ^ 8" by simp
  then have "unat b * 2 ^ n < 2 ^ (n + 8)"
    by (simp add: power_add)
  also have "(2 :: nat) ^ (n + 8) \<le> 2 ^ LENGTH('a)"
    using assms by (simp add: power_increasing)
  finally have lt: "unat b * 2 ^ n < 2 ^ LENGTH('a)" .
  have "unat b \<le> unat b * 2 ^ n" by simp
  also note lt
  finally have "unat (ucast b :: 'a word) = unat b"
    by (simp add: unsigned_ucast_eq take_bit_nat_eq_self)
  then show ?thesis
    using lt by (simp add: unsigned_push_bit_eq push_bit_eq_mult [where ?'a = nat] take_bit_nat_eq_self)
qed

section \<open>Bounded memory\<close>

text \<open>
  \<open>poke off src m\<close> is \<open>memcpy (m + off, src, length src)\<close>: \<open>None\<close> is a write outside the block, which in C
  is undefined behaviour.  A function of the model that writes only through \<open>poke\<close> and is shown never
  to return \<open>None\<close> is memory safe.
\<close>

definition poke :: "nat \<Rightarrow> bytes \<Rightarrow> bytes \<Rightarrow> bytes option" where
  "poke off src m =
     (if off + length src \<le> length m then Some (take off m @ src @ drop (off + length src) m)
      else None)"

lemma poke_Some_iff [mem_simps]: "(\<exists>m'. poke off src m = Some m') \<longleftrightarrow> off + length src \<le> length m"
  by (simp add: poke_def)

lemma poke_length [mem_simps]: "poke off src m = Some m' \<Longrightarrow> length m' = length m"
  by (auto simp: poke_def split: if_splits)

lemma poke_take [mem_simps]:
  "poke off src m = Some m' \<Longrightarrow> take (off + length src) m' = take off m @ src"
  by (auto simp: poke_def split: if_splits)

lemma poke_nil [simp]: "off \<le> length m \<Longrightarrow> poke off [] m = Some m"
  by (simp add: poke_def)

section \<open>Allocation\<close>

text \<open>
  \<open>LIBSSH2_ALLOC\<close> calls the application's allocator, which may return NULL at any call.  A function
  that allocates takes the outcomes of its successive calls as an argument, a list of booleans
  (\<open>True\<close>: memory was returned); when the list is exhausted further allocations succeed.
\<close>

type_synonym allocs = "bool list"

fun alloc_next :: "allocs \<Rightarrow> bool \<times> allocs" where
  "alloc_next [] = (True, [])"
| "alloc_next (b # bs) = (b, bs)"

section \<open>Lists\<close>

lemma takeWhile_eq_take_length: "takeWhile P xs = take (length (takeWhile P xs)) xs"
  by (metis append_eq_conv_conj takeWhile_dropWhile_id)

lemma dropWhile_eq_drop_length: "dropWhile P xs = drop (length (takeWhile P xs)) xs"
  by (metis append_eq_conv_conj takeWhile_dropWhile_id)

lemma takeWhile_append_stop [simp]:
  "\<forall>x \<in> set xs. P x \<Longrightarrow> \<not> P y \<Longrightarrow> takeWhile P (xs @ y # ys) = xs"
  by (simp add: takeWhile_append2)

lemma dropWhile_append_stop [simp]:
  "\<forall>x \<in> set xs. P x \<Longrightarrow> \<not> P y \<Longrightarrow> dropWhile P (xs @ y # ys) = y # ys"
  by (simp add: dropWhile_append2)

lemma nth_slice [simp]: "i < n \<Longrightarrow> off + n \<le> length xs \<Longrightarrow> take n (drop off xs) ! i = xs ! (off + i)"
  by simp

section \<open>Decimal numbers\<close>

text \<open>\<open>%d\<close> of \<open>snprintf\<close> on a non-negative number.\<close>

fun dec_digits :: "nat \<Rightarrow> bytes" where
  "dec_digits n =
     (if n < 10 then [word_of_nat (48 + n)] else dec_digits (n div 10) @ [word_of_nat (48 + n mod 10)])"

declare dec_digits.simps [simp del]

end
