(* ===== verification/Wire.thy ===== *)
theory Wire
  imports Prelude
begin

text \<open>
  The wire primitives of \<^verbatim>\<open>libssh2/src/misc.c\<close>: big-endian integers, the writers \<open>_libssh2_store_*\<close> and
  the reader \<open>struct string_buf\<close> with its \<open>_libssh2_get_*\<close> functions.  The locale \<open>wire_codec\<close> states what
  the packet parsers rely on (a reader undoes its writer and leaves the cursor behind the item); it is
  interpreted for every item type, and its client lemmas carry the round trips of larger messages.
\<close>

section \<open>Big-endian integers\<close>

definition ntohu32 :: "bytes \<Rightarrow> u32" where
  "ntohu32 buf =
     push_bit 24 (ucast (buf ! 0)) OR push_bit 16 (ucast (buf ! 1)) OR
     push_bit 8 (ucast (buf ! 2)) OR ucast (buf ! 3)"

definition ntohu64 :: "bytes \<Rightarrow> u64" where
  "ntohu64 buf =
     push_bit 56 (ucast (buf ! 0)) OR push_bit 48 (ucast (buf ! 1)) OR
     push_bit 40 (ucast (buf ! 2)) OR push_bit 32 (ucast (buf ! 3)) OR
     push_bit 24 (ucast (buf ! 4)) OR push_bit 16 (ucast (buf ! 5)) OR
     push_bit 8 (ucast (buf ! 6)) OR ucast (buf ! 7)"

definition htonu32 :: "u32 \<Rightarrow> bytes" where
  "htonu32 value =
     [ucast (drop_bit 24 value AND 0xFF), ucast (drop_bit 16 value AND 0xFF),
      ucast (drop_bit 8 value AND 0xFF), ucast (value AND 0xFF)]"

definition htonu64 :: "u64 \<Rightarrow> bytes" where
  "htonu64 value =
     [ucast (drop_bit 56 value AND 0xFF), ucast (drop_bit 48 value AND 0xFF),
      ucast (drop_bit 40 value AND 0xFF), ucast (drop_bit 32 value AND 0xFF),
      ucast (drop_bit 24 value AND 0xFF), ucast (drop_bit 16 value AND 0xFF),
      ucast (drop_bit 8 value AND 0xFF), ucast (value AND 0xFF)]"

section \<open>Writers\<close>

text \<open>
  A writer holds the block it fills and the position of the pointer \<open>*buf\<close> in it.  A store that would
  leave the block is \<open>None\<close>.
\<close>

record wbuf =
  wb_mem :: bytes
  wb_pos :: nat

definition put_bytes :: "bytes \<Rightarrow> wbuf \<Rightarrow> wbuf option" where
  "put_bytes bs w =
     (case poke (wb_pos w) bs (wb_mem w) of
        None \<Rightarrow> None
      | Some m \<Rightarrow> Some \<lparr>wb_mem = m, wb_pos = wb_pos w + length bs\<rparr>)"

definition store_u32 :: "u32 \<Rightarrow> wbuf \<Rightarrow> wbuf option" where
  "store_u32 value w = put_bytes (htonu32 value) w"

definition store_u64 :: "u64 \<Rightarrow> wbuf \<Rightarrow> wbuf option" where
  "store_u64 value w = put_bytes (htonu64 value) w"

text \<open>
  \<open>_libssh2_store_str\<close> truncates the length to 32 bits, stores that many bytes and reports whether the
  length survived the truncation.
\<close>

definition store_str :: "bytes \<Rightarrow> wbuf \<Rightarrow> (bool \<times> wbuf) option" where
  "store_str s w =
     (let len_stored = (word_of_nat (length s) :: u32) in
      case store_u32 len_stored w of
        None \<Rightarrow> None
      | Some w1 \<Rightarrow>
          (case (if len_stored \<noteq> 0 then put_bytes (take (unat len_stored) s) w1 else Some w1) of
             None \<Rightarrow> None
           | Some w2 \<Rightarrow> Some (unat len_stored = length s, w2)))"

text \<open>
  \<open>_libssh2_store_bignum2_bytes\<close>: leading zero bytes are skipped, a zero byte is put in front when the
  top bit of the magnitude is set (the value would read as negative otherwise).
\<close>

definition store_bignum2_bytes :: "bytes \<Rightarrow> wbuf \<Rightarrow> (bool \<times> wbuf) option" where
  "store_bignum2_bytes bs w =
     (let p = dropWhile (\<lambda>b. b = 0) bs;
          len = length p;
          extraByte = (len > 0 \<and> p ! 0 AND 0x80 \<noteq> 0);
          len0 = (word_of_nat len :: u32);
          len_stored = (if extraByte \<and> len0 = - 1 then len0 - 1 else len0) in
      case store_u32 (len_stored + (if extraByte then 1 else 0)) w of
        None \<Rightarrow> None
      | Some w1 \<Rightarrow>
          (case (if extraByte then put_bytes [0] w1 else Some w1) of
             None \<Rightarrow> None
           | Some w2 \<Rightarrow>
               (case (if len_stored \<noteq> 0 then put_bytes (take (unat len_stored) p) w2 else Some w2) of
                  None \<Rightarrow> None
                | Some w3 \<Rightarrow> Some (unat len_stored = len, w3))))"

section \<open>The reader struct string\_buf\<close>

text \<open>
  \<open>data\<close> and \<open>len\<close> are the block \<open>sb_data\<close>; \<open>dataptr\<close> is the offset \<open>sb_off\<close> into it.  A getter returns
  \<open>None\<close> for the C result -1 and always the buffer as it leaves it, since \<open>_libssh2_get_string\<close> has
  already moved \<open>dataptr\<close> over the length when it finds the body too short.
\<close>

record string_buf =
  sb_data :: bytes
  sb_off :: nat

type_synonym 'a reader = "string_buf \<Rightarrow> 'a option \<times> string_buf"

definition check_length :: "string_buf \<Rightarrow> nat \<Rightarrow> bool" where
  "check_length buf len =
     (let left = size_sub (length (sb_data buf)) (sb_off buf) in
      len \<le> left \<and> left \<le> length (sb_data buf))"

definition eob :: "string_buf \<Rightarrow> bool" where
  "eob buf \<longleftrightarrow> sb_off buf \<ge> length (sb_data buf)"

definition advance :: "nat \<Rightarrow> string_buf \<Rightarrow> string_buf" where
  "advance n buf = buf\<lparr>sb_off := sb_off buf + n\<rparr>"

definition slice :: "nat \<Rightarrow> string_buf \<Rightarrow> bytes" where
  "slice n buf = take n (drop (sb_off buf) (sb_data buf))"

definition get_byte :: "byte reader" where
  "get_byte buf =
     (if \<not> check_length buf 1 then (None, buf)
      else (Some (sb_data buf ! sb_off buf), advance 1 buf))"

definition get_boolean :: "byte reader" where
  "get_boolean buf =
     (if \<not> check_length buf 1 then (None, buf)
      else (Some (if sb_data buf ! sb_off buf = 0 then 0 else 1), advance 1 buf))"

definition get_u32 :: "u32 reader" where
  "get_u32 buf =
     (if \<not> check_length buf 4 then (None, buf)
      else (Some (ntohu32 (slice 4 buf)), advance 4 buf))"

definition get_u64 :: "u64 reader" where
  "get_u64 buf =
     (if \<not> check_length buf 8 then (None, buf)
      else (Some (ntohu64 (slice 8 buf)), advance 8 buf))"

definition get_string :: "bytes reader" where
  "get_string buf =
     (case get_u32 buf of
        (None, b1) \<Rightarrow> (None, b1)
      | (Some data_len, b1) \<Rightarrow>
          if \<not> check_length b1 (unat data_len) then (None, b1)
          else (Some (slice (unat data_len) b1), advance (unat data_len) b1))"

text \<open>
  \<open>strncmp\<close> over \<open>strlen(match)\<close> bytes: since neither string holds a zero byte in the compared range or
  both stop at it, equality of the C strings of that length.
\<close>

definition strncmp_eq :: "bytes \<Rightarrow> bytes \<Rightarrow> nat \<Rightarrow> bool" where
  "strncmp_eq a b n \<longleftrightarrow> take n (c_str a @ [0]) = take n (c_str b @ [0])"

definition match_string :: "string_buf \<Rightarrow> bytes \<Rightarrow> bool \<times> string_buf" where
  "match_string buf match =
     (case get_string buf of
        (None, b1) \<Rightarrow> (False, b1)
      | (Some out, b1) \<Rightarrow> (length out = length match \<and> strncmp_eq out match (length match), b1))"

text \<open>\<open>_libssh2_copy_string\<close> copies a non-empty string into fresh memory, which can fail.\<close>

definition copy_string :: "bool \<Rightarrow> bytes reader" where
  "copy_string alloc_ok buf =
     (case get_string buf of
        (None, b1) \<Rightarrow> (None, b1)
      | (Some s, b1) \<Rightarrow>
          if length s \<noteq> 0 then (if alloc_ok then (Some s, b1) else (None, b1))
          else (Some [], b1))"

definition get_bignum_bytes :: "bytes reader" where
  "get_bignum_bytes buf =
     (case get_u32 buf of
        (None, b1) \<Rightarrow> (None, b1)
      | (Some data_len, b1) \<Rightarrow>
          if \<not> check_length b1 (unat data_len) then (None, b1)
          else (Some (dropWhile (\<lambda>b. b = 0) (slice (unat data_len) b1)),
                advance (unat data_len) b1))"

section \<open>Integers: byte order is a bijection\<close>

lemma length_htonu32 [simp]: "length (htonu32 v) = 4"
  by (simp add: htonu32_def)

lemma length_htonu64 [simp]: "length (htonu64 v) = 8"
  by (simp add: htonu64_def)

lemma bit_byte_at:
  "bit (push_bit k (ucast (ucast (drop_bit k v) :: byte)) :: 'a::len word) n \<longleftrightarrow>
     k \<le> n \<and> n < k + 8 \<and> bit v n"
  for v :: "'a::len word"
  using bit_imp_le_length [of v n] by (auto simp: bit_simps)

lemmas bit_byte_at_0 = bit_byte_at [of 0, simplified]

lemma split32:
  fixes v :: u32
  shows "push_bit 24 (ucast (ucast (drop_bit 24 v) :: byte)) OR
    push_bit 16 (ucast (ucast (drop_bit 16 v) :: byte)) OR
    push_bit 8 (ucast (ucast (drop_bit 8 v) :: byte)) OR ucast (ucast v :: byte) = v"
  by (rule bit_word_eqI) (simp only: bit_or_iff bit_byte_at bit_byte_at_0; simp; arith)

lemma split64:
  fixes v :: u64
  shows "push_bit 56 (ucast (ucast (drop_bit 56 v) :: byte)) OR
    push_bit 48 (ucast (ucast (drop_bit 48 v) :: byte)) OR
    push_bit 40 (ucast (ucast (drop_bit 40 v) :: byte)) OR
    push_bit 32 (ucast (ucast (drop_bit 32 v) :: byte)) OR
    push_bit 24 (ucast (ucast (drop_bit 24 v) :: byte)) OR
    push_bit 16 (ucast (ucast (drop_bit 16 v) :: byte)) OR
    push_bit 8 (ucast (ucast (drop_bit 8 v) :: byte)) OR ucast (ucast v :: byte) = v"
  by (rule bit_word_eqI) (simp only: bit_or_iff bit_byte_at bit_byte_at_0; simp; arith)

lemma ntohu32_htonu32 [simp]: "ntohu32 (htonu32 v) = v"
  unfolding ntohu32_def htonu32_def byte_and_ff
  by (simp only: nth_Cons_0 nth_Cons_Suc One_nat_def numeral_2_eq_2 numeral_3_eq_3 split32)

lemma ntohu64_htonu64 [simp]: "ntohu64 (htonu64 v) = v"
  unfolding ntohu64_def htonu64_def byte_and_ff
  by (simp only: nth_Cons_numeral nth_Cons_0 nth_Cons_Suc One_nat_def numeral_eq_Suc
      pred_numeral_simps BitM.simps split64 [unfolded numeral_eq_Suc pred_numeral_simps BitM.simps])

lemma join32:
  fixes a b c d :: byte
  defines "v \<equiv> push_bit 24 (ucast a) OR push_bit 16 (ucast b) OR push_bit 8 (ucast c) OR ucast d :: u32"
  shows "ucast (drop_bit 24 v) = a" "ucast (drop_bit 16 v) = b" "ucast (drop_bit 8 v) = c" "ucast v = d"
  unfolding v_def by (rule bit_word_eqI; auto simp: bit_simps)+

lemma htonu32_ntohu32: "length bs = 4 \<Longrightarrow> htonu32 (ntohu32 bs) = bs"
proof -
  assume "length bs = 4"
  then obtain a b c d where "bs = [a, b, c, d]"
    by (auto simp: numeral_eq_Suc length_Suc_conv)
  then show ?thesis
    unfolding ntohu32_def htonu32_def byte_and_ff
    by (simp only: nth_Cons_0 nth_Cons_Suc One_nat_def numeral_2_eq_2 numeral_3_eq_3 join32)
qed

lemma unat_ntohu32:
  "unat (ntohu32 [a, b, c, d]) = unat a * 2 ^ 24 + unat b * 2 ^ 16 + unat c * 2 ^ 8 + unat d"
proof -
  have "push_bit 24 (ucast a) OR push_bit 16 (ucast b) OR push_bit 8 (ucast c) OR ucast d =
    push_bit 24 (ucast a) + (push_bit 16 (ucast b) + (push_bit 8 (ucast c) + (ucast d :: u32)))"
    by (subst disjunctive_add, force simp: bit_simps dest: bit_imp_le_length)+ simp
  moreover have "unat a < 256" "unat b < 256" "unat c < 256" "unat d < 256"
    by simp_all
  moreover have "unat (ucast d :: u32) = unat d"
    using unat_push_bit_ucast [of 0 d, where 'a = 32] by simp
  ultimately show ?thesis
    unfolding ntohu32_def
    by (simp add: unat_word_ariths unat_push_bit_ucast [where 'a = 32] del: unat_byte_less)
qed

section \<open>Cursors\<close>

text \<open>
  \<open>sb_wf\<close> is the invariant every \<open>struct string_buf\<close> of the library satisfies: the cursor is inside its
  block (or at its end).  \<open>ahead\<close> is what is left to read.
\<close>

definition sb_wf :: "string_buf \<Rightarrow> bool" where
  "sb_wf b \<longleftrightarrow> sb_off b \<le> length (sb_data b) \<and> length (sb_data b) < 2 ^ 64"

definition ahead :: "string_buf \<Rightarrow> bytes" where
  "ahead b = drop (sb_off b) (sb_data b)"

definition sb_start :: "bytes \<Rightarrow> string_buf" where
  "sb_start bs = \<lparr>sb_data = bs, sb_off = 0\<rparr>"

lemma sb_wf_start [simp]: "sb_wf (sb_start bs) \<longleftrightarrow> length bs < 2 ^ 64"
  by (simp add: sb_wf_def sb_start_def)

lemma ahead_start [simp]: "ahead (sb_start bs) = bs"
  by (simp add: ahead_def sb_start_def)

lemma check_length_iff: "sb_wf b \<Longrightarrow> check_length b n \<longleftrightarrow> n \<le> length (ahead b)"
  by (auto simp: check_length_def sb_wf_def ahead_def Let_def)

text \<open>A cursor outside its block is caught by the second conjunct of \<open>_libssh2_check_length\<close>.\<close>

lemma check_length_past_end:
  assumes "length (sb_data b) < sb_off b" "sb_off b + length (sb_data b) < 2 ^ 64"
  shows "\<not> check_length b n"
  using assms by (auto simp: check_length_def size_sub_wrap Let_def)

lemma slice_ahead: "slice n b = take n (ahead b)"
  by (simp add: slice_def ahead_def)

lemma ahead_advance [simp]: "ahead (advance n b) = drop n (ahead b)"
  by (simp add: ahead_def advance_def add.commute)

lemma sb_data_advance [simp]: "sb_data (advance n b) = sb_data b"
  by (simp add: advance_def)

lemma sb_wf_advance: "sb_wf b \<Longrightarrow> n \<le> length (ahead b) \<Longrightarrow> sb_wf (advance n b)"
  by (auto simp: sb_wf_def advance_def ahead_def)

lemma advance_advance [simp]: "advance m (advance n b) = advance (n + m) b"
  by (simp add: advance_def)

lemma advance_0 [simp]: "advance 0 b = b"
  by (simp add: advance_def)

lemma nth_off_ahead: "ahead b \<noteq> [] \<Longrightarrow> sb_data b ! sb_off b = hd (ahead b)"
  by (simp add: ahead_def hd_drop_conv_nth)

lemmas reader_defs = get_byte_def get_boolean_def get_u32_def get_u64_def get_string_def
  copy_string_def get_bignum_bytes_def

section \<open>The reader contract\<close>

text \<open>
  Every getter is a safe reader: from a well-formed cursor it leaves a well-formed cursor over the
  same block, never behind the old one.
\<close>

locale safe_reader =
  fixes dec :: "'a reader"
  assumes safe: "sb_wf b \<Longrightarrow> dec b = (r, b') \<Longrightarrow> \<exists>n \<le> length (ahead b). b' = advance n b"
begin

lemma wf_after: "sb_wf b \<Longrightarrow> dec b = (r, b') \<Longrightarrow> sb_wf b'"
  using safe sb_wf_advance by blast

lemma same_data: "sb_wf b \<Longrightarrow> dec b = (r, b') \<Longrightarrow> sb_data b' = sb_data b"
  using safe by fastforce

lemma shrinks: "sb_wf b \<Longrightarrow> dec b = (r, b') \<Longrightarrow> length (ahead b') \<le> length (ahead b)"
  using safe by fastforce

end

text \<open>A loop that reads \<open>n\<close> items in a row and stops at the first failure.\<close>

fun read_many :: "nat \<Rightarrow> 'a reader \<Rightarrow> 'a list reader" where
  "read_many 0 dec b = (Some [], b)"
| "read_many (Suc n) dec b =
     (case dec b of
        (None, b1) \<Rightarrow> (None, b1)
      | (Some x, b1) \<Rightarrow>
          (case read_many n dec b1 of
             (None, b2) \<Rightarrow> (None, b2)
           | (Some xs, b2) \<Rightarrow> (Some (x # xs), b2)))"

context safe_reader
begin

lemma read_many_safe:
  "sb_wf b \<Longrightarrow> read_many n dec b = (r, b') \<Longrightarrow> \<exists>k \<le> length (ahead b). b' = advance k b"
proof (induction n arbitrary: b r b')
  case 0
  then show ?case by (auto intro: exI [of _ 0])
next
  case (Suc n)
  obtain x b1 where d: "dec b = (x, b1)" by fastforce
  with Suc.prems obtain k where k: "k \<le> length (ahead b)" "b1 = advance k b"
    using safe by blast
  show ?case
  proof (cases x)
    case None
    with d k Suc.prems(2) show ?thesis by auto
  next
    case (Some y)
    obtain ys b2 where m: "read_many n dec b1 = (ys, b2)" by fastforce
    then obtain j where j: "j \<le> length (ahead b1)" "b2 = advance j b1"
      using Suc.IH [OF wf_after [OF Suc.prems(1) d] m] by blast
    moreover have "b' = b2"
      using Suc.prems(2) d Some m by (auto split: option.splits)
    ultimately show ?thesis
      using k by (intro exI [of _ "k + j"]) auto
  qed
qed

end

text \<open>
  A codec is a safe reader that undoes an encoder on the values it admits, whatever follows them.
\<close>

locale wire_codec = safe_reader dec for dec :: "'a reader" +
  fixes enc :: "'a \<Rightarrow> bytes"
    and ok :: "'a \<Rightarrow> bool"
  assumes dec_enc: "sb_wf b \<Longrightarrow> ok x \<Longrightarrow> ahead b = enc x @ r \<Longrightarrow> dec b = (Some x, advance (length (enc x)) b)"
begin

lemma dec_enc_start: "ok x \<Longrightarrow> length (enc x) < 2 ^ 64 \<Longrightarrow>
    dec (sb_start (enc x)) = (Some x, advance (length (enc x)) (sb_start (enc x)))"
  by (rule dec_enc [where r = "[]"]) simp_all

lemma read_many_enc:
  "sb_wf b \<Longrightarrow> list_all ok xs \<Longrightarrow> ahead b = concat (map enc xs) @ r \<Longrightarrow>
    read_many (length xs) dec b = (Some xs, advance (length (concat (map enc xs))) b)"
proof (induction xs arbitrary: b)
  case Nil
  then show ?case by simp
next
  case (Cons x xs)
  then have "dec b = (Some x, advance (length (enc x)) b)"
    by (intro dec_enc [where r = "concat (map enc xs) @ r"]) auto
  moreover have "read_many (length xs) dec (advance (length (enc x)) b) =
      (Some xs, advance (length (concat (map enc xs))) (advance (length (enc x)) b))"
    using Cons.prems by (intro Cons.IH sb_wf_advance) auto
  ultimately show ?case by simp
qed

lemma enc_inj: "ok x \<Longrightarrow> ok y \<Longrightarrow> length (enc x) < 2 ^ 64 \<Longrightarrow> enc x = enc y \<Longrightarrow> x = y"
  by (metis dec_enc_start option.inject prod.inject)

end

lemma safe_reader_fixed:
  assumes "\<And>b. dec b = (if \<not> check_length b n then (None, b) else (Some (f b), advance n b))"
  shows "safe_reader dec"
proof
  fix b r b'
  assume "sb_wf b" "dec b = (r, b')"
  then show "\<exists>k \<le> length (ahead b). b' = advance k b"
    by (cases "check_length b n") (auto simp: assms check_length_iff intro: exI [of _ 0])
qed

lemma safe_reader_prefixed:
  assumes "\<And>b. dec b =
     (case get_u32 b of
        (None, b1) \<Rightarrow> (None, b1)
      | (Some n, b1) \<Rightarrow>
          if \<not> check_length b1 (unat n) then (None, b1)
          else (f n b1, advance (unat n) b1))"
  shows "safe_reader dec"
proof
  fix b r b'
  assume wf: "sb_wf b" and dec: "dec b = (r, b')"
  show "\<exists>k \<le> length (ahead b). b' = advance k b"
  proof (cases "check_length b 4")
    case False
    with dec show ?thesis
      by (auto simp: assms get_u32_def intro: exI [of _ 0])
  next
    case True
    with wf have 4: "4 \<le> length (ahead b)"
      by (simp add: check_length_iff)
    with wf have wf4: "sb_wf (advance 4 b)"
      by (simp add: sb_wf_advance)
    define n where "n = unat (ntohu32 (slice 4 b))"
    from dec True show ?thesis
    proof (cases "check_length (advance 4 b) n")
      case True
      then have "4 + n \<le> length (ahead b)"
        using 4 wf4 by (simp add: check_length_iff)
      with dec \<open>check_length b 4\<close> True show ?thesis
        by (auto simp: assms get_u32_def n_def)
    next
      case False
      with dec \<open>check_length b 4\<close> 4 show ?thesis
        by (auto simp: assms get_u32_def n_def)
    qed
  qed
qed

interpretation rd_byte: wire_codec get_byte "\<lambda>x. [x]" "\<lambda>_. True"
proof (intro wire_codec.intro wire_codec_axioms.intro)
  show "safe_reader get_byte"
    by (rule safe_reader_fixed) (rule get_byte_def)
qed (auto simp: get_byte_def check_length_iff nth_off_ahead)

interpretation rd_bool: safe_reader get_boolean
  by (rule safe_reader_fixed) (rule get_boolean_def)

interpretation rd_u32: wire_codec get_u32 htonu32 "\<lambda>_. True"
proof (intro wire_codec.intro wire_codec_axioms.intro)
  show "safe_reader get_u32"
    by (rule safe_reader_fixed) (rule get_u32_def)
qed (auto simp: get_u32_def check_length_iff slice_ahead)

interpretation rd_u64: wire_codec get_u64 htonu64 "\<lambda>_. True"
proof (intro wire_codec.intro wire_codec_axioms.intro)
  show "safe_reader get_u64"
    by (rule safe_reader_fixed) (rule get_u64_def)
qed (auto simp: get_u64_def check_length_iff slice_ahead)

section \<open>Length-prefixed strings\<close>

text \<open>The SSH \<open>string\<close>: a 32-bit length and that many bytes.\<close>

definition wire_string :: "bytes \<Rightarrow> bytes" where
  "wire_string s = htonu32 (word_of_nat (length s)) @ s"

abbreviation short :: "bytes \<Rightarrow> bool" where
  "short s \<equiv> length s < 2 ^ 32"

lemma length_wire_string [simp]: "length (wire_string s) = 4 + length s"
  by (simp add: wire_string_def)

lemma unat_word32_short [simp]: "n < 2 ^ 32 \<Longrightarrow> unat (word_of_nat n :: u32) = n"
  by (simp add: unat_of_nat take_bit_nat_eq_self)

lemma get_string_spec:
  assumes wf: "sb_wf b"
  shows "get_string b =
    (if length (ahead b) < 4 then (None, b)
     else let n = unat (ntohu32 (take 4 (ahead b))) in
       if length (ahead b) < 4 + n then (None, advance 4 b)
       else (Some (take n (drop 4 (ahead b))), advance (4 + n) b))"
proof (cases "length (ahead b) < 4")
  case True
  with wf show ?thesis
    by (simp add: get_string_def get_u32_def check_length_iff)
next
  case False
  with wf have "sb_wf (advance 4 b)"
    by (simp add: sb_wf_advance)
  with False wf show ?thesis
    by (auto simp: get_string_def get_u32_def check_length_iff Let_def slice_ahead)
qed

lemma get_string_wire:
  assumes "sb_wf b" "short s" "ahead b = wire_string s @ r"
  shows "get_string b = (Some s, advance (4 + length s) b)"
  using assms by (simp add: get_string_spec Let_def wire_string_def)

lemma copy_string_eq: "copy_string ok b =
    (case get_string b of (None, b1) \<Rightarrow> (None, b1)
     | (Some s, b1) \<Rightarrow> (if s = [] \<or> ok then Some s else None, b1))"
  by (auto simp: copy_string_def split: prod.splits option.splits)

interpretation rd_string: wire_codec get_string wire_string short
proof (intro wire_codec.intro wire_codec_axioms.intro)
  show "safe_reader get_string"
    by (rule safe_reader_prefixed) (simp add: get_string_def cong: prod.case_cong option.case_cong)
qed (simp add: get_string_wire)

interpretation rd_bignum: safe_reader get_bignum_bytes
  by (rule safe_reader_prefixed) (simp add: get_bignum_bytes_def cong: prod.case_cong option.case_cong)

interpretation rd_copy: safe_reader "copy_string ok"
proof
  fix b r b'
  assume "sb_wf b" "copy_string ok b = (r, b')"
  then show "\<exists>n \<le> length (ahead b). b' = advance n b"
    by (cases "get_string b") (auto simp: copy_string_eq split: option.splits dest: rd_string.safe)
qed

interpretation rd_copied: wire_codec "copy_string True" wire_string short
  by unfold_locales (simp add: copy_string_eq get_string_wire)

section \<open>Writers append\<close>

definition wb_wf :: "wbuf \<Rightarrow> bool" where
  "wb_wf w \<longleftrightarrow> wb_pos w \<le> length (wb_mem w)"

definition written :: "wbuf \<Rightarrow> bytes" where
  "written w = take (wb_pos w) (wb_mem w)"

definition room :: "wbuf \<Rightarrow> nat" where
  "room w = length (wb_mem w) - wb_pos w"

definition wb_new :: "nat \<Rightarrow> wbuf" where
  "wb_new n = \<lparr>wb_mem = replicate n 0, wb_pos = 0\<rparr>"

text \<open>
  \<open>appends f bs\<close>: the store \<open>f\<close> writes exactly \<open>bs\<close> behind what is written already when there is room, and
  is the out-of-bounds write \<open>None\<close> exactly when there is not.
\<close>

definition appends :: "(wbuf \<Rightarrow> wbuf option) \<Rightarrow> bytes \<Rightarrow> bool" where
  "appends f bs \<longleftrightarrow>
     (\<forall>w. wb_wf w \<longrightarrow>
        (if length bs \<le> room w
         then \<exists>w'. f w = Some w' \<and> wb_wf w' \<and> written w' = written w @ bs \<and>
                room w' = room w - length bs \<and> length (wb_mem w') = length (wb_mem w)
         else f w = None))"

lemma wb_new_simps [simp]: "wb_wf (wb_new n)" "written (wb_new n) = []" "room (wb_new n) = n"
    "length (wb_mem (wb_new n)) = n"
  by (simp_all add: wb_wf_def written_def room_def wb_new_def)

lemma appendsD:
  assumes "appends f bs" "wb_wf w" "length bs \<le> room w"
  obtains w' where "f w = Some w'" "wb_wf w'" "written w' = written w @ bs"
    "room w' = room w - length bs" "length (wb_mem w') = length (wb_mem w)"
  using assms unfolding appends_def by force

lemma appends_put_bytes: "appends (put_bytes bs) bs"
  by (auto simp: appends_def put_bytes_def poke_def wb_wf_def written_def room_def min_def)

lemma appends_store_u32: "appends (store_u32 v) (htonu32 v)"
  unfolding store_u32_def [abs_def] by (rule appends_put_bytes)

lemma appends_store_u64: "appends (store_u64 v) (htonu64 v)"
  unfolding store_u64_def [abs_def] by (rule appends_put_bytes)

lemma appends_Some: "appends Some []"
  by (simp add: appends_def)

lemma appends_bind:
  assumes f: "appends f a" and g: "appends g b"
  shows "appends (\<lambda>w. Option.bind (f w) g) (a @ b)"
  unfolding appends_def
proof (intro allI impI)
  fix w assume wf: "wb_wf w"
  show "if length (a @ b) \<le> room w
    then \<exists>w'. Option.bind (f w) g = Some w' \<and> wb_wf w' \<and> written w' = written w @ a @ b \<and>
           room w' = room w - length (a @ b) \<and> length (wb_mem w') = length (wb_mem w)
    else Option.bind (f w) g = None"
  proof (cases "length a \<le> room w")
    case True
    from appendsD [OF f wf this] obtain w1 where w1: "f w = Some w1" "wb_wf w1"
      "written w1 = written w @ a" "room w1 = room w - length a"
      "length (wb_mem w1) = length (wb_mem w)" .
    show ?thesis
    proof (cases "length b \<le> room w1")
      case True
      from appendsD [OF g w1(2) this] obtain w2 where "g w1 = Some w2" "wb_wf w2"
        "written w2 = written w1 @ b" "room w2 = room w1 - length b"
        "length (wb_mem w2) = length (wb_mem w1)" .
      with w1 True \<open>length a \<le> room w\<close> show ?thesis by simp
    next
      case False
      then have "g w1 = None"
        using g w1(2) by (simp add: appends_def)
      with w1 False show ?thesis by auto
    qed
  next
    case False
    then have "f w = None"
      using f wf by (simp add: appends_def)
    with False show ?thesis by simp
  qed
qed

text \<open>
  Filling a fresh block of exactly the right size: the store succeeds and the block then holds
  exactly the bytes appended.
\<close>

lemma appends_exact:
  assumes "appends f bs"
  shows "\<exists>w'. f (wb_new (length bs)) = Some w' \<and> wb_mem w' = bs"
proof -
  from appendsD [OF assms, of "wb_new (length bs)"] obtain w'
    where w': "f (wb_new (length bs)) = Some w'" "wb_wf w'" "written w' = bs" "room w' = 0"
      "length (wb_mem w') = length bs"
    by auto
  then have "wb_pos w' = length (wb_mem w')"
    by (simp add: room_def wb_wf_def)
  with w'(3) have "wb_mem w' = bs"
    by (simp add: written_def)
  with w'(1) show ?thesis by blast
qed

lemma put_bytes_append: "put_bytes (a @ b) w = Option.bind (put_bytes a w) (put_bytes b)"
proof (cases "wb_pos w + length a \<le> length (wb_mem w)")
  case True
  then show ?thesis
    by (cases a) (auto simp: put_bytes_def poke_def min_def ac_simps)
next
  case False
  then show ?thesis
    by (simp add: put_bytes_def poke_def)
qed

lemma put_bytes_again [simp]: "put_bytes a w = Some w1 \<Longrightarrow> put_bytes [] w1 = Some w1"
  by (auto simp: put_bytes_def poke_def split: option.splits if_splits)

lemma store_str_eq:
  "short s \<Longrightarrow> store_str s w = map_option (Pair True) (put_bytes (wire_string s) w)"
proof -
  assume short: "short s"
  have z: "(word_of_nat (length s) :: u32) = 0 \<longleftrightarrow> s = []"
    using short by (simp flip: unat_eq_0)
  show ?thesis
    using short put_bytes_append [of "htonu32 (word_of_nat (length s))" s w]
    by (cases "put_bytes (htonu32 (word_of_nat (length s))) w")
      (auto simp: store_str_def Let_def store_u32_def wire_string_def z split: option.splits)
qed

lemma appends_store_str: "short s \<Longrightarrow> appends (\<lambda>w. map_option snd (store_str s w)) (wire_string s)"
  using appends_put_bytes [of "wire_string s"]
  by (simp add: store_str_eq option.map_comp o_def option.map_ident)

text \<open>The multi-precision integer \<open>mpint\<close> that \<open>_libssh2_store_bignum2_bytes\<close> is meant to write.\<close>

definition mpint_body :: "bytes \<Rightarrow> bytes" where
  "mpint_body bs =
     (let p = dropWhile (\<lambda>b. b = 0) bs in if p \<noteq> [] \<and> bit (hd p) 7 then 0 # p else p)"

lemma top_bit_iff: "(b :: byte) AND 0x80 \<noteq> 0 \<longleftrightarrow> bit b 7"
proof -
  have "b AND 0x80 = 0 \<longleftrightarrow> \<not> bit b 7"
    using and_exp_eq_0_iff_not_bit [of b 7] by simp
  then show ?thesis by simp
qed

lemma dropWhile_mpint_body: "dropWhile (\<lambda>b. b = 0) (mpint_body bs) = dropWhile (\<lambda>b. b = 0) bs"
  by (simp add: mpint_body_def Let_def)

lemma store_bignum_eq:
  assumes "length bs + 1 < 2 ^ 32"
  shows "store_bignum2_bytes bs w = map_option (Pair True) (put_bytes (wire_string (mpint_body bs)) w)"
proof -
  define p where "p = dropWhile (\<lambda>b. b = 0) bs"
  have len: "length p + 1 < 2 ^ 32"
    using assms length_dropWhile_le [of "\<lambda>b. b = 0" bs] by (simp add: p_def)
  have z: "(word_of_nat (length p) :: u32) = 0 \<longleftrightarrow> p = []"
    using len by (simp flip: unat_eq_0)
  have m1: "(word_of_nat (length p) :: u32) \<noteq> - 1"
  proof
    assume "(word_of_nat (length p) :: u32) = - 1"
    then have "length p = unat (- 1 :: u32)"
      using len by (metis add_lessD1 unat_word32_short)
    with len show False by (simp add: unsigned_minus_1_eq_mask mask_eq_exp_minus_1)
  qed
  have suc: "(word_of_nat (length p) + 1 :: u32) = word_of_nat (Suc (length p))"
    by simp
  have nz: "p \<noteq> [] \<Longrightarrow> p ! 0 = hd p"
    by (simp add: hd_conv_nth)
  have zp: "put_bytes (0 # p) w = Option.bind (put_bytes [0] w) (put_bytes p)" for w
    using put_bytes_append [of "[0]" p] by simp
  consider (nil) "p = []" | (extra) "p \<noteq> []" "bit (hd p) 7" | (plain) "p \<noteq> []" "\<not> bit (hd p) 7"
    by blast
  then show ?thesis
  proof cases
    case nil
    then show ?thesis
      unfolding store_bignum2_bytes_def mpint_body_def p_def [symmetric] Let_def
      by (auto simp: wire_string_def store_u32_def split: option.splits)
  next
    case extra
    with len show ?thesis
      unfolding store_bignum2_bytes_def mpint_body_def p_def [symmetric] Let_def wire_string_def
        put_bytes_append
      by (auto simp: store_u32_def z m1 suc top_bit_iff nz zp simp del: of_nat_Suc
          split: option.splits bind_splits)
  next
    case plain
    with len show ?thesis
      unfolding store_bignum2_bytes_def mpint_body_def p_def [symmetric] Let_def wire_string_def
        put_bytes_append
      by (auto simp: store_u32_def z m1 top_bit_iff nz split: option.splits bind_splits)
  qed
qed

section \<open>Properties\<close>

lemma sb_at_written:
  assumes "put_bytes bs w = Some w'" "length (wb_mem w) < 2 ^ 64"
  shows "sb_wf \<lparr>sb_data = wb_mem w', sb_off = wb_pos w\<rparr>"
    and "\<exists>r. ahead \<lparr>sb_data = wb_mem w', sb_off = wb_pos w\<rparr> = bs @ r"
    and "wb_pos w' = wb_pos w + length bs"
  using assms by (auto simp: put_bytes_def poke_def sb_wf_def ahead_def min_def split: option.splits if_splits)

lemma put_bytes_room:
  "put_bytes bs w = None \<longleftrightarrow> length (wb_mem w) < wb_pos w + length bs"
  by (auto simp: put_bytes_def poke_def split: option.splits)

text \<open>
  \<open>_libssh2_store_str\<close> and \<open>_libssh2_get_string\<close> are inverse.  For every string shorter than
  \<open>2 ^ 32\<close> bytes the store writes outside its block exactly when fewer than four bytes plus the string
  are left; otherwise it reports success, and reading at the position where the store began returns
  the string and leaves the cursor where the store ended.
\<close>

theorem store_str_get_string:
  assumes "length s < 2 ^ 32" and "length (wb_mem w) < 2 ^ 64"
  shows "if length (wb_mem w) < wb_pos w + 4 + length s then store_str s w = None
    else \<exists>w'. store_str s w = Some (True, w') \<and>
      get_string \<lparr>sb_data = wb_mem w', sb_off = wb_pos w\<rparr> =
        (Some s, \<lparr>sb_data = wb_mem w', sb_off = wb_pos w'\<rparr>)"
proof (cases "put_bytes (wire_string s) w")
  case None
  then have "length (wb_mem w) < wb_pos w + 4 + length s"
    by (simp add: put_bytes_room)
  with None assms(1) show ?thesis by (simp add: store_str_eq)
next
  case (Some w')
  then have no: "\<not> length (wb_mem w) < wb_pos w + 4 + length s"
    using put_bytes_room [of "wire_string s" w] by simp
  from sb_at_written [OF Some assms(2)] obtain r
    where "get_string \<lparr>sb_data = wb_mem w', sb_off = wb_pos w\<rparr> =
        (Some s, advance (4 + length s) \<lparr>sb_data = wb_mem w', sb_off = wb_pos w\<rparr>)"
      and "wb_pos w' = wb_pos w + (4 + length s)"
    using get_string_wire assms(1) by (metis length_wire_string)
  with no Some assms(1) show ?thesis
    by (simp add: store_str_eq advance_def)
qed

theorem store_str_get_string_witness:
  "store_str (str ''abc'') (wb_new 7) =
     Some (True, \<lparr>wb_mem = [0, 0, 0, 3, 97, 98, 99], wb_pos = 7\<rparr>) \<and>
   (\<exists>w'. store_str (str ''abc'') (wb_new 7) = Some (True, w') \<and>
      get_string \<lparr>sb_data = wb_mem w', sb_off = wb_pos (wb_new 7)\<rparr> =
        (Some (str ''abc''), \<lparr>sb_data = wb_mem w', sb_off = wb_pos w'\<rparr>))"
proof
  show "store_str (str ''abc'') (wb_new 7) =
     Some (True, \<lparr>wb_mem = [0, 0, 0, 3, 97, 98, 99], wb_pos = 7\<rparr>)"
    by code_simp
  show "\<exists>w'. store_str (str ''abc'') (wb_new 7) = Some (True, w') \<and>
      get_string \<lparr>sb_data = wb_mem w', sb_off = wb_pos (wb_new 7)\<rparr> =
        (Some (str ''abc''), \<lparr>sb_data = wb_mem w', sb_off = wb_pos w'\<rparr>)"
    using store_str_get_string [of "str ''abc''" "wb_new 7"] by (simp add: wb_new_def)
qed

text \<open>
  C5: \<open>_libssh2_get_string\<close> never reads outside its buffer.  On every well-formed cursor, whatever the
  bytes, the announced length is checked against what is left: the result is either -1 or exactly the
  bytes behind the length field, and the cursor stays inside the same block.
\<close>

theorem get_string_memory_safe:
  assumes "sb_wf b" and "get_string b = (r, b')"
  shows "sb_wf b' \<and> sb_data b' = sb_data b \<and> sb_off b \<le> sb_off b' \<and>
    (case r of
       None \<Rightarrow> length (ahead b) < 4 \<or> length (ahead b) < 4 + unat (ntohu32 (take 4 (ahead b)))
     | Some s \<Rightarrow> length s = unat (ntohu32 (take 4 (ahead b))) \<and>
         ahead b = take 4 (ahead b) @ s @ ahead b' \<and> ahead b' = drop (4 + length s) (ahead b))"
proof -
  have "sb_wf b' \<and> sb_data b' = sb_data b \<and> sb_off b \<le> sb_off b'"
    using rd_string.wf_after [OF assms] rd_string.same_data [OF assms] rd_string.safe [OF assms]
    by (auto simp: advance_def)
  moreover have "ahead b = take 4 (ahead b) @ take n (drop 4 (ahead b)) @ drop (4 + n) (ahead b)" for n
    by (metis append_take_drop_id drop_drop add.commute)
  ultimately show ?thesis
    using assms(2) unfolding get_string_spec [OF assms(1)]
    by (auto simp: Let_def split: if_splits)
qed

theorem get_string_memory_safe_witness:
  "sb_wf (sb_start [0, 0, 0, 2, 7, 8, 9]) \<and>
   get_string (sb_start [0, 0, 0, 2, 7, 8, 9]) = (Some [7, 8], advance 6 (sb_start [0, 0, 0, 2, 7, 8, 9])) \<and>
   sb_wf (advance 6 (sb_start [0, 0, 0, 2, 7, 8, 9]))"
proof -
  have e: "get_string (sb_start [0, 0, 0, 2, 7, 8, 9]) =
      (Some [7, 8], advance 6 (sb_start [0, 0, 0, 2, 7, 8, 9]))"
    by code_simp
  have w: "sb_wf (sb_start [0, 0, 0, 2, 7, 8, 9])" by simp
  from get_string_memory_safe [OF w e] e w show ?thesis by simp
qed

text \<open>
  multi-precision integers survive the wire.  \<open>_libssh2_store_bignum2_bytes\<close> into a block of the
  exact size reports success, what it writes never reads as a negative number (its first content
  byte has the top bit clear), and \<open>_libssh2_get_bignum_bytes\<close> returns the magnitude without its
  leading zeros, so the number is unchanged.
\<close>

theorem store_bignum_get_bignum:
  assumes "length bs + 1 < 2 ^ 32"
  shows "\<exists>w'. store_bignum2_bytes bs (wb_new (4 + length (mpint_body bs))) = Some (True, w') \<and>
    wb_mem w' = wire_string (mpint_body bs) \<and>
    (mpint_body bs \<noteq> [] \<longrightarrow> \<not> bit (hd (mpint_body bs)) 7) \<and>
    fst (get_bignum_bytes (sb_start (wb_mem w'))) = Some (dropWhile (\<lambda>b. b = 0) bs)"
proof -
  have len: "length (mpint_body bs) < 2 ^ 32"
    using assms length_dropWhile_le [of "\<lambda>b. b = 0" bs] by (simp add: mpint_body_def Let_def)
  from appends_exact [OF appends_put_bytes, of "wire_string (mpint_body bs)"] obtain w'
    where w': "put_bytes (wire_string (mpint_body bs)) (wb_new (4 + length (mpint_body bs))) = Some w'"
      "wb_mem w' = wire_string (mpint_body bs)"
    by auto
  have "get_bignum_bytes (sb_start (wire_string (mpint_body bs))) =
      (Some (dropWhile (\<lambda>b. b = 0) (mpint_body bs)),
       advance (4 + length (mpint_body bs)) (sb_start (wire_string (mpint_body bs))))"
    using len rd_u32.dec_enc [of "sb_start (wire_string (mpint_body bs))" "word_of_nat (length (mpint_body bs))"]
    by (simp add: get_bignum_bytes_def wire_string_def check_length_iff sb_wf_advance slice_ahead)
  moreover have "mpint_body bs \<noteq> [] \<longrightarrow> \<not> bit (hd (mpint_body bs)) 7"
    by (auto simp: mpint_body_def Let_def)
  ultimately show ?thesis
    using w' by (simp add: store_bignum_eq [OF assms] dropWhile_mpint_body)
qed

theorem store_bignum_get_bignum_witness:
  "length [0, 0x80, 5 :: byte] + 1 < 2 ^ 32 \<and>
   (\<exists>w'. store_bignum2_bytes [0, 0x80, 5] (wb_new (4 + length (mpint_body [0, 0x80, 5]))) = Some (True, w') \<and>
     wb_mem w' = [0, 0, 0, 3, 0, 0x80, 5] \<and>
     fst (get_bignum_bytes (sb_start (wb_mem w'))) = Some [0x80, 5])"
proof -
  have "wire_string (mpint_body [0, 0x80, 5]) = [0, 0, 0, 3, 0, 0x80, 5]"
    by code_simp
  with store_bignum_get_bignum [of "[0, 0x80, 5]"] show ?thesis by auto
qed

end
