(* ===== verification/Errors.thy ===== *)
theory Errors
  imports Prelude
begin

text \<open>
  The error codes of \<^verbatim>\<open>libssh2/include/libssh2.h\<close>, the error record of a session and \<open>_libssh2_error_flags\<close>
  of \<^verbatim>\<open>libssh2/src/misc.c\<close>, and the translation of return codes into Python exceptions that every
  binding of \<^verbatim>\<open>ssh2/*.pyx\<close> applies to the result of a library call (\<open>handle_error_codes\<close> of
  \<^verbatim>\<open>ssh2/utils.pyx\<close>).
\<close>

section \<open>Error codes\<close>

text \<open>The macros of the public header, each an \<open>int\<close>; 0 is success.\<close>

abbreviation E_NONE :: int where "E_NONE \<equiv> 0"
abbreviation E_SOCKET_NONE :: int where "E_SOCKET_NONE \<equiv> - 1"
abbreviation E_BANNER_RECV :: int where "E_BANNER_RECV \<equiv> - 2"
abbreviation E_BANNER_SEND :: int where "E_BANNER_SEND \<equiv> - 3"
abbreviation E_INVALID_MAC :: int where "E_INVALID_MAC \<equiv> - 4"
abbreviation E_KEX_FAILURE :: int where "E_KEX_FAILURE \<equiv> - 5"
abbreviation E_ALLOC :: int where "E_ALLOC \<equiv> - 6"
abbreviation E_SOCKET_SEND :: int where "E_SOCKET_SEND \<equiv> - 7"
abbreviation E_KEY_EXCHANGE_FAILURE :: int where "E_KEY_EXCHANGE_FAILURE \<equiv> - 8"
abbreviation E_TIMEOUT :: int where "E_TIMEOUT \<equiv> - 9"
abbreviation E_HOSTKEY_INIT :: int where "E_HOSTKEY_INIT \<equiv> - 10"
abbreviation E_HOSTKEY_SIGN :: int where "E_HOSTKEY_SIGN \<equiv> - 11"
abbreviation E_DECRYPT :: int where "E_DECRYPT \<equiv> - 12"
abbreviation E_SOCKET_DISCONNECT :: int where "E_SOCKET_DISCONNECT \<equiv> - 13"
abbreviation E_PROTO :: int where "E_PROTO \<equiv> - 14"
abbreviation E_PASSWORD_EXPIRED :: int where "E_PASSWORD_EXPIRED \<equiv> - 15"
abbreviation E_FILE :: int where "E_FILE \<equiv> - 16"
abbreviation E_METHOD_NONE :: int where "E_METHOD_NONE \<equiv> - 17"
abbreviation E_AUTHENTICATION_FAILED :: int where "E_AUTHENTICATION_FAILED \<equiv> - 18"
abbreviation E_PUBLICKEY_UNVERIFIED :: int where "E_PUBLICKEY_UNVERIFIED \<equiv> - 19"
abbreviation E_CHANNEL_OUTOFORDER :: int where "E_CHANNEL_OUTOFORDER \<equiv> - 20"
abbreviation E_CHANNEL_FAILURE :: int where "E_CHANNEL_FAILURE \<equiv> - 21"
abbreviation E_CHANNEL_REQUEST_DENIED :: int where "E_CHANNEL_REQUEST_DENIED \<equiv> - 22"
abbreviation E_CHANNEL_UNKNOWN :: int where "E_CHANNEL_UNKNOWN \<equiv> - 23"
abbreviation E_CHANNEL_WINDOW_EXCEEDED :: int where "E_CHANNEL_WINDOW_EXCEEDED \<equiv> - 24"
abbreviation E_CHANNEL_PACKET_EXCEEDED :: int where "E_CHANNEL_PACKET_EXCEEDED \<equiv> - 25"
abbreviation E_CHANNEL_CLOSED :: int where "E_CHANNEL_CLOSED \<equiv> - 26"
abbreviation E_CHANNEL_EOF_SENT :: int where "E_CHANNEL_EOF_SENT \<equiv> - 27"
abbreviation E_SCP_PROTOCOL :: int where "E_SCP_PROTOCOL \<equiv> - 28"
abbreviation E_ZLIB :: int where "E_ZLIB \<equiv> - 29"
abbreviation E_SOCKET_TIMEOUT :: int where "E_SOCKET_TIMEOUT \<equiv> - 30"
abbreviation E_SFTP_PROTOCOL :: int where "E_SFTP_PROTOCOL \<equiv> - 31"
abbreviation E_REQUEST_DENIED :: int where "E_REQUEST_DENIED \<equiv> - 32"
abbreviation E_METHOD_NOT_SUPPORTED :: int where "E_METHOD_NOT_SUPPORTED \<equiv> - 33"
abbreviation E_INVAL :: int where "E_INVAL \<equiv> - 34"
abbreviation E_INVALID_POLL_TYPE :: int where "E_INVALID_POLL_TYPE \<equiv> - 35"
abbreviation E_PUBLICKEY_PROTOCOL :: int where "E_PUBLICKEY_PROTOCOL \<equiv> - 36"
abbreviation E_EAGAIN :: int where "E_EAGAIN \<equiv> - 37"
abbreviation E_BUFFER_TOO_SMALL :: int where "E_BUFFER_TOO_SMALL \<equiv> - 38"
abbreviation E_BAD_USE :: int where "E_BAD_USE \<equiv> - 39"
abbreviation E_COMPRESS :: int where "E_COMPRESS \<equiv> - 40"
abbreviation E_OUT_OF_BOUNDARY :: int where "E_OUT_OF_BOUNDARY \<equiv> - 41"
abbreviation E_AGENT_PROTOCOL :: int where "E_AGENT_PROTOCOL \<equiv> - 42"
abbreviation E_SOCKET_RECV :: int where "E_SOCKET_RECV \<equiv> - 43"
abbreviation E_ENCRYPT :: int where "E_ENCRYPT \<equiv> - 44"
abbreviation E_BAD_SOCKET :: int where "E_BAD_SOCKET \<equiv> - 45"
abbreviation E_KNOWN_HOSTS :: int where "E_KNOWN_HOSTS \<equiv> - 46"
abbreviation E_CHANNEL_WINDOW_FULL :: int where "E_CHANNEL_WINDOW_FULL \<equiv> - 47"
abbreviation E_KEYFILE_AUTH_FAILED :: int where "E_KEYFILE_AUTH_FAILED \<equiv> - 48"
abbreviation E_RANDGEN :: int where "E_RANDGEN \<equiv> - 49"
abbreviation E_MISSING_USERAUTH_BANNER :: int where "E_MISSING_USERAUTH_BANNER \<equiv> - 50"
abbreviation E_ALGO_UNSUPPORTED :: int where "E_ALGO_UNSUPPORTED \<equiv> - 51"
abbreviation E_MAC_FAILURE :: int where "E_MAC_FAILURE \<equiv> - 52"
abbreviation E_HASH_INIT :: int where "E_HASH_INIT \<equiv> - 53"
abbreviation E_HASH_CALC :: int where "E_HASH_CALC \<equiv> - 54"

text \<open>The codes the header defines, with the names the bindings export for them.\<close>

definition error_codes :: "int list" where
  "error_codes =
    [E_SOCKET_NONE,
     E_BANNER_RECV,
     E_BANNER_SEND,
     E_INVALID_MAC,
     E_KEX_FAILURE,
     E_ALLOC,
     E_SOCKET_SEND,
     E_KEY_EXCHANGE_FAILURE,
     E_TIMEOUT,
     E_HOSTKEY_INIT,
     E_HOSTKEY_SIGN,
     E_DECRYPT,
     E_SOCKET_DISCONNECT,
     E_PROTO,
     E_PASSWORD_EXPIRED,
     E_FILE,
     E_METHOD_NONE,
     E_AUTHENTICATION_FAILED,
     E_PUBLICKEY_UNVERIFIED,
     E_CHANNEL_OUTOFORDER,
     E_CHANNEL_FAILURE,
     E_CHANNEL_REQUEST_DENIED,
     E_CHANNEL_UNKNOWN,
     E_CHANNEL_WINDOW_EXCEEDED,
     E_CHANNEL_PACKET_EXCEEDED,
     E_CHANNEL_CLOSED,
     E_CHANNEL_EOF_SENT,
     E_SCP_PROTOCOL,
     E_ZLIB,
     E_SOCKET_TIMEOUT,
     E_SFTP_PROTOCOL,
     E_REQUEST_DENIED,
     E_METHOD_NOT_SUPPORTED,
     E_INVAL,
     E_INVALID_POLL_TYPE,
     E_PUBLICKEY_PROTOCOL,
     E_EAGAIN,
     E_BUFFER_TOO_SMALL,
     E_BAD_USE,
     E_COMPRESS,
     E_OUT_OF_BOUNDARY,
     E_AGENT_PROTOCOL,
     E_SOCKET_RECV,
     E_ENCRYPT,
     E_BAD_SOCKET,
     E_KNOWN_HOSTS,
     E_CHANNEL_WINDOW_FULL,
     E_KEYFILE_AUTH_FAILED,
     E_RANDGEN,
     E_MISSING_USERAUTH_BANNER,
     E_ALGO_UNSUPPORTED,
     E_MAC_FAILURE,
     E_HASH_INIT,
     E_HASH_CALC]"

text \<open>The result of a C function that returns a negative error code or succeeds with a value.\<close>

type_synonym 'a result = "int + 'a"

section \<open>The session's last error\<close>

text \<open>
  The part of \<open>LIBSSH2_SESSION\<close> that \<open>_libssh2_error_flags\<close> writes; the session records of the other
  theories extend it.  \<open>err_dup\<close> is the flag \<open>LIBSSH2_ERR_FLAG_DUP\<close> of \<open>err_flags\<close>: the message is a copy that
  the session owns.
\<close>

record err_session =
  err_code :: int
  err_msg :: "string option"
  err_dup :: bool

definition libssh2_error_flags ::
  "'a err_session_scheme \<Rightarrow> int \<Rightarrow> string option \<Rightarrow> bool \<Rightarrow> bool \<Rightarrow> int \<times> 'a err_session_scheme" where
  "libssh2_error_flags session code errmsg dup alloc_ok =
     (let s1 = session\<lparr>err_code := code, err_dup := False\<rparr> in
      (code,
       if errmsg \<noteq> None \<and> dup then
         (if alloc_ok then s1\<lparr>err_dup := True, err_msg := errmsg\<rparr>
          else s1\<lparr>err_msg := Some ''former error forgotten (OOM)''\<rparr>)
       else s1\<lparr>err_msg := errmsg\<rparr>))"

definition libssh2_error :: "'a err_session_scheme \<Rightarrow> int \<Rightarrow> string \<Rightarrow> int \<times> 'a err_session_scheme" where
  "libssh2_error session code errmsg = libssh2_error_flags session code (Some errmsg) False True"

lemma libssh2_error_simps [simp]:
  "fst (libssh2_error s c m) = c"
  "err_code (snd (libssh2_error s c m)) = c"
  "err_msg (snd (libssh2_error s c m)) = Some m"
  by (simp_all add: libssh2_error_def libssh2_error_flags_def Let_def)

section \<open>Python exceptions\<close>

text \<open>The \<open>elif\<close> chain of \<open>handle_error_codes\<close>, in its order: the code tested and the exception raised.\<close>

definition exception_table :: "(int \<times> string) list" where
  "exception_table =
    [(E_SOCKET_NONE, ''SSH2Error''),
     (E_BANNER_RECV, ''BannerRecvError''),
     (E_BANNER_SEND, ''BannerSendError''),
     (E_INVALID_MAC, ''InvalidMACError''),
     (E_KEX_FAILURE, ''KexFailureError''),
     (E_ALLOC, ''AllocError''),
     (E_SOCKET_SEND, ''SocketSendError''),
     (E_KEY_EXCHANGE_FAILURE, ''KeyExchangeError''),
     (E_TIMEOUT, ''Timeout''),
     (E_HOSTKEY_INIT, ''HostkeyInitError''),
     (E_HOSTKEY_SIGN, ''HostkeySignError''),
     (E_DECRYPT, ''DecryptError''),
     (E_SOCKET_DISCONNECT, ''SocketDisconnectError''),
     (E_PROTO, ''ProtocolError''),
     (E_PASSWORD_EXPIRED, ''PasswordExpiredError''),
     (E_FILE, ''FileError''),
     (E_METHOD_NONE, ''MethodNoneError''),
     (E_AUTHENTICATION_FAILED, ''AuthenticationError''),
     (E_PUBLICKEY_UNVERIFIED, ''PublickeyUnverifiedError''),
     (E_CHANNEL_OUTOFORDER, ''ChannelOutOfOrderError''),
     (E_CHANNEL_FAILURE, ''ChannelFailure''),
     (E_CHANNEL_REQUEST_DENIED, ''ChannelRequestDenied''),
     (E_CHANNEL_UNKNOWN, ''ChannelUnknownError''),
     (E_CHANNEL_WINDOW_EXCEEDED, ''ChannelWindowExceeded''),
     (E_CHANNEL_PACKET_EXCEEDED, ''ChannelPacketExceeded''),
     (E_CHANNEL_CLOSED, ''ChannelClosedError''),
     (E_CHANNEL_EOF_SENT, ''ChannelEOFSentError''),
     (E_SCP_PROTOCOL, ''SCPProtocolError''),
     (E_ZLIB, ''ZlibError''),
     (E_SOCKET_TIMEOUT, ''SocketTimeout''),
     (E_SFTP_PROTOCOL, ''SFTPProtocolError''),
     (E_REQUEST_DENIED, ''RequestDeniedError''),
     (E_METHOD_NOT_SUPPORTED, ''MethodNotSupported''),
     (E_INVAL, ''InvalidRequestError''),
     (E_INVALID_POLL_TYPE, ''InvalidPollTypeError''),
     (E_PUBLICKEY_PROTOCOL, ''PublicKeyProtocolError''),
     (E_BUFFER_TOO_SMALL, ''BufferTooSmallError''),
     (E_BAD_USE, ''BadUseError''),
     (E_COMPRESS, ''CompressError''),
     (E_OUT_OF_BOUNDARY, ''OutOfBoundaryError''),
     (E_AGENT_PROTOCOL, ''AgentProtocolError''),
     (E_SOCKET_RECV, ''SocketRecvError''),
     (E_ENCRYPT, ''EncryptError''),
     (E_BAD_SOCKET, ''BadSocketError''),
     (E_KNOWN_HOSTS, ''KnownHostError''),
     (E_CHANNEL_WINDOW_FULL, ''ChannelWindowFullError''),
     (E_KEYFILE_AUTH_FAILED, ''KeyfileAuthFailedError''),
     (E_RANDGEN, ''RandGenError''),
     (E_MISSING_USERAUTH_BANNER, ''MissingUserAuthBannerError''),
     (E_ALGO_UNSUPPORTED, ''AlgoUnsupportedError''),
     (E_MAC_FAILURE, ''MacFailureError''),
     (E_HASH_INIT, ''HashInitError''),
     (E_HASH_CALC, ''HashCalcError'')]"

text \<open>\<open>Inl\<close> is a raised exception, \<open>Inr\<close> the returned value.\<close>

definition handle_error_codes :: "int \<Rightarrow> string + int" where
  "handle_error_codes code =
     (if code = 0 then Inr 0
      else if code = E_EAGAIN then Inr code
      else case map_of exception_table code of
             Some x \<Rightarrow> Inl x
           | None \<Rightarrow> if code < 0 then Inl ''UnknownError'' else Inr code)"

section \<open>Properties\<close>

lemma exception_table_negative: "map_of exception_table c = Some x \<Longrightarrow> c < 0"
proof -
  assume "map_of exception_table c = Some x"
  then have "(c, x) \<in> set exception_table" by (rule map_of_SomeD)
  moreover have "list_all (\<lambda>(c, x). c < 0) exception_table" by code_simp
  ultimately show "c < 0" by (auto simp: list_all_iff)
qed

text \<open>
  \<open>handle_error_codes\<close> hides no failure.  It returns normally exactly on non-negative codes and on
  \<open>LIBSSH2_ERROR_EAGAIN\<close>, and then returns the code itself; every other code the header defines raises an
  exception of its own, different from those of all other codes and from the fallback
  \<open>UnknownError\<close>.
\<close>

theorem handle_error_codes_complete:
  "((\<exists>r. handle_error_codes c = Inr r) \<longleftrightarrow> 0 \<le> c \<or> c = E_EAGAIN) \<and>
   (handle_error_codes c = Inr r \<longrightarrow> r = c) \<and>
   list_all (\<lambda>e. e = E_EAGAIN \<or> (\<exists>x. handle_error_codes e = Inl x \<and> x \<noteq> ''UnknownError'')) error_codes \<and>
   distinct (map handle_error_codes error_codes)"
proof (intro conjI)
  show "(\<exists>r. handle_error_codes c = Inr r) \<longleftrightarrow> 0 \<le> c \<or> c = E_EAGAIN"
    by (auto simp: handle_error_codes_def split: option.splits dest: exception_table_negative)
  show "handle_error_codes c = Inr r \<longrightarrow> r = c"
    by (auto simp: handle_error_codes_def split: option.splits if_splits)
  have "list_all (\<lambda>e. case handle_error_codes e of Inl x \<Rightarrow> x \<noteq> ''UnknownError'' | Inr _ \<Rightarrow> e = E_EAGAIN) error_codes"
    by code_simp
  then show "list_all (\<lambda>e. e = E_EAGAIN \<or> (\<exists>x. handle_error_codes e = Inl x \<and> x \<noteq> ''UnknownError'')) error_codes"
    by (rule list.pred_mono_strong) (auto split: sum.splits)
  show "distinct (map handle_error_codes error_codes)"
    by code_simp
qed

theorem handle_error_codes_complete_witness:
  "handle_error_codes E_TIMEOUT = Inl ''Timeout'' \<and> handle_error_codes E_EAGAIN = Inr E_EAGAIN \<and>
   handle_error_codes (- 99) = Inl ''UnknownError'' \<and> (\<exists>r. handle_error_codes 5 = Inr r)"
  using handle_error_codes_complete [of 5 5] by (simp add: handle_error_codes_def exception_table_def)

end
