(* ===== verification/Base64.thy ===== *)
theory Base64
  imports Wire Errors
begin

text \<open>
  The base64 codec of \<^verbatim>\<open>libssh2/src/misc.c\<close>: \<open>_libssh2_base64_encode\<close> and \<open>_libssh2_base64_decode\<close>, with the
  blocks they allocate and every byte they write into them.  A write outside its block is the outer
  \<open>None\<close>.  The encoder is shown to stay inside its block for every input and the decoder to undo it;
  the inputs on which the decoder leaves its block are characterised exactly.
\<close>

section \<open>Tables\<close>

definition base64_reverse_table :: "int list" where
  "base64_reverse_table =
    [-1, -1, -1, -1, -1, -1, -1, -1, -1, -1, -1, -1, -1, -1, -1, -1,
     -1, -1, -1, -1, -1, -1, -1, -1, -1, -1, -1, -1, -1, -1, -1, -1,
     -1, -1, -1, -1, -1, -1, -1, -1, -1, -1, -1, 62, -1, -1, -1, 63,
     52, 53, 54, 55, 56, 57, 58, 59, 60, 61, -1, -1, -1, -1, -1, -1,
     -1, 0, 1, 2, 3, 4, 5, 6, 7, 8, 9, 10, 11, 12, 13, 14,
     15, 16, 17, 18, 19, 20, 21, 22, 23, 24, 25, -1, -1, -1, -1, -1,
     -1, 26, 27, 28, 29, 30, 31, 32, 33, 34, 35, 36, 37, 38, 39, 40,
     41, 42, 43, 44, 45, 46, 47, 48, 49, 50, 51, -1, -1, -1, -1, -1,
     -1, -1, -1, -1, -1, -1, -1, -1, -1, -1, -1, -1, -1, -1, -1, -1,
     -1, -1, -1, -1, -1, -1, -1, -1, -1, -1, -1, -1, -1, -1, -1, -1,
     -1, -1, -1, -1, -1, -1, -1, -1, -1, -1, -1, -1, -1, -1, -1, -1,
     -1, -1, -1, -1, -1, -1, -1, -1, -1, -1, -1, -1, -1, -1, -1, -1,
     -1, -1, -1, -1, -1, -1, -1, -1, -1, -1, -1, -1, -1, -1, -1, -1,
     -1, -1, -1, -1, -1, -1, -1, -1, -1, -1, -1, -1, -1, -1, -1, -1,
     -1, -1, -1, -1, -1, -1, -1, -1, -1, -1, -1, -1, -1, -1, -1, -1,
     -1, -1, -1, -1, -1, -1, -1, -1, -1, -1, -1, -1, -1, -1, -1, -1]"

definition table64 :: bytes where
  "table64 = str ''ABCDEFGHIJKLMNOPQRSTUVWXYZabcdefghijklmnopqrstuvwxyz0123456789+/''"

section \<open>Decoding\<close>

text \<open>
  The loop's variables: the block \<open>d\<close>, the number \<open>i\<close> of base64 characters seen and the index \<open>len\<close> of the
  byte being assembled.  The block's initial contents are never read: each byte is stored with \<open>=\<close>
  before it is completed with \<open>|=\<close>.
\<close>

record dec_state =
  dc_d :: bytes
  dc_i :: nat
  dc_len :: nat

definition dec_set :: "byte \<Rightarrow> dec_state \<Rightarrow> dec_state option" where
  "dec_set x st = map_option (\<lambda>m. st\<lparr>dc_d := m\<rparr>) (poke (dc_len st) [x] (dc_d st))"

definition dec_or_next :: "byte \<Rightarrow> dec_state \<Rightarrow> dec_state option" where
  "dec_or_next x st =
     map_option (\<lambda>m. st\<lparr>dc_d := m, dc_len := dc_len st + 1\<rparr>)
       (poke (dc_len st) [dc_d st ! dc_len st OR x] (dc_d st))"

definition dec_value :: "byte \<Rightarrow> dec_state \<Rightarrow> dec_state option" where
  "dec_value v st =
     map_option (\<lambda>s. s\<lparr>dc_i := dc_i s + 1\<rparr>)
       (if dc_i st mod 4 = 0 then dec_set (push_bit 2 v) st
        else if dc_i st mod 4 = 1 then
          Option.bind (dec_or_next (drop_bit 4 v) st) (dec_set (push_bit 4 v))
        else if dc_i st mod 4 = 2 then
          Option.bind (dec_or_next (drop_bit 2 v) st) (dec_set (push_bit 6 v))
        else dec_or_next v st)"

fun dec_loop :: "bytes \<Rightarrow> dec_state \<Rightarrow> dec_state option" where
  "dec_loop [] st = Some st"
| "dec_loop (c # s) st =
     (let v = base64_reverse_table ! unat c in
      if v < 0 then dec_loop s st
      else Option.bind (dec_value (word_of_int v) st) (dec_loop s))"

definition base64_decode :: "bool \<Rightarrow> bytes \<Rightarrow> bytes result option" where
  "base64_decode alloc_ok src =
     (if \<not> alloc_ok then Some (Inl E_ALLOC)
      else
        case dec_loop src \<lparr>dc_d = replicate (length src div 4 * 3 + 1) 0, dc_i = 0, dc_len = 0\<rparr> of
          None \<Rightarrow> None
        | Some st \<Rightarrow>
            if dc_i st mod 4 = 1 then Some (Inl E_INVAL)
            else Some (Inr (take (dc_len st) (dc_d st))))"

section \<open>Encoding\<close>

definition enc_group :: "byte \<Rightarrow> byte \<Rightarrow> byte \<Rightarrow> nat \<Rightarrow> bytes" where
  "enc_group ibuf0 ibuf1 ibuf2 inputparts =
     (let obuf0 = drop_bit 2 (ibuf0 AND 0xFC);
          obuf1 = push_bit 4 (ibuf0 AND 0x03) OR drop_bit 4 (ibuf1 AND 0xF0);
          obuf2 = push_bit 2 (ibuf1 AND 0x0F) OR drop_bit 6 (ibuf2 AND 0xC0);
          obuf3 = ibuf2 AND 0x3F;
          t = (\<lambda>o'. table64 ! unat o') in
      if inputparts = 1 then [t obuf0, t obuf1] @ str ''==''
      else if inputparts = 2 then [t obuf0, t obuf1, t obuf2] @ str ''=''
      else [t obuf0, t obuf1, t obuf2, t obuf3])"

fun enc_loop :: "bytes \<Rightarrow> wbuf \<Rightarrow> wbuf option" where
  "enc_loop [] w = Some w"
| "enc_loop [a] w = put_bytes (enc_group a 0 0 1) w"
| "enc_loop [a, b] w = put_bytes (enc_group a b 0 2) w"
| "enc_loop (a # b # c # rest) w = Option.bind (put_bytes (enc_group a b c 3) w) (enc_loop rest)"

text \<open>
  \<open>inp\<close> is the memory at the input pointer.  A zero \<open>insize\<close> asks for the string up to its terminator.
  \<open>Some None\<close> is a failed allocation; otherwise the result is the text, whose length is the C return
  value.
\<close>

definition base64_encode :: "bool \<Rightarrow> bytes \<Rightarrow> nat \<Rightarrow> bytes option option" where
  "base64_encode alloc_ok inp insize =
     (let indata = (if insize = 0 then c_str inp else take insize inp);
          n = length indata in
      if \<not> alloc_ok then Some None
      else
        case Option.bind (enc_loop indata (wb_new (n * 4 div 3 + 4))) (put_bytes [0]) of
          None \<Rightarrow> None
        | Some w \<Rightarrow> Some (Some (c_str (wb_mem w))))"

section \<open>Encoder\<close>

text \<open>The text itself, as a function on lists.\<close>

fun base64_text :: "bytes \<Rightarrow> bytes" where
  "base64_text [] = []"
| "base64_text [a] = enc_group a 0 0 1"
| "base64_text [a, b] = enc_group a b 0 2"
| "base64_text (a # b # c # rest) = enc_group a b c 3 @ base64_text rest"

lemma length_enc_group [simp]: "length (enc_group a b c n) = 4"
  by (simp add: enc_group_def Let_def)

lemma length_base64_text: "length (base64_text bs) = (length bs + 2) div 3 * 4"
proof (induction bs rule: base64_text.induct)
  case (4 a b c rest)
  have "(length rest + 2 + 3) div 3 = (length rest + 2) div 3 + 1"
    by (rule div_add_self2) simp
  with 4 show ?case by simp
qed simp_all

lemma appends_enc_loop: "appends (enc_loop bs) (base64_text bs)"
proof (induction bs rule: base64_text.induct)
  case 1
  then show ?case using appends_Some by (simp add: appends_def)
next
  case (2 a)
  then show ?case using appends_put_bytes by (simp add: enc_loop.simps [abs_def])
next
  case (3 a b)
  then show ?case using appends_put_bytes by (simp add: enc_loop.simps [abs_def])
next
  case (4 a b c rest)
  then show ?case
    using appends_bind [OF appends_put_bytes 4] by simp
qed

lemma base64_fits: "(n + 2) div 3 * 4 + 1 \<le> n * 4 div 3 + (4 :: nat)"
  by presburger

lemma table64_nonzero: "x < 64 \<Longrightarrow> table64 ! x \<noteq> 0"
proof -
  have "list_all (\<lambda>x. table64 ! x \<noteq> 0) [0..<64]"
    by code_simp
  then show "x < 64 \<Longrightarrow> table64 ! x \<noteq> 0"
    by (simp add: list_all_iff)
qed

definition sextets :: "byte \<Rightarrow> byte \<Rightarrow> byte \<Rightarrow> byte list" where
  "sextets a b c =
     [drop_bit 2 (a AND 0xFC), push_bit 4 (a AND 0x03) OR drop_bit 4 (b AND 0xF0),
      push_bit 2 (b AND 0x0F) OR drop_bit 6 (c AND 0xC0), c AND 0x3F]"

lemma enc_group_sextets:
  "enc_group a b c 1 = map (\<lambda>x. table64 ! unat x) (take 2 (sextets a b c)) @ str ''==''"
  "enc_group a b c 2 = map (\<lambda>x. table64 ! unat x) (take 3 (sextets a b c)) @ str ''=''"
  "enc_group a b c 3 = map (\<lambda>x. table64 ! unat x) (sextets a b c)"
  by (simp_all add: enc_group_def sextets_def Let_def)

lemma small_byte: "(\<And>n. 6 \<le> n \<Longrightarrow> n < 8 \<Longrightarrow> \<not> bit (x :: byte) n) \<Longrightarrow> unat x < 64"
proof -
  assume "\<And>n. 6 \<le> n \<Longrightarrow> n < 8 \<Longrightarrow> \<not> bit (x :: byte) n"
  then have "take_bit 6 x = x"
    by (intro bit_word_eqI) (force simp: bit_simps simp flip: not_less)
  then have "unat x = unat (take_bit 6 x)" by simp
  also have "\<dots> = take_bit 6 (unat x)" by (simp add: unsigned_take_bit_eq)
  also have "\<dots> < 2 ^ 6" by (rule take_bit_nat_less_exp)
  finally show "unat x < 64" by simp
qed

lemma nat67: "6 \<le> n \<Longrightarrow> n < 8 \<Longrightarrow> n = 6 \<or> n = (7 :: nat)"
  by auto

lemma sextets_small: "x \<in> set (sextets a b c) \<Longrightarrow> unat x < 64"
  unfolding sextets_def
  by (rule small_byte) (auto simp: bit_simps dest!: nat67)


text \<open>What a list of sextets decodes to; a lone trailing sextet contributes nothing.\<close>

fun sextets_bytes :: "byte list \<Rightarrow> bytes" where
  "sextets_bytes (a # b # c # d # rest) =
     (push_bit 2 a OR drop_bit 4 b) # (push_bit 4 b OR drop_bit 2 c) # (push_bit 6 c OR d) #
     sextets_bytes rest"
| "sextets_bytes [a, b, c] = [push_bit 2 a OR drop_bit 4 b, push_bit 4 b OR drop_bit 2 c]"
| "sextets_bytes [a, b] = [push_bit 2 a OR drop_bit 4 b]"
| "sextets_bytes [a] = []"
| "sextets_bytes [] = []"

lemma byte_eqI: "(\<And>n. n \<in> {0, 1, 2, 3, 4, 5, 6, 7} \<Longrightarrow> bit a n = bit (b :: byte) n) \<Longrightarrow> a = b"
proof (rule bit_word_eqI)
  fix n assume "\<And>n. n \<in> {0, 1, 2, 3, 4, 5, 6, 7} \<Longrightarrow> bit a n = bit b n" "n < LENGTH(8)"
  moreover from \<open>n < LENGTH(8)\<close> have "n \<in> {0, 1, 2, 3, 4, 5, 6, 7}" by auto
  ultimately show "bit a n = bit b n" by blast
qed

lemma sextets_join:
  fixes a b c :: byte
  shows "push_bit 2 (drop_bit 2 (a AND 0xFC)) OR
      drop_bit 4 (push_bit 4 (a AND 0x03) OR drop_bit 4 (b AND 0xF0)) = a"
    and "push_bit 4 (push_bit 4 (a AND 0x03) OR drop_bit 4 (b AND 0xF0)) OR
      drop_bit 2 (push_bit 2 (b AND 0x0F) OR drop_bit 6 (c AND 0xC0)) = b"
    and "push_bit 6 (push_bit 2 (b AND 0x0F) OR drop_bit 6 (c AND 0xC0)) OR (c AND 0x3F) = c"
  by (rule byte_eqI; auto simp: bit_simps; simp add: numeral_2_eq_2 numeral_3_eq_3)+

lemma sextets_bytes_sextets:
  "sextets_bytes (sextets a b c @ rest) = a # b # c # sextets_bytes rest"
  "sextets_bytes (take 3 (sextets a b c)) = [a, b]"
  "sextets_bytes (take 2 (sextets a b c)) = [a]"
proof -
  have "take 3 [w, x, y, z] = [w, x, y]" "take 2 [w, x, y, z] = [w, x]" for w x y z :: byte
    by simp_all
  then show "sextets_bytes (take 3 (sextets a b c)) = [a, b]"
    "sextets_bytes (take 2 (sextets a b c)) = [a]"
    by (simp_all only: sextets_def sextets_bytes.simps sextets_join)
qed (simp only: sextets_def append.simps sextets_bytes.simps sextets_join)

section \<open>Decoder\<close>

text \<open>The values of the characters the decoder does not skip.\<close>

definition values64 :: "bytes \<Rightarrow> byte list" where
  "values64 src =
     map word_of_int (filter (\<lambda>v. 0 \<le> v) (map (\<lambda>c. base64_reverse_table ! unat c) src))"

fun dec_run :: "byte list \<Rightarrow> dec_state \<Rightarrow> dec_state option" where
  "dec_run [] st = Some st"
| "dec_run (v # vs) st = Option.bind (dec_value v st) (dec_run vs)"

lemma dec_loop_run: "dec_loop src st = dec_run (values64 src) st"
  by (induction src st rule: dec_loop.induct) (auto simp: values64_def Let_def intro: Option.bind_cong)

lemma values64_append: "values64 (a @ b) = values64 a @ values64 b"
  by (simp add: values64_def)

lemma length_values64: "length (values64 src) \<le> length src"
  by (simp add: values64_def order_trans [OF length_filter_le])

lemma poke1: "poke n [x] m = (if n < length m then Some (m[n := x]) else None)"
  by (auto simp: poke_def upd_conv_take_nth_drop)

lemma take_upd3:
  assumes "n + 2 < length xs"
  shows "take (n + 3) (xs[n := a, n + 1 := b, n + 2 := c]) = take n xs @ [a, b, c]"
proof -
  have "take (n + 3) (xs[n := a, n + 1 := b, n + 2 := c]) =
      take n (xs[n := a, n + 1 := b, n + 2 := c]) @ take 3 (drop n (xs[n := a, n + 1 := b, n + 2 := c]))"
    by (rule take_add)
  also have "take 3 (drop n (xs[n := a, n + 1 := b, n + 2 := c])) = [a, b, c]"
    using assms by (intro nth_equalityI) (auto simp: nth_list_update numeral_eq_Suc less_Suc_eq nth_Cons')
  finally show ?thesis by simp
qed

text \<open>Bytes of the block that \<open>n\<close> values need.\<close>

definition dec_need :: "nat \<Rightarrow> nat" where
  "dec_need n = 3 * (n div 4) + n mod 4"

lemma dec_need_simps [simp]:
  "dec_need 0 = 0" "dec_need 1 = 1" "dec_need 2 = 2" "dec_need 3 = 3" "dec_need (n + 4) = dec_need n + 3"
  by (simp_all add: dec_need_def div_add_self2)

lemma dec_need_Suc [simp]:
  "dec_need (Suc 0) = 1" "dec_need (Suc (Suc 0)) = 2" "dec_need (Suc (Suc (Suc 0))) = 3"
  by (simp_all add: dec_need_def)

lemma take_upd2:
  assumes "Suc n < length xs"
  shows "take (Suc (Suc n)) (xs[n := a, Suc n := b]) = take n xs @ [a, b]"
  using assms by (simp add: take_Suc_conv_app_nth)

lemma dec_value_0:
  "dc_i st mod 4 = 0 \<Longrightarrow> dec_value v st =
    (if dc_len st < length (dc_d st)
     then Some (st\<lparr>dc_d := (dc_d st)[dc_len st := push_bit 2 v], dc_i := dc_i st + 1\<rparr>)
     else None)"
  by (simp only: dec_value_def dec_set_def poke1 if_True) simp

lemma dec_value_1:
  "dc_i st mod 4 = 1 \<Longrightarrow> dec_value v st =
    (if dc_len st + 1 < length (dc_d st)
     then Some (st\<lparr>dc_d := (dc_d st)[dc_len st := dc_d st ! dc_len st OR drop_bit 4 v,
                                 dc_len st + 1 := push_bit 4 v],
                   dc_i := dc_i st + 1, dc_len := dc_len st + 1\<rparr>)
     else None)"
  by (simp add: dec_value_def dec_set_def dec_or_next_def poke1 Let_def)

lemma dec_value_2:
  "dc_i st mod 4 = 2 \<Longrightarrow> dec_value v st =
    (if dc_len st + 1 < length (dc_d st)
     then Some (st\<lparr>dc_d := (dc_d st)[dc_len st := dc_d st ! dc_len st OR drop_bit 2 v,
                                 dc_len st + 1 := push_bit 6 v],
                   dc_i := dc_i st + 1, dc_len := dc_len st + 1\<rparr>)
     else None)"
  by (simp add: dec_value_def dec_set_def dec_or_next_def poke1 Let_def)

lemma dec_value_3:
  "dc_i st mod 4 = 3 \<Longrightarrow> dec_value v st =
    (if dc_len st < length (dc_d st)
     then Some (st\<lparr>dc_d := (dc_d st)[dc_len st := dc_d st ! dc_len st OR v],
                   dc_i := dc_i st + 1, dc_len := dc_len st + 1\<rparr>)
     else None)"
  by (simp add: dec_value_def dec_or_next_def poke1)

lemma dec_run_2:
  assumes "dc_i st mod 4 = 0"
  shows "dec_run (a # b # vs) st =
    (if dc_len st + 1 < length (dc_d st)
     then dec_run vs
       (st\<lparr>dc_d := (dc_d st)[dc_len st := push_bit 2 a OR drop_bit 4 b, dc_len st + 1 := push_bit 4 b],
           dc_i := dc_i st + 2, dc_len := dc_len st + 1\<rparr>)
     else None)"
proof -
  have "(dc_i st + 1) mod 4 = 1"
    using assms by presburger
  with assms show ?thesis
    by (simp add: dec_value_0 dec_value_1 list_update_swap)
qed

lemma nat_plus_34: "n + 3 = Suc (Suc (Suc n))" "n + 4 = Suc (Suc (Suc (Suc n)))" "4 + n = Suc (Suc (Suc (Suc n)))"
  by simp_all

lemma dec_run_3:
  assumes "dc_i st mod 4 = 0"
  shows "dec_run (a # b # c # vs) st =
    (if dc_len st + 2 < length (dc_d st)
     then dec_run vs
       (st\<lparr>dc_d := (dc_d st)[dc_len st := push_bit 2 a OR drop_bit 4 b,
                          dc_len st + 1 := push_bit 4 b OR drop_bit 2 c,
                          dc_len st + 2 := push_bit 6 c],
           dc_i := dc_i st + 3, dc_len := dc_len st + 2\<rparr>)
     else None)"
proof -
  have "(dc_i st + 2) mod 4 = 2"
    using assms by presburger
  then show ?thesis
    unfolding dec_run_2 [OF assms] by (simp add: dec_value_2 nat_plus_34)
qed

lemma dec_run_4:
  assumes "dc_i st mod 4 = 0"
  shows "dec_run (a # b # c # d # vs) st =
    (if dc_len st + 2 < length (dc_d st)
     then dec_run vs
       (st\<lparr>dc_d := (dc_d st)[dc_len st := push_bit 2 a OR drop_bit 4 b,
                          dc_len st + 1 := push_bit 4 b OR drop_bit 2 c,
                          dc_len st + 2 := push_bit 6 c OR d],
           dc_i := dc_i st + 4, dc_len := dc_len st + 3\<rparr>)
     else None)"
proof -
  have "(dc_i st + 3) mod 4 = 3"
    using assms by presburger
  then show ?thesis
    unfolding dec_run_3 [OF assms] by (simp add: dec_value_3 nat_plus_34)
qed

lemma dec_run_spec:
  assumes "dc_i st mod 4 = 0" "dc_len st \<le> length (dc_d st)"
  shows "if dc_len st + dec_need (length vs) \<le> length (dc_d st)
    then \<exists>st'. dec_run vs st = Some st' \<and> dc_i st' = dc_i st + length vs \<and>
      dc_len st' = dc_len st + length (sextets_bytes vs) \<and>
      take (dc_len st') (dc_d st') = take (dc_len st) (dc_d st) @ sextets_bytes vs
    else dec_run vs st = None"
  using assms
proof (induction vs arbitrary: st rule: sextets_bytes.induct)
  case (1 a b c d vs)
  define st1 where "st1 = st\<lparr>dc_d := (dc_d st)[dc_len st := push_bit 2 a OR drop_bit 4 b,
      dc_len st + 1 := push_bit 4 b OR drop_bit 2 c, dc_len st + 2 := push_bit 6 c OR d],
    dc_i := dc_i st + 4, dc_len := dc_len st + 3\<rparr>"
  have run: "dec_run (a # b # c # d # vs) st = (if dc_len st + 2 < length (dc_d st) then dec_run vs st1 else None)"
    unfolding dec_run_4 [OF 1(2)] st1_def by simp
  have i1: "dc_i st1 mod 4 = 0" and l1: "length (dc_d st1) = length (dc_d st)" "dc_len st1 = dc_len st + 3"
    using 1(2) by (simp_all add: st1_def)
  have n: "dec_need (length (a # b # c # d # vs)) = dec_need (length vs) + 3"
    using dec_need_simps(5) [of "length vs"] by (simp add: nat_plus_34 del: dec_need_simps)
  show ?case
  proof (cases "dc_len st + 2 < length (dc_d st)")
    case False
    then show ?thesis using run n by simp
  next
    case True
    have "take (dc_len st + 3) (dc_d st1) = take (dc_len st) (dc_d st) @
        [push_bit 2 a OR drop_bit 4 b, push_bit 4 b OR drop_bit 2 c, push_bit 6 c OR d]"
      using take_upd3 [OF True] by (simp add: st1_def)
    moreover have "dc_len st1 \<le> length (dc_d st1)"
      using True by (simp add: l1)
    ultimately show ?thesis
      using 1(1) [OF i1]
      using True by (simp only: run n l1 if_True) (auto simp: st1_def)
  qed
next
  case (2 a b c)
  then show ?case
    by (auto simp: dec_run_3 take_upd2 simp del: dec_run.simps(2))
next
  case (3 a b)
  then show ?case
    by (auto simp: dec_run_2 take_Suc_conv_app_nth simp del: dec_run.simps(2))
next
  case (4 a)
  then show ?case by (auto simp: dec_value_0)
next
  case 5
  then show ?case by simp
qed


lemma dec_need_fits:
  assumes "n \<le> L"
  shows "dec_need n \<le> L div 4 * 3 + 1 \<longleftrightarrow> \<not> (2 \<le> n mod 4 \<and> n div 4 = L div 4)"
proof (cases "n div 4 = L div 4")
  case True
  then show ?thesis by (auto simp: dec_need_def)
next
  case False
  with assms have "n div 4 < L div 4"
    using div_le_mono [OF assms, of 4] by simp
  then have "3 * (n div 4) + 3 \<le> L div 4 * 3" by simp
  moreover have "n mod 4 \<le> 3" by simp
  ultimately show ?thesis using False by (simp add: dec_need_def)
qed

lemma base64_decode_eq:
  "base64_decode True src =
    (let n = length (values64 src) in
     if 2 \<le> n mod 4 \<and> n div 4 = length src div 4 then None
     else if n mod 4 = 1 then Some (Inl E_INVAL)
     else Some (Inr (sextets_bytes (values64 src))))"
proof -
  define st where "st = \<lparr>dc_d = replicate (length src div 4 * 3 + 1) (0 :: byte), dc_i = 0, dc_len = 0\<rparr>"
  have fits: "dc_len st + dec_need (length (values64 src)) \<le> length (dc_d st) \<longleftrightarrow>
      \<not> (2 \<le> length (values64 src) mod 4 \<and> length (values64 src) div 4 = length src div 4)"
    using dec_need_fits [OF length_values64, of src] by (simp add: st_def)
  have "dc_i st mod 4 = 0" "dc_len st \<le> length (dc_d st)" by (simp_all add: st_def)
  from dec_run_spec [OF this, of "values64 src"] show ?thesis
    unfolding base64_decode_def dec_loop_run st_def [symmetric]
    by (simp only: fits not_True_eq_False if_False Let_def split: if_splits)
      (auto simp: st_def split: if_splits)
qed

section \<open>Round trip\<close>

lemma table64_reverse: "x < 64 \<Longrightarrow> base64_reverse_table ! unat (table64 ! x) = int x"
proof -
  have "list_all (\<lambda>x. base64_reverse_table ! unat (table64 ! x) = int x) [0..<64]"
    by code_simp
  then show "x < 64 \<Longrightarrow> base64_reverse_table ! unat (table64 ! x) = int x"
    by (simp add: list_all_iff)
qed

lemma values64_table:
  "\<forall>x \<in> set xs. unat x < 64 \<Longrightarrow> values64 (map (\<lambda>x. table64 ! unat x) xs) = xs"
  by (induction xs) (simp_all add: values64_def table64_reverse)

lemma values64_pad: "values64 (str ''='') = []" "values64 (str ''=='') = []"
  by code_simp+

lemma values64_enc_group:
  "values64 (enc_group a b c 1) = take 2 (sextets a b c)"
  "values64 (enc_group a b c 2) = take 3 (sextets a b c)"
  "values64 (enc_group a b c 3) = sextets a b c"
  unfolding enc_group_sextets values64_append values64_pad
  by (subst values64_table; force dest: in_set_takeD sextets_small)+

lemma length_sextets [simp]: "length (sextets a b c) = 4"
  by (simp add: sextets_def)

lemma sextets_bytes_text: "sextets_bytes (values64 (base64_text bs)) = bs"
  by (induction bs rule: base64_text.induct)
    (simp_all only: base64_text.simps values64_append values64_enc_group sextets_bytes_sextets,
     simp add: values64_def)

lemma values_text_whole:
  "length (values64 (base64_text bs)) mod 4 \<noteq> 1 \<and>
   \<not> (2 \<le> length (values64 (base64_text bs)) mod 4 \<and>
      length (values64 (base64_text bs)) div 4 = length (base64_text bs) div 4)"
proof (induction bs rule: base64_text.induct)
  case (4 a b c rest)
  have "length (values64 (base64_text (a # b # c # rest))) = length (values64 (base64_text rest)) + 4"
    "length (base64_text (a # b # c # rest)) = length (base64_text rest) + 4"
    by (simp_all only: base64_text.simps values64_append values64_enc_group(3) length_append
        length_enc_group length_sextets add.commute)
  then show ?case
    using 4 by (simp only: mod_add_self2) (simp add: div_add_self2)
next
  case 1
  then show ?case by (simp add: values64_def)
next
  case (2 a)
  then show ?case by (simp add: values64_enc_group(1) [simplified])
next
  case (3 a b)
  then show ?case by (simp add: values64_enc_group)
qed

lemma base64_decode_text: "base64_decode True (base64_text bs) = Some (Inr bs)"
  using values_text_whole [of bs] by (auto simp: base64_decode_eq sextets_bytes_text Let_def)

lemma enc_group_nonzero: "n \<in> {1, 2, 3} \<Longrightarrow> 0 \<notin> set (enc_group a b c n)"
proof -
  have t: "x \<in> set (sextets a b c) \<Longrightarrow> 0 \<noteq> table64 ! unat x" for x
    using table64_nonzero [OF sextets_small] by metis
  have "(0 :: byte) \<notin> set (str ''='')" "(0 :: byte) \<notin> set (str ''=='')"
    by code_simp+
  then show "n \<in> {1, 2, 3} \<Longrightarrow> 0 \<notin> set (enc_group a b c n)"
    using t by (auto simp: enc_group_sextets simp flip: One_nat_def dest!: in_set_takeD)
qed

lemma base64_text_nonzero: "0 \<notin> set (base64_text bs)"
  by (induction bs rule: base64_text.induct) (simp_all add: enc_group_nonzero enc_group_nonzero [simplified])

lemma base64_encode_eq:
  "base64_encode True inp n = Some (Some (base64_text (if n = 0 then c_str inp else take n inp)))"
proof -
  define bs where "bs = (if n = 0 then c_str inp else take n inp)"
  define w0 where "w0 = wb_new (length bs * 4 div 3 + 4)"
  have "appends (\<lambda>w. Option.bind (enc_loop bs w) (put_bytes [0])) (base64_text bs @ [0])"
    by (rule appends_bind [OF appends_enc_loop appends_put_bytes])
  moreover have "length (base64_text bs @ [0 :: byte]) \<le> room w0"
    using base64_fits [of "length bs"] by (simp add: w0_def length_base64_text)
  ultimately obtain w' where w': "Option.bind (enc_loop bs w0) (put_bytes [0]) = Some w'"
      "written w' = base64_text bs @ [0]"
    using appendsD [of "\<lambda>w. Option.bind (enc_loop bs w) (put_bytes [0])" "base64_text bs @ [0]" w0]
    by (auto simp: w0_def)
  have "wb_mem w' = base64_text bs @ 0 # drop (wb_pos w') (wb_mem w')"
    using w'(2) by (metis append_take_drop_id written_def append.assoc append_Cons append_Nil)
  then have "c_str (wb_mem w') = base64_text bs"
    by (metis base64_text_nonzero c_str_append_zero)
  with w'(1) show ?thesis
    unfolding base64_encode_def Let_def bs_def [symmetric] w0_def [symmetric] by simp
qed

section \<open>Properties\<close>

text \<open>
  \<open>_libssh2_base64_encode\<close> never writes outside the block of \<open>insize * 4 / 3 + 4\<close> bytes it allocates
  (the terminating zero included), for every input and every size, and returns the padded text.
\<close>

theorem base64_encode_safe:
  "base64_encode alloc_ok inp insize =
     Some (if alloc_ok then Some (base64_text (if insize = 0 then c_str inp else take insize inp)) else None)"
  by (cases alloc_ok) (simp_all add: base64_encode_eq, simp add: base64_encode_def Let_def)

text \<open>
  C3: \<open>_libssh2_base64_decode\<close> undoes \<open>_libssh2_base64_encode\<close>: decoding the text of a non-empty buffer
  succeeds, stays inside the decoder's block and returns the buffer.
\<close>

theorem base64_roundtrip:
  assumes "bs \<noteq> []" and "base64_encode True bs (length bs) = Some (Some text)"
  shows "base64_decode True text = Some (Inr bs)"
  using assms by (auto simp: base64_encode_eq base64_decode_text)

theorem base64_roundtrip_witness:
  "base64_encode True (str ''ssh'') 3 = Some (Some (str ''c3No'')) \<and>
   base64_decode True (str ''c3No'') = Some (Inr (str ''ssh''))"
proof -
  have e: "base64_encode True (str ''ssh'') 3 = Some (Some (str ''c3No''))"
    by code_simp
  have "str ''ssh'' \<noteq> []" "length (str ''ssh'') = 3" by (simp_all add: str_def)
  then show ?thesis using e base64_roundtrip [of "str ''ssh''" "str ''c3No''"] by metis
qed

text \<open>
  C9: exactly when \<open>_libssh2_base64_decode\<close> writes outside its block.  The block has
  \<open>(src_len / 4) * 3 + 1\<close> bytes; the decoder leaves it if and only if the number of base64 characters
  has remainder 2 or 3 modulo 4 and the source holds no further group of four characters, that is, on
  unpadded input.  In every other case the result is the decoded bytes, or \<open>LIBSSH2_ERROR_INVAL\<close> for a
  lone trailing character.
\<close>

theorem base64_decode_overflow_iff:
  "base64_decode True src =
    (let n = length (values64 src) in
     if 2 \<le> n mod 4 \<and> n div 4 = length src div 4 then None
     else if n mod 4 = 1 then Some (Inl E_INVAL)
     else Some (Inr (sextets_bytes (values64 src))))"
  by (rule base64_decode_eq)

end
