(* ===== verification/Linked_List.thy ===== *)
theory Linked_List
  imports Prelude
begin

text \<open>
  The intrusive doubly linked lists of \<^verbatim>\<open>libssh2/src/misc.c\<close> (\<open>_libssh2_list_*\<close>), which hold the known
  hosts, the channels, the packet queue and the SFTP requests of a session.  The heap is explicit:
  addresses of heads and of nodes, and the pointers stored in them.  \<open>dlist\<close> relates a heap to the list
  of node addresses it represents; every operation is shown to implement the list operation it stands
  for and to leave every other list alone.  The other theories use HOL lists for these queues on the
  strength of these refinement lemmas.
\<close>

section \<open>Heap and operations\<close>

type_synonym addr = nat

record list_node =
  nd_next :: "addr option"
  nd_prev :: "addr option"
  nd_head :: addr

record list_head =
  hd_first :: "addr option"
  hd_last :: "addr option"

record list_heap =
  heads :: "addr \<Rightarrow> list_head"
  nodes :: "addr \<Rightarrow> list_node"

definition set_node :: "addr \<Rightarrow> (list_node \<Rightarrow> list_node) \<Rightarrow> list_heap \<Rightarrow> list_heap" where
  "set_node a f s = s\<lparr>nodes := (nodes s)(a := f (nodes s a))\<rparr>"

definition set_head :: "addr \<Rightarrow> (list_head \<Rightarrow> list_head) \<Rightarrow> list_heap \<Rightarrow> list_heap" where
  "set_head h f s = s\<lparr>heads := (heads s)(h := f (heads s h))\<rparr>"

definition list_init :: "addr \<Rightarrow> list_heap \<Rightarrow> list_heap" where
  "list_init head s = set_head head (\<lambda>_. \<lparr>hd_first = None, hd_last = None\<rparr>) s"

definition list_add :: "addr \<Rightarrow> addr \<Rightarrow> list_heap \<Rightarrow> list_heap" where
  "list_add head entry s =
     (let s1 = set_node entry (\<lambda>n. n\<lparr>nd_head := head\<rparr>) s;
          s2 = set_node entry (\<lambda>n. n\<lparr>nd_next := None\<rparr>) s1;
          s3 = set_node entry (\<lambda>n. n\<lparr>nd_prev := hd_last (heads s2 head)\<rparr>) s2;
          s4 = set_head head (\<lambda>h. h\<lparr>hd_last := Some entry\<rparr>) s3 in
      case nd_prev (nodes s4 entry) of
        Some p \<Rightarrow> set_node p (\<lambda>n. n\<lparr>nd_next := Some entry\<rparr>) s4
      | None \<Rightarrow> set_head head (\<lambda>h. h\<lparr>hd_first := Some entry\<rparr>) s4)"

definition list_first :: "addr \<Rightarrow> list_heap \<Rightarrow> addr option" where
  "list_first head s = hd_first (heads s head)"

definition list_next :: "addr \<Rightarrow> list_heap \<Rightarrow> addr option" where
  "list_next node s = nd_next (nodes s node)"

definition list_prev :: "addr \<Rightarrow> list_heap \<Rightarrow> addr option" where
  "list_prev node s = nd_prev (nodes s node)"

definition list_remove :: "addr \<Rightarrow> list_heap \<Rightarrow> list_heap" where
  "list_remove entry s =
     (let e = nodes s entry;
          s1 = (case nd_prev e of
                  Some p \<Rightarrow> set_node p (\<lambda>n. n\<lparr>nd_next := nd_next e\<rparr>) s
                | None \<Rightarrow> set_head (nd_head e) (\<lambda>h. h\<lparr>hd_first := nd_next e\<rparr>) s);
          e1 = nodes s1 entry in
      case nd_next e1 of
        Some q \<Rightarrow> set_node q (\<lambda>n. n\<lparr>nd_prev := nd_prev e1\<rparr>) s1
      | None \<Rightarrow> set_head (nd_head e1) (\<lambda>h. h\<lparr>hd_last := nd_prev e1\<rparr>) s1)"

text \<open>
  The traversal every client writes: \<open>for(n = list_first(head); n; n = list_next(n))\<close>, collecting the
  nodes it visits, with fuel since the heap could hold a cycle.
\<close>

fun walk :: "nat \<Rightarrow> addr option \<Rightarrow> list_heap \<Rightarrow> addr list option" where
  "walk fuel None s = Some []"
| "walk 0 (Some a) s = None"
| "walk (Suc fuel) (Some a) s = map_option (\<lambda>xs. a # xs) (walk fuel (list_next a s) s)"

section \<open>Representation\<close>

definition hd_or :: "addr option \<Rightarrow> addr list \<Rightarrow> addr option" where
  "hd_or n xs = (case xs of [] \<Rightarrow> n | x # _ \<Rightarrow> Some x)"

definition last_or :: "addr option \<Rightarrow> addr list \<Rightarrow> addr option" where
  "last_or p xs = (if xs = [] then p else Some (last xs))"

text \<open>A chain of nodes of head \<open>h\<close> between a predecessor \<open>p\<close> and a successor \<open>n\<close>.\<close>

fun dseg :: "list_heap \<Rightarrow> addr \<Rightarrow> addr option \<Rightarrow> addr list \<Rightarrow> addr option \<Rightarrow> bool" where
  "dseg s h p [] n = True"
| "dseg s h p (x # xs) n =
     (nodes s x = \<lparr>nd_next = hd_or n xs, nd_prev = p, nd_head = h\<rparr> \<and> dseg s h (Some x) xs n)"

definition dlist :: "list_heap \<Rightarrow> addr \<Rightarrow> addr list \<Rightarrow> bool" where
  "dlist s h xs \<longleftrightarrow>
     distinct xs \<and> heads s h = \<lparr>hd_first = hd_or None xs, hd_last = last_or None xs\<rparr> \<and>
     dseg s h None xs None"

lemma hd_or_simps [simp]: "hd_or n [] = n" "hd_or n (x # xs) = Some x"
    "hd_or n (xs @ ys) = hd_or (hd_or n ys) xs"
  by (simp_all add: hd_or_def split: list.splits)

lemma last_or_simps [simp]: "last_or p [] = p" "last_or p (x # xs) = last_or (Some x) xs"
    "last_or p (xs @ ys) = last_or (last_or p xs) ys"
  by (auto simp: last_or_def)

lemma dseg_append [simp]:
  "dseg s h p (xs @ ys) n \<longleftrightarrow> dseg s h p xs (hd_or n ys) \<and> dseg s h (last_or p xs) ys n"
  by (induction xs arbitrary: p) auto

lemma dseg_cong:
  "(\<And>x. x \<in> set xs \<Longrightarrow> nodes s' x = nodes s x) \<Longrightarrow> dseg s' h p xs n = dseg s h p xs n"
  by (induction xs arbitrary: p) auto

text \<open>
  Changing the successor of the last node of a chain, or the predecessor of its first node.
\<close>

lemma dseg_relink_next:
  assumes "dseg s h p (xs @ [a]) n" "a \<notin> set xs" "nodes s' a = (nodes s a)\<lparr>nd_next := n'\<rparr>"
    "\<And>x. x \<in> set xs \<Longrightarrow> nodes s' x = nodes s x"
  shows "dseg s' h p (xs @ [a]) n'"
  using assms dseg_cong [of xs s' s h p "Some a"] by simp

lemma dseg_relink_prev:
  assumes "dseg s h p (a # xs) n" "a \<notin> set xs" "nodes s' a = (nodes s a)\<lparr>nd_prev := p'\<rparr>"
    "\<And>x. x \<in> set xs \<Longrightarrow> nodes s' x = nodes s x"
  shows "dseg s' h p' (a # xs) n"
  using assms dseg_cong [of xs s' s h "Some a" n] by simp

lemma set_node_simps [simp]:
  "heads (set_node a f s) = heads s"
  "nodes (set_node a f s) x = (if x = a then f (nodes s a) else nodes s x)"
  by (simp_all add: set_node_def)

lemma set_head_simps [simp]:
  "nodes (set_head h f s) = nodes s"
  "heads (set_head h f s) x = (if x = h then f (heads s h) else heads s x)"
  by (simp_all add: set_head_def)

section \<open>Each operation implements its list operation\<close>

lemma dlist_init: "dlist (list_init h s) h []"
  by (simp add: dlist_def list_init_def)

lemma dlist_add:
  assumes "dlist s h xs" "e \<notin> set xs"
  shows "dlist (list_add h e s) h (xs @ [e])"
proof (cases xs rule: rev_cases)
  case Nil
  with assms show ?thesis
    by (simp add: dlist_def list_add_def)
next
  case (snoc ys p)
  define s' where "s' = list_add h e s"
  have hs: "heads s h = \<lparr>hd_first = hd_or (Some p) ys, hd_last = Some p\<rparr>"
    and seg: "dseg s h None (ys @ [p]) None" and d: "p \<notin> set ys" "e \<noteq> p" "e \<notin> set ys" "distinct ys"
    using assms snoc by (auto simp: dlist_def)
  have s': "nodes s' p = (nodes s p)\<lparr>nd_next := Some e\<rparr>"
    "nodes s' e = \<lparr>nd_next = None, nd_prev = Some p, nd_head = h\<rparr>"
    "heads s' h = \<lparr>hd_first = hd_or (Some p) ys, hd_last = Some e\<rparr>"
    "\<And>x. x \<in> set ys \<Longrightarrow> nodes s' x = nodes s x"
    using hs d by (auto simp: s'_def list_add_def Let_def)
  have "dseg s' h None (ys @ [p]) (Some e)"
    using seg d(1) s'(1) s'(4) by (rule dseg_relink_next)
  with s' d snoc show ?thesis
    by (simp add: dlist_def s'_def [symmetric])
qed

lemma dlist_remove:
  assumes "dlist s h (xs @ e # ys)"
  shows "dlist (list_remove e s) h (xs @ ys)"
proof -
  define s' where "s' = list_remove e s"
  have hs: "heads s h = \<lparr>hd_first = hd_or (Some e) xs, hd_last = last_or (Some e) ys\<rparr>"
    and e: "nodes s e = \<lparr>nd_next = hd_or None ys, nd_prev = last_or None xs, nd_head = h\<rparr>"
    and xs: "dseg s h None xs (Some e)" and ys: "dseg s h (Some e) ys None"
    and d: "distinct xs" "distinct ys" "e \<notin> set xs" "e \<notin> set ys" "set xs \<inter> set ys = {}"
    using assms by (auto simp: dlist_def)
  have s': "nodes s' x =
      (if xs \<noteq> [] \<and> x = last xs then (nodes s x)\<lparr>nd_next := hd_or None ys\<rparr>
       else if ys \<noteq> [] \<and> x = hd ys then (nodes s x)\<lparr>nd_prev := last_or None xs\<rparr> else nodes s x)"
    if "x \<noteq> e" for x
    using e d that by (cases xs rule: rev_cases; cases ys) (auto simp: s'_def list_remove_def Let_def last_or_def)
  have hl: "xs \<noteq> [] \<Longrightarrow> last xs \<in> set xs" "ys \<noteq> [] \<Longrightarrow> hd ys \<in> set ys"
    by simp_all
  have xs': "nodes s' x = (if x = last xs then (nodes s x)\<lparr>nd_next := hd_or None ys\<rparr> else nodes s x)"
    if "x \<in> set xs" for x
  proof -
    have "x \<noteq> e" "xs \<noteq> []" "ys \<noteq> [] \<Longrightarrow> x \<noteq> hd ys"
      using that d hl by (auto simp: disjoint_iff)
    with s' [of x] show ?thesis by auto
  qed
  have ys': "nodes s' x = (if x = hd ys then (nodes s x)\<lparr>nd_prev := last_or None xs\<rparr> else nodes s x)"
    if "x \<in> set ys" for x
  proof -
    have "x \<noteq> e" "ys \<noteq> []" "xs \<noteq> [] \<Longrightarrow> x \<noteq> last xs"
      using that d hl by (auto simp: disjoint_iff)
    with s' [of x] show ?thesis by auto
  qed
  have h': "heads s' h = \<lparr>hd_first = hd_or None (xs @ ys), hd_last = last_or None (xs @ ys)\<rparr>"
    using hs e d by (cases xs rule: rev_cases; cases ys)
      (auto simp: s'_def list_remove_def Let_def last_or_def)
  have "dseg s' h None xs (hd_or None ys)"
  proof (cases xs rule: rev_cases)
    case (snoc zs p)
    show ?thesis unfolding snoc
      by (rule dseg_relink_next [OF xs [unfolded snoc]]) (use d xs' snoc in auto)
  qed simp
  moreover have "dseg s' h (last_or None xs) ys None"
  proof (cases ys)
    case (Cons q zs)
    show ?thesis unfolding Cons
      by (rule dseg_relink_prev [OF ys [unfolded Cons]]) (use d ys' Cons in auto)
  qed simp
  ultimately show ?thesis
    using h' d by (simp add: dlist_def s'_def [symmetric])
qed

text \<open>Frame: a list with other nodes and another head is untouched.\<close>

lemma list_add_others:
  "x \<noteq> e \<Longrightarrow> hd_last (heads s h) \<noteq> Some x \<Longrightarrow> nodes (list_add h e s) x = nodes s x"
  "k \<noteq> h \<Longrightarrow> heads (list_add h e s) k = heads s k"
  by (auto simp: list_add_def Let_def split: option.splits)

lemma list_remove_others:
  assumes "nd_prev (nodes s e) \<noteq> Some e"
  shows "nd_prev (nodes s e) \<noteq> Some x \<Longrightarrow> nd_next (nodes s e) \<noteq> Some x \<Longrightarrow>
      nodes (list_remove e s) x = nodes s x"
    and "k \<noteq> nd_head (nodes s e) \<Longrightarrow> heads (list_remove e s) k = heads s k"
  using assms by (auto simp: list_remove_def Let_def split: option.splits)

lemma dlist_frame:
  assumes "dlist s k zs" "heads s' k = heads s k" "\<And>x. x \<in> set zs \<Longrightarrow> nodes s' x = nodes s x"
  shows "dlist s' k zs"
  using assms dseg_cong [of zs s' s] by (simp add: dlist_def)

lemma last_or_in: "last_or None xs = Some x \<Longrightarrow> x \<in> set xs"
  by (auto simp: last_or_def split: if_splits)

lemma hd_or_in: "hd_or None xs = Some x \<Longrightarrow> x \<in> set xs"
  by (auto simp: hd_or_def split: list.splits)

lemma dlist_add_frame:
  assumes "dlist s h xs" "dlist s k zs" "k \<noteq> h" "set xs \<inter> set zs = {}" "e \<notin> set zs"
  shows "dlist (list_add h e s) k zs"
proof (rule dlist_frame [OF assms(2)])
  show "heads (list_add h e s) k = heads s k"
    using assms(3) by (rule list_add_others)
  fix x assume x: "x \<in> set zs"
  have "hd_last (heads s h) = last_or None xs"
    using assms(1) by (simp add: dlist_def)
  then show "nodes (list_add h e s) x = nodes s x"
    using x assms(4,5) by (intro list_add_others) (auto dest: last_or_in)
qed

lemma dlist_remove_frame:
  assumes "dlist s h (xs @ e # ys)" "dlist s k zs" "k \<noteq> h" "set (xs @ e # ys) \<inter> set zs = {}"
  shows "dlist (list_remove e s) k zs"
proof (rule dlist_frame [OF assms(2)])
  have e: "nodes s e = \<lparr>nd_next = hd_or None ys, nd_prev = last_or None xs, nd_head = h\<rparr>"
    using assms(1) by (simp add: dlist_def)
  have p: "nd_prev (nodes s e) \<noteq> Some e"
    using assms(1) e by (auto simp: dlist_def dest: last_or_in)
  show "heads (list_remove e s) k = heads s k"
    using p assms(3) e by (intro list_remove_others) auto
  fix x assume "x \<in> set zs"
  with assms(4) show "nodes (list_remove e s) x = nodes s x"
    using p e by (intro list_remove_others) (auto dest: last_or_in hd_or_in)
qed

lemma walk_dseg:
  "dseg s h p xs None \<Longrightarrow> length xs \<le> fuel \<Longrightarrow> walk fuel (hd_or None xs) s = Some xs"
proof (induction xs arbitrary: p fuel)
  case (Cons x xs)
  then show ?case by (cases fuel) (auto simp: list_next_def)
qed simp


section \<open>The interface clients use\<close>

text \<open>
  What a client of the lists relies on: a representation relation, and how creation, insertion,
  removal and traversal act on the represented list.
\<close>

locale queue_impl =
  fixes rep :: "'s \<Rightarrow> 'h \<Rightarrow> 'n list \<Rightarrow> bool"
    and init :: "'h \<Rightarrow> 's \<Rightarrow> 's"
    and add :: "'h \<Rightarrow> 'n \<Rightarrow> 's \<Rightarrow> 's"
    and remove :: "'n \<Rightarrow> 's \<Rightarrow> 's"
    and traverse :: "nat \<Rightarrow> 'h \<Rightarrow> 's \<Rightarrow> 'n list option"
  assumes rep_init: "rep (init h s) h []"
    and rep_add: "rep s h xs \<Longrightarrow> x \<notin> set xs \<Longrightarrow> rep (add h x s) h (xs @ [x])"
    and rep_remove: "rep s h (xs @ x # ys) \<Longrightarrow> rep (remove x s) h (xs @ ys)"
    and rep_distinct: "rep s h xs \<Longrightarrow> distinct xs"
    and traverse: "rep s h xs \<Longrightarrow> length xs \<le> fuel \<Longrightarrow> traverse fuel h s = Some xs"
begin

text \<open>Insertions in any number come out in the order they went in.\<close>

lemma rep_add_all:
  "rep s h xs \<Longrightarrow> distinct (xs @ ys) \<Longrightarrow> rep (fold (add h) ys s) h (xs @ ys)"
proof (induction ys arbitrary: s xs)
  case (Cons y ys)
  then have "rep (add h y s) h (xs @ [y])"
    by (simp add: rep_add)
  with Cons.IH [of "add h y s" "xs @ [y]"] Cons.prems show ?case by simp
qed simp

lemma fifo: "distinct ys \<Longrightarrow> traverse (length ys) h (fold (add h) ys (init h s)) = Some ys"
  using rep_add_all [OF rep_init, of ys h s] by (simp add: traverse)

lemma remove_in: "rep s h xs \<Longrightarrow> x \<in> set xs \<Longrightarrow> rep (remove x s) h (remove1 x xs)"
proof -
  assume r: "rep s h xs" and x: "x \<in> set xs"
  then obtain as bs where "xs = as @ x # bs" "x \<notin> set as"
    by (meson split_list_first)
  moreover from this have "remove1 x xs = as @ bs"
    by (simp add: remove1_append)
  ultimately show ?thesis using r rep_remove by metis
qed

lemma remove_undoes_add: "rep s h xs \<Longrightarrow> x \<notin> set xs \<Longrightarrow> rep (remove x (add h x s)) h xs"
  using rep_remove [of "add h x s" h xs x "[]"] rep_add by simp

text \<open>Emptying the list from the front, as every destructor does.\<close>

lemma remove_all: "rep s h xs \<Longrightarrow> rep (fold remove xs s) h []"
proof (induction xs arbitrary: s)
  case (Cons x xs)
  then have "rep (remove x s) h xs"
    using rep_remove [of s h "[]" x xs] by simp
  then show ?case using Cons.IH by simp
qed simp

end

definition list_walk :: "nat \<Rightarrow> addr \<Rightarrow> list_heap \<Rightarrow> addr list option" where
  "list_walk fuel h s = walk fuel (list_first h s) s"

lemma list_walk_dlist: "dlist s h xs \<Longrightarrow> length xs \<le> fuel \<Longrightarrow> list_walk fuel h s = Some xs"
  using walk_dseg [of s h None xs fuel] by (simp add: list_walk_def list_first_def dlist_def)

interpretation lq: queue_impl dlist list_init list_add list_remove list_walk
  by unfold_locales (simp_all add: dlist_init dlist_add dlist_remove list_walk_dlist, simp add: dlist_def)

section \<open>Properties\<close>

text \<open>
  C4: the intrusive list is a list.  On any heap where head \<open>h\<close> represents the nodes \<open>xs\<close>:
  \<open>_libssh2_list_add\<close> of a new node appends it, \<open>_libssh2_list_remove\<close> of any node of the list removes
  exactly that node and keeps the order of the rest, and the traversal with
  \<open>_libssh2_list_first\<close>/\<open>_libssh2_list_next\<close> visits exactly the represented nodes and ends.
\<close>

theorem list_refines_sequence:
  assumes "dlist s h xs"
  shows "(\<forall>e. e \<notin> set xs \<longrightarrow> dlist (list_add h e s) h (xs @ [e])) \<and>
    (\<forall>e \<in> set xs. dlist (list_remove e s) h (remove1 e xs)) \<and>
    (\<forall>fuel \<ge> length xs. walk fuel (list_first h s) s = Some xs)"
  using assms lq.rep_add lq.remove_in lq.traverse [unfolded list_walk_def] by blast

theorem list_refines_sequence_witness:
  "dlist (list_add 0 11 (list_add 0 10 (list_init 0 \<lparr>heads = \<lambda>_. \<lparr>hd_first = None, hd_last = None\<rparr>,
      nodes = \<lambda>_. \<lparr>nd_next = None, nd_prev = None, nd_head = 0\<rparr>\<rparr>))) 0 [10, 11] \<and>
   dlist (list_remove 10 (list_add 0 11 (list_add 0 10 (list_init 0 \<lparr>heads = \<lambda>_. \<lparr>hd_first = None, hd_last = None\<rparr>,
      nodes = \<lambda>_. \<lparr>nd_next = None, nd_prev = None, nd_head = 0\<rparr>\<rparr>)))) 0 [11]"
    (is "dlist ?s _ _ \<and> _")
proof -
  have "dlist ?s 0 [10, 11]"
    using lq.rep_add_all [OF lq.rep_init, of "[10, 11]" 0] by simp
  with list_refines_sequence [OF this] show ?thesis by auto
qed

text \<open>
  Two lists do not interfere.  Adding to or removing from the list of one head leaves every list of
  another head with disjoint nodes as it was.
\<close>

theorem list_operations_frame:
  assumes "dlist s h xs" and "dlist s k zs" and "k \<noteq> h" and "set xs \<inter> set zs = {}"
  shows "(\<forall>e. e \<notin> set zs \<longrightarrow> dlist (list_add h e s) k zs) \<and>
    (\<forall>e \<in> set xs. dlist (list_remove e s) k zs)"
proof -
  have "dlist (list_remove e s) k zs" if e: "e \<in> set xs" for e
  proof -
    from e obtain as bs where "xs = as @ e # bs"
      by (meson split_list)
    with assms show ?thesis using dlist_remove_frame by metis
  qed
  then show ?thesis
    using assms dlist_add_frame by blast
qed

theorem list_operations_frame_witness:
  "\<exists>s. dlist s 0 [10] \<and> dlist s 1 [20] \<and> dlist (list_remove 10 s) 1 [20] \<and> dlist (list_add 0 11 s) 1 [20]"
proof -
  define s0 :: list_heap where "s0 = \<lparr>heads = \<lambda>_. \<lparr>hd_first = None, hd_last = None\<rparr>,
      nodes = \<lambda>_. \<lparr>nd_next = None, nd_prev = None, nd_head = 0\<rparr>\<rparr>"
  define s where "s = list_add 1 20 (list_add 0 10 s0)"
  have a: "dlist s 0 [10]" and b: "dlist s 1 [20]"
    by (simp_all add: s_def s0_def dlist_def list_add_def)
  from list_operations_frame [OF a b] a b show ?thesis by auto
qed

end
