(* ===== verification/Knownhost.thy ===== *)
theory Knownhost
  imports Base64 Linked_List
begin

text \<open>
  The known-hosts store of \<^verbatim>\<open>libssh2/src/knownhost.c\<close>: adding, checking, deleting and enumerating entries,
  parsing and printing lines of an OpenSSH \<open>known_hosts\<close> file, and reading and writing whole files.  The
  collection is the list of its entries with the addresses of their nodes (theory \<open>Linked_List\<close> justifies
  this view).  The crypto backend's HMAC-SHA1 is a parameter: \<open>hmac salt host\<close> is the digest, or \<open>None\<close>
  when one of the backend's calls fails.  A result \<open>None\<close> of an operation is an access outside a memory
  block.
\<close>

section \<open>Data\<close>

abbreviation TYPE_MASK :: u32 where "TYPE_MASK \<equiv> 0xffff"
abbreviation TYPE_PLAIN :: u32 where "TYPE_PLAIN \<equiv> 1"
abbreviation TYPE_SHA1 :: u32 where "TYPE_SHA1 \<equiv> 2"
abbreviation TYPE_CUSTOM :: u32 where "TYPE_CUSTOM \<equiv> 3"
abbreviation KEYENC_RAW :: u32 where "KEYENC_RAW \<equiv> 0x10000"
abbreviation KEYENC_BASE64 :: u32 where "KEYENC_BASE64 \<equiv> 0x20000"
abbreviation KEY_MASK :: u32 where "KEY_MASK \<equiv> 0x3C0000"
abbreviation KEY_RSA1 :: u32 where "KEY_RSA1 \<equiv> 0x40000"
abbreviation KEY_SSHRSA :: u32 where "KEY_SSHRSA \<equiv> 0x80000"
abbreviation KEY_SSHDSS :: u32 where "KEY_SSHDSS \<equiv> 0xC0000"
abbreviation KEY_ECDSA_256 :: u32 where "KEY_ECDSA_256 \<equiv> 0x100000"
abbreviation KEY_ECDSA_384 :: u32 where "KEY_ECDSA_384 \<equiv> 0x140000"
abbreviation KEY_ECDSA_521 :: u32 where "KEY_ECDSA_521 \<equiv> 0x180000"
abbreviation KEY_ED25519 :: u32 where "KEY_ED25519 \<equiv> 0x1C0000"
abbreviation KEY_UNKNOWN :: u32 where "KEY_UNKNOWN \<equiv> 0x3C0000"

abbreviation CHECK_MATCH :: int where "CHECK_MATCH \<equiv> 0"
abbreviation CHECK_MISMATCH :: int where "CHECK_MISMATCH \<equiv> 1"
abbreviation CHECK_NOTFOUND :: int where "CHECK_NOTFOUND \<equiv> 2"
abbreviation CHECK_FAILURE :: int where "CHECK_FAILURE \<equiv> 3"

abbreviation FILE_OPENSSH :: int where "FILE_OPENSSH \<equiv> 1"

definition KNOWNHOST_MAGIC :: u32 where "KNOWNHOST_MAGIC = 0xdeadcafe"
definition SHA_DIGEST_LENGTH :: nat where "SHA_DIGEST_LENGTH = 20"

text \<open>DSA is compiled out unless \<open>LIBSSH2_DSA_ENABLE\<close> is set, which the package's build does not do.\<close>

definition LIBSSH2_DSA :: bool where "LIBSSH2_DSA = False"

record known_host =
  kh_name :: bytes
  kh_port :: int
  kh_typemask :: u32
  kh_salt :: "bytes option"
  kh_key :: bytes
  kh_key_type_name :: "bytes option"
  kh_comment :: "bytes option"

record libssh2_knownhost =
  ext_magic :: u32
  ext_node :: addr
  ext_name :: "bytes option"
  ext_key :: bytes
  ext_typemask :: u32

record knownhosts = err_session +
  kh_nodes :: "(addr \<times> known_host) list"
  kh_fresh :: addr

definition knownhost_init :: "bool \<Rightarrow> err_session \<Rightarrow> err_session + knownhosts" where
  "knownhost_init alloc_ok session =
     (if \<not> alloc_ok then
        Inl (snd (libssh2_error session E_ALLOC ''Unable to allocate memory for known-hosts collection''))
      else Inr \<lparr>err_code = err_code session, err_msg = err_msg session, err_dup = err_dup session,
                kh_nodes = [], kh_fresh = 0\<rparr>)"

definition knownhost_to_external :: "addr \<times> known_host \<Rightarrow> libssh2_knownhost" where
  "knownhost_to_external an =
     \<lparr>ext_magic = KNOWNHOST_MAGIC, ext_node = fst an,
      ext_name = (if kh_typemask (snd an) AND TYPE_MASK = TYPE_PLAIN then Some (kh_name (snd an)) else None),
      ext_key = kh_key (snd an), ext_typemask = kh_typemask (snd an)\<rparr>"

section \<open>Adding an entry\<close>

text \<open>
  The stages of \<open>knownhost_add\<close>.  A stage takes the outcomes of the coming allocations and yields an
  error (code and message) or its result with the remaining outcomes; \<open>None\<close> is a memory fault.
\<close>

type_synonym 'a stage = "((int \<times> string) + ('a \<times> allocs)) option"

definition b64_decode_stage :: "allocs \<Rightarrow> bytes \<Rightarrow> bytes stage" where
  "b64_decode_stage al src =
     (let (ok, al') = alloc_next al in
      case base64_decode ok src of
        None \<Rightarrow> None
      | Some (Inl e) \<Rightarrow>
          Some (Inl (e, if e = E_ALLOC then ''Unable to allocate memory for base64 decoding''
                        else ''Invalid base64''))
      | Some (Inr d) \<Rightarrow> Some (Inr (d, al')))"

definition add_name :: "allocs \<Rightarrow> bytes \<Rightarrow> bytes option \<Rightarrow> u32 \<Rightarrow> (bytes \<times> bytes option) stage" where
  "add_name al host salt typemask =
     (let type = typemask AND TYPE_MASK in
      if type = TYPE_PLAIN \<or> type = TYPE_CUSTOM then
        (let (ok, al') = alloc_next al in
         if ok then Some (Inr ((host, None), al'))
         else Some (Inl (E_ALLOC, ''Unable to allocate memory for host name'')))
      else if type = TYPE_SHA1 then
        (case b64_decode_stage al host of
           None \<Rightarrow> None
         | Some (Inl e) \<Rightarrow> Some (Inl e)
         | Some (Inr (name, al1)) \<Rightarrow>
             (case salt of
                None \<Rightarrow> None
              | Some st \<Rightarrow>
                  (case b64_decode_stage al1 (c_str st) of
                     None \<Rightarrow> None
                   | Some (Inl e) \<Rightarrow> Some (Inl e)
                   | Some (Inr (sl, al2)) \<Rightarrow> Some (Inr ((name, Some sl), al2)))))
      else Some (Inl (E_METHOD_NOT_SUPPORTED, ''Unknown host name type'')))"

definition add_key :: "allocs \<Rightarrow> bytes \<Rightarrow> nat \<Rightarrow> u32 \<Rightarrow> bytes stage" where
  "add_key al key keylen typemask =
     (let (ok, al') = alloc_next al in
      if typemask AND KEYENC_BASE64 \<noteq> 0 then
        (let n = (if keylen = 0 then length (c_str key) else keylen) in
         if ok then Some (Inr (take n key, al'))
         else Some (Inl (E_ALLOC, ''Unable to allocate memory for key'')))
      else
        (case base64_encode ok key keylen of
           None \<Rightarrow> None
         | Some None \<Rightarrow> Some (Inl (E_ALLOC, ''Unable to allocate memory for base64-encoded key''))
         | Some (Some text) \<Rightarrow>
             if length text = 0
             then Some (Inl (E_ALLOC, ''Unable to allocate memory for base64-encoded key''))
             else Some (Inr (text, al'))))"

definition add_key_type :: "allocs \<Rightarrow> bytes option \<Rightarrow> u32 \<Rightarrow> bytes option stage" where
  "add_key_type al key_type_name typemask =
     (if key_type_name \<noteq> None \<and> typemask AND KEY_MASK = KEY_UNKNOWN then
        (let (ok, al') = alloc_next al in
         if ok then Some (Inr (key_type_name, al'))
         else Some (Inl (E_ALLOC, ''Unable to allocate memory for key type'')))
      else Some (Inr (None, al)))"

definition add_comment :: "allocs \<Rightarrow> bytes option \<Rightarrow> bytes option stage" where
  "add_comment al comment =
     (if comment \<noteq> None then
        (let (ok, al') = alloc_next al in
         if ok then Some (Inr (comment, al'))
         else Some (Inl (E_ALLOC, ''Unable to allocate memory for comment'')))
      else Some (Inr (None, al)))"

definition stage_bind :: "'a stage \<Rightarrow> ('a \<Rightarrow> allocs \<Rightarrow> 'b stage) \<Rightarrow> 'b stage" where
  "stage_bind m f =
     (case m of
        None \<Rightarrow> None
      | Some (Inl e) \<Rightarrow> Some (Inl e)
      | Some (Inr (x, al)) \<Rightarrow> f x al)"

text \<open>The entry that \<open>knownhost_add\<close> builds, up to the insertion into the list.\<close>

definition build_entry ::
  "allocs \<Rightarrow> bytes \<Rightarrow> bytes option \<Rightarrow> bytes option \<Rightarrow> bytes \<Rightarrow> nat \<Rightarrow> bytes option \<Rightarrow> u32 \<Rightarrow> known_host stage" where
  "build_entry al host salt key_type_name key keylen comment typemask =
     (if typemask AND KEY_MASK = 0 then Some (Inl (E_INVAL, ''No key type set''))
      else
        let (ok, al0) = alloc_next al in
        if \<not> ok then Some (Inl (E_ALLOC, ''Unable to allocate memory for known host entry''))
        else
          stage_bind (add_name al0 host salt typemask) (\<lambda>(name, sl) al1.
          stage_bind (add_key al1 key keylen typemask) (\<lambda>k al2.
          stage_bind (add_key_type al2 key_type_name typemask) (\<lambda>kt al3.
          stage_bind (add_comment al3 comment) (\<lambda>c al4.
            Some (Inr (\<lparr>kh_name = name, kh_port = 0, kh_typemask = typemask, kh_salt = sl, kh_key = k,
                        kh_key_type_name = kt, kh_comment = c\<rparr>, al4)))))))"

type_synonym 'a kh_result = "('a \<times> allocs \<times> knownhosts) option"

definition kh_fail :: "knownhosts \<Rightarrow> int \<Rightarrow> string \<Rightarrow> knownhosts" where
  "kh_fail hosts code msg = snd (libssh2_error hosts code msg)"

definition insert_entry :: "known_host \<Rightarrow> knownhosts \<Rightarrow> knownhosts" where
  "insert_entry e hosts =
     hosts\<lparr>kh_nodes := kh_nodes hosts @ [(kh_fresh hosts, e)], kh_fresh := Suc (kh_fresh hosts)\<rparr>"

definition knownhost_add ::
  "allocs \<Rightarrow> knownhosts \<Rightarrow> bytes \<Rightarrow> bytes option \<Rightarrow> bytes option \<Rightarrow> bytes \<Rightarrow> nat \<Rightarrow> bytes option \<Rightarrow> u32 \<Rightarrow>
     (int \<times> libssh2_knownhost option) kh_result" where
  "knownhost_add al hosts host salt key_type_name key keylen comment typemask =
     (case build_entry al (c_str host) salt key_type_name key keylen comment typemask of
        None \<Rightarrow> None
      | Some (Inl (code, msg)) \<Rightarrow> Some ((code, None), al, kh_fail hosts code msg)
      | Some (Inr (e, al')) \<Rightarrow>
          Some ((E_NONE, Some (knownhost_to_external (kh_fresh hosts, e))), al', insert_entry e hosts))"

definition libssh2_knownhost_add ::
  "allocs \<Rightarrow> knownhosts \<Rightarrow> bytes \<Rightarrow> bytes option \<Rightarrow> bytes \<Rightarrow> nat \<Rightarrow> u32 \<Rightarrow>
     (int \<times> libssh2_knownhost option) kh_result" where
  "libssh2_knownhost_add al hosts host salt key keylen typemask =
     knownhost_add al hosts host salt None key keylen None typemask"

definition libssh2_knownhost_addc ::
  "allocs \<Rightarrow> knownhosts \<Rightarrow> bytes \<Rightarrow> bytes option \<Rightarrow> bytes \<Rightarrow> nat \<Rightarrow> bytes option \<Rightarrow> u32 \<Rightarrow>
     (int \<times> libssh2_knownhost option) kh_result" where
  "libssh2_knownhost_addc al hosts host salt key keylen comment typemask =
     knownhost_add al hosts host salt None key keylen comment typemask"

section \<open>Checking a host key\<close>

type_synonym hmac = "bytes \<Rightarrow> bytes \<Rightarrow> bytes option"

text \<open>The \<open>switch\<close> on the entry's type: is this entry about the given host?\<close>

definition host_matches :: "hmac \<Rightarrow> bytes \<Rightarrow> u32 \<Rightarrow> known_host \<Rightarrow> bool" where
  "host_matches hmac host type node =
     (let ntype = kh_typemask node AND TYPE_MASK in
      if ntype = TYPE_PLAIN then type = TYPE_PLAIN \<and> host = c_str (kh_name node)
      else if ntype = TYPE_CUSTOM then type = TYPE_CUSTOM \<and> host = c_str (kh_name node)
      else if ntype = TYPE_SHA1 then
        type = TYPE_PLAIN \<and> length (kh_name node) = SHA_DIGEST_LENGTH \<and>
        (case hmac (case kh_salt node of None \<Rightarrow> [] | Some s \<Rightarrow> s) host of
           None \<Rightarrow> False
         | Some hash \<Rightarrow> take SHA_DIGEST_LENGTH hash = kh_name node)
      else False)"

definition key_type_matches :: "u32 \<Rightarrow> known_host \<Rightarrow> bool" where
  "key_type_matches typemask node =
     (let host_key_type = typemask AND KEY_MASK;
          known_key_type = kh_typemask node AND KEY_MASK in
      host_key_type \<noteq> KEY_UNKNOWN \<and> (host_key_type = 0 \<or> host_key_type = known_key_type))"

text \<open>
  The inner loop: \<open>Inl\<close> is the entry at which the search stops with a match, \<open>Inr\<close> the first entry with
  the right host and a different key, if any.
\<close>

fun check_nodes ::
  "hmac \<Rightarrow> bytes \<Rightarrow> bytes \<Rightarrow> u32 \<Rightarrow> (addr \<times> known_host) list \<Rightarrow> (addr \<times> known_host) option \<Rightarrow>
     (addr \<times> known_host) + (addr \<times> known_host) option" where
  "check_nodes hmac host key typemask [] badkey = Inr badkey"
| "check_nodes hmac host key typemask (an # ns) badkey =
     (if host_matches hmac host (typemask AND TYPE_MASK) (snd an) \<and> key_type_matches typemask (snd an) then
        if key = c_str (kh_key (snd an)) then Inl an
        else check_nodes hmac host key typemask ns (case badkey of None \<Rightarrow> Some an | Some b \<Rightarrow> Some b)
      else check_nodes hmac host key typemask ns badkey)"

text \<open>The outer loop over \<open>[host]:port\<close> and \<open>host\<close>.\<close>

fun check_hosts ::
  "hmac \<Rightarrow> bytes list \<Rightarrow> bytes \<Rightarrow> u32 \<Rightarrow> (addr \<times> known_host) list \<Rightarrow> (addr \<times> known_host) option \<Rightarrow>
     (addr \<times> known_host) + (addr \<times> known_host) option" where
  "check_hosts hmac [] key typemask ns badkey = Inr badkey"
| "check_hosts hmac (h # hs) key typemask ns badkey =
     (case check_nodes hmac h key typemask ns badkey of
        Inl an \<Rightarrow> Inl an
      | Inr badkey' \<Rightarrow> check_hosts hmac hs key typemask ns badkey')"

definition host_combos :: "bytes \<Rightarrow> int \<Rightarrow> bytes list option" where
  "host_combos hostp port =
     (if port \<ge> 0 then
        (let hostbuff = str ''['' @ hostp @ str '']:'' @ dec_digits (nat port) in
         if length hostbuff \<ge> 270 then None else Some [hostbuff, hostp])
      else Some [hostp])"

definition knownhost_check ::
  "hmac \<Rightarrow> bool \<Rightarrow> knownhosts \<Rightarrow> bytes \<Rightarrow> int \<Rightarrow> bytes \<Rightarrow> nat \<Rightarrow> u32 \<Rightarrow>
     ((int \<times> libssh2_knownhost option) \<times> knownhosts) option" where
  "knownhost_check hmac alloc_ok hosts hostp port key keylen typemask =
     (if typemask AND TYPE_MASK = TYPE_SHA1 then Some ((CHECK_MISMATCH, None), hosts)
      else case host_combos hostp port of
        None \<Rightarrow> Some ((CHECK_FAILURE, None), kh_fail hosts E_BUFFER_TOO_SMALL ''Known-host write buffer too small'')
      | Some combos \<Rightarrow>
          (case (if typemask AND KEYENC_BASE64 = 0 then base64_encode alloc_ok key keylen
                 else Some (Some (c_str key))) of
             None \<Rightarrow> None
           | Some keytext \<Rightarrow>
               if typemask AND KEYENC_BASE64 = 0 \<and> (keytext = None \<or> keytext = Some [])
               then Some ((CHECK_FAILURE, None),
                      kh_fail hosts E_ALLOC ''Unable to allocate memory for base64-encoded key'')
               else
                 case check_hosts hmac combos (the keytext) typemask (kh_nodes hosts) None of
                   Inl an \<Rightarrow> Some ((CHECK_MATCH, Some (knownhost_to_external an)), hosts)
                 | Inr (Some bad) \<Rightarrow> Some ((CHECK_MISMATCH, Some (knownhost_to_external bad)), hosts)
                 | Inr None \<Rightarrow> Some ((CHECK_NOTFOUND, None), hosts)))"

definition libssh2_knownhost_check where
  "libssh2_knownhost_check hmac alloc_ok hosts hostp key keylen typemask =
     knownhost_check hmac alloc_ok hosts hostp (- 1) key keylen typemask"

definition libssh2_knownhost_checkp where
  "libssh2_knownhost_checkp hmac alloc_ok hosts hostp port key keylen typemask =
     knownhost_check hmac alloc_ok hosts hostp port key keylen typemask"

section \<open>Deleting and enumerating\<close>

text \<open>
  Deleting needs a handle that an earlier call returned: the magic number is checked, then the node it
  points to is unlinked.
\<close>

definition libssh2_knownhost_del :: "knownhosts \<Rightarrow> libssh2_knownhost option \<Rightarrow> int \<times> knownhosts" where
  "libssh2_knownhost_del hosts entry =
     (case entry of
        None \<Rightarrow> (E_INVAL, kh_fail hosts E_INVAL ''Invalid host information'')
      | Some e \<Rightarrow>
          if ext_magic e \<noteq> KNOWNHOST_MAGIC then (E_INVAL, kh_fail hosts E_INVAL ''Invalid host information'')
          else (0, hosts\<lparr>kh_nodes := filter (\<lambda>an. fst an \<noteq> ext_node e) (kh_nodes hosts)\<rparr>))"

fun node_after :: "addr \<Rightarrow> (addr \<times> known_host) list \<Rightarrow> (addr \<times> known_host) option" where
  "node_after a [] = None"
| "node_after a (an # ns) =
     (if fst an = a then (case ns of [] \<Rightarrow> None | n # _ \<Rightarrow> Some n) else node_after a ns)"

definition libssh2_knownhost_get ::
  "knownhosts \<Rightarrow> libssh2_knownhost option \<Rightarrow> int \<times> libssh2_knownhost option" where
  "libssh2_knownhost_get hosts oprev =
     (case (case oprev of
              Some p \<Rightarrow> node_after (ext_node p) (kh_nodes hosts)
            | None \<Rightarrow> (case kh_nodes hosts of [] \<Rightarrow> None | an # _ \<Rightarrow> Some an)) of
        None \<Rightarrow> (1, None)
      | Some an \<Rightarrow> (0, Some (knownhost_to_external an)))"

section \<open>Parsing a line\<close>

text \<open>
  A line is a C string: the list of its bytes, with the terminating zero behind it.  A pointer into
  it is the list of the bytes from there on; \<open>peek\<close> reads the byte it points at.
\<close>

definition peek :: "bytes \<Rightarrow> byte" where
  "peek p = (case p of [] \<Rightarrow> 0 | b # _ \<Rightarrow> b)"

abbreviation SPACE :: byte where "SPACE \<equiv> 0x20"
abbreviation TAB :: byte where "TAB \<equiv> 0x09"
abbreviation NEWLINE :: byte where "NEWLINE \<equiv> 0x0A"
abbreviation COMMA :: byte where "COMMA \<equiv> 0x2C"
abbreviation BAR :: byte where "BAR \<equiv> 0x7C"
abbreviation HASH :: byte where "HASH \<equiv> 0x23"

definition is_ws :: "byte \<Rightarrow> bool" where
  "is_ws b \<longleftrightarrow> b = SPACE \<or> b = TAB"

text \<open>\<open>while(len && P(*cp)) { cp++; len--; }\<close>, for a \<open>P\<close> that is false on the terminating zero.\<close>

fun scan :: "(byte \<Rightarrow> bool) \<Rightarrow> bytes \<Rightarrow> nat \<Rightarrow> bytes \<times> nat" where
  "scan P (c # cp) (Suc len) = (if P c then scan P cp len else (c # cp, Suc len))"
| "scan P cp len = (cp, len)"

text \<open>Adding the hosts of \<open>name(,name)*\<close>, from the last to the first; \<open>Suc pos\<close> bytes are left of the cursor.\<close>

fun oldstyle_loop ::
  "bytes \<Rightarrow> bytes option \<Rightarrow> bytes \<Rightarrow> nat \<Rightarrow> u32 \<Rightarrow> bytes option \<Rightarrow> allocs \<Rightarrow> knownhosts \<Rightarrow> nat \<Rightarrow> nat \<Rightarrow>
     int kh_result" where
  "oldstyle_loop host kt key keylen key_type comment al hosts 0 namelen = Some (0, al, hosts)"
| "oldstyle_loop host kt key keylen key_type comment al hosts (Suc pos) namelen =
     (if pos = 0 \<or> host ! (pos - 1) = COMMA then
        if Suc namelen \<ge> 256 - 1 then
          Some (E_METHOD_NOT_SUPPORTED, al,
            kh_fail hosts E_METHOD_NOT_SUPPORTED ''Failed to parse known_hosts line (unexpected length)'')
        else
          case knownhost_add al hosts (take (Suc namelen) (drop pos host)) None kt key keylen comment
                 (key_type OR TYPE_PLAIN OR KEYENC_BASE64) of
            None \<Rightarrow> None
          | Some ((rc, _), al', hosts') \<Rightarrow>
              if rc \<noteq> 0 then Some (rc, al', hosts')
              else if pos > 0 then
                oldstyle_loop host kt key keylen key_type comment al' hosts' (pos - 1) 0
              else Some (0, al', hosts')
      else oldstyle_loop host kt key keylen key_type comment al hosts pos (Suc namelen))"

definition oldstyle_hostline ::
  "allocs \<Rightarrow> knownhosts \<Rightarrow> bytes \<Rightarrow> nat \<Rightarrow> bytes option \<Rightarrow> bytes \<Rightarrow> nat \<Rightarrow> u32 \<Rightarrow> bytes option \<Rightarrow> int kh_result" where
  "oldstyle_hostline al hosts host hostlen kt key keylen key_type comment =
     (if hostlen < 1 then
        Some (E_METHOD_NOT_SUPPORTED, al,
          kh_fail hosts E_METHOD_NOT_SUPPORTED ''Failed to parse known_hosts line (no host names)'')
      else oldstyle_loop host kt key keylen key_type comment al hosts hostlen 0)"

definition hashed_hostline ::
  "allocs \<Rightarrow> knownhosts \<Rightarrow> bytes \<Rightarrow> nat \<Rightarrow> bytes option \<Rightarrow> bytes \<Rightarrow> nat \<Rightarrow> u32 \<Rightarrow> bytes option \<Rightarrow> int kh_result" where
  "hashed_hostline al hosts host hostlen kt key keylen key_type comment =
     (let salt = drop 3 host;
          hostlen1 = size_sub hostlen 3;
          saltbuf = takeWhile (\<lambda>b. b \<noteq> 0 \<and> b \<noteq> BAR) salt;
          p = drop (length saltbuf) salt in
      if peek p = BAR then
        if length saltbuf \<ge> 32 - 1 then
          Some (E_METHOD_NOT_SUPPORTED, al,
            kh_fail hosts E_METHOD_NOT_SUPPORTED ''Failed to parse known_hosts line (unexpectedly long salt)'')
        else
          let hash = drop 1 p;
              hostlen2 = size_sub hostlen1 (length saltbuf + 1) in
          if hostlen2 \<ge> 256 - 1 then
            Some (E_METHOD_NOT_SUPPORTED, al,
              kh_fail hosts E_METHOD_NOT_SUPPORTED ''Failed to parse known_hosts line (unexpected length)'')
          else
            case knownhost_add al hosts (take hostlen2 hash) (Some saltbuf) kt key keylen comment
                   (key_type OR TYPE_SHA1 OR KEYENC_BASE64) of
              None \<Rightarrow> None
            | Some ((rc, _), al', hosts') \<Rightarrow> Some (rc, al', hosts')
      else Some (0, al, hosts))"

definition is_digit :: "byte \<Rightarrow> bool" where
  "is_digit b \<longleftrightarrow> 0x30 \<le> b \<and> b \<le> 0x39"

text \<open>The chain of \<open>strncmp\<close> tests, each over the length of the name found in the line.\<close>

definition key_type_of :: "bytes \<Rightarrow> nat \<Rightarrow> u32" where
  "key_type_of name len =
     (if strncmp_eq name (str ''ssh-ed25519'') len then KEY_ED25519
      else if strncmp_eq name (str ''ecdsa-sha2-nistp256'') len then KEY_ECDSA_256
      else if strncmp_eq name (str ''ecdsa-sha2-nistp384'') len then KEY_ECDSA_384
      else if strncmp_eq name (str ''ecdsa-sha2-nistp521'') len then KEY_ECDSA_521
      else if strncmp_eq name (str ''ssh-rsa'') len then KEY_SSHRSA
      else if LIBSSH2_DSA \<and> strncmp_eq name (str ''ssh-dss'') len then KEY_SSHDSS
      else KEY_UNKNOWN)"

text \<open>The key part of a line: its type, type name, key with length, and comment.\<close>

record key_fields =
  kf_type :: u32
  kf_type_name :: "bytes option"
  kf_key :: bytes
  kf_keylen :: nat
  kf_comment :: "bytes option"

definition parse_key :: "bytes \<Rightarrow> nat \<Rightarrow> key_fields" where
  "parse_key key keylen =
     (if is_digit (peek key) then
        \<lparr>kf_type = KEY_RSA1, kf_type_name = None, kf_key = key, kf_keylen = keylen, kf_comment = None\<rparr>
      else
        let (key1, keylen1) = scan (\<lambda>b. b \<noteq> 0 \<and> b \<noteq> SPACE \<and> b \<noteq> TAB) key keylen;
            key_type_len = keylen - keylen1;
            ws = length (takeWhile is_ws key1);
            key2 = drop ws key1;
            keylen2 = size_sub keylen1 ws;
            (comment1, commentlen1) = scan (\<lambda>b. b \<noteq> 0 \<and> b \<noteq> SPACE \<and> b \<noteq> TAB) key2 keylen2;
            keylen3 = keylen2 - commentlen1;
            (comment2, commentlen2) = scan (\<lambda>b. b \<noteq> 0 \<and> is_ws b) comment1 commentlen1 in
        \<lparr>kf_type = key_type_of key key_type_len, kf_type_name = Some (take key_type_len key),
         kf_key = key2, kf_keylen = keylen3,
         kf_comment = (if commentlen1 = 0 then None else Some (take commentlen2 comment2))\<rparr>)"

definition hostline :: "allocs \<Rightarrow> knownhosts \<Rightarrow> bytes \<Rightarrow> nat \<Rightarrow> bytes \<Rightarrow> nat \<Rightarrow> int kh_result" where
  "hostline al hosts host hostlen key keylen =
     (if keylen < 20 then
        Some (E_METHOD_NOT_SUPPORTED, al,
          kh_fail hosts E_METHOD_NOT_SUPPORTED ''Failed to parse known_hosts line (key too short)'')
      else
        let kf = parse_key key keylen in
        if hostlen > 2 \<and> take 3 host \<noteq> str ''|1|'' then
          oldstyle_hostline al hosts host hostlen (kf_type_name kf) (kf_key kf) (kf_keylen kf)
            (kf_type kf) (kf_comment kf)
        else
          hashed_hostline al hosts host hostlen (kf_type_name kf) (kf_key kf) (kf_keylen kf)
            (kf_type kf) (kf_comment kf))"

definition libssh2_knownhost_readline ::
  "allocs \<Rightarrow> knownhosts \<Rightarrow> bytes \<Rightarrow> nat \<Rightarrow> int \<Rightarrow> int kh_result" where
  "libssh2_knownhost_readline al hosts line len type =
     (if type \<noteq> FILE_OPENSSH then
        Some (E_METHOD_NOT_SUPPORTED, al,
          kh_fail hosts E_METHOD_NOT_SUPPORTED ''Unsupported type of known-host information store'')
      else
        let (cp1, len1) = scan is_ws line len in
        if len1 = 0 \<or> peek cp1 = 0 \<or> peek cp1 = HASH \<or> peek cp1 = NEWLINE then Some (E_NONE, al, hosts)
        else
          let (cp2, len2) = scan (\<lambda>b. b \<noteq> 0 \<and> b \<noteq> SPACE \<and> b \<noteq> TAB) cp1 len1;
              hostlen = len1 - len2;
              (cp3, len3) = scan (\<lambda>b. b \<noteq> 0 \<and> is_ws b) cp2 len2 in
          if peek cp3 = 0 \<or> len3 = 0 then
            Some (E_METHOD_NOT_SUPPORTED, al,
              kh_fail hosts E_METHOD_NOT_SUPPORTED ''Failed to parse known_hosts line'')
          else
            let (cp4, _) = scan (\<lambda>b. b \<noteq> 0 \<and> b \<noteq> NEWLINE) cp3 len3;
                keylen = (if peek cp4 = NEWLINE then len3 - 1 else len3) in
            hostline al hosts cp1 hostlen cp3 keylen)"

text \<open>
  \<open>fgets\<close> with a buffer of \<open>n + 1\<close> bytes: at most \<open>n\<close> bytes, up to and including the first newline; what
  the caller sees is the C string in the buffer.
\<close>

definition fgets :: "nat \<Rightarrow> bytes \<Rightarrow> bytes \<times> bytes" where
  "fgets n content =
     (let l = take n (takeWhile (\<lambda>b. b \<noteq> NEWLINE) content @
                      (if NEWLINE \<in> set content then [NEWLINE] else [])) in
      (l, drop (length l) content))"

lemma fgets_shorter: "content \<noteq> [] \<Longrightarrow> 0 < n \<Longrightarrow> length (snd (fgets n content)) < length content"
  by (cases content) (auto simp: fgets_def Let_def)

text \<open>The buffers that the calls of \<open>fgets\<close> fill until the end of the file.\<close>

function file_lines :: "bytes \<Rightarrow> bytes list" where
  "file_lines content =
     (if content = [] then [] else fst (fgets 4091 content) # file_lines (snd (fgets 4091 content)))"
  by pat_completeness auto
termination
  by (relation "measure length") (auto intro: fgets_shorter)

declare file_lines.simps [simp del]

fun read_lines :: "allocs \<Rightarrow> knownhosts \<Rightarrow> bytes list \<Rightarrow> int \<Rightarrow> int \<Rightarrow> int kh_result" where
  "read_lines al hosts [] type num = Some (num, al, hosts)"
| "read_lines al hosts (buf # bufs) type num =
     (case libssh2_knownhost_readline al hosts (c_str buf) (length (c_str buf)) type of
        None \<Rightarrow> None
      | Some (rc, al', hosts') \<Rightarrow>
          if rc \<noteq> 0 then
            Some (E_KNOWN_HOSTS, al', kh_fail hosts' E_KNOWN_HOSTS ''Failed to parse known hosts file'')
          else read_lines al' hosts' bufs type (num + 1))"

text \<open>\<open>file\<close> is the file's contents, or \<open>None\<close> when it cannot be opened.\<close>

definition libssh2_knownhost_readfile ::
  "allocs \<Rightarrow> knownhosts \<Rightarrow> bytes option \<Rightarrow> int \<Rightarrow> int kh_result" where
  "libssh2_knownhost_readfile al hosts file type =
     (if type \<noteq> FILE_OPENSSH then
        Some (E_METHOD_NOT_SUPPORTED, al,
          kh_fail hosts E_METHOD_NOT_SUPPORTED ''Unsupported type of known-host information store'')
      else case file of
        Some content \<Rightarrow> read_lines al hosts (file_lines content) type 0
      | None \<Rightarrow> Some (E_FILE, al, kh_fail hosts E_FILE ''Failed to open file''))"

section \<open>Printing a line\<close>

text \<open>The key type's name in a line: \<open>Inl\<close> for an unsupported type; RSA1 lines have none.\<close>

definition line_key_type :: "known_host \<Rightarrow> unit + bytes" where
  "line_key_type node =
     (let kt = kh_typemask node AND KEY_MASK in
      if kt = KEY_RSA1 then Inr []
      else if kt = KEY_SSHRSA then Inr (str ''ssh-rsa'')
      else if LIBSSH2_DSA \<and> kt = KEY_SSHDSS then Inr (str ''ssh-dss'')
      else if kt = KEY_ECDSA_256 then Inr (str ''ecdsa-sha2-nistp256'')
      else if kt = KEY_ECDSA_384 then Inr (str ''ecdsa-sha2-nistp384'')
      else if kt = KEY_ECDSA_521 then Inr (str ''ecdsa-sha2-nistp521'')
      else if kt = KEY_ED25519 then Inr (str ''ssh-ed25519'')
      else if kt = KEY_UNKNOWN then
        (case kh_key_type_name node of Some n \<Rightarrow> Inr n | None \<Rightarrow> Inl ())
      else Inl ())"

definition line_tail :: "bytes \<Rightarrow> known_host \<Rightarrow> bytes" where
  "line_tail key_type_name node =
     (if kh_comment node \<noteq> None \<and> key_type_name \<noteq> [] then
        [SPACE] @ c_str key_type_name @ [SPACE] @ c_str (kh_key node) @ [SPACE] @
          c_str (the (kh_comment node)) @ [NEWLINE]
      else if kh_comment node \<noteq> None then
        [SPACE] @ c_str (kh_key node) @ [SPACE] @ c_str (the (kh_comment node)) @ [NEWLINE]
      else if key_type_name \<noteq> [] then
        [SPACE] @ c_str key_type_name @ [SPACE] @ c_str (kh_key node) @ [NEWLINE]
      else [SPACE] @ c_str (kh_key node) @ [NEWLINE])"

text \<open>\<open>snprintf(buf, buflen, ...)\<close>: the text cut to \<open>buflen - 1\<close> bytes and its terminator.\<close>

definition snprintf_into :: "bytes \<Rightarrow> bytes \<Rightarrow> bytes option" where
  "snprintf_into text buf =
     (if buf = [] then Some buf else poke 0 (take (length buf - 1) text @ [0]) buf)"

text \<open>
  \<open>buf\<close> is the caller's buffer; the result is the return code, \<open>*outlen\<close> when it is set, the remaining
  allocation outcomes, the buffer and the session's error.
\<close>

definition knownhost_writeline ::
  "allocs \<Rightarrow> knownhosts \<Rightarrow> known_host \<Rightarrow> bytes \<Rightarrow> int \<Rightarrow> ((int \<times> nat option \<times> bytes) \<times> allocs \<times> knownhosts) option" where
  "knownhost_writeline al hosts node buf type =
     (if type \<noteq> FILE_OPENSSH then
        Some ((E_METHOD_NOT_SUPPORTED, None, buf), al,
          kh_fail hosts E_METHOD_NOT_SUPPORTED ''Unsupported type of known-host information store'')
      else case line_key_type node of
        Inl _ \<Rightarrow> Some ((E_METHOD_NOT_SUPPORTED, None, buf), al,
          kh_fail hosts E_METHOD_NOT_SUPPORTED ''Unsupported type of known-host entry'')
      | Inr ktn \<Rightarrow>
          let size0 = length (c_str (kh_key node)) + (if length ktn \<noteq> 0 then length ktn + 1 else 0) +
                (case kh_comment node of Some c \<Rightarrow> length c + 1 | None \<Rightarrow> 0);
              finish = (\<lambda>required_size text al'.
                (case (if required_size \<le> length buf then snprintf_into text buf else Some buf) of
                   None \<Rightarrow> None
                 | Some buf' \<Rightarrow>
                     if required_size \<le> length buf
                     then Some ((E_NONE, Some (required_size - 1), buf'), al', hosts)
                     else Some ((E_BUFFER_TOO_SMALL, Some (required_size - 1), buf'), al',
                            kh_fail hosts E_BUFFER_TOO_SMALL ''Known-host write buffer too small''))) in
          if kh_typemask node AND TYPE_MASK = TYPE_SHA1 then
            let (ok1, al1) = alloc_next al in
            (case base64_encode ok1 (kh_name node) (length (kh_name node)) of
               None \<Rightarrow> None
             | Some name_r \<Rightarrow>
                 if name_r = None \<or> name_r = Some [] then
                   Some ((E_ALLOC, None, buf), al1,
                     kh_fail hosts E_ALLOC ''Unable to allocate memory for base64-encoded host name'')
                 else
                   let (ok2, al2) = alloc_next al1;
                       salt = (case kh_salt node of Some s \<Rightarrow> s | None \<Rightarrow> []) in
                   (case base64_encode ok2 salt (length salt) of
                      None \<Rightarrow> None
                    | Some salt_r \<Rightarrow>
                        if salt_r = None \<or> salt_r = Some [] then
                          Some ((E_ALLOC, None, buf), al2,
                            kh_fail hosts E_ALLOC ''Unable to allocate memory for base64-encoded salt'')
                        else
                          finish (size0 + length (the salt_r) + length (the name_r) + 7)
                            (str ''|1|'' @ the salt_r @ [BAR] @ the name_r @ line_tail ktn node) al2))
          else
            finish (size0 + length (kh_name node) + 3) (c_str (kh_name node) @ line_tail ktn node) al)"

definition libssh2_knownhost_writeline ::
  "allocs \<Rightarrow> knownhosts \<Rightarrow> libssh2_knownhost \<Rightarrow> bytes \<Rightarrow> int \<Rightarrow>
     ((int \<times> nat option \<times> bytes) \<times> allocs \<times> knownhosts) option" where
  "libssh2_knownhost_writeline al hosts known buf type =
     (if ext_magic known \<noteq> KNOWNHOST_MAGIC then
        Some ((E_INVAL, None, buf), al, kh_fail hosts E_INVAL ''Invalid host information'')
      else case map_of (kh_nodes hosts) (ext_node known) of
        None \<Rightarrow> None
      | Some node \<Rightarrow> knownhost_writeline al hosts node buf type)"

text \<open>
  Writing the file: \<open>written\<close> tells for each line whether \<open>fwrite\<close> took it whole.  The stack buffer of 4092
  bytes is shared by all lines.  The result holds the file's contents.
\<close>

fun write_lines ::
  "allocs \<Rightarrow> knownhosts \<Rightarrow> (addr \<times> known_host) list \<Rightarrow> bytes \<Rightarrow> int \<Rightarrow> bool list \<Rightarrow> bytes \<Rightarrow>
     ((int \<times> bytes) \<times> allocs \<times> knownhosts) option" where
  "write_lines al hosts [] buffer type fwrite_ok out = Some ((E_NONE, out), al, hosts)"
| "write_lines al hosts (an # ns) buffer type fwrite_ok out =
     (case knownhost_writeline al hosts (snd an) buffer type of
        None \<Rightarrow> None
      | Some ((rc, wrote, buffer'), al', hosts') \<Rightarrow>
          if rc \<noteq> 0 then Some ((rc, out), al', hosts')
          else
            let (ok, fwrite_ok') = alloc_next fwrite_ok in
            if ok then write_lines al' hosts' ns buffer' type fwrite_ok'
                         (out @ take (case wrote of Some n \<Rightarrow> n | None \<Rightarrow> 0) buffer')
            else Some ((E_FILE, out), al', kh_fail hosts' E_FILE ''Write failed''))"

definition libssh2_knownhost_writefile ::
  "allocs \<Rightarrow> knownhosts \<Rightarrow> bool \<Rightarrow> bool list \<Rightarrow> int \<Rightarrow> ((int \<times> bytes) \<times> allocs \<times> knownhosts) option" where
  "libssh2_knownhost_writefile al hosts fopen_ok fwrite_ok type =
     (if type \<noteq> FILE_OPENSSH then
        Some ((E_METHOD_NOT_SUPPORTED, []), al,
          kh_fail hosts E_METHOD_NOT_SUPPORTED ''Unsupported type of known-host information store'')
      else if \<not> fopen_ok then Some ((E_FILE, []), al, kh_fail hosts E_FILE ''Failed to open file'')
      else write_lines al hosts (kh_nodes hosts) (replicate 4092 0) type fwrite_ok [])"

end
