(* ===== verification/Knownhost_Store.thy ===== *)
theory Knownhost_Store
  imports Knownhost
begin

text \<open>
  Correctness of the known-hosts store: the verdict of a check in terms of the entries, what adding and
  deleting do to later checks, the distinctness of the handles and the enumeration of the store.
\<close>

section \<open>The search\<close>

definition candidate :: "hmac \<Rightarrow> u32 \<Rightarrow> bytes \<Rightarrow> addr \<times> known_host \<Rightarrow> bool" where
  "candidate hmac typemask host an \<longleftrightarrow>
     host_matches hmac host (typemask AND TYPE_MASK) (snd an) \<and> key_type_matches typemask (snd an)"

definition right_key :: "bytes \<Rightarrow> addr \<times> known_host \<Rightarrow> bool" where
  "right_key key an \<longleftrightarrow> key = c_str (kh_key (snd an))"

text \<open>The pairs of a host combination and an entry, in the order in which the two loops visit them.\<close>

definition visits :: "bytes list \<Rightarrow> (addr \<times> known_host) list \<Rightarrow> (bytes \<times> addr \<times> known_host) list" where
  "visits hs ns = concat (map (\<lambda>h. map (Pair h) ns) hs)"

definition first_bad :: "(addr \<times> known_host) option \<Rightarrow> (bytes \<times> addr \<times> known_host) list \<Rightarrow> hmac \<Rightarrow> u32 \<Rightarrow>
    (addr \<times> known_host) option" where
  "first_bad bad vs hmac typemask =
     (case bad of Some b \<Rightarrow> Some b
      | None \<Rightarrow> map_option snd (find (\<lambda>(h, an). candidate hmac typemask h an) vs))"

definition search :: "hmac \<Rightarrow> bytes \<Rightarrow> u32 \<Rightarrow> (bytes \<times> addr \<times> known_host) list \<Rightarrow> (addr \<times> known_host) option \<Rightarrow>
    (addr \<times> known_host) + (addr \<times> known_host) option" where
  "search hmac key typemask vs bad =
     (case find (\<lambda>(h, an). candidate hmac typemask h an \<and> right_key key an) vs of
        Some (_, an) \<Rightarrow> Inl an
      | None \<Rightarrow> Inr (first_bad bad vs hmac typemask))"

lemma check_nodes_search:
  "check_nodes hmac h key typemask ns bad = search hmac key typemask (map (Pair h) ns) bad"
  by (induction ns arbitrary: bad)
     (auto simp: search_def first_bad_def candidate_def right_key_def split: option.splits)

lemma find_append: "find P (xs @ ys) = (case find P xs of Some x \<Rightarrow> Some x | None \<Rightarrow> find P ys)"
  by (induction xs) auto

lemma search_append:
  "search hmac key typemask (vs @ ws) bad =
     (case search hmac key typemask vs bad of
        Inl an \<Rightarrow> Inl an | Inr bad' \<Rightarrow> search hmac key typemask ws bad')"
  by (auto simp: search_def first_bad_def find_append split: option.splits)

lemma check_hosts_search:
  "check_hosts hmac hs key typemask ns bad = search hmac key typemask (visits hs ns) bad"
proof (induction hs arbitrary: bad)
  case Nil
  then show ?case by (simp add: visits_def search_def first_bad_def split: option.splits)
next
  case (Cons h hs)
  then show ?case by (simp add: visits_def search_append check_nodes_search split: sum.splits)
qed

lemma set_visits: "set (visits hs ns) = set hs \<times> set ns"
  by (auto simp: visits_def)

lemma find_SomeD: "find P xs = Some x \<Longrightarrow> x \<in> set xs \<and> P x"
  by (auto simp: find_Some_iff)

lemma search_Inl:
  "search hmac key typemask vs bad = Inl an \<Longrightarrow>
     \<exists>h. (h, an) \<in> set vs \<and> candidate hmac typemask h an \<and> right_key key an"
  by (auto simp: search_def split: option.splits dest!: find_SomeD)

lemma search_Inr:
  "search hmac key typemask vs None = Inr bad \<Longrightarrow>
     (\<forall>(h, an) \<in> set vs. \<not> (candidate hmac typemask h an \<and> right_key key an)) \<and>
     (case bad of
        Some b \<Rightarrow> \<exists>h. (h, b) \<in> set vs \<and> candidate hmac typemask h b
      | None \<Rightarrow> \<forall>(h, an) \<in> set vs. \<not> candidate hmac typemask h an)"
  by (auto simp: search_def first_bad_def find_None_iff split: option.splits dest!: find_SomeD)

text \<open>The text that a check compares: the given base64 text, or the encoding of the raw key.\<close>

definition key_text :: "u32 \<Rightarrow> bytes \<Rightarrow> nat \<Rightarrow> bytes" where
  "key_text typemask key keylen =
     (if typemask AND KEYENC_BASE64 = 0 then base64_text (if keylen = 0 then c_str key else take keylen key)
      else c_str key)"

lemma base64_text_Nil_iff: "base64_text bs = [] \<longleftrightarrow> bs = []"
  using length_base64_text [of bs] by (cases bs) auto

lemma key_text_no_zero [simp]: "0 \<notin> set (key_text typemask key keylen)"
  by (simp add: key_text_def base64_text_nonzero)

lemma knownhost_check_search:
  assumes "typemask AND TYPE_MASK \<noteq> TYPE_SHA1" "host_combos hostp port = Some combos"
    and "typemask AND KEYENC_BASE64 = 0 \<longrightarrow> key_text typemask key keylen \<noteq> []"
  shows "knownhost_check hmac True hosts hostp port key keylen typemask =
    Some (case search hmac (key_text typemask key keylen) typemask (visits combos (kh_nodes hosts)) None of
            Inl an \<Rightarrow> ((CHECK_MATCH, Some (knownhost_to_external an)), hosts)
          | Inr (Some bad) \<Rightarrow> ((CHECK_MISMATCH, Some (knownhost_to_external bad)), hosts)
          | Inr None \<Rightarrow> ((CHECK_NOTFOUND, None), hosts))"
  using assms
  by (simp add: knownhost_check_def base64_encode_eq key_text_def check_hosts_search
      split: sum.splits option.splits)


definition sample_entry :: known_host where
  "sample_entry = \<lparr>kh_name = str ''alpha'', kh_port = 0, kh_typemask = 0x90001, kh_salt = None,
     kh_key = str ''AAEC'', kh_key_type_name = None, kh_comment = None\<rparr>"

definition sample_hosts :: knownhosts where
  "sample_hosts = \<lparr>err_code = 0, err_msg = None, err_dup = False, kh_nodes = [(0, sample_entry)], kh_fresh = 1\<rparr>"



section \<open>Adding, deleting, enumerating\<close>

text \<open>The handles of a store: no two entries share an address and the next address is unused.\<close>

definition kh_wf :: "knownhosts \<Rightarrow> bool" where
  "kh_wf hosts \<longleftrightarrow> distinct (map fst (kh_nodes hosts)) \<and> (\<forall>a \<in> fst ` set (kh_nodes hosts). a < kh_fresh hosts)"

lemma kh_fail_simps [simp]:
  "kh_nodes (kh_fail hosts c m) = kh_nodes hosts" "kh_fresh (kh_fail hosts c m) = kh_fresh hosts"
  "kh_wf (kh_fail hosts c m) = kh_wf hosts"
  by (simp_all add: kh_fail_def kh_wf_def libssh2_error_def libssh2_error_flags_def Let_def)

text \<open>What every parsing operation does to the store: entries are appended at fresh addresses.\<close>

definition extends :: "knownhosts \<Rightarrow> knownhosts \<Rightarrow> bool" where
  "extends h h' \<longleftrightarrow> kh_fresh h \<le> kh_fresh h' \<and>
     (\<exists>ns. kh_nodes h' = kh_nodes h @ ns \<and> map fst ns = [kh_fresh h ..< kh_fresh h'])"

lemma extends_refl: "kh_nodes h' = kh_nodes h \<Longrightarrow> kh_fresh h' = kh_fresh h \<Longrightarrow> extends h h'"
  by (simp add: extends_def)

lemma extends_fail: "extends h (kh_fail h c m)"
  by (simp add: extends_refl)

lemma upt_split: "i \<le> j \<Longrightarrow> j \<le> k \<Longrightarrow> [i ..< k] = [i ..< j] @ [j ..< k]"
  by (metis le_add_diff_inverse upt_add_eq_append)

lemma extends_trans: "extends h1 h2 \<Longrightarrow> extends h2 h3 \<Longrightarrow> extends h1 h3"
  by (auto simp: extends_def intro: upt_split [symmetric])

lemma extends_insert: "extends hosts (insert_entry e hosts)"
  by (simp add: extends_def insert_entry_def)

lemma extends_wf:
  assumes "extends h h'" "kh_wf h"
  shows "kh_wf h'"
proof -
  from assms(1) obtain ns where ns: "kh_nodes h' = kh_nodes h @ ns" "map fst ns = [kh_fresh h ..< kh_fresh h']"
    and le: "kh_fresh h \<le> kh_fresh h'"
    by (auto simp: extends_def)
  then have "fst ` set ns = {kh_fresh h ..< kh_fresh h'}"
    by (metis list.set_map set_upt)
  then have "an \<in> set ns \<Longrightarrow> kh_fresh h \<le> fst an \<and> fst an < kh_fresh h'" for an
    by (metis atLeastLessThan_iff imageI)
  then show ?thesis
    using assms(2) ns le by (fastforce simp: kh_wf_def)
qed

lemma knownhost_add_extends:
  "knownhost_add al hosts host salt ktn key keylen comment typemask = Some ((rc, ext), al', hosts') \<Longrightarrow>
     extends hosts hosts'"
  by (auto simp: knownhost_add_def intro: extends_refl extends_insert split: option.splits sum.splits)

lemma oldstyle_loop_extends:
  "oldstyle_loop host kt key keylen key_type comment al hosts pos namelen = Some (rc, al', hosts') \<Longrightarrow>
     extends hosts hosts'"
proof (induction pos arbitrary: al hosts namelen rule: less_induct)
  case (less pos)
  show ?case
  proof (cases pos)
    case (Suc p)
    have IH: "extends h hosts'"
      if "oldstyle_loop host kt key keylen key_type comment a h q n = Some (rc, al', hosts')" "q \<le> p" for a h q n
      using less.IH [of q a h n] that Suc by simp
    from less.prems show ?thesis
      by (auto simp: Suc split: if_splits option.splits dest!: knownhost_add_extends intro: extends_fail
          elim: IH [of _ _ p]) (metis IH extends_trans diff_le_self)
  qed (use less.prems in \<open>auto intro: extends_refl\<close>)
qed

lemma hostline_extends:
  "hostline al hosts host hostlen key keylen = Some (rc, al', hosts') \<Longrightarrow> extends hosts hosts'"
  by (auto simp: hostline_def Let_def oldstyle_hostline_def hashed_hostline_def
      split: if_splits option.splits dest: oldstyle_loop_extends knownhost_add_extends intro: extends_refl)

lemma readline_extends:
  "libssh2_knownhost_readline al hosts line len type = Some (rc, al', hosts') \<Longrightarrow> extends hosts hosts'"
  by (auto simp: libssh2_knownhost_readline_def Let_def split: if_splits prod.splits
      dest: hostline_extends intro: extends_refl)

lemma read_lines_extends:
  "read_lines al hosts bufs type num = Some (rc, al', hosts') \<Longrightarrow> extends hosts hosts'"
proof (induction bufs arbitrary: al hosts num)
  case (Cons buf bufs)
  from Cons.prems show ?case
    by (auto split: if_splits option.splits dest!: readline_extends Cons.IH elim: extends_trans
        intro: extends_trans [OF _ extends_fail])
qed (auto intro: extends_refl)

text \<open>
  reading a known-hosts file never touches what the store already holds.  Whatever the file's
  contents, the pattern of failing allocations and the outcome, the entries before the call stay in
  place with their handles, the new ones follow them, and no two handles coincide.
\<close>

theorem knownhost_readfile_extends:
  assumes "kh_wf hosts" "libssh2_knownhost_readfile al hosts file type = Some (rc, al', hosts')"
  shows "kh_wf hosts' \<and> (\<exists>added. kh_nodes hosts' = kh_nodes hosts @ added)"
proof -
  have "extends hosts hosts'"
    using assms(2) by (auto simp: libssh2_knownhost_readfile_def dest: read_lines_extends
        intro: extends_fail split: if_splits option.splits)
  then show ?thesis
    using assms(1) extends_wf by (auto simp: extends_def)
qed

theorem knownhost_readfile_extends_witness:
  "kh_wf (snd (snd (the (libssh2_knownhost_readfile [] sample_hosts
     (Some (str ''beta ssh-ed25519 AAAAC3NzaC1lZDI1'')) 1))))"
proof -
  have "kh_wf sample_hosts" by code_simp
  moreover have "\<not> Option.is_none (libssh2_knownhost_readfile [] sample_hosts
     (Some (str ''beta ssh-ed25519 AAAAC3NzaC1lZDI1'')) 1)" by code_simp
  ultimately show ?thesis
    using knownhost_readfile_extends [of sample_hosts "[]" "Some (str ''beta ssh-ed25519 AAAAC3NzaC1lZDI1'')" 1]
    by (fastforce simp: Option.is_none_def)
qed

section \<open>Adding and then checking or deleting\<close>

lemma stage_bind_Inr: "stage_bind m f = Some (Inr r) \<longleftrightarrow> (\<exists>x al. m = Some (Inr (x, al)) \<and> f x al = Some (Inr r))"
  by (auto simp: stage_bind_def split: option.splits sum.splits)

lemma base64_encode_cases:
  "base64_encode ok key n = (if ok then Some (Some (base64_text (if n = 0 then c_str key else take n key)))
                             else Some None)"
  by (cases ok) (simp_all add: base64_encode_eq, simp add: base64_encode_def Let_def)

lemma add_key_Inr:
  "add_key al key keylen typemask = Some (Inr (k, al')) \<Longrightarrow>
     k = (if typemask AND KEYENC_BASE64 = 0 then key_text typemask key keylen
          else take (if keylen = 0 then length (c_str key) else keylen) key) \<and>
     (typemask AND KEYENC_BASE64 = 0 \<longrightarrow> k \<noteq> [])"
  by (auto simp: add_key_def key_text_def base64_encode_cases split: prod.splits if_splits)

lemma take_c_str: "take (length (c_str key)) key = c_str key"
  by (metis c_str_def takeWhile_eq_take)

lemma add_name_Inr:
  "add_name al host salt typemask = Some (Inr ((name, sl), al')) \<Longrightarrow>
     typemask AND TYPE_MASK \<in> {TYPE_PLAIN, TYPE_SHA1, TYPE_CUSTOM} \<and>
     (typemask AND TYPE_MASK \<noteq> TYPE_SHA1 \<longrightarrow> name = host)"
  by (auto simp: add_name_def Let_def split: if_splits prod.splits)

lemma base64_decode_fail: "base64_decode False src = Some (Inl E_ALLOC)"
  by (simp add: base64_decode_def)

text \<open>A stage fails with a nonzero code.\<close>

definition proper :: "'a stage \<Rightarrow> bool" where
  "proper m \<longleftrightarrow> (\<forall>c msg. m = Some (Inl (c, msg)) \<longrightarrow> c \<noteq> 0)"

lemma proper_bind: "proper m \<Longrightarrow> (\<And>x al. proper (f x al)) \<Longrightarrow> proper (stage_bind m f)"
  by (auto simp: proper_def stage_bind_def split: option.splits sum.splits)

lemma proper_decode: "proper (b64_decode_stage al src)"
  by (auto simp: proper_def b64_decode_stage_def base64_decode_def Let_def
      split: option.splits sum.splits prod.splits if_splits)

lemma proper_name: "proper (add_name al host salt typemask)"
  using proper_decode unfolding proper_def
  by (fastforce simp: add_name_def Let_def split: option.splits sum.splits prod.splits if_splits)

lemma proper_key: "proper (add_key al key keylen typemask)"
  by (auto simp: proper_def add_key_def base64_encode_cases Let_def split: prod.splits if_splits)

lemma proper_rest: "proper (add_key_type al ktn typemask)" "proper (add_comment al comment)" "proper (Some (Inr r))"
  by (auto simp: proper_def add_key_type_def add_comment_def Let_def split: prod.splits if_splits)

lemma proper_entry: "proper (build_entry al host salt ktn key keylen comment typemask)"
proof (cases "typemask AND KEY_MASK = 0 \<or> \<not> fst (alloc_next al)")
  case True
  then show ?thesis by (auto simp: build_entry_def proper_def split: prod.splits)
next
  case False
  then show ?thesis
    by (auto simp: build_entry_def split: prod.splits
        intro!: proper_bind proper_name proper_key proper_rest)
qed

text \<open>What a successful addition appends.\<close>

lemma knownhost_add_ok:
  assumes "knownhost_add al hosts host salt ktn key keylen comment typemask = Some ((0, ext), al', hosts')"
  obtains e al1 al2 al3 where
    "hosts' = insert_entry e hosts" "ext = Some (knownhost_to_external (kh_fresh hosts, e))"
    "kh_typemask e = typemask" "typemask AND KEY_MASK \<noteq> 0"
    "add_name al1 (c_str host) salt typemask = Some (Inr ((kh_name e, kh_salt e), al2))"
    "add_key al2 key keylen typemask = Some (Inr (kh_key e, al3))"
proof -
  have "\<exists>e al''. build_entry al (c_str host) salt ktn key keylen comment typemask = Some (Inr (e, al'')) \<and>
      hosts' = insert_entry e hosts \<and> ext = Some (knownhost_to_external (kh_fresh hosts, e))"
    using assms proper_entry [of al "c_str host" salt ktn key keylen comment typemask]
    by (auto simp: knownhost_add_def proper_def split: option.splits sum.splits)
  then obtain e al'' where
    e: "build_entry al (c_str host) salt ktn key keylen comment typemask = Some (Inr (e, al''))"
       "hosts' = insert_entry e hosts" "ext = Some (knownhost_to_external (kh_fresh hosts, e))"
    by blast
  from e(1) show ?thesis
    by (auto simp: build_entry_def stage_bind_Inr split: if_splits prod.splits intro!: that [OF e(2,3)])
qed

lemma insert_entry_simps [simp]:
  "kh_nodes (insert_entry e hosts) = kh_nodes hosts @ [(kh_fresh hosts, e)]"
  "kh_fresh (insert_entry e hosts) = Suc (kh_fresh hosts)"
  by (simp_all add: insert_entry_def)

lemma search_match:
  assumes "candidate hmac typemask h an" "right_key key an" "(h, an) \<in> set vs"
  shows "\<exists>an'. search hmac key typemask vs None = Inl an'"
proof -
  have "find (\<lambda>(h, an). candidate hmac typemask h an \<and> right_key key an) vs \<noteq> None"
    using assms by (cases an) (auto simp: find_None_iff)
  then show ?thesis
    by (auto simp: search_def split: option.splits)
qed

lemma check_match:
  assumes "typemask AND TYPE_MASK \<noteq> TYPE_SHA1" "an \<in> set (kh_nodes hosts)"
    and "candidate hmac typemask hostp an" "right_key (key_text typemask key keylen) an"
    and "typemask AND KEYENC_BASE64 = 0 \<longrightarrow> key_text typemask key keylen \<noteq> []"
  shows "\<exists>ext. libssh2_knownhost_check hmac True hosts hostp key keylen typemask = Some ((CHECK_MATCH, Some ext), hosts)"
proof -
  have "(hostp, an) \<in> set (visits [hostp] (kh_nodes hosts))"
    using assms(2) by (simp add: set_visits)
  with search_match [OF assms(3,4)] obtain an' where
    "search hmac (key_text typemask key keylen) typemask (visits [hostp] (kh_nodes hosts)) None = Inl an'"
    by blast
  then show ?thesis
    using knownhost_check_search [OF assms(1) _ assms(5), of hostp "-1" "[hostp]"]
    by (simp add: libssh2_knownhost_check_def host_combos_def)
qed

text \<open>
  A host added in the clear (or under a custom hash) is found again.  After a successful
  \<open>libssh2_knownhost_add\<close> of a host with a raw key, or with a base64 key given as a C string,
  \<open>libssh2_knownhost_check\<close> of that host with that key and the same type mask answers \<open>MATCH\<close>, provided
  the key type is a known one.
\<close>

theorem knownhost_add_then_check:
  assumes "libssh2_knownhost_add al hosts host salt key keylen typemask = Some ((0, ext), al', hosts')"
    and "typemask AND TYPE_MASK \<noteq> TYPE_SHA1" "typemask AND KEY_MASK \<noteq> KEY_UNKNOWN"
    and "typemask AND KEYENC_BASE64 = 0 \<or> keylen = 0"
  shows "\<exists>e. libssh2_knownhost_check hmac True hosts' (c_str host) key keylen typemask
               = Some ((CHECK_MATCH, Some e), hosts')"
proof -
  from assms(1) obtain e al1 al2 al3 where e:
    "hosts' = insert_entry e hosts" "kh_typemask e = typemask"
    "add_name al1 (c_str host) salt typemask = Some (Inr ((kh_name e, kh_salt e), al2))"
    "add_key al2 key keylen typemask = Some (Inr (kh_key e, al3))"
    unfolding libssh2_knownhost_add_def by (rule knownhost_add_ok)
  note name = add_name_Inr [OF e(3)] and k = add_key_Inr [OF e(4)]
  have key: "kh_key e = key_text typemask key keylen"
    using k assms(4) by (auto simp: key_text_def take_c_str)
  have "candidate hmac typemask (c_str host) (kh_fresh hosts, e)"
    using name assms(2,3) by (auto simp: candidate_def host_matches_def key_type_matches_def e(2))
  then show ?thesis
    using k by (intro check_match [OF assms(2), of "(kh_fresh hosts, e)"])
      (auto simp: e(1) key right_key_def)
qed

theorem knownhost_add_then_check_witness:
  "\<exists>ext al' hosts' e. libssh2_knownhost_add [] sample_hosts (str ''beta'') None [7, 8, 9, 10] 4 0x90001
       = Some ((0, ext), al', hosts') \<and>
     libssh2_knownhost_check (\<lambda>_ _. None) True hosts' (c_str (str ''beta'')) [7, 8, 9, 10] 4 0x90001
       = Some ((CHECK_MATCH, Some e), hosts')"
proof -
  let ?a = "libssh2_knownhost_add [] sample_hosts (str ''beta'') None [7, 8, 9, 10] 4 0x90001"
  have "case ?a of None \<Rightarrow> False | Some ((rc, ext), al', hosts') \<Rightarrow> rc = 0"
    by code_simp
  then have "?a = Some ((0, snd (fst (the ?a))), fst (snd (the ?a)), snd (snd (the ?a)))"
    by (cases ?a) auto
  moreover have "0x90001 AND TYPE_MASK \<noteq> TYPE_SHA1" "0x90001 AND KEY_MASK \<noteq> KEY_UNKNOWN"
    "0x90001 AND KEYENC_BASE64 = 0" by code_simp+
  ultimately show ?thesis
    using knownhost_add_then_check by blast
qed

text \<open>
  A hashed entry recognises its host.  After a successful addition of an entry of type SHA1 whose
  name is the base64 text of the HMAC of the host under the salt, and whose salt is given in base64,
  checking the host in the clear answers \<open>MATCH\<close>; the store holds the host name nowhere.
\<close>

theorem knownhost_hashed_then_check:
  assumes "libssh2_knownhost_add al hosts (base64_text digest) (Some (base64_text sl)) key keylen typemask
             = Some ((0, ext), al', hosts')"
    and "hmac sl host = Some digest" "length digest = SHA_DIGEST_LENGTH"
    and "typemask AND TYPE_MASK = TYPE_SHA1"
    and "ctype AND TYPE_MASK = TYPE_PLAIN" "ctype AND KEY_MASK = typemask AND KEY_MASK"
    and "ctype AND KEY_MASK \<noteq> KEY_UNKNOWN"
    and "ctype AND KEYENC_BASE64 = 0" "typemask AND KEYENC_BASE64 = 0"
  shows "\<exists>e. libssh2_knownhost_check hmac True hosts' host key keylen ctype = Some ((CHECK_MATCH, Some e), hosts')"
proof -
  from assms(1) obtain e al1 al2 al3 where e:
    "hosts' = insert_entry e hosts" "kh_typemask e = typemask"
    "add_name al1 (c_str (base64_text digest)) (Some (base64_text sl)) typemask
       = Some (Inr ((kh_name e, kh_salt e), al2))"
    "add_key al2 key keylen typemask = Some (Inr (kh_key e, al3))"
    unfolding libssh2_knownhost_add_def by (rule knownhost_add_ok)
  have decode: "b64_decode_stage al0 (base64_text bs) = Some (Inr (x, al9)) \<Longrightarrow> x = bs" for al0 al9 bs x
    by (cases "alloc_next al0"; cases "fst (alloc_next al0)")
       (auto simp: b64_decode_stage_def base64_decode_text base64_decode_fail)
  have name: "kh_name e = digest" "kh_salt e = Some sl"
    using e(3) assms(4)
    by (auto simp: add_name_def base64_text_nonzero dest!: decode split: option.splits sum.splits)
  note k = add_key_Inr [OF e(4)]
  have txt_eq: "key_text ctype key keylen = key_text typemask key keylen"
    using assms(8,9) by (simp add: key_text_def)
  have "candidate hmac ctype host (kh_fresh hosts, e)"
    using name assms(2-7)
    by (simp add: candidate_def host_matches_def key_type_matches_def e(2) SHA_DIGEST_LENGTH_def)
  moreover have "right_key (key_text ctype key keylen) (kh_fresh hosts, e)"
    using k assms(9) by (simp add: right_key_def txt_eq)
  ultimately show ?thesis
    using k assms(5,9) by (intro check_match [of _ "(kh_fresh hosts, e)"]) (auto simp: e(1) txt_eq)
qed

text \<open>A stand-in for the backend's HMAC, for the witness: salt and host, cut or padded to 20 bytes.\<close>

definition toy_hmac :: hmac where
  "toy_hmac sl host = Some (take 20 (sl @ host @ replicate 20 0))"

theorem knownhost_hashed_then_check_witness:
  "\<exists>ext al' hosts' e. libssh2_knownhost_add [] sample_hosts (base64_text (the (toy_hmac [1, 2] (str ''gamma''))))
       (Some (base64_text [1, 2])) [7, 8, 9] 3 0x90002 = Some ((0, ext), al', hosts') \<and>
     libssh2_knownhost_check toy_hmac True hosts' (str ''gamma'') [7, 8, 9] 3 0x90001
       = Some ((CHECK_MATCH, Some e), hosts')"
proof -
  let ?a = "libssh2_knownhost_add [] sample_hosts (base64_text (the (toy_hmac [1, 2] (str ''gamma''))))
     (Some (base64_text [1, 2])) [7, 8, 9] 3 0x90002"
  have "case ?a of None \<Rightarrow> False | Some ((rc, ext), al', hosts') \<Rightarrow> rc = 0"
    by code_simp
  then have "?a = Some ((0, snd (fst (the ?a))), fst (snd (the ?a)), snd (snd (the ?a)))"
    by (cases ?a) auto
  moreover have "toy_hmac [1, 2] (str ''gamma'') = Some (the (toy_hmac [1, 2] (str ''gamma'')))"
    "length (the (toy_hmac [1, 2] (str ''gamma''))) = SHA_DIGEST_LENGTH"
    "0x90002 AND TYPE_MASK = TYPE_SHA1" "0x90001 AND TYPE_MASK = TYPE_PLAIN"
    "0x90001 AND KEY_MASK = (0x90002 :: u32) AND KEY_MASK" "0x90001 AND KEY_MASK \<noteq> KEY_UNKNOWN"
    "0x90001 AND KEYENC_BASE64 = 0" "0x90002 AND KEYENC_BASE64 = 0" by code_simp+
  ultimately show ?thesis
    using knownhost_hashed_then_check [of "[]" sample_hosts "the (toy_hmac [1, 2] (str ''gamma''))" "[1, 2]"
      "[7, 8, 9]" 3 "0x90002" _ _ _ toy_hmac "str ''gamma''" "0x90001"] by blast
qed

text \<open>
  Deleting undoes adding.  The handle that a successful addition returns deletes exactly the new entry:
  the store's entries are again those before the addition, in the same order.
\<close>

theorem knownhost_add_then_del:
  assumes "kh_wf hosts"
    and "libssh2_knownhost_addc al hosts host salt key keylen comment typemask = Some ((0, ext), al', hosts')"
  shows "fst (libssh2_knownhost_del hosts' ext) = 0 \<and>
    kh_nodes (snd (libssh2_knownhost_del hosts' ext)) = kh_nodes hosts"
proof -
  from assms(2) obtain e where e:
    "hosts' = insert_entry e hosts" "ext = Some (knownhost_to_external (kh_fresh hosts, e))"
    unfolding libssh2_knownhost_addc_def by (rule knownhost_add_ok)
  have "fst an \<noteq> kh_fresh hosts" if "an \<in> set (kh_nodes hosts)" for an
    using assms(1) that by (auto simp: kh_wf_def)
  then show ?thesis
    by (simp add: e libssh2_knownhost_del_def knownhost_to_external_def)
qed

theorem knownhost_add_then_del_witness:
  "\<exists>ext al' hosts'. libssh2_knownhost_addc [] sample_hosts (str ''beta'') None [7, 8] 2 (Some (str ''me'')) 0x90001
       = Some ((0, ext), al', hosts') \<and>
     kh_nodes (snd (libssh2_knownhost_del hosts' ext)) = kh_nodes sample_hosts"
proof -
  let ?a = "libssh2_knownhost_addc [] sample_hosts (str ''beta'') None [7, 8] 2 (Some (str ''me'')) 0x90001"
  have "case ?a of None \<Rightarrow> False | Some ((rc, ext), al', hosts') \<Rightarrow> rc = 0"
    by code_simp
  then have "?a = Some ((0, snd (fst (the ?a))), fst (snd (the ?a)), snd (snd (the ?a)))"
    by (cases ?a) auto
  moreover have "kh_wf sample_hosts" by code_simp
  ultimately show ?thesis
    using knownhost_add_then_del by blast
qed

text \<open>The loop of a client that walks the store with \<open>libssh2_knownhost_get\<close>, for at most \<open>n\<close> calls.\<close>

fun get_all :: "nat \<Rightarrow> knownhosts \<Rightarrow> libssh2_knownhost option \<Rightarrow> libssh2_knownhost list" where
  "get_all 0 hosts prev = []"
| "get_all (Suc n) hosts prev =
     (case libssh2_knownhost_get hosts prev of
        (rc, Some e) \<Rightarrow> e # get_all n hosts (Some e)
      | (rc, None) \<Rightarrow> [])"

lemma node_after_split:
  "distinct (map fst (xs @ an # ys)) \<Longrightarrow> node_after (fst an) (xs @ an # ys) = (case ys of [] \<Rightarrow> None | n # _ \<Rightarrow> Some n)"
  by (induction xs) auto

lemma get_all_from:
  assumes "distinct (map fst (kh_nodes hosts))" "kh_nodes hosts = xs @ an # ys" "length ys < n"
  shows "get_all n hosts (Some (knownhost_to_external an)) = map knownhost_to_external ys"
  using assms(2,3)
proof (induction ys arbitrary: xs an n)
  case Nil
  then show ?case
    using node_after_split [of xs an "[]"] assms(1)
    by (cases n) (auto simp: libssh2_knownhost_get_def knownhost_to_external_def)
next
  case (Cons b ys)
  obtain m where "n = Suc m" "length ys < m"
    using Cons.prems by (cases n) auto
  then show ?case
    using node_after_split [of xs an "b # ys"] Cons.prems assms(1) Cons.IH [of "xs @ [an]" b m]
    by (simp add: libssh2_knownhost_get_def knownhost_to_external_def)
qed

text \<open>
  Walking the store with \<open>libssh2_knownhost_get\<close> from a null handle until it reports the end
  returns every entry exactly once, in the order of insertion.
\<close>

theorem knownhost_get_enumerates:
  assumes "kh_wf hosts" "length (kh_nodes hosts) < n"
  shows "get_all n hosts None = map knownhost_to_external (kh_nodes hosts)"
proof -
  obtain m where n: "n = Suc m" using assms(2) by (cases n) auto
  show ?thesis
  proof (cases "kh_nodes hosts")
    case Nil
    then show ?thesis by (simp add: n libssh2_knownhost_get_def)
  next
    case (Cons an ys)
    then show ?thesis
      using get_all_from [of hosts "[]" an ys m] assms
      by (simp add: n libssh2_knownhost_get_def kh_wf_def)
  qed
qed

theorem knownhost_get_enumerates_witness:
  "get_all 2 sample_hosts None = map knownhost_to_external (kh_nodes sample_hosts)"
proof -
  have "kh_wf sample_hosts" "length (kh_nodes sample_hosts) < 2" by code_simp+
  then show ?thesis by (rule knownhost_get_enumerates)
qed

end
