(* ===== verification/Knownhost_Lines.thy ===== *)
theory Knownhost_Lines
  imports Knownhost_Store
begin

text \<open>
  Correctness of the line format of the known-hosts store: what \<open>knownhost_writeline\<close> puts into the caller's
  buffer, that \<open>libssh2_knownhost_readline\<close> reads such a line back to the same entry, and the lines that
  the reader drops.
\<close>

section \<open>Printing\<close>

definition is_hashed :: "known_host \<Rightarrow> bool" where
  "is_hashed e \<longleftrightarrow> kh_typemask e AND TYPE_MASK = TYPE_SHA1"

definition line_host :: "known_host \<Rightarrow> bytes" where
  "line_host e =
     (if is_hashed e then str ''|1|'' @ base64_text (the (kh_salt e)) @ [BAR] @ base64_text (kh_name e)
      else kh_name e)"

definition line_key :: "bytes \<Rightarrow> known_host \<Rightarrow> bytes" where
  "line_key ktn e =
     (if ktn = [] then [] else ktn @ [SPACE]) @ kh_key e @
     (case kh_comment e of None \<Rightarrow> [] | Some c \<Rightarrow> [SPACE] @ c)"

text \<open>The line of an entry, without its newline.\<close>

definition line_text :: "bytes \<Rightarrow> known_host \<Rightarrow> bytes" where
  "line_text ktn e = line_host e @ [SPACE] @ line_key ktn e"

text \<open>The fields are C strings, and a hashed entry has a salt and a digest.\<close>

definition printable :: "bytes \<Rightarrow> known_host \<Rightarrow> bool" where
  "printable ktn e \<longleftrightarrow>
     0 \<notin> set ktn \<and> 0 \<notin> set (kh_key e) \<and> (case kh_comment e of None \<Rightarrow> True | Some c \<Rightarrow> 0 \<notin> set c) \<and>
     (if is_hashed e then kh_name e \<noteq> [] \<and> kh_salt e \<noteq> None \<and> kh_salt e \<noteq> Some [] else 0 \<notin> set (kh_name e))"

lemma line_tail_eq:
  "printable ktn e \<Longrightarrow> line_tail ktn e = [SPACE] @ line_key ktn e @ [NEWLINE]"
  by (auto simp: line_tail_def line_key_def printable_def split: option.splits)

lemma snprintf_fits: "length t < length buf \<Longrightarrow> snprintf_into t buf = Some (t @ [0] @ drop (Suc (length t)) buf)"
  by (auto simp: snprintf_into_def poke_def)

lemma writeline_line:
  assumes "line_key_type e = Inr ktn" "printable ktn e"
  defines "l \<equiv> line_text ktn e @ [NEWLINE]"
  shows "knownhost_writeline [] hosts e buf FILE_OPENSSH =
    Some (if length l < length buf
          then ((E_NONE, Some (length l), l @ [0] @ drop (Suc (length l)) buf), [], hosts)
          else ((E_BUFFER_TOO_SMALL, Some (length l), buf), [],
                kh_fail hosts E_BUFFER_TOO_SMALL ''Known-host write buffer too small''))"
proof -
  have len: "length (line_key ktn e) = length (kh_key e) + (if ktn = [] then 0 else length ktn + 1) +
      (case kh_comment e of Some c \<Rightarrow> length c + 1 | None \<Rightarrow> 0)"
    by (simp add: line_key_def split: option.splits)
  have k: "c_str (kh_key e) = kh_key e"
    using assms(2) by (simp add: printable_def)
  show ?thesis
  proof (cases "is_hashed e")
    case True
    then obtain sl where sl: "kh_salt e = Some sl" "sl \<noteq> []" "kh_name e \<noteq> []"
      using assms(2) by (auto simp: printable_def)
    then show ?thesis
      using True assms(1,2) len
      by (simp add: knownhost_writeline_def Let_def is_hashed_def base64_encode_eq base64_text_Nil_iff
          line_tail_eq l_def line_text_def line_host_def k snprintf_fits Suc_le_eq str_def)
  next
    case False
    then show ?thesis
      using assms(1,2) len
      by (simp add: knownhost_writeline_def Let_def is_hashed_def line_tail_eq l_def line_text_def line_host_def k
          snprintf_fits printable_def Suc_le_eq)
  qed
qed



section \<open>Reading a printed line back\<close>

lemma scan_stop:
  assumes "\<forall>x \<in> set xs. P x" "length xs \<le> n" "n = length xs \<or> r = [] \<or> \<not> P (hd r)"
  shows "scan P (xs @ r) n = (r, n - length xs)"
  using assms
proof (induction xs arbitrary: n)
  case Nil
  then show ?case by (cases r; cases n) auto
next
  case (Cons x xs)
  then show ?case by (cases n) auto
qed

definition field_byte :: "byte \<Rightarrow> bool" where
  "field_byte b \<longleftrightarrow> b \<noteq> 0 \<and> b \<noteq> SPACE \<and> b \<noteq> TAB \<and> b \<noteq> NEWLINE"

definition is_field :: "bytes \<Rightarrow> bool" where
  "is_field f \<longleftrightarrow> f \<noteq> [] \<and> list_all field_byte f"

text \<open>
  The entries that a line can carry: a key type with a name of its own, a non-empty key without blanks, a
  comment that does not begin with a blank, and either a plain host name of 3 to 254 bytes without commas that
  is not a comment or a hashed line, or a salt and a digest that fit the reader's buffers.
\<close>

definition named_types :: "u32 list" where
  "named_types = [KEY_SSHRSA, KEY_ECDSA_256, KEY_ECDSA_384, KEY_ECDSA_521, KEY_ED25519]"

definition storable :: "known_host \<Rightarrow> bool" where
  "storable e \<longleftrightarrow>
     kh_port e = 0 \<and> kh_key_type_name e = None \<and> is_field (kh_key e) \<and> 12 \<le> length (kh_key e) \<and>
     (case kh_comment e of None \<Rightarrow> True
      | Some c \<Rightarrow> 0 \<notin> set c \<and> NEWLINE \<notin> set c \<and> \<not> is_ws (peek c)) \<and>
     (if is_hashed e then
        kh_name e \<noteq> [] \<and> length (base64_text (kh_name e)) < 255 \<and>
        (case kh_salt e of None \<Rightarrow> False | Some sl \<Rightarrow> sl \<noteq> [] \<and> length (base64_text sl) < 31) \<and>
        (\<exists>kt \<in> set named_types. kh_typemask e = kt OR TYPE_SHA1 OR KEYENC_BASE64)
      else
        is_field (kh_name e) \<and> 3 \<le> length (kh_name e) \<and> length (kh_name e) < 255 \<and>
        COMMA \<notin> set (kh_name e) \<and> take 3 (kh_name e) \<noteq> str ''|1|'' \<and> hd (kh_name e) \<noteq> HASH \<and>
        kh_salt e = None \<and>
        (\<exists>kt \<in> set named_types. kh_typemask e = kt OR TYPE_PLAIN OR KEYENC_BASE64))"

definition type_name :: "u32 \<Rightarrow> bytes" where
  "type_name kt =
     (if kt = KEY_SSHRSA then str ''ssh-rsa''
      else if kt = KEY_ECDSA_256 then str ''ecdsa-sha2-nistp256''
      else if kt = KEY_ECDSA_384 then str ''ecdsa-sha2-nistp384''
      else if kt = KEY_ECDSA_521 then str ''ecdsa-sha2-nistp521''
      else str ''ssh-ed25519'')"

lemma named_types_facts:
  assumes "kt \<in> set named_types"
  shows "is_field (type_name kt)" "\<not> is_digit (hd (type_name kt))" "7 \<le> length (type_name kt)"
    "key_type_of (type_name kt) (length (type_name kt)) = kt"
    "(kt OR TYPE_PLAIN OR KEYENC_BASE64) AND KEY_MASK = kt" "(kt OR TYPE_SHA1 OR KEYENC_BASE64) AND KEY_MASK = kt"
    "kt \<noteq> 0" "kt \<noteq> KEY_UNKNOWN" "kt \<noteq> KEY_RSA1"
proof -
  have "list_all (\<lambda>kt. is_field (type_name kt) \<and> \<not> is_digit (hd (type_name kt)) \<and> 7 \<le> length (type_name kt) \<and>
      key_type_of (type_name kt) (length (type_name kt)) = kt \<and>
      (kt OR TYPE_PLAIN OR KEYENC_BASE64) AND KEY_MASK = kt \<and> (kt OR TYPE_SHA1 OR KEYENC_BASE64) AND KEY_MASK = kt \<and>
      kt \<noteq> 0 \<and> kt \<noteq> KEY_UNKNOWN \<and> kt \<noteq> KEY_RSA1) named_types"
    by code_simp
  with assms show "is_field (type_name kt)" "\<not> is_digit (hd (type_name kt))" "7 \<le> length (type_name kt)"
    "key_type_of (type_name kt) (length (type_name kt)) = kt"
    "(kt OR TYPE_PLAIN OR KEYENC_BASE64) AND KEY_MASK = kt" "(kt OR TYPE_SHA1 OR KEYENC_BASE64) AND KEY_MASK = kt"
    "kt \<noteq> 0" "kt \<noteq> KEY_UNKNOWN" "kt \<noteq> KEY_RSA1"
    unfolding list_all_iff by blast+
qed

lemma line_key_type_named:
  "kt \<in> set named_types \<Longrightarrow> kh_typemask e AND KEY_MASK = kt \<Longrightarrow> line_key_type e = Inr (type_name kt)"
  by (auto simp: named_types_def line_key_type_def type_name_def LIBSSH2_DSA_def)

lemma c_str_prefix: "0 \<notin> set a \<Longrightarrow> c_str (a @ r) = a @ c_str r"
  by (induction a) (auto simp: c_str_def)

lemma strncmp_eq_prefix:
  "0 \<notin> set ktn \<Longrightarrow> strncmp_eq (ktn @ r) lit (length ktn) = strncmp_eq ktn lit (length ktn)"
  by (simp add: strncmp_eq_def c_str_prefix)

lemma key_type_of_prefix: "0 \<notin> set ktn \<Longrightarrow> key_type_of (ktn @ r) (length ktn) = key_type_of ktn (length ktn)"
  by (simp add: key_type_of_def strncmp_eq_prefix)

lemma is_field_no_zero: "is_field f \<Longrightarrow> 0 \<notin> set f"
  by (auto simp: is_field_def list_all_iff field_byte_def)

lemma is_fieldE:
  assumes "is_field f"
  obtains a f' where "f = a # f'" "field_byte a"
  using assms by (cases f) (auto simp: is_field_def)

lemma field_scan:
  assumes "is_field f" "length f \<le> n" "n = length f \<or> r = [] \<or> hd r = SPACE"
  shows "scan (\<lambda>b. b \<noteq> 0 \<and> b \<noteq> SPACE \<and> b \<noteq> TAB) (f @ r) n = (r, n - length f)"
  using assms by (intro scan_stop) (auto simp: is_field_def list_all_iff field_byte_def)

text \<open>The key part of a printed line is parsed into the entry's type, key and comment.\<close>

lemma parse_line_key:
  assumes kt: "kt \<in> set named_types" and key: "is_field (kh_key e)"
    and comment: "case kh_comment e of None \<Rightarrow> True
      | Some c \<Rightarrow> 0 \<notin> set c \<and> NEWLINE \<notin> set c \<and> \<not> is_ws (peek c)"
    and len: "length (line_key (type_name kt) e) < 2 ^ 64"
  shows "parse_key (line_key (type_name kt) e @ [NEWLINE]) (length (line_key (type_name kt) e)) =
    \<lparr>kf_type = kt, kf_type_name = Some (type_name kt),
     kf_key = kh_key e @ (case kh_comment e of None \<Rightarrow> [] | Some c \<Rightarrow> [SPACE] @ c) @ [NEWLINE],
     kf_keylen = length (kh_key e), kf_comment = kh_comment e\<rparr>"
proof -
  note nt = named_types_facts [OF kt]
  define rest where "rest = (case kh_comment e of None \<Rightarrow> [] | Some c \<Rightarrow> [SPACE] @ c)"
  obtain a ktn' where a: "type_name kt = a # ktn'" using nt(1) by (rule is_fieldE)
  have lk: "line_key (type_name kt) e = type_name kt @ [SPACE] @ kh_key e @ rest"
    by (simp add: line_key_def a rest_def)
  obtain k ks where k: "kh_key e = k # ks" "field_byte k" using key by (rule is_fieldE)
  have s1: "scan (\<lambda>b. b \<noteq> 0 \<and> b \<noteq> SPACE \<and> b \<noteq> TAB) (type_name kt @ SPACE # kh_key e @ rest @ [NEWLINE])
      (length (line_key (type_name kt) e)) = (SPACE # kh_key e @ rest @ [NEWLINE], Suc (length (kh_key e @ rest)))"
    by (subst field_scan [OF nt(1)]) (simp_all add: lk)
  have s2: "scan (\<lambda>b. b \<noteq> 0 \<and> b \<noteq> SPACE \<and> b \<noteq> TAB) (kh_key e @ rest @ [NEWLINE]) (length (kh_key e @ rest))
      = (rest @ [NEWLINE], length rest)"
    using field_scan [OF key, of "length (kh_key e @ rest)" "rest @ [NEWLINE]"]
    by (simp add: rest_def split: option.splits)
  have s3: "scan (\<lambda>b. b \<noteq> 0 \<and> is_ws b) (c @ [NEWLINE]) (length c) = (c @ [NEWLINE], length c)"
    if "\<not> is_ws (peek c)" for c
    using scan_stop [of "[]" "\<lambda>b. b \<noteq> 0 \<and> is_ws b" "length c" "c @ [NEWLINE]"] that
    by (cases c) (simp_all add: is_ws_def peek_def)
  have "is_digit (peek (type_name kt @ r)) = False" for r
    using nt(2) by (simp add: a peek_def)
  moreover have "key_type_of (type_name kt @ r) (length (type_name kt)) = kt" for r
    using key_type_of_prefix [OF is_field_no_zero [OF nt(1)]] nt(4) by simp
  moreover have "takeWhile is_ws (SPACE # kh_key e @ rest @ [NEWLINE]) = [SPACE]"
    using k by (simp add: is_ws_def field_byte_def)
  moreover have "size_sub (Suc (length (kh_key e @ rest))) (Suc 0) = length (kh_key e @ rest)"
    using len by (simp add: lk)
  ultimately show ?thesis
    unfolding parse_key_def using comment
    by (simp add: lk s1 [unfolded lk, simplified] s2 [simplified] Let_def)
       (auto simp: rest_def s3 lk split: option.splits)
qed

lemma length_table64: "length table64 = 64"
  by code_simp

lemma base64_text_chars: "set (base64_text bs) \<subseteq> set table64 \<union> set (str ''='')"
proof -
  have t: "x \<in> set (sextets a b c) \<Longrightarrow> table64 ! unat x \<in> set table64" for x a b c
    using sextets_small [of x a b c] length_table64 by simp
  have g: "set (enc_group a b c n) \<subseteq> set table64 \<union> set (str ''='')" if "n \<in> {1, 2, 3}" for a b c n
    using that t by (auto simp: enc_group_sextets str_def simp flip: One_nat_def dest!: in_set_takeD)
  show ?thesis
    by (induction bs rule: base64_text.induct) (use g in \<open>auto simp del: One_nat_def\<close>)
qed

lemma base64_text_field: "bs \<noteq> [] \<Longrightarrow> is_field (base64_text bs)"
proof -
  have "list_all field_byte table64" "list_all field_byte (str ''='')" by code_simp+
  then show "bs \<noteq> [] \<Longrightarrow> is_field (base64_text bs)"
    using base64_text_chars [of bs] by (auto simp: is_field_def base64_text_Nil_iff list_all_iff)
qed

lemma base64_text_no_bar: "BAR \<notin> set (base64_text bs)"
proof -
  have "list_all (\<lambda>b. b \<noteq> BAR) table64" "list_all (\<lambda>b. b \<noteq> BAR) (str ''='')" by code_simp+
  then show ?thesis
    using base64_text_chars [of bs] by (auto simp: list_all_iff)
qed

text \<open>A host field without commas is added as one plain entry.\<close>

lemma oldstyle_single:
  assumes "\<forall>i < pos. host ! i \<noteq> COMMA" "Suc (pos + namelen) < 255"
  shows "oldstyle_loop host kt key keylen key_type comment al hosts (Suc pos) namelen =
    (case knownhost_add al hosts (take (Suc (pos + namelen)) host) None kt key keylen comment
            (key_type OR TYPE_PLAIN OR KEYENC_BASE64) of
       None \<Rightarrow> None
     | Some ((rc, _), al', hosts') \<Rightarrow> Some (rc, al', hosts'))"
  using assms
proof (induction pos arbitrary: namelen)
  case 0
  then show ?case by (auto split: option.splits)
next
  case (Suc pos)
  then show ?case using Suc.IH [of "Suc namelen"] by simp
qed

lemma build_plain:
  assumes "kt \<in> set named_types" "key \<noteq> []"
  shows "build_entry [] name None (Some ktn) (key @ r) (length key) comment (kt OR TYPE_PLAIN OR KEYENC_BASE64) =
    Some (Inr (\<lparr>kh_name = name, kh_port = 0, kh_typemask = kt OR TYPE_PLAIN OR KEYENC_BASE64, kh_salt = None,
      kh_key = key, kh_key_type_name = None, kh_comment = comment\<rparr>, []))"
proof -
  have "list_all (\<lambda>kt. (kt OR TYPE_PLAIN OR KEYENC_BASE64) AND TYPE_MASK = TYPE_PLAIN \<and>
      (kt OR TYPE_PLAIN OR KEYENC_BASE64) AND KEYENC_BASE64 \<noteq> 0) named_types" by code_simp
  then have "(kt OR TYPE_PLAIN OR KEYENC_BASE64) AND TYPE_MASK = TYPE_PLAIN"
    "(kt OR TYPE_PLAIN OR KEYENC_BASE64) AND KEYENC_BASE64 \<noteq> 0"
    using assms(1) unfolding list_all_iff by blast+
  then show ?thesis
    using assms named_types_facts [OF assms(1)]
    by (simp add: build_entry_def stage_bind_def add_name_def add_key_def add_key_type_def add_comment_def)
qed

lemma build_hashed:
  assumes "kt \<in> set named_types" "key \<noteq> []"
  shows "build_entry [] (base64_text name) (Some (base64_text sl)) (Some ktn) (key @ r) (length key) comment
      (kt OR TYPE_SHA1 OR KEYENC_BASE64) =
    Some (Inr (\<lparr>kh_name = name, kh_port = 0, kh_typemask = kt OR TYPE_SHA1 OR KEYENC_BASE64, kh_salt = Some sl,
      kh_key = key, kh_key_type_name = None, kh_comment = comment\<rparr>, []))"
proof -
  have "list_all (\<lambda>kt. (kt OR TYPE_SHA1 OR KEYENC_BASE64) AND TYPE_MASK = TYPE_SHA1 \<and>
      (kt OR TYPE_SHA1 OR KEYENC_BASE64) AND KEYENC_BASE64 \<noteq> 0) named_types" by code_simp
  then have "(kt OR TYPE_SHA1 OR KEYENC_BASE64) AND TYPE_MASK = TYPE_SHA1"
    "(kt OR TYPE_SHA1 OR KEYENC_BASE64) AND KEYENC_BASE64 \<noteq> 0"
    using assms(1) unfolding list_all_iff by blast+
  then show ?thesis
    using assms named_types_facts [OF assms(1)]
    by (simp add: build_entry_def stage_bind_def add_name_def add_key_def add_key_type_def add_comment_def
        b64_decode_stage_def base64_text_nonzero base64_decode_text)
qed

lemma readline_split:
  assumes H: "is_field H" "hd H \<noteq> HASH" and K: "field_byte (hd K)" "K \<noteq> []" "0 \<notin> set K" "NEWLINE \<notin> set K"
  defines "l \<equiv> H @ SPACE # K @ [NEWLINE]"
  shows "libssh2_knownhost_readline al hosts l (length l) FILE_OPENSSH =
    hostline al hosts l (length H) (K @ [NEWLINE]) (length K)"
proof -
  obtain h H' where h: "H = h # H'" "field_byte h" using H(1) by (rule is_fieldE)
  obtain k K' where k: "K = k # K'" "field_byte k" using K(1,2) by (cases K) auto
  have s1: "scan is_ws l (length l) = (l, length l)"
    using h(2) by (simp add: l_def h(1) is_ws_def field_byte_def)
  have s2: "scan (\<lambda>b. b \<noteq> 0 \<and> b \<noteq> SPACE \<and> b \<noteq> TAB) l (length l) = (SPACE # K @ [NEWLINE], Suc (Suc (length K)))"
    using field_scan [OF H(1), of "length l" "SPACE # K @ [NEWLINE]"] by (simp add: l_def)
  have s3: "scan (\<lambda>b. b \<noteq> 0 \<and> is_ws b) (SPACE # K @ [NEWLINE]) (Suc (Suc (length K)))
      = (K @ [NEWLINE], Suc (length K))"
    using k(2) by (simp add: k(1) is_ws_def field_byte_def)
  have s4: "scan (\<lambda>b. b \<noteq> 0 \<and> b \<noteq> NEWLINE) (K @ [NEWLINE]) (Suc (length K)) = ([NEWLINE], 1)"
    using scan_stop [of K "\<lambda>b. b \<noteq> 0 \<and> b \<noteq> NEWLINE" "Suc (length K)" "[NEWLINE]"] K(3,4)
    by (metis (mono_tags, lifting) Suc_diff_le diff_self_eq_0 le_SucI le_refl list.sel(1) One_nat_def)
  have "peek l \<noteq> 0" "peek l \<noteq> NEWLINE" "peek l \<noteq> HASH" "length l \<noteq> 0"
    using h H(2) by (auto simp: l_def peek_def field_byte_def)
  moreover have "peek (K @ [NEWLINE]) \<noteq> 0"
    using k by (simp add: peek_def field_byte_def)
  ultimately show ?thesis
    by (simp add: libssh2_knownhost_readline_def s1 s2 s3 s4 Let_def del: scan.simps)
       (simp add: l_def peek_def)
qed

lemma line_key_facts:
  assumes "kt \<in> set named_types" "storable e"
  shows "line_key (type_name kt) e \<noteq> []" "field_byte (hd (line_key (type_name kt) e))"
    "0 \<notin> set (line_key (type_name kt) e)" "NEWLINE \<notin> set (line_key (type_name kt) e)"
    "20 \<le> length (line_key (type_name kt) e)"
proof -
  note nt = named_types_facts [OF assms(1)]
  obtain a ktn where a: "type_name kt = a # ktn" "field_byte a" using nt(1) by (rule is_fieldE)
  have f: "\<forall>b \<in> set (type_name kt). field_byte b" "\<forall>b \<in> set (kh_key e). field_byte b"
    using nt(1) assms(2) by (auto simp: storable_def is_field_def list_all_iff)
  show "line_key (type_name kt) e \<noteq> []" "field_byte (hd (line_key (type_name kt) e))"
    by (simp_all add: line_key_def a)
  show "0 \<notin> set (line_key (type_name kt) e)" "NEWLINE \<notin> set (line_key (type_name kt) e)"
    using f assms(2) by (auto simp: line_key_def storable_def field_byte_def split: option.splits if_splits)
  show "20 \<le> length (line_key (type_name kt) e)"
    using nt(3) assms(2) by (auto simp: line_key_def a storable_def split: option.splits)
qed

lemma line_host_field: "storable e \<Longrightarrow> is_field (line_host e) \<and> hd (line_host e) \<noteq> HASH"
proof (cases "is_hashed e")
  case True
  assume "storable e"
  with True obtain sl where sl: "kh_salt e = Some sl" "sl \<noteq> []" "kh_name e \<noteq> []"
    by (auto simp: storable_def split: option.splits)
  have "line_host e = 0x7C # 0x31 # 0x7C # base64_text sl @ BAR # base64_text (kh_name e)"
    by (simp add: line_host_def True sl str_def)
  then show ?thesis
    using base64_text_field [OF sl(2)] base64_text_field [OF sl(3)]
    by (simp add: is_field_def field_byte_def)
next
  case False
  assume "storable e"
  with False show ?thesis by (simp add: storable_def line_host_def)
qed

lemma hostline_plain:
  assumes e: "storable e" "\<not> is_hashed e" and kt: "kt \<in> set named_types"
    "kh_typemask e = kt OR TYPE_PLAIN OR KEYENC_BASE64" and len: "length (line_text (type_name kt) e) < 2 ^ 64"
  shows "hostline [] hosts (kh_name e @ r) (length (kh_name e)) (line_key (type_name kt) e @ [NEWLINE])
      (length (line_key (type_name kt) e)) = Some (0, [], insert_entry e hosts)"
proof -
  from e have name: "is_field (kh_name e)" "3 \<le> length (kh_name e)" "length (kh_name e) < 255"
    "COMMA \<notin> set (kh_name e)" "take 3 (kh_name e) \<noteq> str ''|1|''" "kh_salt e = None" "kh_key e \<noteq> []"
    by (auto simp: storable_def is_field_def)
  obtain p where p: "length (kh_name e) = Suc p" using name(2) by (cases "length (kh_name e)") auto
  have "\<forall>i < p. (kh_name e @ r) ! i \<noteq> COMMA"
    using name(4) p by (auto simp: nth_append) (metis less_SucI nth_mem)
  moreover have "parse_key (line_key (type_name kt) e @ [NEWLINE]) (length (line_key (type_name kt) e)) =
    \<lparr>kf_type = kt, kf_type_name = Some (type_name kt),
     kf_key = kh_key e @ (case kh_comment e of None \<Rightarrow> [] | Some c \<Rightarrow> [SPACE] @ c) @ [NEWLINE],
     kf_keylen = length (kh_key e), kf_comment = kh_comment e\<rparr>"
    using e(1) len by (intro parse_line_key [OF kt(1)]) (auto simp: storable_def line_text_def)
  moreover have b: "build_entry [] (kh_name e) None (Some (type_name kt)) (kh_key e @ q) (length (kh_key e))
      (kh_comment e) (kt OR TYPE_PLAIN OR KEYENC_BASE64) = Some (Inr (e, []))" for q
    unfolding build_plain [OF kt(1) name(7)] using e(1) name(6) kt(2) by (simp add: storable_def)
  ultimately show ?thesis
    using name p line_key_facts(5) [OF kt(1) e(1)] is_field_no_zero [OF name(1)]
    by (simp add: hostline_def oldstyle_hostline_def Let_def oldstyle_single knownhost_add_def
        b [simplified] del: oldstyle_loop.simps)
qed

lemma hostline_hashed:
  assumes e: "storable e" "is_hashed e" and kt: "kt \<in> set named_types"
    "kh_typemask e = kt OR TYPE_SHA1 OR KEYENC_BASE64" and len: "length (line_text (type_name kt) e) < 2 ^ 64"
  shows "hostline [] hosts (line_host e @ r) (length (line_host e)) (line_key (type_name kt) e @ [NEWLINE])
      (length (line_key (type_name kt) e)) = Some (0, [], insert_entry e hosts)"
proof -
  from e obtain sl where sl: "kh_salt e = Some sl" "sl \<noteq> []" "length (base64_text sl) < 31" "kh_name e \<noteq> []"
    "length (base64_text (kh_name e)) < 255" "kh_key e \<noteq> []"
    by (auto simp: storable_def is_field_def split: option.splits)
  have host: "line_host e = str ''|1|'' @ base64_text sl @ BAR # base64_text (kh_name e)"
    using e(2) sl(1) by (simp add: line_host_def)
  have three: "length (str ''|1|'') = 3" "take 3 (str ''|1|'' @ x) = str ''|1|''" "drop 3 (str ''|1|'' @ x) = x" for x
    by (simp_all add: str_def)
  have salt: "takeWhile (\<lambda>b. b \<noteq> 0 \<and> b \<noteq> BAR) (base64_text sl @ BAR # x) = base64_text sl" for x
    using base64_text_no_bar [of sl] base64_text_nonzero [of sl] by (intro takeWhile_append_stop) auto
  have "parse_key (line_key (type_name kt) e @ [NEWLINE]) (length (line_key (type_name kt) e)) =
    \<lparr>kf_type = kt, kf_type_name = Some (type_name kt),
     kf_key = kh_key e @ (case kh_comment e of None \<Rightarrow> [] | Some c \<Rightarrow> [SPACE] @ c) @ [NEWLINE],
     kf_keylen = length (kh_key e), kf_comment = kh_comment e\<rparr>"
    using e(1) len by (intro parse_line_key [OF kt(1)]) (auto simp: storable_def line_text_def)
  moreover have b: "build_entry [] (base64_text (kh_name e)) (Some (base64_text sl)) (Some (type_name kt)) (kh_key e @ q)
      (length (kh_key e)) (kh_comment e) (kt OR TYPE_SHA1 OR KEYENC_BASE64) = Some (Inr (e, []))" for q
    unfolding build_hashed [OF kt(1) sl(6)] using e(1) sl(1) kt(2) by (simp add: storable_def)
  moreover have "size_sub (size_sub (length (line_host e)) 3) (length (base64_text sl) + 1) = length (base64_text (kh_name e))"
    using len by (simp add: host line_text_def three)
  ultimately show ?thesis
    using sl line_key_facts(5) [OF kt(1) e(1)]
    by (simp add: hostline_def hashed_hostline_def Let_def host three salt peek_def knownhost_add_def
        base64_text_nonzero b [simplified])
qed

text \<open>
  C1: a printed line reads back to the same entry.  For every storable entry, plain or hashed, with or
  without a comment, and a buffer that holds its line, \<open>knownhost_writeline\<close> followed by
  \<open>libssh2_knownhost_readline\<close> on the text in the buffer, in any store, adds an entry that is equal to the
  original in every field.
\<close>

theorem knownhost_line_roundtrip:
  assumes "storable e" "length buf < 2 ^ 64"
    and "knownhost_writeline [] hosts1 e buf FILE_OPENSSH = Some ((E_NONE, Some n, buf'), al', hosts1')"
  shows "libssh2_knownhost_readline [] hosts (c_str buf') n FILE_OPENSSH = Some (E_NONE, [], insert_entry e hosts)"
proof -
  obtain kt where kt: "kt \<in> set named_types"
    and tm: "kh_typemask e = (if is_hashed e then kt OR TYPE_SHA1 OR KEYENC_BASE64 else kt OR TYPE_PLAIN OR KEYENC_BASE64)"
    using assms(1) by (auto simp: storable_def split: if_splits)
  note nt = named_types_facts [OF kt]
  let ?l = "line_text (type_name kt) e @ [NEWLINE]"
  have lkt: "line_key_type e = Inr (type_name kt)"
    using line_key_type_named [OF kt] tm nt(5,6) by (cases "is_hashed e") simp_all
  have pr: "printable (type_name kt) e"
    using assms(1) is_field_no_zero nt(1)
    by (auto simp: printable_def storable_def split: option.splits if_splits)
  have n: "n = length ?l" "c_str buf' = ?l" and len: "length ?l < length buf"
  proof -
    have z: "0 \<notin> set ?l"
      using pr by (auto simp: line_text_def line_host_def line_key_def printable_def base64_text_nonzero str_def
          split: option.splits if_splits)
    show len: "length ?l < length buf"
      using assms(3) writeline_line [OF lkt pr, of hosts1 buf] by (auto split: if_splits)
    then have "buf' = ?l @ [0] @ drop (Suc (length ?l)) buf" "n = length ?l"
      using assms(3) writeline_line [OF lkt pr, of hosts1 buf] by (auto split: if_splits)
    then show "n = length ?l" "c_str buf' = ?l"
      using c_str_append_zero [OF z] by (simp_all del: c_str_append_zero)
  qed
  have f: "is_field (line_host e)" "hd (line_host e) \<noteq> HASH"
    using line_host_field [OF assms(1)] by blast+
  have l: "?l = line_host e @ SPACE # line_key (type_name kt) e @ [NEWLINE]"
    by (simp add: line_text_def)
  have "hostline [] hosts (line_host e @ r) (length (line_host e)) (line_key (type_name kt) e @ [NEWLINE])
      (length (line_key (type_name kt) e)) = Some (0, [], insert_entry e hosts)" for r
  proof (cases "is_hashed e")
    case True
    then show ?thesis
      using hostline_hashed [OF assms(1) True kt] tm len assms(2) by simp
  next
    case False
    then show ?thesis
      using hostline_plain [OF assms(1) False kt] tm len assms(2) by (simp add: line_host_def)
  qed
  then show ?thesis
    using readline_split [OF f line_key_facts(2,1,3,4) [OF kt assms(1)]] unfolding n l by simp
qed


definition sample_hashed :: known_host where
  "sample_hashed = \<lparr>kh_name = replicate 20 7, kh_port = 0, kh_typemask = 0x1E0002, kh_salt = Some [1, 2, 3],
     kh_key = str ''AAAAC3NzaC1l'', kh_key_type_name = None, kh_comment = Some (str ''a comment'')\<rparr>"

theorem knownhost_line_roundtrip_witness:
  "\<exists>n buf' al' hosts'. knownhost_writeline [] sample_hosts sample_hashed (replicate 100 0) FILE_OPENSSH
       = Some ((E_NONE, Some n, buf'), al', hosts') \<and>
     libssh2_knownhost_readline [] sample_hosts (c_str buf') n FILE_OPENSSH
       = Some (E_NONE, [], insert_entry sample_hashed sample_hosts)"
proof -
  let ?w = "knownhost_writeline [] sample_hosts sample_hashed (replicate 100 0) FILE_OPENSSH"
  have "case ?w of None \<Rightarrow> False | Some ((rc, Some n, buf'), al', hosts') \<Rightarrow> rc = 0 | _ \<Rightarrow> False"
    by code_simp
  then obtain n buf' al' hosts' where "?w = Some ((E_NONE, Some n, buf'), al', hosts')"
    by (auto split: option.splits)
  moreover have "storable sample_hashed" by code_simp
  ultimately show ?thesis
    using knownhost_line_roundtrip [of sample_hashed "replicate 100 0" sample_hosts n buf' al' hosts' sample_hosts] by auto
qed

section \<open>Lines that are dropped\<close>

text \<open>
  a plain host name of one or two bytes is silently ignored.  A well-formed line whose host field is that
  short, and which has no vertical bar behind it, is taken for a hashed line: the reader reports
  success and adds nothing.
\<close>

theorem knownhost_short_name_dropped:
  assumes "is_field H" "length H \<le> 2" "hd H \<noteq> HASH"
    and "K \<noteq> []" "field_byte (hd K)" "0 \<notin> set K" "NEWLINE \<notin> set K" "20 \<le> length K" "BAR \<notin> set K"
  defines "l \<equiv> H @ SPACE # K @ [NEWLINE]"
  shows "libssh2_knownhost_readline al hosts l (length l) FILE_OPENSSH = Some (E_NONE, al, hosts)"
proof -
  have no_bar: "BAR \<notin> set (drop 3 l)"
    using assms(2,9) by (auto simp: l_def drop_Cons' dest!: in_set_dropD split: if_splits)
  have "peek (drop (length (takeWhile (\<lambda>b. b \<noteq> 0 \<and> b \<noteq> BAR) xs)) xs) \<noteq> BAR" if "BAR \<notin> set xs" for xs
    using that by (induction xs) (auto simp: peek_def)
  then have "hashed_hostline al hosts l (length H) kt key keylen key_type comment = Some (0, al, hosts)"
    for kt key keylen key_type comment
    using no_bar by (simp add: hashed_hostline_def Let_def del: drop_drop)
  then show ?thesis
    using readline_split [OF assms(1,3,5,4,6,7)] assms(2,8) by (simp add: l_def hostline_def Let_def)
qed

theorem knownhost_short_name_dropped_witness:
  "libssh2_knownhost_readline [] sample_hosts (str ''ab ssh-ed25519 AAAAC3NzaC1lZDI1'' @ [NEWLINE]) 32 FILE_OPENSSH
     = Some (E_NONE, [], sample_hosts)"
proof -
  have "is_field (str ''ab'')" "length (str ''ab'') \<le> 2" "hd (str ''ab'') \<noteq> HASH"
    "str ''ssh-ed25519 AAAAC3NzaC1lZDI1'' \<noteq> []" "field_byte (hd (str ''ssh-ed25519 AAAAC3NzaC1lZDI1''))"
    "0 \<notin> set (str ''ssh-ed25519 AAAAC3NzaC1lZDI1'')" "NEWLINE \<notin> set (str ''ssh-ed25519 AAAAC3NzaC1lZDI1'')"
    "20 \<le> length (str ''ssh-ed25519 AAAAC3NzaC1lZDI1'')" "BAR \<notin> set (str ''ssh-ed25519 AAAAC3NzaC1lZDI1'')"
    by code_simp+
  note w = knownhost_short_name_dropped [OF this, of "[]" sample_hosts]
  have "str ''ab'' @ SPACE # str ''ssh-ed25519 AAAAC3NzaC1lZDI1'' @ [NEWLINE]
      = str ''ab ssh-ed25519 AAAAC3NzaC1lZDI1'' @ [NEWLINE]"
    "length (str ''ab ssh-ed25519 AAAAC3NzaC1lZDI1'' @ [NEWLINE]) = 32"
    by code_simp+
  then show ?thesis
    using w by (simp only:)
qed

end
