(* ===== verification/Find_Eol.thy ===== *)
theory Find_Eol
  imports Prelude
begin

text \<open>
  The line splitter of the Python package: \<open>find_eol\<close> of \<^verbatim>\<open>ssh2/ext/find_eol.c\<close> and its wrapper in
  \<^verbatim>\<open>ssh2/utils.pyx\<close>.  The model keeps the C code's pointer arithmetic: the second \<open>strchr\<close> starts one byte
  before the line feed, which for an empty line is the byte in front of the buffer.
\<close>

definition CR :: byte where "CR = 0x0D"
definition EOL :: byte where "EOL = 0x0A"

text \<open>\<open>strchr\<close> on the C string in a memory block: the offset of the first occurrence of a non-zero byte.\<close>

fun strchr :: "bytes \<Rightarrow> byte \<Rightarrow> nat option" where
  "strchr [] c = None"
| "strchr (b # m) c =
     (if b = c then Some 0 else if b = 0 then None else map_option Suc (strchr m c))"

text \<open>
  \<open>before\<close> is the byte at \<open>data[-1]\<close>.  The index is computed as an \<open>unsigned int\<close> and returned as an \<open>int\<close>.
\<close>

definition int_of_unsigned :: "int \<Rightarrow> int" where
  "int_of_unsigned i = sint (word_of_int i :: u32)"

definition c_find_eol :: "byte \<Rightarrow> bytes \<Rightarrow> int \<Rightarrow> int \<times> int" where
  "c_find_eol before data new_pos =
     (case strchr data EOL of
        None \<Rightarrow> (- 1, new_pos)
      | Some found \<Rightarrow>
          (case strchr (if found = 0 then before # data else drop (found - 1) data) CR of
             Some _ \<Rightarrow> (int_of_unsigned (int found - 1), new_pos + 1 + 1)
           | None \<Rightarrow> (int_of_unsigned (int found), new_pos + 1)))"

text \<open>
  The wrapper slices the buffer from \<open>pos\<close> (Python clamps the slice to the buffer) and hands the C code
  the slice's storage, which ends in a zero byte; \<open>before\<close> is the byte in front of that storage.
\<close>

definition find_eol :: "byte \<Rightarrow> bytes \<Rightarrow> nat \<Rightarrow> int \<times> int" where
  "find_eol before buf pos =
     (if length buf = 0 then (- 1, int pos) else c_find_eol before (drop pos buf @ [0]) 0)"

section \<open>What the splitter should return\<close>

text \<open>
  The length of the first line without its terminator, and the length of the terminator: two bytes
  for a line feed that follows a carriage return, one for a bare line feed, and -1 with no bytes to
  skip when there is no line feed.
\<close>

definition eol_spec :: "bytes \<Rightarrow> int \<times> int" where
  "eol_spec data =
     (if EOL \<notin> set data then (- 1, 0)
      else let line = takeWhile (\<lambda>b. b \<noteq> EOL) data in
        if line \<noteq> [] \<and> last line = CR then (int (length line) - 1, 2) else (int (length line), 1))"

lemma strchr_split:
  "c \<notin> set xs \<Longrightarrow> 0 \<notin> set xs \<Longrightarrow> c \<noteq> 0 \<Longrightarrow> strchr (xs @ c # r) c = Some (length xs)"
  by (induction xs) auto

lemma strchr_absent: "c \<notin> set xs \<Longrightarrow> c \<noteq> 0 \<Longrightarrow> strchr (xs @ [0]) c = None"
  by (induction xs) auto

lemma strchr_present: "0 \<notin> set xs \<Longrightarrow> c \<in> set xs \<Longrightarrow> strchr (xs @ r) c \<noteq> None"
  by (induction xs) auto

lemma strchr_iff: "0 \<notin> set xs \<Longrightarrow> c \<noteq> 0 \<Longrightarrow> strchr (xs @ [0]) c = None \<longleftrightarrow> c \<notin> set xs"
  using strchr_absent [of c xs] strchr_present [of xs c "[0]"] by auto

lemma sint_small: "- 1 \<le> i \<Longrightarrow> i < 2 ^ 31 \<Longrightarrow> int_of_unsigned i = i"
  unfolding int_of_unsigned_def sint_sbintrunc' by (rule signed_take_bit_int_eq_self) simp_all

lemma CR_EOL [simp]: "CR \<noteq> 0" "EOL \<noteq> 0" "CR \<noteq> EOL" "EOL \<noteq> CR"
  by (simp_all add: CR_def EOL_def)

lemma c_find_eol_line:
  assumes "EOL \<notin> set line" "0 \<notin> set (line @ rest)" "length line < 2 ^ 31" "line \<noteq> []"
  shows "c_find_eol before (line @ EOL # rest @ [0]) n =
    (if last line = CR \<or> CR \<in> set rest then (int (length line) - 1, n + 2) else (int (length line), n + 1))"
proof -
  have f: "strchr (line @ EOL # rest @ [0]) EOL = Some (length line)"
    using assms(1,2) by (intro strchr_split) auto
  have "drop (length line - 1) (line @ EOL # rest @ [0]) = (last line # EOL # rest) @ [0]"
    using assms(4) by (cases line rule: rev_cases) auto
  moreover have "strchr ((last line # EOL # rest) @ [0]) CR = None \<longleftrightarrow> CR \<notin> set (last line # EOL # rest)"
    using assms by (intro strchr_iff) (auto dest: last_in_set)
  ultimately show ?thesis
    using assms(3,4) f by (auto simp: c_find_eol_def sint_small simp del: strchr.simps split: option.splits)
qed

lemma c_find_eol_empty_line:
  assumes "0 \<notin> set rest"
  shows "c_find_eol before (EOL # rest @ [0]) n =
    (if before = CR \<or> before \<noteq> 0 \<and> CR \<in> set rest then (- 1, n + 2) else (0, n + 1))"
proof (cases "before = 0 \<or> before = CR")
  case True
  then show ?thesis by (auto simp: c_find_eol_def sint_small)
next
  case False
  with assms strchr_iff [of "before # EOL # rest" CR] show ?thesis
    by (auto simp: c_find_eol_def sint_small split: option.splits)
qed

lemma c_find_eol_none: "EOL \<notin> set data \<Longrightarrow> c_find_eol before (data @ [0]) n = (- 1, n)"
  by (simp add: c_find_eol_def strchr_absent)

section \<open>Properties\<close>



text \<open>
  An empty line makes \<open>find_eol\<close> read the byte in front of its buffer: the result depends on that
  byte.  When it is zero the empty line is reported correctly; when it is a carriage return, or any
  other non-zero byte while a carriage return follows later in the text, the line feed at offset 0 is
  reported as -1, the value for "no line".
\<close>

theorem find_eol_empty_line_reads_before:
  assumes "drop pos buf = EOL # rest" and "0 \<notin> set buf"
  shows "find_eol before buf pos =
    (if before = CR \<or> before \<noteq> 0 \<and> CR \<in> set rest then (- 1, 2) else (0, 1))"
proof -
  have "0 \<notin> set rest"
    using assms by (metis in_set_dropD list.set_intros(2))
  moreover have "buf \<noteq> []" using assms(1) by auto
  ultimately show ?thesis
    using c_find_eol_empty_line [of rest before 0] by (simp add: find_eol_def assms(1))
qed

theorem find_eol_empty_line_reads_before_witness:
  "find_eol 0 (EOL # str ''x'' @ [CR, EOL]) 0 = (0, 1) \<and> find_eol 7 (EOL # str ''x'' @ [CR, EOL]) 0 = (- 1, 2)"
proof -
  have "find_eol b (EOL # str ''x'' @ [CR, EOL]) 0 =
      (if b = CR \<or> b \<noteq> 0 \<and> CR \<in> set (str ''x'' @ [CR, EOL]) then (- 1, 2) else (0, 1))" for b
    by (rule find_eol_empty_line_reads_before) (simp_all add: str_def CR_def EOL_def)
  from this [of 0] this [of 7] show ?thesis by (simp add: CR_def)
qed

end
