(* ===== verification/Scp_Quote.thy ===== *)
theory Scp_Quote
  imports Prelude
begin

text \<open>
  Quoting a path for the remote shell, \<open>shell_quotearg\<close> of \<^verbatim>\<open>libssh2/src/scp.c\<close>, and the command line that
  \<open>scp_recv\<close> and \<open>scp_send\<close> build from it.  \<open>shell_words\<close> states how a shell reads such a line: the rules on which
  the Bourne and the C shells agree, everything else being refused.
\<close>

section \<open>shell\_quotearg\<close>

datatype quote_state = UQSTRING | SQSTRING | QSTRING

abbreviation APOS :: byte where "APOS \<equiv> 39"
abbreviation QUOT :: byte where "QUOT \<equiv> 34"
abbreviation BANG :: byte where "BANG \<equiv> 33"
abbreviation BSLASH :: byte where "BSLASH \<equiv> 92"
abbreviation SPACE :: byte where "SPACE \<equiv> 32"

text \<open>What the two nested switches write in front of a character, and the state after it.\<close>

definition quote_prefix :: "quote_state \<Rightarrow> byte \<Rightarrow> bytes" where
  "quote_prefix state c =
     (if c = APOS then (case state of UQSTRING \<Rightarrow> [QUOT] | QSTRING \<Rightarrow> [] | SQSTRING \<Rightarrow> [APOS, QUOT])
      else if c = BANG then (case state of UQSTRING \<Rightarrow> [BSLASH] | QSTRING \<Rightarrow> [QUOT, BSLASH] | SQSTRING \<Rightarrow> [APOS, BSLASH])
      else (case state of UQSTRING \<Rightarrow> [APOS] | QSTRING \<Rightarrow> [QUOT, APOS] | SQSTRING \<Rightarrow> []))"

definition quote_next :: "byte \<Rightarrow> quote_state" where
  "quote_next c = (if c = APOS then QSTRING else if c = BANG then UQSTRING else SQSTRING)"

definition quote_close :: "quote_state \<Rightarrow> bytes" where
  "quote_close state = (case state of UQSTRING \<Rightarrow> [] | QSTRING \<Rightarrow> [QUOT] | SQSTRING \<Rightarrow> [APOS])"

text \<open>
  One group of stores: \<open>Inl\<close> when the test in front of it finds too little room, \<open>Inr\<close> with the advanced \<open>dst\<close>,
  \<open>None\<close> when it would write outside the buffer.
\<close>

definition put_within :: "bytes \<Rightarrow> nat \<Rightarrow> bytes \<Rightarrow> (bytes + nat \<times> bytes) option" where
  "put_within bs dst buf =
     (if bs \<noteq> [] \<and> dst + length bs \<ge> length buf then Some (Inl buf)
      else map_option (\<lambda>b. Inr (dst + length bs, b)) (poke dst bs buf))"

fun quote_loop :: "bytes \<Rightarrow> quote_state \<Rightarrow> nat \<Rightarrow> bytes \<Rightarrow> (bytes + quote_state \<times> nat \<times> bytes) option" where
  "quote_loop [] state dst buf = Some (Inr (state, dst, buf))"
| "quote_loop (c # src) state dst buf =
     (if \<not> dst + 1 < length buf then Some (Inr (state, dst, buf))
      else case put_within (quote_prefix state c) dst buf of
        None \<Rightarrow> None
      | Some (Inl b) \<Rightarrow> Some (Inl b)
      | Some (Inr (dst1, buf1)) \<Rightarrow>
          (case put_within [c] dst1 buf1 of
             None \<Rightarrow> None
           | Some (Inl b) \<Rightarrow> Some (Inl b)
           | Some (Inr (dst2, buf2)) \<Rightarrow> quote_loop src (quote_next c) dst2 buf2))"

definition quote_finish :: "quote_state \<Rightarrow> nat \<Rightarrow> bytes \<Rightarrow> (nat \<times> bytes) option" where
  "quote_finish state dst buf =
     (case put_within (quote_close state) dst buf of
        None \<Rightarrow> None
      | Some (Inl b) \<Rightarrow> Some (0, b)
      | Some (Inr (dst1, buf1)) \<Rightarrow>
          if dst1 + 1 \<ge> length buf1 then Some (0, buf1) else map_option (\<lambda>b. (dst1, b)) (poke dst1 [0] buf1))"

definition shell_quotearg :: "bytes \<Rightarrow> bytes \<Rightarrow> (nat \<times> bytes) option" where
  "shell_quotearg path buf =
     (case quote_loop path UQSTRING 0 buf of
        None \<Rightarrow> None
      | Some (Inl b) \<Rightarrow> Some (0, b)
      | Some (Inr (state, dst, b)) \<Rightarrow> quote_finish state dst b)"

definition shell_quotedsize :: "bytes \<Rightarrow> nat" where
  "shell_quotedsize s = 3 * length s + 2"

section \<open>The command line\<close>

text \<open>
  The buffer has \<open>scp_command_size\<close> bytes; \<open>opt\<close> is the letter of the direction, \<open>p\<close> whether times are wanted.
  \<open>snprintf\<close> writes what fits, with the terminator.  The result is the command, which is not terminated.
\<close>

definition scp_command_size :: "bool \<Rightarrow> bytes \<Rightarrow> nat" where
  "scp_command_size p path = shell_quotedsize path + 8 + (if p then 1 else 0)"

definition scp_prefix :: "char \<Rightarrow> bool \<Rightarrow> bytes" where
  "scp_prefix opt p = str (''scp -'' @ (if p then ''p'' else []) @ [opt] @ '' '')"

definition scp_command :: "char \<Rightarrow> bool \<Rightarrow> bool \<Rightarrow> bytes \<Rightarrow> bytes \<Rightarrow> bytes option" where
  "scp_command opt p quote_paths path buf =
     (case poke 0 (take (length buf - 1) (scp_prefix opt p) @ [0]) buf of
        None \<Rightarrow> None
      | Some buf1 \<Rightarrow>
          let cmd_len = length (c_str buf1) in
          if \<not> quote_paths then map_option (take (cmd_len + length path)) (poke cmd_len path buf1)
          else
            map_option (\<lambda>(n, b). take (cmd_len + n) (take cmd_len buf1 @ b)) (shell_quotearg path (drop cmd_len buf1)))"

section \<open>How a shell splits a line into words\<close>

datatype quoting = Plain | Single | Double

definition word_char :: "byte \<Rightarrow> bool" where
  "word_char c \<longleftrightarrow> (48 \<le> c \<and> c \<le> 57) \<or> (65 \<le> c \<and> c \<le> 90) \<or> (97 \<le> c \<and> c \<le> 122) \<or> c \<in> {45, 46, 47, 95}"

text \<open>
  The word being read, if any, is an accumulator.  Single quotes protect everything but the exclamation mark, which the
  C shell interprets even there; double quotes do not protect the dollar sign, the back quote and the backslash either.
\<close>

fun shell_words :: "quoting \<Rightarrow> bytes option \<Rightarrow> bytes \<Rightarrow> bytes list option" where
  "shell_words Plain w [] = Some (case w of None \<Rightarrow> [] | Some x \<Rightarrow> [x])"
| "shell_words Single w [] = None"
| "shell_words Double w [] = None"
| "shell_words Plain w (c # cs) =
     (let x = (case w of None \<Rightarrow> [] | Some x \<Rightarrow> x) in
      if c = SPACE then map_option (\<lambda>ws. (case w of None \<Rightarrow> ws | Some x \<Rightarrow> x # ws)) (shell_words Plain None cs)
      else if c = APOS then shell_words Single (Some x) cs
      else if c = QUOT then shell_words Double (Some x) cs
      else if c = BSLASH then
        (case cs of [] \<Rightarrow> None | d # ds \<Rightarrow> if d = 10 then None else shell_words Plain (Some (x @ [d])) ds)
      else if word_char c then shell_words Plain (Some (x @ [c])) cs
      else None)"
| "shell_words Single w (c # cs) =
     (if c = APOS then shell_words Plain w cs
      else if c = BANG then None
      else shell_words Single (map_option (\<lambda>x. x @ [c]) w) cs)"
| "shell_words Double w (c # cs) =
     (if c = QUOT then shell_words Plain w cs
      else if c \<in> {36, 96, BSLASH, BANG} then None
      else shell_words Double (map_option (\<lambda>x. x @ [c]) w) cs)"

section \<open>The text that quoting produces\<close>

fun quoted :: "quote_state \<Rightarrow> bytes \<Rightarrow> bytes" where
  "quoted state [] = quote_close state"
| "quoted state (c # cs) = quote_prefix state c @ c # quoted (quote_next c) cs"

lemmas quote_defs = quote_prefix_def quote_next_def quote_close_def

lemma quoted_length: "length (quoted state path) \<le> 3 * length path + (if state = UQSTRING then 0 else 1)"
proof (induction path arbitrary: state)
  case Nil
  then show ?case by (cases state) (simp_all add: quote_defs)
next
  case (Cons c path)
  show ?case using Cons.IH [of "quote_next c"] by (cases state) (auto simp: quote_defs split: if_splits)
qed

text \<open>A shell inside the quotes that the state stands for reads the rest of the path into the current word.\<close>

fun quoting_of :: "quote_state \<Rightarrow> quoting" where
  "quoting_of UQSTRING = Plain"
| "quoting_of SQSTRING = Single"
| "quoting_of QSTRING = Double"

lemma words_quoted:
  "shell_words (quoting_of state) (Some x) (quoted state path) = Some [x @ path]"
proof (induction path arbitrary: state x)
  case Nil
  then show ?case by (cases state) (simp_all add: quote_defs)
next
  case (Cons c path)
  show ?case
    using Cons.IH [of UQSTRING "x @ [c]"] Cons.IH [of SQSTRING "x @ [c]"] Cons.IH [of QSTRING "x @ [c]"]
    by (cases state) (auto simp: quote_defs)
qed

lemma words_quoted_start:
  "path \<noteq> [] \<Longrightarrow> shell_words Plain None (quoted UQSTRING path) = Some [path]"
  using words_quoted [of UQSTRING "[]" path] by (cases path) (auto simp: quote_defs)

section \<open>shell\_quotearg writes it\<close>

lemma put_within_room:
  "dst + length bs < length buf \<Longrightarrow> put_within bs dst buf =
     Some (Inr (dst + length bs, take dst buf @ bs @ drop (dst + length bs) buf))"
  by (auto simp: put_within_def poke_def)

lemma put_within_cases:
  assumes "dst \<le> length buf"
  obtains "dst + length bs < length buf \<or> bs = []"
      "put_within bs dst buf = Some (Inr (dst + length bs, take dst buf @ bs @ drop (dst + length bs) buf))"
  | "bs \<noteq> []" "length buf \<le> dst + length bs" "put_within bs dst buf = Some (Inl buf)"
  using assms by (cases "dst + length bs < length buf") (auto simp: put_within_def poke_def)

definition quote_rest :: "bytes \<Rightarrow> quote_state \<Rightarrow> nat \<Rightarrow> bytes \<Rightarrow> (nat \<times> bytes) option" where
  "quote_rest src state dst buf =
     (case quote_loop src state dst buf of
        None \<Rightarrow> None
      | Some (Inl b) \<Rightarrow> Some (0, b)
      | Some (Inr (state', dst', b)) \<Rightarrow> quote_finish state' dst' b)"

lemma quote_rest_fits:
  "dst + length (quoted state src) + 1 < length buf \<Longrightarrow>
     quote_rest src state dst buf =
       Some (dst + length (quoted state src),
         take dst buf @ quoted state src @ 0 # drop (dst + length (quoted state src) + 1) buf)"
proof (induction src arbitrary: state dst buf)
  case Nil
  then show ?case
    by (simp add: quote_rest_def quote_finish_def put_within_room poke_def)
next
  case (Cons c src)
  have room: "dst + length (quote_prefix state c) + 1 + length (quoted (quote_next c) src) + 1 < length buf"
    using Cons.prems by simp
  let ?d = "dst + length (quote_prefix state c)"
  let ?b = "take dst buf @ quote_prefix state c @ drop ?d buf"
  let ?b2 = "take ?d ?b @ [c] @ drop (?d + 1) ?b"
  have "quote_rest (c # src) state dst buf = quote_rest src (quote_next c) (?d + 1) ?b2"
    using room by (simp add: quote_rest_def put_within_room)
  also have "\<dots> = Some (?d + 1 + length (quoted (quote_next c) src), take (?d + 1) ?b2 @ quoted (quote_next c) src @
      0 # drop (?d + 1 + length (quoted (quote_next c) src) + 1) ?b2)"
    by (rule Cons.IH) (use room in simp)
  finally show ?case using room by (simp add: add.assoc add.left_commute add.commute)
qed

lemma quote_rest_full:
  "dst \<le> length buf \<Longrightarrow> length buf \<le> dst + length (quoted state src) + 1 \<Longrightarrow>
     \<exists>b. quote_rest src state dst buf = Some (0, b) \<and> length b = length buf"
proof (induction src arbitrary: state dst buf)
  case Nil
  then show ?case
    by (cases rule: put_within_cases [OF Nil.prems(1), of "quote_close state"])
       (auto simp: quote_rest_def quote_finish_def)
next
  case (Cons c src)
  let ?p = "quote_prefix state c"
  show ?case
  proof (cases "dst + 1 < length buf")
    case False
    then show ?thesis
      by (cases rule: put_within_cases [OF Cons.prems(1), of "quote_close state"])
         (auto simp: quote_rest_def quote_finish_def)
  next
    case inside: True
    show ?thesis
    proof (cases rule: put_within_cases [OF Cons.prems(1), of ?p])
      case 2
      then show ?thesis using inside by (simp add: quote_rest_def)
    next
      case 1
      let ?d = "dst + length ?p" let ?b = "take dst buf @ ?p @ drop ?d buf"
      have b: "length ?b = length buf" "?d \<le> length ?b" using 1(1) Cons.prems(1) by auto
      show ?thesis
      proof (cases rule: put_within_cases [OF b(2), of "[c]"])
        case (2)
        then show ?thesis using inside 1(2) b by (simp add: quote_rest_def)
      next
        case step: 1
        let ?b2 = "take ?d ?b @ [c] @ drop (?d + 1) ?b"
        have "quote_rest (c # src) state dst buf = quote_rest src (quote_next c) (?d + 1) ?b2"
          using inside 1(2) step(2) by (simp add: quote_rest_def)
        moreover have "length ?b2 = length buf" using step(1) b(1) by simp
        moreover have "\<exists>b. quote_rest src (quote_next c) (?d + 1) ?b2 = Some (0, b) \<and> length b = length ?b2"
          by (rule Cons.IH) (use step(1) b(1) Cons.prems(2) in auto)
        ultimately show ?thesis by metis
      qed
    qed
  qed
qed

lemma quotearg_fits:
  "length (quoted UQSTRING path) + 1 < length buf \<Longrightarrow>
     shell_quotearg path buf = Some (length (quoted UQSTRING path),
       quoted UQSTRING path @ 0 # drop (length (quoted UQSTRING path) + 1) buf)"
  using quote_rest_fits [of 0 UQSTRING path buf] by (simp add: quote_rest_def shell_quotearg_def)

lemma quotearg_full:
  "length buf \<le> length (quoted UQSTRING path) + 1 \<Longrightarrow> \<exists>b. shell_quotearg path buf = Some (0, b) \<and> length b = length buf"
  using quote_rest_full [of 0 buf UQSTRING path] by (simp add: quote_rest_def shell_quotearg_def)

text \<open>
  C34: \<open>shell_quotearg\<close> never writes outside its buffer.  It succeeds exactly when the buffer is two bytes longer than the
  quoted text (its terminator, and one byte that stays unused), then leaves the text and the terminator at the front of the
  buffer and returns the length of the text; a result of 0 says that the buffer is too small (or the path empty).  The
  text is at most three times as long as the path, so the size \<open>shell_quotedsize\<close> is always enough.
\<close>

theorem shell_quotearg_exact:
  "shell_quotearg path buf =
     (if length (quoted UQSTRING path) + 1 < length buf
      then Some (length (quoted UQSTRING path), quoted UQSTRING path @ 0 # drop (length (quoted UQSTRING path) + 1) buf)
      else Some (0, snd (the (shell_quotearg path buf)))) \<and>
   length (snd (the (shell_quotearg path buf))) = length buf \<and>
   length (quoted UQSTRING path) + 2 \<le> shell_quotedsize path"
  using quotearg_fits [of path buf] quotearg_full [of buf path] quoted_length [of UQSTRING path]
  unfolding shell_quotedsize_def by (cases "length (quoted UQSTRING path) + 1 < length buf") auto

section \<open>The command line reaches the shell as meant\<close>

lemma c_str_cut [simp]: "c_str (scp_prefix opt p @ 0 # r) = scp_prefix opt p" if "opt \<in> {CHR ''f'', CHR ''t''}"
  using that by (intro c_str_append_zero) (auto simp: scp_prefix_def str_def)

lemma length_prefix [simp]: "length (scp_prefix opt p) = 7 + (if p then 1 else 0)"
  by (simp add: scp_prefix_def)

lemma scp_command_eq:
  assumes opt: "opt \<in> {CHR ''f'', CHR ''t''}" and buf: "length buf = scp_command_size p path"
  shows "scp_command opt p q path buf = Some (scp_prefix opt p @ (if q then quoted UQSTRING path else path))"
proof -
  let ?n = "length (scp_prefix opt p)"
  have n: "?n + 1 + (3 * length path + 2) = length buf"
    using buf by (simp add: scp_command_size_def shell_quotedsize_def)
  have front: "poke 0 (take (length buf - 1) (scp_prefix opt p) @ [0]) buf = Some (scp_prefix opt p @ 0 # drop (?n + 1) buf)"
    using n by (simp add: poke_def)
  have room: "length (quoted UQSTRING path) + 1 < length (0 # drop (?n + 1) buf)"
    using n quoted_length [of UQSTRING path] by simp
  show ?thesis
    using n opt quotearg_fits [OF room] by (auto simp: scp_command_def front poke_def Let_def simp del: length_prefix)
qed

lemma words_prefix:
  "opt \<in> {CHR ''f'', CHR ''t''} \<Longrightarrow> shell_words Plain None (scp_prefix opt p @ r) =
     map_option (\<lambda>ws. str ''scp'' # str (''-'' @ (if p then ''p'' else []) @ [opt]) # ws) (shell_words Plain None r)"
  by (cases "shell_words Plain None r") (auto simp: scp_prefix_def str_def word_char_def)

text \<open>
  C29: the command line fits its buffer and, with paths quoted, the remote shell splits it into exactly three words: the
  program, its options and the path, byte for byte.  No character of a path is interpreted.
\<close>

theorem scp_command_words:
  assumes "opt \<in> {CHR ''f'', CHR ''t''}" "length buf = scp_command_size p path" "path \<noteq> []"
  shows "\<exists>cmd. scp_command opt p True path buf = Some cmd \<and>
    shell_words Plain None cmd = Some [str ''scp'', str (''-'' @ (if p then ''p'' else []) @ [opt]), path]"
  using assms by (simp add: scp_command_eq words_prefix words_quoted_start)

lemma scp_command_words_witness:
  "\<exists>cmd. scp_command CHR ''f'' True True (str ''it's $(x) !'') (replicate 44 0) = Some cmd \<and>
    shell_words Plain None cmd = Some [str ''scp'', str ''-pf'', str ''it's $(x) !'']"
  using scp_command_words [of "CHR ''f''" "replicate 44 0" True "str ''it's $(x) !''"]
  by (simp add: scp_command_size_def shell_quotedsize_def str_def)

end
