(* ===== verification/Session_State.thy ===== *)
theory Session_State
  imports Wire Errors Linked_List
begin

text \<open>
  The part of \<open>struct _LIBSSH2_SESSION\<close> and of the structures hanging off it (\<^verbatim>\<open>libssh2_priv.h\<close>) that the
  connection layer works on: channels, listeners, the brigade of received packets and the state
  variables of the non-blocking operations.  Channels live at addresses; \<open>chan\<close> is the memory they
  occupy and the lists hold addresses, in list order.

  What the environment decides is part of the state, as scripts consumed from the front: \<open>mem\<close> the
  outcomes of allocations, \<open>inbox\<close> what arrives on the socket, \<open>timeouts\<close> whether the time for a reply has
  run out, \<open>send_rc\<close> the return codes of the coming calls of \<open>_libssh2_transport_send\<close>
  (an exhausted script means success) and \<open>kex_rc\<close> those of \<open>_libssh2_kex_exchange\<close>.  \<open>sent\<close> is the
  log of the packets that the transport took, \<open>events\<close> the log of the application's callbacks.
\<close>

datatype nb_state =
    NB_idle | NB_allocated | NB_created | NB_sent | NB_sent1 | NB_sent2 | NB_sent3 | NB_sent4 | NB_sent5 | NB_sent6 | NB_sent7
  | NB_jump1 | NB_jump2 | NB_jump3 | NB_jump4 | NB_jump5 | NB_error_closing | NB_end | NB_jumpauthagent

record channel_data =
  cd_id :: u32
  window_size_initial :: u32
  window_size :: u32
  packet_size :: u32
  cd_close :: bool
  cd_eof :: bool
  extended_data_ignore_mode :: int

text \<open>The signal name of a channel: absent, a block of \<open>n\<close> bytes that was never written, or a string.\<close>

datatype signal_name = No_signal | Uninitialised nat | Signal bytes

text \<open>The state variables of one kind of request that is sent on a channel and waits for its reply.\<close>

record request =
  rq_state :: nb_state
  rq_packet :: bytes
  rq_local_channel :: bytes

record channel =
  channel_type :: bytes
  exit_status :: u32
  exit_signal :: signal_name
  ch_local :: channel_data
  ch_remote :: channel_data
  adjust_queue :: u32
  read_avail :: nat
  adjust_state :: nb_state
  adjust_adjust :: bytes
  read_state :: nb_state
  flush_state :: nb_state
  flush_refund_bytes :: nat
  flush_flush_bytes :: nat
  extData2_state :: nb_state
  write_state :: nb_state
  write_packet :: bytes
  write_bufwrite :: nat
  close_state :: nb_state
  close_packet :: bytes
  close_cb :: bool
  wait_eof_state :: nb_state
  wait_closed_state :: nb_state
  free_state :: nb_state
  setenv_req :: request
  reqPTY :: request
  reqX11 :: request
  process_req :: request
  req_auth_agent :: request
  req_auth_agent_try_state :: nb_state
  sendsignal_state :: nb_state
  sendsignal_packet :: bytes

record listener =
  ln_host :: bytes
  ln_port :: int
  queue_size :: int
  queue_maxsize :: int
  ln_queue :: "addr list"
  chanFwdCncl_state :: nb_state
  chanFwdCncl_data :: bytes

record packet =
  pk_data :: bytes
  pk_head :: nat

text \<open>
  \<open>packet_queue_listener_state_t\<close>, \<open>packet_x11_open_state_t\<close> and \<open>packet_authagent_state_t\<close>, which differ
  only in the fields they leave out.
\<close>

record open_req =
  or_state :: nb_state
  or_packet :: bytes
  or_host :: bytes
  or_port :: u32
  or_shost :: bytes
  or_sport :: u32
  sender_channel :: u32
  initial_window_size :: u32
  or_packet_size :: u32
  or_channel :: "addr option"

datatype event =
    Ev_disconnect u32 bytes bytes
  | Ev_ignore bytes
  | Ev_debug byte bytes bytes
  | Ev_x11 addr bytes u32
  | Ev_authagent addr
  | Ev_close addr

text \<open>
  What the socket still has in store: a complete packet as the transport layer hands it over, with its first
  byte, the rest, the verdict on its MAC and its sequence number, or a return code of a call that yields none.
\<close>

datatype inbound = In_packet byte bytes bool u32 | In_rc int

text \<open>The state variables of the calls that open channels and listeners, which the handling of packets does not touch.\<close>

record calls =
  open_state :: nb_state
  open_channel :: "addr option"
  open_packet :: bytes
  open_local_channel :: u32
  direct_state :: nb_state
  direct_message :: bytes
  fwdLstn_state :: nb_state
  fwdLstn_packet :: bytes
  fwdLstn_host_len :: nat

definition idle_calls :: calls where
  "idle_calls = \<lparr>open_state = NB_idle, open_channel = None, open_packet = [], open_local_channel = 0, direct_state = NB_idle,
     direct_message = [], fwdLstn_state = NB_idle, fwdLstn_packet = [], fwdLstn_host_len = 0\<rparr>"

record session = err_session +
  sflags :: u32
  kex_strict :: bool
  fullpacket_required_type :: byte
  socket_state :: int
  packAdd_state :: nb_state
  packAdd_channelp :: "addr option"
  packAdd_Qlstn_state :: open_req
  packAdd_x11open_state :: open_req
  packAdd_authagent_state :: open_req
  readPack_state :: nb_state
  fullpacket_state :: nb_state
  packet_total_num :: nat
  disconnect_state :: nb_state
  disconnect_data :: bytes
  disconnect_data_len :: nat
  channels :: "addr list"
  chan :: "addr \<Rightarrow> channel"
  next_addr :: addr
  next_channel :: u32
  listeners :: "listener list"
  packets :: "packet list"
  server_sign_algorithms :: "bytes option"
  macerror :: "(bytes \<Rightarrow> int) option"
  has_disconnect_cb :: bool
  has_ignore_cb :: bool
  has_debug_cb :: bool
  has_x11_cb :: bool
  has_authagent_cb :: bool
  calls :: calls
  api_block_mode :: bool
  cur_packet :: "bytes \<times> bool \<times> u32"
  fullpacket_packet_type :: byte
  inbox :: "inbound list"
  timeouts :: "bool list"
  mem :: allocs
  send_rc :: "int list"
  kex_rc :: "int list"
  sent :: "bytes list"
  events :: "event list"

abbreviation SOCKET_CONNECTED :: int where "SOCKET_CONNECTED \<equiv> 0"
abbreviation SOCKET_DISCONNECTED :: int where "SOCKET_DISCONNECTED \<equiv> - 1"
abbreviation STATE_INITIAL_KEX :: u32 where "STATE_INITIAL_KEX \<equiv> 1"
abbreviation STATE_EXCHANGING_KEYS :: u32 where "STATE_EXCHANGING_KEYS \<equiv> 2"
abbreviation STATE_KEX_ACTIVE :: u32 where "STATE_KEX_ACTIVE \<equiv> 16"

abbreviation MSG_DISCONNECT :: byte where "MSG_DISCONNECT \<equiv> 1"
abbreviation MSG_IGNORE :: byte where "MSG_IGNORE \<equiv> 2"
abbreviation MSG_DEBUG :: byte where "MSG_DEBUG \<equiv> 4"
abbreviation MSG_EXT_INFO :: byte where "MSG_EXT_INFO \<equiv> 7"
abbreviation MSG_KEXINIT :: byte where "MSG_KEXINIT \<equiv> 20"
abbreviation MSG_GLOBAL_REQUEST :: byte where "MSG_GLOBAL_REQUEST \<equiv> 80"
abbreviation MSG_REQUEST_FAILURE :: byte where "MSG_REQUEST_FAILURE \<equiv> 82"
abbreviation MSG_CHANNEL_OPEN :: byte where "MSG_CHANNEL_OPEN \<equiv> 90"
abbreviation MSG_CHANNEL_OPEN_CONFIRMATION :: byte where "MSG_CHANNEL_OPEN_CONFIRMATION \<equiv> 91"
abbreviation MSG_CHANNEL_OPEN_FAILURE :: byte where "MSG_CHANNEL_OPEN_FAILURE \<equiv> 92"
abbreviation MSG_CHANNEL_WINDOW_ADJUST :: byte where "MSG_CHANNEL_WINDOW_ADJUST \<equiv> 93"
abbreviation MSG_CHANNEL_DATA :: byte where "MSG_CHANNEL_DATA \<equiv> 94"
abbreviation MSG_CHANNEL_EXTENDED_DATA :: byte where "MSG_CHANNEL_EXTENDED_DATA \<equiv> 95"
abbreviation MSG_CHANNEL_EOF :: byte where "MSG_CHANNEL_EOF \<equiv> 96"
abbreviation MSG_CHANNEL_CLOSE :: byte where "MSG_CHANNEL_CLOSE \<equiv> 97"
abbreviation MSG_CHANNEL_REQUEST :: byte where "MSG_CHANNEL_REQUEST \<equiv> 98"
abbreviation MSG_CHANNEL_FAILURE :: byte where "MSG_CHANNEL_FAILURE \<equiv> 100"

abbreviation OPEN_ADMINISTRATIVELY_PROHIBITED :: u32 where "OPEN_ADMINISTRATIVELY_PROHIBITED \<equiv> 1"
abbreviation OPEN_CONNECT_FAILED :: u32 where "OPEN_CONNECT_FAILED \<equiv> 2"
abbreviation OPEN_RESOURCE_SHORTAGE :: u32 where "OPEN_RESOURCE_SHORTAGE \<equiv> 4"

abbreviation EXTENDED_DATA_IGNORE :: int where "EXTENDED_DATA_IGNORE \<equiv> 1"
abbreviation EXTENDED_DATA_MERGE :: int where "EXTENDED_DATA_MERGE \<equiv> 2"

definition CHANNEL_WINDOW_DEFAULT :: u32 where "CHANNEL_WINDOW_DEFAULT = 2097152"
definition CHANNEL_PACKET_DEFAULT :: u32 where "CHANNEL_PACKET_DEFAULT = 32768"
definition CHANNEL_MINADJUST :: u32 where "CHANNEL_MINADJUST = 1024"

section \<open>Primitive effects\<close>

definition serr :: "int \<Rightarrow> string \<Rightarrow> session \<Rightarrow> session" where
  "serr code msg s = snd (libssh2_error s code msg)"

definition alloc :: "session \<Rightarrow> bool \<times> session" where
  "alloc s = (fst (alloc_next (mem s)), s\<lparr>mem := snd (alloc_next (mem s))\<rparr>)"

fun script_next :: "int list \<Rightarrow> int \<times> int list" where
  "script_next [] = (0, [])"
| "script_next (rc # rcs) = (rc, rcs)"

text \<open>
  A call of the transport, which returns zero or a negative code: a packet counts as sent when the call returns zero; after \<open>EAGAIN\<close> the
  caller repeats the call with the same packet.
\<close>

definition transport_send :: "bytes \<Rightarrow> session \<Rightarrow> int \<times> session" where
  "transport_send pkt s =
     (let (r, rest) = script_next (send_rc s); rc = min r 0 in
      (rc, s\<lparr>send_rc := rest, sent := (if rc = 0 then sent s @ [pkt] else sent s)\<rparr>))"

definition upd_chan :: "addr \<Rightarrow> (channel \<Rightarrow> channel) \<Rightarrow> session \<Rightarrow> session" where
  "upd_chan a f s = s\<lparr>chan := (chan s)(a := f (chan s a))\<rparr>"

definition empty_data :: channel_data where
  "empty_data = \<lparr>cd_id = 0, window_size_initial = 0, window_size = 0, packet_size = 0, cd_close = False,
     cd_eof = False, extended_data_ignore_mode = 0\<rparr>"

definition no_request :: request where
  "no_request = \<lparr>rq_state = NB_idle, rq_packet = [], rq_local_channel = []\<rparr>"

text \<open>A zeroed channel, as \<open>calloc\<close> or \<open>memset\<close> leaves it.\<close>

definition zero_channel :: channel where
  "zero_channel = \<lparr>channel_type = [], exit_status = 0, exit_signal = No_signal, ch_local = empty_data,
     ch_remote = empty_data, adjust_queue = 0, read_avail = 0, adjust_state = NB_idle, adjust_adjust = [],
     read_state = NB_idle, flush_state = NB_idle, flush_refund_bytes = 0, flush_flush_bytes = 0,
     extData2_state = NB_idle, write_state = NB_idle, write_packet = [], write_bufwrite = 0,
     close_state = NB_idle, close_packet = [],
     close_cb = False, wait_eof_state = NB_idle, wait_closed_state = NB_idle, free_state = NB_idle,
     setenv_req = no_request, reqPTY = no_request, reqX11 = no_request, process_req = no_request,
     req_auth_agent = no_request, req_auth_agent_try_state = NB_idle, sendsignal_state = NB_idle, sendsignal_packet = []\<rparr>"

definition empty_req :: open_req where
  "empty_req = \<lparr>or_state = NB_idle, or_packet = [], or_host = [], or_port = 0, or_shost = [], or_sport = 0,
     sender_channel = 0, initial_window_size = 0, or_packet_size = 0, or_channel = None\<rparr>"

definition upd_local :: "(channel_data \<Rightarrow> channel_data) \<Rightarrow> channel \<Rightarrow> channel" where
  "upd_local f c = c\<lparr>ch_local := f (ch_local c)\<rparr>"

definition upd_remote :: "(channel_data \<Rightarrow> channel_data) \<Rightarrow> channel \<Rightarrow> channel" where
  "upd_remote f c = c\<lparr>ch_remote := f (ch_remote c)\<rparr>"

section \<open>Disconnecting\<close>

text \<open>
  \<open>session_disconnect\<close> of \<^verbatim>\<open>session.c\<close>: the message is written to the front of a fixed array, which keeps its
  old contents behind it, and \<open>disconnect_data_len\<close> bytes of the array are sent, followed by the language.
  The array is shorter than \<open>disconnect_data_len\<close> when the C code would read past its end.
\<close>

definition disconnect_header :: "u32 \<Rightarrow> bytes \<Rightarrow> nat \<Rightarrow> bytes" where
  "disconnect_header reason descr lang_len =
     [MSG_DISCONNECT] @ htonu32 reason @ wire_string descr @ htonu32 (word_of_nat lang_len)"

definition session_disconnect :: "u32 \<Rightarrow> bytes \<Rightarrow> bytes \<Rightarrow> session \<Rightarrow> int \<times> session" where
  "session_disconnect reason descr lang s =
     (if disconnect_state s = NB_idle \<and> length descr > 256 then
        (E_INVAL, serr E_INVAL ''too long description'' s)
      else if disconnect_state s = NB_idle \<and> length lang > 256 then
        (E_INVAL, serr E_INVAL ''too long language string'' s)
      else
        let (lang_len, s1) =
              (if disconnect_state s = NB_idle then
                 (length lang,
                  s\<lparr>disconnect_data := disconnect_header reason descr (length lang) @
                      drop (length descr + 13) (disconnect_data s),
                    disconnect_data_len := length descr + length lang + 13, disconnect_state := NB_created\<rparr>)
               else (0, s));
            (rc, s2) = transport_send (take (disconnect_data_len s1) (disconnect_data s1) @ take lang_len lang) s1 in
        if rc = E_EAGAIN then (rc, s2) else (0, s2\<lparr>disconnect_state := NB_idle\<rparr>))"

text \<open>\<open>libssh2_session_disconnect_ex\<close> in non-blocking mode, and the macro that the library itself uses.\<close>

definition session_disconnect_ex :: "u32 \<Rightarrow> bytes \<Rightarrow> bytes \<Rightarrow> session \<Rightarrow> int \<times> session" where
  "session_disconnect_ex reason descr lang s =
     session_disconnect reason descr lang
       (s\<lparr>sflags := sflags s AND NOT STATE_INITIAL_KEX AND NOT STATE_EXCHANGING_KEYS\<rparr>)"

definition libssh2_session_disconnect :: "string \<Rightarrow> session \<Rightarrow> session" where
  "libssh2_session_disconnect descr s = snd (session_disconnect_ex 11 (str descr) [] s)"

section \<open>Channel numbers\<close>

definition local_id :: "session \<Rightarrow> addr \<Rightarrow> u32" where
  "local_id s a = cd_id (ch_local (chan s a))"

definition channel_nextid :: "session \<Rightarrow> u32 \<times> session" where
  "channel_nextid s =
     (let cid = foldl (\<lambda>i a. if local_id s a > i then local_id s a else i) (next_channel s) (channels s) in
      (cid, s\<lparr>next_channel := cid + 1\<rparr>))"

text \<open>The channels that a number can denote: the session's own and those waiting in listeners' queues.\<close>

definition all_channels :: "session \<Rightarrow> addr list" where
  "all_channels s = channels s @ concat (map ln_queue (listeners s))"

definition channel_locate :: "session \<Rightarrow> u32 \<Rightarrow> addr option" where
  "channel_locate s cid = find (\<lambda>a. local_id s a = cid) (all_channels s)"

section \<open>Adjusting the receive window\<close>

text \<open>
  \<open>_libssh2_channel_receive_window_adjust\<close>: small adjustments are collected in \<open>adjust_queue\<close> unless \<open>force\<close>;
  otherwise the packet is built once and sent, over several calls if need be.  The amount added to
  the window at the end is that of the call that completes.
\<close>

definition channel_receive_window_adjust :: "addr \<Rightarrow> u32 \<Rightarrow> bool \<Rightarrow> session \<Rightarrow> int \<times> session" where
  "channel_receive_window_adjust a adjustment force s =
     (let c = chan s a;
          finish = (\<lambda>adj s1.
            (let (rc, s2) = transport_send (adjust_adjust (chan s1 a)) s1 in
             if rc = E_EAGAIN then (rc, serr rc ''Would block sending window adjust'' s2)
             else if rc \<noteq> 0 then
               (E_SOCKET_SEND,
                serr E_SOCKET_SEND ''Unable to send transfer-window adjustment packet, deferring''
                  (upd_chan a (adjust_queue_update (\<lambda>_. adj)) s2))
             else
               (0, upd_chan a (\<lambda>c. (upd_remote (window_size_update (\<lambda>w. w + adj)) c)\<lparr>adjust_state := NB_idle\<rparr>) s2))) in
      if adjust_state c = NB_idle then
        if \<not> force \<and> adjustment + adjust_queue c < CHANNEL_MINADJUST then
          (0, upd_chan a (adjust_queue_update (\<lambda>q. q + adjustment)) s)
        else if adjustment = 0 \<and> adjust_queue c = 0 then (0, s)
        else
          finish (adjustment + adjust_queue c)
            (upd_chan a (\<lambda>c. c\<lparr>adjust_queue := 0,
                 adjust_adjust := [MSG_CHANNEL_WINDOW_ADJUST] @ htonu32 (cd_id (ch_remote c)) @
                   htonu32 (adjustment + adjust_queue c),
                 adjust_state := NB_created\<rparr>) s)
      else finish adjustment s)"

end
