(* ===== verification/Kex_Agree.thy ===== *)
theory Kex_Agree
  imports Wire Errors
begin

text \<open>
  Algorithm negotiation of \<^verbatim>\<open>libssh2/src/kex.c\<close>: searching a name in a comma-separated list, the choice of the
  key exchange, host key, cipher, MAC and compression methods from the server's KEXINIT, the
  construction of the client's own KEXINIT packet and the setting of preferences.  The tables of
  supported methods depend on the crypto backend and the build options; they are a parameter.
\<close>

abbreviation COMMA :: byte where "COMMA \<equiv> 0x2C"

section \<open>Data\<close>

record kmethod =
  m_name :: bytes
  m_flags :: u32
  m_encrypt :: bool
  m_sig_verify :: bool

record endpoint =
  crypt_prefs :: "bytes option"
  mac_prefs :: "bytes option"
  comp_prefs :: "bytes option"
  lang_prefs :: "bytes option"
  ep_crypt :: "kmethod option"
  ep_mac :: "kmethod option"
  ep_comp :: "kmethod option"

record kex_session = err_session +
  kx_strict :: bool
  burn_optimistic_kexinit :: byte
  kex_prefs :: "bytes option"
  hostkey_prefs :: "bytes option"
  sign_algo_prefs :: "bytes option"
  kx_local :: endpoint
  kx_remote :: endpoint
  kx_kex :: "kmethod option"
  kx_hostkey :: "kmethod option"
  kexinit_created :: bool
  kexinit_data :: "bytes option"
  local_kexinit :: "bytes option"

text \<open>The tables of the build, and the MAC that a cipher brings with it, if any.\<close>

record method_tables =
  t_kex :: "kmethod list"
  t_hostkey :: "kmethod list"
  t_crypt :: "kmethod list"
  t_mac :: "kmethod list"
  t_comp :: "kmethod list"
  mac_override :: "kmethod \<Rightarrow> kmethod option"

abbreviation FLAG_REQ_ENC_HOSTKEY :: u32 where "FLAG_REQ_ENC_HOSTKEY \<equiv> 1"
abbreviation FLAG_REQ_SIGN_HOSTKEY :: u32 where "FLAG_REQ_SIGN_HOSTKEY \<equiv> 2"

definition strict_name :: bytes where
  "strict_name = str ''kex-strict-s-v00@openssh.com''"

section \<open>Searching a name list\<close>

lemma dropWhile_shorter: "dropWhile P s = c # r \<Longrightarrow> length r < length s"
  by (metis Suc_le_eq length_Cons length_dropWhile_le)

text \<open>
  The loop over the commas.  \<open>s\<close> is the rest of the haystack from the current position; the result is the
  rest from the position where the needle was found.
\<close>

function agree_scan :: "bytes \<Rightarrow> bytes \<Rightarrow> bytes option" where
  "agree_scan needle s =
     (case dropWhile (\<lambda>b. b \<noteq> COMMA) s of
        [] \<Rightarrow> None
      | comma # s' \<Rightarrow>
          if length (comma # s') > length needle then
            if strncmp_eq s' needle (length needle) \<and>
               (length s' = length needle \<or> s' ! length needle = COMMA)
            then Some s'
            else agree_scan needle s'
          else None)"
  by pat_completeness auto
termination
proof (relation "measure (\<lambda>(needle, s). length s)")
  fix needle s comma :: "bytes" and c s'
  assume "dropWhile (\<lambda>b. b \<noteq> COMMA) s = c # s'"
  then show "((needle, s'), (needle, s)) \<in> measure (\<lambda>(needle, s). length s)"
    by (simp add: dropWhile_shorter)
qed simp

declare agree_scan.simps [simp del]

text \<open>\<open>_libssh2_kex_agree_instr\<close>: the offset at which the needle was found.\<close>

definition kex_agree_instr :: "bytes \<Rightarrow> bytes \<Rightarrow> nat option" where
  "kex_agree_instr haystack needle =
     (if length haystack < length needle \<or> length needle = 0 then None
      else if strncmp_eq haystack needle (length needle) \<and>
              (length needle = length haystack \<or> haystack ! length needle = COMMA)
      then Some 0
      else case agree_scan needle haystack of
        None \<Rightarrow> None
      | Some s \<Rightarrow> Some (length haystack - length s))"

definition kex_get_method_by_name :: "bytes \<Rightarrow> kmethod list \<Rightarrow> kmethod option" where
  "kex_get_method_by_name name methodlist =
     find (\<lambda>m. length (m_name m) = length name \<and> strncmp_eq (m_name m) name (length name)) methodlist"

text \<open>
  The names that \<open>while(s && *s)\<close> visits in a preference string, split at the commas; an empty rest ends
  the loop.
\<close>

function pref_names :: "bytes \<Rightarrow> bytes list" where
  "pref_names s =
     (if s = [] then []
      else takeWhile (\<lambda>b. b \<noteq> COMMA) s #
        (case dropWhile (\<lambda>b. b \<noteq> COMMA) s of [] \<Rightarrow> [] | _ # r \<Rightarrow> pref_names r))"
  by pat_completeness auto
termination
proof (relation "measure length")
  fix s r :: bytes and c
  assume "dropWhile (\<lambda>b. b \<noteq> COMMA) s = c # r"
  then show "(r, s) \<in> measure length"
    by (simp add: dropWhile_shorter)
qed simp

declare pref_names.simps [simp del]

section \<open>Choosing methods\<close>

text \<open>
  The two loops that every \<open>kex_agree_*\<close> function has: over the names of the preferences, where a name that
  the server offers and the build does not know ends the search, and over the table.  \<open>accept\<close> is the
  further test on a method; the result is the method with the offset of its name in the server's list.
\<close>

fun agree_prefs :: "bytes \<Rightarrow> kmethod list \<Rightarrow> (kmethod \<Rightarrow> bool) \<Rightarrow> bytes list \<Rightarrow> (kmethod \<times> nat) option" where
  "agree_prefs server table accept [] = None"
| "agree_prefs server table accept (n # ns) =
     (case kex_agree_instr server n of
        None \<Rightarrow> agree_prefs server table accept ns
      | Some off \<Rightarrow>
          (case kex_get_method_by_name n table of
             None \<Rightarrow> None
           | Some m \<Rightarrow> if accept m then Some (m, off) else agree_prefs server table accept ns))"

fun agree_table :: "bytes \<Rightarrow> (kmethod \<Rightarrow> bool) \<Rightarrow> kmethod list \<Rightarrow> (kmethod \<times> nat) option" where
  "agree_table server accept [] = None"
| "agree_table server accept (m # ms) =
     (case kex_agree_instr server (m_name m) of
        None \<Rightarrow> agree_table server accept ms
      | Some off \<Rightarrow> if accept m then Some (m, off) else agree_table server accept ms)"

definition agree :: "bytes \<Rightarrow> bytes option \<Rightarrow> kmethod list \<Rightarrow> (kmethod \<Rightarrow> bool) \<Rightarrow> (kmethod \<times> nat) option" where
  "agree server prefs table accept =
     (case prefs of
        Some p \<Rightarrow> agree_prefs server table accept (pref_names (c_str p))
      | None \<Rightarrow> agree_table server accept table)"

text \<open>Does a host key method suit the key exchange's flags?\<close>

definition hostkey_suits :: "u32 \<Rightarrow> kmethod \<Rightarrow> bool" where
  "hostkey_suits kex_flags m \<longleftrightarrow>
     (kex_flags AND FLAG_REQ_ENC_HOSTKEY = 0 \<or> m_encrypt m) \<and>
     (kex_flags AND FLAG_REQ_SIGN_HOSTKEY = 0 \<or> m_sig_verify m)"

definition kex_agree_hostkey :: "method_tables \<Rightarrow> kex_session \<Rightarrow> u32 \<Rightarrow> bytes \<Rightarrow> kmethod option" where
  "kex_agree_hostkey T s kex_flags hostkey =
     map_option fst (agree hostkey (hostkey_prefs s) (t_hostkey T) (hostkey_suits kex_flags))"

definition kex_agree_kex_hostkey :: "method_tables \<Rightarrow> kex_session \<Rightarrow> bytes \<Rightarrow> bytes \<Rightarrow> int \<times> kex_session" where
  "kex_agree_kex_hostkey T s0 kex hostkey =
     (let s = (if kex_agree_instr kex strict_name \<noteq> None then s0\<lparr>kx_strict := True\<rparr> else s0) in
      case agree kex (kex_prefs s) (t_kex T) (\<lambda>m. kex_agree_hostkey T s (m_flags m) hostkey \<noteq> None) of
        None \<Rightarrow> (- 1, s)
      | Some (m, off) \<Rightarrow>
          (0, s\<lparr>kx_hostkey := kex_agree_hostkey T s (m_flags m) hostkey, kx_kex := Some m,
                burn_optimistic_kexinit :=
                  (if burn_optimistic_kexinit s \<noteq> 0 \<and> off = 0 then 0 else burn_optimistic_kexinit s)\<rparr>))"

definition kex_agree_crypt :: "method_tables \<Rightarrow> endpoint \<Rightarrow> bytes \<Rightarrow> int \<times> endpoint" where
  "kex_agree_crypt T e crypt =
     (case agree crypt (crypt_prefs e) (t_crypt T) (\<lambda>_. True) of
        None \<Rightarrow> (- 1, e)
      | Some (m, _) \<Rightarrow> (0, e\<lparr>ep_crypt := Some m\<rparr>))"

definition kex_agree_mac :: "method_tables \<Rightarrow> endpoint \<Rightarrow> bytes \<Rightarrow> int \<times> endpoint" where
  "kex_agree_mac T e mac =
     (case (case ep_crypt e of None \<Rightarrow> None | Some c \<Rightarrow> mac_override T c) of
        Some m \<Rightarrow> (0, e\<lparr>ep_mac := Some m\<rparr>)
      | None \<Rightarrow>
          (case agree mac (mac_prefs e) (t_mac T) (\<lambda>_. True) of
             None \<Rightarrow> (- 1, e)
           | Some (m, _) \<Rightarrow> (0, e\<lparr>ep_mac := Some m\<rparr>)))"

definition kex_agree_comp :: "method_tables \<Rightarrow> endpoint \<Rightarrow> bytes \<Rightarrow> int \<times> endpoint" where
  "kex_agree_comp T e complist =
     (case agree complist (comp_prefs e) (t_comp T) (\<lambda>_. True) of
        None \<Rightarrow> (- 1, e)
      | Some (m, _) \<Rightarrow> (0, e\<lparr>ep_comp := Some m\<rparr>))"

text \<open>The name lists at the head of a KEXINIT packet, in the order of the packet, and what follows them.\<close>

fun get_strings :: "nat \<Rightarrow> string_buf \<Rightarrow> (bytes list \<times> string_buf) option" where
  "get_strings 0 buf = Some ([], buf)"
| "get_strings (Suc n) buf =
     (case get_string buf of
        (None, _) \<Rightarrow> None
      | (Some x, buf1) \<Rightarrow>
          (case get_strings n buf1 of None \<Rightarrow> None | Some (xs, buf2) \<Rightarrow> Some (x # xs, buf2)))"

definition with_endpoint ::
  "(endpoint \<Rightarrow> bytes \<Rightarrow> int \<times> endpoint) \<Rightarrow> bytes \<Rightarrow> bytes \<Rightarrow> kex_session \<Rightarrow> int \<times> kex_session" where
  "with_endpoint f cs sc s =
     (let (rc1, l) = f (kx_local s) cs; s1 = s\<lparr>kx_local := l\<rparr> in
      if rc1 \<noteq> 0 then (rc1, s1)
      else let (rc2, r) = f (kx_remote s1) sc in (rc2, s1\<lparr>kx_remote := r\<rparr>))"

definition kex_agree_methods :: "method_tables \<Rightarrow> kex_session \<Rightarrow> bytes \<Rightarrow> int \<times> kex_session" where
  "kex_agree_methods T s data =
     (if length data < 17 then (- 1, s)
      else case get_strings 8 \<lparr>sb_data = data, sb_off = 17\<rparr> of
        None \<Rightarrow> (- 1, s)
      | Some (ls, buf) \<Rightarrow>
          if \<not> check_length buf 1 then (- 1, s)
          else
            let s0 = s\<lparr>burn_optimistic_kexinit := sb_data buf ! sb_off buf\<rparr>;
                (rc1, s1) = kex_agree_kex_hostkey T s0 (ls ! 0) (ls ! 1) in
            if rc1 \<noteq> 0 then (- 1, s1)
            else
              let (rc2, s2) = with_endpoint (kex_agree_crypt T) (ls ! 2) (ls ! 3) s1 in
              if rc2 \<noteq> 0 then (- 1, s2)
              else
                let (rc3, s3) = with_endpoint (kex_agree_mac T) (ls ! 4) (ls ! 5) s2 in
                if rc3 \<noteq> 0 then (- 1, s3)
                else
                  let (rc4, s4) = with_endpoint (kex_agree_comp T) (ls ! 6) (ls ! 7) s3 in
                  if rc4 \<noteq> 0 then (- 1, s4) else (0, s4))"

section \<open>The client's KEXINIT\<close>

definition kex_method_strlen :: "kmethod list \<Rightarrow> nat" where
  "kex_method_strlen methods =
     (if methods = [] then 0 else sum_list (map (\<lambda>m. length (m_name m) + 1) methods) - 1)"

definition prefs_len :: "bytes option \<Rightarrow> kmethod list \<Rightarrow> u32" where
  "prefs_len prefs defaults =
     word_of_nat (case prefs of Some p \<Rightarrow> length (c_str p) | None \<Rightarrow> kex_method_strlen defaults)"

fun put_names :: "kmethod list \<Rightarrow> wbuf \<Rightarrow> wbuf option" where
  "put_names [] w = Some w"
| "put_names (m # ms) w = Option.bind (put_bytes (m_name m @ [COMMA]) w) (put_names ms)"

text \<open>Every name is followed by a comma; the caller then steps back over the last one.\<close>

definition kex_method_list :: "u32 \<Rightarrow> kmethod list \<Rightarrow> wbuf \<Rightarrow> wbuf option" where
  "kex_method_list list_strlen methods w =
     Option.bind (store_u32 list_strlen w) (\<lambda>w1.
       if methods = [] then Some w1
       else map_option (wb_pos_update (\<lambda>_. wb_pos w1 + unat list_strlen)) (put_names methods w1))"

definition put_prefs :: "bytes option \<times> kmethod list \<Rightarrow> wbuf \<Rightarrow> wbuf option" where
  "put_prefs f w =
     (let len = prefs_len (fst f) (snd f) in
      case fst f of
        Some p \<Rightarrow> Option.bind (store_u32 len w) (put_bytes (take (unat len) (c_str p)))
      | None \<Rightarrow> kex_method_list len (snd f) w)"

fun put_all_prefs :: "(bytes option \<times> kmethod list) list \<Rightarrow> wbuf \<Rightarrow> wbuf option" where
  "put_all_prefs [] w = Some w"
| "put_all_prefs (f # fs) w = Option.bind (put_prefs f w) (put_all_prefs fs)"

text \<open>The ten lists of the packet: the preference of each, and the table that stands in for a missing one.\<close>

definition kexinit_fields :: "method_tables \<Rightarrow> kex_session \<Rightarrow> (bytes option \<times> kmethod list) list" where
  "kexinit_fields T s =
     [(kex_prefs s, t_kex T), (hostkey_prefs s, t_hostkey T),
      (crypt_prefs (kx_local s), t_crypt T), (crypt_prefs (kx_remote s), t_crypt T),
      (mac_prefs (kx_local s), t_mac T), (mac_prefs (kx_remote s), t_mac T),
      (comp_prefs (kx_local s), t_comp T), (comp_prefs (kx_remote s), t_comp T),
      (lang_prefs (kx_local s), []), (lang_prefs (kx_remote s), [])]"

text \<open>
  Filling the buffer: its size is computed from the lengths, which are added as 32-bit numbers.
  \<open>None\<close> is a write outside the buffer.
\<close>

definition kexinit_fill :: "bytes \<Rightarrow> (bytes option \<times> kmethod list) list \<Rightarrow> bytes option" where
  "kexinit_fill cookie fs =
     (let data_len = 62 + unat (sum_list (map (\<lambda>f. prefs_len (fst f) (snd f)) fs));
          w0 = \<lparr>wb_mem = replicate data_len 0, wb_pos = 0\<rparr> in
      map_option wb_mem
        (Option.bind (put_bytes [20] w0) (\<lambda>w1.
         Option.bind (put_bytes (take 16 cookie) w1) (\<lambda>w2.
         Option.bind (put_all_prefs fs w2) (\<lambda>w3.
         Option.bind (put_bytes [0] w3) (\<lambda>w4.
         store_u32 0 w4))))))"

text \<open>\<open>cookie\<close> is \<open>None\<close> when the random generator fails; \<open>send_rc\<close> is the transport's return code.\<close>

definition kexinit ::
  "method_tables \<Rightarrow> bool \<Rightarrow> bytes option \<Rightarrow> int \<Rightarrow> kex_session \<Rightarrow> (int \<times> kex_session) option" where
  "kexinit T alloc_ok cookie send_rc s =
     (let transmit = (\<lambda>data s1.
        if send_rc = E_EAGAIN then (send_rc, s1\<lparr>kexinit_data := data\<rparr>)
        else if send_rc \<noteq> 0 then
          libssh2_error (s1\<lparr>kexinit_created := False\<rparr>) send_rc ''Unable to send KEXINIT packet to remote host''
        else (0, s1\<lparr>local_kexinit := data, kexinit_created := False\<rparr>)) in
      if \<not> kexinit_created s then
        if \<not> alloc_ok then Some (libssh2_error s E_ALLOC ''Unable to allocate memory'')
        else case cookie of
          None \<Rightarrow> Some (libssh2_error s E_RANDGEN ''Unable to get random bytes for KEXINIT cookie'')
        | Some c \<Rightarrow>
            (case kexinit_fill c (kexinit_fields T s) of
               None \<Rightarrow> None
             | Some data \<Rightarrow> Some (transmit (Some data) (s\<lparr>kexinit_created := True\<rparr>)))
      else Some (transmit (kexinit_data s) (s\<lparr>kexinit_data := None\<rparr>)))"

section \<open>Setting preferences\<close>

text \<open>
  The loop that strips unsupported names: \<open>done\<close> is the text in front of \<open>s\<close> (it ends in a comma unless
  it is empty), \<open>s\<close> the text from there on.
\<close>

function strip_prefs :: "kmethod list \<Rightarrow> bytes \<Rightarrow> bytes \<Rightarrow> bytes" where
  "strip_prefs mlist done s =
     (if s = [] then done
      else
        let name = takeWhile (\<lambda>b. b \<noteq> COMMA) s; p = dropWhile (\<lambda>b. b \<noteq> COMMA) s in
        if kex_get_method_by_name name mlist = None then
          (case p of
             comma # r \<Rightarrow> strip_prefs mlist done r
           | [] \<Rightarrow> butlast done)
        else
          (case p of
             comma # r \<Rightarrow> strip_prefs mlist (done @ name @ [COMMA]) r
           | [] \<Rightarrow> done @ name))"
  by pat_completeness auto
termination
proof (relation "measure (\<lambda>(mlist, done, s). length s)")
  fix s name p r :: bytes and mlist :: "kmethod list" and dn :: bytes and x21
  assume "p = dropWhile (\<lambda>b. b \<noteq> COMMA) s" "p = x21 # r"
  then have "length r < length s"
    by (metis dropWhile_shorter)
  then show "((mlist, dn, r), (mlist, dn, s)) \<in> measure (\<lambda>(mlist, done, s). length s)"
    "((mlist, dn @ name @ [COMMA], r), (mlist, dn, s)) \<in> measure (\<lambda>(mlist, done, s). length s)"
    by simp_all
qed simp

declare strip_prefs.simps [simp del]

definition kex_extensions :: bytes where
  "kex_extensions = str ''ext-info-c,kex-strict-c-v00@openssh.com,''"

text \<open>The method type selects the variable to set and the table; \<open>None\<close> as a table means that nothing is stripped.\<close>

definition set_prefs :: "int \<Rightarrow> bytes \<Rightarrow> kex_session \<Rightarrow> kex_session" where
  "set_prefs ty v s =
     (if ty = 0 then s\<lparr>kex_prefs := Some v\<rparr>
      else if ty = 1 then s\<lparr>hostkey_prefs := Some v\<rparr>
      else if ty = 2 then s\<lparr>kx_local := kx_local s\<lparr>crypt_prefs := Some v\<rparr>\<rparr>
      else if ty = 3 then s\<lparr>kx_remote := kx_remote s\<lparr>crypt_prefs := Some v\<rparr>\<rparr>
      else if ty = 4 then s\<lparr>kx_local := kx_local s\<lparr>mac_prefs := Some v\<rparr>\<rparr>
      else if ty = 5 then s\<lparr>kx_remote := kx_remote s\<lparr>mac_prefs := Some v\<rparr>\<rparr>
      else if ty = 6 then s\<lparr>kx_local := kx_local s\<lparr>comp_prefs := Some v\<rparr>\<rparr>
      else if ty = 7 then s\<lparr>kx_remote := kx_remote s\<lparr>comp_prefs := Some v\<rparr>\<rparr>
      else if ty = 8 then s\<lparr>kx_local := kx_local s\<lparr>lang_prefs := Some v\<rparr>\<rparr>
      else if ty = 9 then s\<lparr>kx_remote := kx_remote s\<lparr>lang_prefs := Some v\<rparr>\<rparr>
      else s\<lparr>sign_algo_prefs := Some v\<rparr>)"

definition pref_table :: "method_tables \<Rightarrow> int \<Rightarrow> kmethod list option" where
  "pref_table T ty =
     (if ty = 0 then Some (t_kex T) else if ty = 1 then Some (t_hostkey T)
      else if ty = 2 \<or> ty = 3 then Some (t_crypt T) else if ty = 4 \<or> ty = 5 then Some (t_mac T)
      else if ty = 6 \<or> ty = 7 then Some (t_comp T) else None)"

definition session_method_pref ::
  "method_tables \<Rightarrow> bool \<Rightarrow> bool \<Rightarrow> kex_session \<Rightarrow> int \<Rightarrow> bytes \<Rightarrow> int \<times> kex_session" where
  "session_method_pref T alloc1_ok alloc2_ok s ty prefs0 =
     (if ty < 0 \<or> ty > 10 then
        libssh2_error s E_INVAL ''Invalid parameter specified for method_type''
      else if ty = 0 \<and> \<not> alloc1_ok then
        libssh2_error s E_ALLOC ''Error allocated space for kex method preferences''
      else if \<not> alloc2_ok then
        libssh2_error s E_ALLOC ''Error allocated space for method preferences''
      else
        let prefs = (if ty = 0 then kex_extensions @ prefs0 else prefs0);
            newprefs = (case pref_table T ty of None \<Rightarrow> prefs | Some mlist \<Rightarrow> strip_prefs mlist [] prefs) in
        if newprefs = [] then
          libssh2_error s E_METHOD_NOT_SUPPORTED ''The requested method(s) are not currently supported''
        else (0, set_prefs ty newprefs s))"

section \<open>Name lists as lists of names\<close>

text \<open>The names of a comma-separated list; \<open>n\<close> commas separate \<open>n + 1\<close> names.\<close>

function split_commas :: "bytes \<Rightarrow> bytes list" where
  "split_commas s =
     takeWhile (\<lambda>b. b \<noteq> COMMA) s #
       (case dropWhile (\<lambda>b. b \<noteq> COMMA) s of [] \<Rightarrow> [] | _ # r \<Rightarrow> split_commas r)"
  by pat_completeness auto
termination
  by (relation "measure length") (auto simp: dropWhile_shorter)

declare split_commas.simps [simp del]

definition proper_name :: "bytes \<Rightarrow> bool" where
  "proper_name n \<longleftrightarrow> n \<noteq> [] \<and> 0 \<notin> set n \<and> COMMA \<notin> set n"

lemma length_split_commas: "n \<in> set (split_commas s) \<Longrightarrow> length n \<le> length s"
proof (induction s rule: split_commas.induct)
  case (1 s)
  show ?case
  proof (cases "n = takeWhile (\<lambda>b. b \<noteq> COMMA) s")
    case True
    then show ?thesis by (simp add: length_takeWhile_le)
  next
    case False
    then obtain c r where r: "dropWhile (\<lambda>b. b \<noteq> COMMA) s = c # r" "n \<in> set (split_commas r)"
      using "1.prems" by (cases "dropWhile (\<lambda>b. b \<noteq> COMMA) s") (auto simp: split_commas.simps [of s])
    then show ?thesis using "1.IH" [OF r] dropWhile_shorter [OF r(1)] by simp
  qed
qed

lemma strncmp_eq_take:
  assumes "0 \<notin> set needle" "length needle \<le> length s"
  shows "strncmp_eq s needle (length needle) \<longleftrightarrow> take (length needle) s = needle"
proof
  assume "take (length needle) s = needle"
  then have "s = needle @ drop (length needle) s" by (metis append_take_drop_id)
  moreover have "c_str (needle @ r) = needle @ c_str r" for r
    using assms(1) unfolding c_str_def by (subst takeWhile_append2) auto
  ultimately have "c_str s = needle @ c_str (drop (length needle) s)" by metis
  then show "strncmp_eq s needle (length needle)"
    using assms(1) by (simp add: strncmp_eq_def)
next
  assume eq: "strncmp_eq s needle (length needle)"
  then have t: "take (length needle) (c_str s @ [0]) = needle"
    using assms(1) by (simp add: strncmp_eq_def)
  have le: "length needle \<le> length (c_str s)"
  proof (rule ccontr)
    assume "\<not> length needle \<le> length (c_str s)"
    then have "take (length needle) (c_str s @ [0]) = c_str s @ [0]" by simp
    then show False using t assms(1) by (metis in_set_conv_decomp)
  qed
  then have "take (length needle) (c_str s) = needle" using t by simp
  moreover have "take (length needle) (c_str s) = take (length needle) s"
    using le by (metis c_str_def takeWhile_eq_take_length min.absorb1 take_take)
  ultimately show "take (length needle) s = needle" by simp
qed

text \<open>The test at a position: the first name of the rest is the needle.\<close>

lemma match_at:
  assumes "proper_name needle" "length needle \<le> length s"
  shows "(strncmp_eq s needle (length needle) \<and> (length s = length needle \<or> s ! length needle = COMMA)) \<longleftrightarrow>
    takeWhile (\<lambda>b. b \<noteq> COMMA) s = needle" (is "?L \<longleftrightarrow> ?R")
proof
  assume L: ?L
  then have t: "take (length needle) s = needle"
    using strncmp_eq_take assms by (auto simp: proper_name_def)
  show ?R
  proof (cases "length s = length needle")
    case True
    then have "s = needle" using t by simp
    then show ?thesis using assms(1) by (auto simp: proper_name_def takeWhile_eq_all_conv)
  next
    case False
    then have "length needle < length s" "s ! length needle = COMMA" using assms(2) L by auto
    then have "s = needle @ COMMA # drop (Suc (length needle)) s"
      using t by (metis id_take_nth_drop)
    then show ?thesis
      using assms(1) by (metis (mono_tags, lifting) proper_name_def takeWhile_append_stop)
  qed
next
  assume R: ?R
  have s: "s = needle @ dropWhile (\<lambda>b. b \<noteq> COMMA) s"
    using R by (metis takeWhile_dropWhile_id)
  then have "take (length needle) s = needle" by (metis append_eq_conv_conj)
  moreover have "length s = length needle \<or> s ! length needle = COMMA"
  proof (cases "dropWhile (\<lambda>b. b \<noteq> COMMA) s")
    case Nil
    then show ?thesis using s by (metis append_Nil2)
  next
    case (Cons c r)
    then have "c = COMMA" by (metis (mono_tags, lifting) dropWhile_eq_Cons_conv)
    then show ?thesis using s Cons by (metis nth_append_length)
  qed
  ultimately show ?L
    using strncmp_eq_take assms by (auto simp: proper_name_def)
qed

lemma agree_scan_iff:
  "proper_name needle \<Longrightarrow> agree_scan needle s \<noteq> None \<longleftrightarrow> needle \<in> set (tl (split_commas s))"
proof (induction needle s rule: agree_scan.induct)
  case (1 needle s)
  show ?case
  proof (cases "dropWhile (\<lambda>b. b \<noteq> COMMA) s")
    case Nil
    then show ?thesis
      by (simp add: agree_scan.simps [of needle s] split_commas.simps [of s] del: dropWhile_eq_Nil_conv)
  next
    case (Cons c s')
    have split: "tl (split_commas s) = takeWhile (\<lambda>b. b \<noteq> COMMA) s' # tl (split_commas s')"
      using Cons by (simp add: split_commas.simps [of s]) (simp add: split_commas.simps [of s'])
    show ?thesis
    proof (cases "length needle \<le> length s'")
      case True
      then show ?thesis
        using match_at [OF "1.prems" True] "1.IH" [OF Cons] Cons "1.prems"
        by (auto simp: agree_scan.simps [of needle s] split)
    next
      case False
      then have "needle \<notin> set (tl (split_commas s))"
        using length_split_commas [of needle s'] Cons by (auto simp: split_commas.simps [of s])
      then show ?thesis using False Cons by (simp add: agree_scan.simps [of needle s])
    qed
  qed
qed

lemma instr_iff:
  assumes "proper_name needle"
  shows "kex_agree_instr haystack needle \<noteq> None \<longleftrightarrow> needle \<in> set (split_commas haystack)"
proof (cases "length haystack < length needle")
  case True
  then show ?thesis using length_split_commas [of needle haystack] by (auto simp: kex_agree_instr_def)
next
  case False
  have "set (split_commas haystack) = insert (takeWhile (\<lambda>b. b \<noteq> COMMA) haystack) (set (tl (split_commas haystack)))"
    by (simp add: split_commas.simps [of haystack])
  then show ?thesis
    using False match_at [OF assms, of haystack] agree_scan_iff [OF assms, of haystack] assms
    by (auto simp: kex_agree_instr_def proper_name_def split: option.splits)
qed

section \<open>The choice follows the client's order\<close>

text \<open>The client's names, in order of preference.\<close>

definition client_names :: "bytes option \<Rightarrow> kmethod list \<Rightarrow> bytes list" where
  "client_names prefs table = (case prefs of Some p \<Rightarrow> pref_names (c_str p) | None \<Rightarrow> map m_name table)"

text \<open>
  Preferences and tables as the library keeps them: table entries have distinct proper names, and every name
  of a preference string is in the table (\<open>session_method_pref\<close> strips the others).
\<close>

definition good_table :: "kmethod list \<Rightarrow> bool" where
  "good_table table \<longleftrightarrow> distinct (map m_name table) \<and> list_all (\<lambda>m. proper_name (m_name m)) table"

definition good_prefs :: "bytes option \<Rightarrow> kmethod list \<Rightarrow> bool" where
  "good_prefs prefs table \<longleftrightarrow>
     good_table table \<and> list_all (\<lambda>n. n \<in> set (map m_name table)) (client_names prefs table)"

lemma get_method:
  assumes "good_table table" "m \<in> set table"
  shows "kex_get_method_by_name (m_name m) table = Some m"
proof -
  have eq: "length (m_name m') = length (m_name m) \<and> strncmp_eq (m_name m') (m_name m) (length (m_name m)) \<longleftrightarrow>
      m_name m' = m_name m" for m'
    using strncmp_eq_take [of "m_name m" "m_name m'"] assms by (auto simp: good_table_def list_all_iff proper_name_def)
  have "find (\<lambda>m'. m_name m' = m_name m) table = Some m"
    using assms unfolding good_table_def by (induction table) (auto simp: image_iff)
  then show ?thesis
    unfolding kex_get_method_by_name_def eq .
qed

definition offered :: "bytes \<Rightarrow> (kmethod \<Rightarrow> bool) \<Rightarrow> kmethod \<Rightarrow> bool" where
  "offered server accept m \<longleftrightarrow> m_name m \<in> set (split_commas server) \<and> accept m"

text \<open>The client's methods, in order of preference.\<close>

definition client_methods :: "bytes option \<Rightarrow> kmethod list \<Rightarrow> kmethod list" where
  "client_methods prefs table =
     map (\<lambda>n. the (kex_get_method_by_name n table)) (client_names prefs table)"

lemma agree_table_find:
  "list_all (\<lambda>m. proper_name (m_name m)) ms \<Longrightarrow>
     map_option fst (agree_table server accept ms) = find (offered server accept) ms"
proof (induction ms)
  case (Cons m ms)
  then show ?case
    using instr_iff [of "m_name m" server] by (auto simp: offered_def split: option.splits)
qed simp

lemma agree_prefs_find:
  assumes "good_table table" "list_all (\<lambda>n. n \<in> set (map m_name table)) ns"
  shows "map_option fst (agree_prefs server table accept ns) =
    find (offered server accept) (map (\<lambda>n. the (kex_get_method_by_name n table)) ns)"
  using assms(2)
proof (induction ns)
  case (Cons n ns)
  then obtain m where m: "m \<in> set table" "n = m_name m" by auto
  then have "proper_name n" using assms(1) by (auto simp: good_table_def list_all_iff)
  then show ?case
    using Cons instr_iff [of n server] get_method [OF assms(1) m(1)] m(2)
    by (auto simp: offered_def split: option.splits)
qed simp

lemma client_methods_None: "good_table table \<Longrightarrow> client_methods None table = table"
  by (simp add: client_methods_def client_names_def get_method map_idI)

lemma agree_find:
  assumes "good_prefs prefs table"
  shows "map_option fst (agree server prefs table accept) = find (offered server accept) (client_methods prefs table)"
proof (cases prefs)
  case None
  then show ?thesis
    using assms agree_table_find by (simp add: agree_def good_prefs_def client_methods_None good_table_def)
next
  case (Some p)
  then show ?thesis
    using assms agree_prefs_find by (simp add: agree_def good_prefs_def client_methods_def client_names_def)
qed

text \<open>What the negotiation has to choose: the client's first method that the server offers and that is acceptable.\<close>

definition first_choice :: "bytes option \<Rightarrow> kmethod list \<Rightarrow> bytes \<Rightarrow> (kmethod \<Rightarrow> bool) \<Rightarrow> kmethod option" where
  "first_choice prefs table server accept = find (offered server accept) (client_methods prefs table)"

lemma agree_first_choice:
  "good_prefs prefs table \<Longrightarrow> agree server prefs table accept = Some (m, off) \<Longrightarrow>
     first_choice prefs table server accept = Some m"
  "good_prefs prefs table \<Longrightarrow> agree server prefs table accept = None \<Longrightarrow>
     first_choice prefs table server accept = None"
  using agree_find [of prefs table server accept] by (auto simp: first_choice_def)

lemma hostkey_first_choice:
  assumes "good_prefs (hostkey_prefs s) (t_hostkey T)"
  shows "kex_agree_hostkey T s flags hostkey =
    first_choice (hostkey_prefs s) (t_hostkey T) hostkey (hostkey_suits flags)"
  using agree_find [OF assms] by (simp add: kex_agree_hostkey_def first_choice_def)

text \<open>The preferences and tables that the negotiation needs to be in order.\<close>

definition kex_good :: "method_tables \<Rightarrow> kex_session \<Rightarrow> bool" where
  "kex_good T s \<longleftrightarrow>
     good_prefs (kex_prefs s) (t_kex T) \<and> good_prefs (hostkey_prefs s) (t_hostkey T) \<and>
     good_prefs (crypt_prefs (kx_local s)) (t_crypt T) \<and> good_prefs (crypt_prefs (kx_remote s)) (t_crypt T) \<and>
     good_prefs (mac_prefs (kx_local s)) (t_mac T) \<and> good_prefs (mac_prefs (kx_remote s)) (t_mac T) \<and>
     good_prefs (comp_prefs (kx_local s)) (t_comp T) \<and> good_prefs (comp_prefs (kx_remote s)) (t_comp T)"

definition mac_choice :: "method_tables \<Rightarrow> endpoint \<Rightarrow> bytes \<Rightarrow> kmethod option" where
  "mac_choice T e server =
     (case (case ep_crypt e of None \<Rightarrow> None | Some c \<Rightarrow> mac_override T c) of
        Some m \<Rightarrow> Some m
      | None \<Rightarrow> first_choice (mac_prefs e) (t_mac T) server (\<lambda>_. True))"

lemma endpoint_choices:
  assumes "good_prefs (crypt_prefs e) (t_crypt T)" "good_prefs (mac_prefs e) (t_mac T)"
    "good_prefs (comp_prefs e) (t_comp T)"
  shows "kex_agree_crypt T e l = (case first_choice (crypt_prefs e) (t_crypt T) l (\<lambda>_. True) of
      None \<Rightarrow> (- 1, e) | Some m \<Rightarrow> (0, e\<lparr>ep_crypt := Some m\<rparr>))"
    "kex_agree_mac T e l = (case mac_choice T e l of None \<Rightarrow> (- 1, e) | Some m \<Rightarrow> (0, e\<lparr>ep_mac := Some m\<rparr>))"
    "kex_agree_comp T e l = (case first_choice (comp_prefs e) (t_comp T) l (\<lambda>_. True) of
      None \<Rightarrow> (- 1, e) | Some m \<Rightarrow> (0, e\<lparr>ep_comp := Some m\<rparr>))"
  using agree_first_choice [OF assms(1)] agree_first_choice [OF assms(2)] agree_first_choice [OF assms(3)]
  by (auto simp: kex_agree_crypt_def kex_agree_mac_def kex_agree_comp_def mac_choice_def split: option.splits)

lemma kex_hostkey_choice:
  assumes "good_prefs (kex_prefs s) (t_kex T)" "good_prefs (hostkey_prefs s) (t_hostkey T)"
    "kex_agree_kex_hostkey T s kex hostkey = (0, s')"
  obtains k h where "first_choice (kex_prefs s) (t_kex T) kex
      (\<lambda>m. first_choice (hostkey_prefs s) (t_hostkey T) hostkey (hostkey_suits (m_flags m)) \<noteq> None) = Some k"
    "first_choice (hostkey_prefs s) (t_hostkey T) hostkey (hostkey_suits (m_flags k)) = Some h"
    "kx_kex s' = Some k" "kx_hostkey s' = Some h" "kx_local s' = kx_local s" "kx_remote s' = kx_remote s"
    "kx_strict s' \<longleftrightarrow> kx_strict s \<or> strict_name \<in> set (split_commas kex)"
proof -
  have strict: "kex_agree_instr kex strict_name \<noteq> None \<longleftrightarrow> strict_name \<in> set (split_commas kex)"
    by (rule instr_iff) code_simp
  let ?acc = "\<lambda>m. first_choice (hostkey_prefs s) (t_hostkey T) hostkey (hostkey_suits (m_flags m)) \<noteq> None"
  have hk: "kex_agree_hostkey T (s\<lparr>kx_strict := True\<rparr>) flags hostkey =
      first_choice (hostkey_prefs s) (t_hostkey T) hostkey (hostkey_suits flags)"
    "kex_agree_hostkey T s flags hostkey =
      first_choice (hostkey_prefs s) (t_hostkey T) hostkey (hostkey_suits flags)" for flags
    using hostkey_first_choice [of "s\<lparr>kx_strict := True\<rparr>"] hostkey_first_choice [of s] assms(2) by simp_all
  obtain k off where k: "agree kex (kex_prefs s) (t_kex T) ?acc = Some (k, off)"
    using assms(3) by (auto simp: kex_agree_kex_hostkey_def Let_def hk split: option.splits if_splits)
  have fc: "first_choice (kex_prefs s) (t_kex T) kex ?acc = Some k"
    by (rule agree_first_choice(1) [OF assms(1) k])
  then obtain h where h: "first_choice (hostkey_prefs s) (t_hostkey T) hostkey (hostkey_suits (m_flags k)) = Some h"
    by (auto simp: first_choice_def find_Some_iff offered_def)
  show ?thesis
    using assms(3) k h strict
    by (intro that [OF fc h]) (auto simp: kex_agree_kex_hostkey_def Let_def hk split: if_splits)
qed

lemma with_endpoint_ok:
  assumes "with_endpoint f cs sc s = (0, s')"
  obtains l r where "f (kx_local s) cs = (0, l)" "f (kx_remote s) sc = (0, r)" "s' = s\<lparr>kx_local := l, kx_remote := r\<rparr>"
  using assms by (auto simp: with_endpoint_def Let_def split: prod.splits if_splits)

text \<open>
  C11: the negotiation picks what the protocol prescribes.  When \<open>kex_agree_methods\<close> succeeds on a server's
  KEXINIT, the key exchange method is the first in the client's order that the server offers and for which
  a suitable host key method is offered, the host key method is the first suitable one; cipher, MAC and
  compression are, in each direction, the client's first method that the server offers (a cipher with a
  MAC of its own keeps that one); and strict key exchange is switched on exactly when the server's list
  announces it (or it was on before).
\<close>

theorem kex_agree_methods_first_choice:
  assumes "kex_good T s" "kex_agree_methods T s data = (0, s')"
    and "get_strings 8 \<lparr>sb_data = data, sb_off = 17\<rparr> = Some (ls, buf)"
  shows "(\<exists>k h. kx_kex s' = Some k \<and> kx_hostkey s' = Some h \<and>
      first_choice (kex_prefs s) (t_kex T) (ls ! 0)
        (\<lambda>m. first_choice (hostkey_prefs s) (t_hostkey T) (ls ! 1) (hostkey_suits (m_flags m)) \<noteq> None) = Some k \<and>
      first_choice (hostkey_prefs s) (t_hostkey T) (ls ! 1) (hostkey_suits (m_flags k)) = Some h) \<and>
    ep_crypt (kx_local s') = first_choice (crypt_prefs (kx_local s)) (t_crypt T) (ls ! 2) (\<lambda>_. True) \<and>
    ep_crypt (kx_remote s') = first_choice (crypt_prefs (kx_remote s)) (t_crypt T) (ls ! 3) (\<lambda>_. True) \<and>
    ep_mac (kx_local s') = mac_choice T (kx_local s') (ls ! 4) \<and>
    ep_mac (kx_remote s') = mac_choice T (kx_remote s') (ls ! 5) \<and>
    ep_comp (kx_local s') = first_choice (comp_prefs (kx_local s)) (t_comp T) (ls ! 6) (\<lambda>_. True) \<and>
    ep_comp (kx_remote s') = first_choice (comp_prefs (kx_remote s)) (t_comp T) (ls ! 7) (\<lambda>_. True) \<and>
    None \<notin> {ep_crypt (kx_local s'), ep_crypt (kx_remote s'), ep_mac (kx_local s'), ep_mac (kx_remote s'),
             ep_comp (kx_local s'), ep_comp (kx_remote s')} \<and>
    (kx_strict s' \<longleftrightarrow> kx_strict s \<or> strict_name \<in> set (split_commas (ls ! 0)))"
proof -
  define s0 where "s0 = s\<lparr>burn_optimistic_kexinit := sb_data buf ! sb_off buf\<rparr>"
  have s0: "kex_prefs s0 = kex_prefs s" "hostkey_prefs s0 = hostkey_prefs s" "kx_local s0 = kx_local s"
    "kx_remote s0 = kx_remote s" "kx_strict s0 = kx_strict s" by (simp_all add: s0_def)
  note g = assms(1) [unfolded kex_good_def]
  obtain s1 s2 s3 where s1: "kex_agree_kex_hostkey T s0 (ls ! 0) (ls ! 1) = (0, s1)"
    and s2: "with_endpoint (kex_agree_crypt T) (ls ! 2) (ls ! 3) s1 = (0, s2)"
    and s3: "with_endpoint (kex_agree_mac T) (ls ! 4) (ls ! 5) s2 = (0, s3)"
    and s4: "with_endpoint (kex_agree_comp T) (ls ! 6) (ls ! 7) s3 = (0, s')"
    using assms(2,3) by (auto simp: kex_agree_methods_def s0_def [symmetric] Let_def split: if_splits prod.splits)
  obtain k h where kh: "first_choice (kex_prefs s) (t_kex T) (ls ! 0)
      (\<lambda>m. first_choice (hostkey_prefs s) (t_hostkey T) (ls ! 1) (hostkey_suits (m_flags m)) \<noteq> None) = Some k"
    "first_choice (hostkey_prefs s) (t_hostkey T) (ls ! 1) (hostkey_suits (m_flags k)) = Some h"
    "kx_kex s1 = Some k" "kx_hostkey s1 = Some h" "kx_local s1 = kx_local s" "kx_remote s1 = kx_remote s"
    "kx_strict s1 \<longleftrightarrow> kx_strict s \<or> strict_name \<in> set (split_commas (ls ! 0))"
    using kex_hostkey_choice [OF _ _ s1] g s0 by auto
  obtain l2 r2 where e2: "kex_agree_crypt T (kx_local s) (ls ! 2) = (0, l2)"
    "kex_agree_crypt T (kx_remote s) (ls ! 3) = (0, r2)" "s2 = s1\<lparr>kx_local := l2, kx_remote := r2\<rparr>"
    using with_endpoint_ok [OF s2] kh(5,6) by metis
  have c2: "first_choice (crypt_prefs (kx_local s)) (t_crypt T) (ls ! 2) (\<lambda>_. True) = ep_crypt l2"
    "first_choice (crypt_prefs (kx_remote s)) (t_crypt T) (ls ! 3) (\<lambda>_. True) = ep_crypt r2"
    "ep_crypt l2 \<noteq> None" "ep_crypt r2 \<noteq> None" "mac_prefs l2 = mac_prefs (kx_local s)" "mac_prefs r2 = mac_prefs (kx_remote s)"
    "comp_prefs l2 = comp_prefs (kx_local s)" "comp_prefs r2 = comp_prefs (kx_remote s)"
    "crypt_prefs l2 = crypt_prefs (kx_local s)" "crypt_prefs r2 = crypt_prefs (kx_remote s)"
    using e2(1,2) g by (auto simp: endpoint_choices split: option.splits)
  obtain l3 r3 where e3: "kex_agree_mac T l2 (ls ! 4) = (0, l3)" "kex_agree_mac T r2 (ls ! 5) = (0, r3)"
    "s3 = s2\<lparr>kx_local := l3, kx_remote := r3\<rparr>"
    using with_endpoint_ok [OF s3] e2(3) by auto
  have c3: "mac_choice T l2 (ls ! 4) = ep_mac l3" "mac_choice T r2 (ls ! 5) = ep_mac r3" "ep_mac l3 \<noteq> None" "ep_mac r3 \<noteq> None"
    "ep_crypt l3 = ep_crypt l2" "ep_crypt r3 = ep_crypt r2" "comp_prefs l3 = comp_prefs l2" "comp_prefs r3 = comp_prefs r2"
    "mac_prefs l3 = mac_prefs l2" "mac_prefs r3 = mac_prefs r2" "crypt_prefs l3 = crypt_prefs l2" "crypt_prefs r3 = crypt_prefs r2"
    using e3(1,2) g c2(5-10) by (auto simp: endpoint_choices split: option.splits)
  obtain l4 r4 where e4: "kex_agree_comp T l3 (ls ! 6) = (0, l4)" "kex_agree_comp T r3 (ls ! 7) = (0, r4)"
    "s' = s3\<lparr>kx_local := l4, kx_remote := r4\<rparr>"
    using with_endpoint_ok [OF s4] e3(3) by auto
  have c4: "first_choice (comp_prefs l3) (t_comp T) (ls ! 6) (\<lambda>_. True) = ep_comp l4"
    "first_choice (comp_prefs r3) (t_comp T) (ls ! 7) (\<lambda>_. True) = ep_comp r4" "ep_comp l4 \<noteq> None" "ep_comp r4 \<noteq> None"
    "ep_crypt l4 = ep_crypt l3" "ep_crypt r4 = ep_crypt r3" "ep_mac l4 = ep_mac l3" "ep_mac r4 = ep_mac r3"
    "mac_prefs l4 = mac_prefs l3" "mac_prefs r4 = mac_prefs r3"
    using e4(1,2) g c2(5-10) c3(7-12) by (auto simp: endpoint_choices split: option.splits)
  have mc: "mac_choice T l4 x = mac_choice T l2 x" "mac_choice T r4 x = mac_choice T r2 x" for x
    by (simp_all add: mac_choice_def c3(5,6,9,10) c4(5,6,9,10) split: option.splits)
  show ?thesis
    using kh e2(3) e3(3) e4(3) c2 c3 c4 mc by auto
qed

definition sample_method :: "string \<Rightarrow> kmethod" where
  "sample_method n = \<lparr>m_name = str n, m_flags = 2, m_encrypt = False, m_sig_verify = True\<rparr>"

definition sample_tables :: method_tables where
  "sample_tables = \<lparr>t_kex = [sample_method ''k1'', sample_method ''k2''], t_hostkey = [sample_method ''h1''],
     t_crypt = [sample_method ''c1'', sample_method ''c2''], t_mac = [sample_method ''m1''],
     t_comp = [sample_method ''none''], mac_override = (\<lambda>_. None)\<rparr>"

definition sample_endpoint :: endpoint where
  "sample_endpoint = \<lparr>crypt_prefs = Some (str ''c2,c1''), mac_prefs = None, comp_prefs = None, lang_prefs = None,
     ep_crypt = None, ep_mac = None, ep_comp = None\<rparr>"

definition sample_kex :: kex_session where
  "sample_kex = \<lparr>err_code = 0, err_msg = None, err_dup = False, kx_strict = False, burn_optimistic_kexinit = 0,
     kex_prefs = None, hostkey_prefs = None, sign_algo_prefs = None, kx_local = sample_endpoint,
     kx_remote = sample_endpoint, kx_kex = None, kx_hostkey = None, kexinit_created = False,
     kexinit_data = None, local_kexinit = None\<rparr>"

definition sample_kexinit :: bytes where
  "sample_kexinit = replicate 17 20 @
     concat (map (\<lambda>n. wire_string (str n)) [''k2,k3'', ''h1'', ''c1,c2'', ''c1'', ''m1'', ''m1'', ''none'', ''none'']) @ [0]"

theorem kex_agree_methods_first_choice_witness:
  "\<exists>s' k. kex_agree_methods sample_tables sample_kex sample_kexinit = (0, s') \<and> kx_kex s' = Some k \<and>
     ep_crypt (kx_local s') = Some (sample_method ''c2'') \<and> ep_crypt (kx_remote s') = Some (sample_method ''c1'')"
proof -
  let ?r = "kex_agree_methods sample_tables sample_kex sample_kexinit"
  let ?g = "get_strings 8 \<lparr>sb_data = sample_kexinit, sb_off = 17\<rparr>"
  have "kex_good sample_tables sample_kex" by code_simp
  moreover have "fst ?r = 0" by code_simp
  then have "?r = (0, snd ?r)" by (metis prod.collapse)
  moreover have ls: "map_option fst ?g = Some (map str [''k2,k3'', ''h1'', ''c1,c2'', ''c1'', ''m1'', ''m1'', ''none'', ''none''])"
    by code_simp
  then obtain buf where "?g = Some (map str [''k2,k3'', ''h1'', ''c1,c2'', ''c1'', ''m1'', ''m1'', ''none'', ''none''], buf)"
    by (auto simp: map_option_eq_Some)
  moreover have "first_choice (crypt_prefs (kx_local sample_kex)) (t_crypt sample_tables) (str ''c1,c2'') (\<lambda>_. True)
      = Some (sample_method ''c2'')"
    "first_choice (crypt_prefs (kx_remote sample_kex)) (t_crypt sample_tables) (str ''c1'') (\<lambda>_. True)
      = Some (sample_method ''c1'')"
    by code_simp+
  ultimately show ?thesis
    using kex_agree_methods_first_choice [of sample_tables sample_kex sample_kexinit "snd ?r"
      "map str [''k2,k3'', ''h1'', ''c1,c2'', ''c1'', ''m1'', ''m1'', ''none'', ''none'']" buf]
    by (auto simp: nth_Cons')
qed

section \<open>Stripping unsupported preferences\<close>

text \<open>Text made of names each followed by a comma.\<close>

definition with_commas :: "bytes list \<Rightarrow> bytes" where
  "with_commas ns = concat (map (\<lambda>n. n @ [COMMA]) ns)"

lemma supported_iff:
  assumes "good_table table"
  shows "kex_get_method_by_name n table \<noteq> None \<longleftrightarrow> n \<in> set (map m_name table)"
proof
  assume "kex_get_method_by_name n table \<noteq> None"
  then obtain m where "kex_get_method_by_name n table = Some m" by auto
  then have m: "m \<in> set table" "length (m_name m) = length n" "strncmp_eq (m_name m) n (length n)"
    by (auto simp: kex_get_method_by_name_def find_Some_iff)
  moreover have "0 \<notin> set (m_name m)" using assms m(1) by (auto simp: good_table_def list_all_iff proper_name_def)
  moreover have "strncmp_eq n (m_name m) (length (m_name m))"
    using m(3) unfolding strncmp_eq_def m(2) by (rule sym)
  ultimately have "n = m_name m" using strncmp_eq_take [of "m_name m" n] by simp
  then show "n \<in> set (map m_name table)" using m(1) by simp
next
  assume "n \<in> set (map m_name table)"
  then show "kex_get_method_by_name n table \<noteq> None" using get_method [OF assms] by auto
qed

lemma pref_names_commas:
  "list_all (\<lambda>n. COMMA \<notin> set n) ds \<Longrightarrow> pref_names (with_commas ds @ r) = ds @ pref_names r"
proof (induction ds)
  case (Cons n ds)
  have t: "takeWhile (\<lambda>b. b \<noteq> COMMA) (n @ COMMA # x) = n" "dropWhile (\<lambda>b. b \<noteq> COMMA) (n @ COMMA # x) = COMMA # x" for x
    using Cons.prems by (auto intro!: takeWhile_append_stop dropWhile_append_stop)
  show ?case
    using Cons t by (simp add: with_commas_def pref_names.simps [of "n @ _"])
qed (simp add: with_commas_def)

lemma pref_names_single: "n \<noteq> [] \<Longrightarrow> COMMA \<notin> set n \<Longrightarrow> pref_names n = [n]"
proof -
  assume n: "n \<noteq> []" "COMMA \<notin> set n"
  then have "takeWhile (\<lambda>b. b \<noteq> COMMA) n = n" "dropWhile (\<lambda>b. b \<noteq> COMMA) n = []"
    by (auto simp: takeWhile_eq_all_conv dropWhile_eq_Nil_conv)
  then show "pref_names n = [n]" using n by (subst pref_names.simps) (simp del: dropWhile_eq_Nil_conv)
qed

lemma pref_names_butlast:
  assumes "list_all (\<lambda>n. n \<noteq> [] \<and> COMMA \<notin> set n) ds"
  shows "pref_names (butlast (with_commas ds)) = ds"
proof (cases ds rule: rev_cases)
  case Nil
  then show ?thesis by (simp add: with_commas_def pref_names.simps)
next
  case (snoc es n)
  then have "butlast (with_commas ds) = with_commas es @ n"
    by (simp add: with_commas_def butlast_append)
  then show ?thesis
    using assms snoc pref_names_commas [of es n] by (simp add: pref_names_single list_all_iff)
qed

lemma strip_prefs_filter:
  assumes "good_table table"
  shows "list_all (\<lambda>n. n \<noteq> [] \<and> COMMA \<notin> set n) ds \<Longrightarrow>
    pref_names (strip_prefs table (with_commas ds) s) = ds @ filter (\<lambda>n. n \<in> set (map m_name table)) (pref_names s)"
proof (induction s arbitrary: ds rule: length_induct)
  case (1 s)
  show ?case
  proof (cases "s = []")
    case True
    have "list_all (\<lambda>n. COMMA \<notin> set n) ds" using "1.prems" by (auto simp: list_all_iff)
    then show ?thesis
      using True pref_names_commas [of ds "[]"] by (simp add: strip_prefs.simps [of table "with_commas ds"] pref_names.simps [of "[]"])
  next
    case False
    let ?n = "takeWhile (\<lambda>b. b \<noteq> COMMA) s" and ?d = "dropWhile (\<lambda>b. b \<noteq> COMMA) s"
    have nc: "COMMA \<notin> set ?n" by (auto dest: set_takeWhileD)
    have ne: "?n \<in> set (map m_name table) \<Longrightarrow> ?n \<noteq> []"
      using assms by (auto simp: good_table_def list_all_iff proper_name_def)
    have pn: "pref_names s = ?n # (case ?d of [] \<Rightarrow> [] | _ # r \<Rightarrow> pref_names r)"
      using False by (subst pref_names.simps) simp
    have ds: "list_all (\<lambda>n. COMMA \<notin> set n) ds" using "1.prems" by (auto simp: list_all_iff)
    have wc: "with_commas ds @ ?n @ [COMMA] = with_commas (ds @ [?n])" by (simp add: with_commas_def)
    show ?thesis
    proof (cases ?d)
      case Nil
      show ?thesis
        using False Nil supported_iff [OF assms, of ?n] pn "1.prems" pref_names_commas [OF ds, of ?n] ne nc
        by (subst strip_prefs.simps)
           (auto simp: Let_def pref_names_butlast pref_names_single simp del: dropWhile_eq_Nil_conv)
    next
      case (Cons c r)
      have IH: "list_all (\<lambda>n. n \<noteq> [] \<and> COMMA \<notin> set n) es \<Longrightarrow>
          pref_names (strip_prefs table (with_commas es) r) = es @ filter (\<lambda>n. n \<in> set (map m_name table)) (pref_names r)" for es
        using "1.IH" dropWhile_shorter [OF Cons] by blast
      show ?thesis
        using False Cons supported_iff [OF assms, of ?n] pn "1.prems" IH [of ds] IH [of "ds @ [?n]"] ne nc
        by (subst strip_prefs.simps) (auto simp: Let_def wc)
    qed
  qed
qed

text \<open>The preference string that a method type selects, and the names given for it.\<close>

definition prefs_of :: "int \<Rightarrow> kex_session \<Rightarrow> bytes option" where
  "prefs_of ty s =
     (if ty = 0 then kex_prefs s else if ty = 1 then hostkey_prefs s
      else if ty = 2 then crypt_prefs (kx_local s) else if ty = 3 then crypt_prefs (kx_remote s)
      else if ty = 4 then mac_prefs (kx_local s) else if ty = 5 then mac_prefs (kx_remote s)
      else if ty = 6 then comp_prefs (kx_local s) else if ty = 7 then comp_prefs (kx_remote s)
      else if ty = 8 then lang_prefs (kx_local s) else if ty = 9 then lang_prefs (kx_remote s)
      else sign_algo_prefs s)"

definition given_names :: "int \<Rightarrow> bytes \<Rightarrow> bytes list" where
  "given_names ty prefs = pref_names (if ty = 0 then kex_extensions @ prefs else prefs)"

lemma set_prefs_same: "0 \<le> ty \<Longrightarrow> ty \<le> 10 \<Longrightarrow> prefs_of ty (set_prefs ty v s) = Some v"
  by (simp add: set_prefs_def prefs_of_def)

lemma set_prefs_other:
  "0 \<le> ty \<Longrightarrow> ty \<le> 10 \<Longrightarrow> 0 \<le> ty' \<Longrightarrow> ty' \<le> 10 \<Longrightarrow> ty' \<noteq> ty \<Longrightarrow> prefs_of ty' (set_prefs ty v s) = prefs_of ty' s"
proof -
  have c: "0 \<le> t \<Longrightarrow> t \<le> 10 \<Longrightarrow> t \<in> set [0 .. 9] \<or> t = 10" for t :: int by auto
  assume "0 \<le> ty" "ty \<le> 10" "0 \<le> ty'" "ty' \<le> 10" "ty' \<noteq> ty"
  then show ?thesis
    using c [of ty] c [of ty'] by (auto simp: set_prefs_def prefs_of_def upto.simps)
qed

lemma error_keeps_prefs: "prefs_of ty (snd (libssh2_error s c m)) = prefs_of ty s"
  by (simp add: prefs_of_def libssh2_error_def libssh2_error_flags_def Let_def)

text \<open>
  setting preferences keeps exactly the supported names, in the caller's order.  For every method type
  that has a table, \<open>libssh2_session_method_pref\<close> leaves in that type's preference string the names of
  the argument (with the two extension names in front for key exchange) that the table holds, and touches no
  other preference; it fails with \<open>METHOD_NOT_SUPPORTED\<close> and changes nothing exactly when no name is left.
\<close>

theorem method_pref_filters:
  fixes prefs :: bytes
  assumes "0 \<le> ty" "ty \<le> 10" "pref_table T ty = Some table" "good_table table"
  defines "kept \<equiv> filter (\<lambda>n. n \<in> set (map m_name table)) (given_names ty prefs)"
  shows "case session_method_pref T True True s ty prefs of (rc, s') \<Rightarrow>
    (if kept = [] then rc = E_METHOD_NOT_SUPPORTED \<and> prefs_of ty s' = prefs_of ty s
     else rc = 0 \<and> (\<exists>p. prefs_of ty s' = Some p \<and> pref_names p = kept)) \<and>
    (\<forall>ty'. 0 \<le> ty' \<and> ty' \<le> 10 \<and> ty' \<noteq> ty \<longrightarrow> prefs_of ty' s' = prefs_of ty' s)"
proof -
  let ?new = "strip_prefs table [] (if ty = 0 then kex_extensions @ prefs else prefs)"
  have pn: "pref_names ?new = kept"
    using strip_prefs_filter [OF assms(4), of "[]"] by (simp add: with_commas_def kept_def given_names_def)
  moreover have "?new = [] \<longleftrightarrow> pref_names ?new = []"
    by (subst pref_names.simps) simp
  ultimately have new: "?new = [] \<longleftrightarrow> kept = []" by simp
  show ?thesis
  proof (cases "kept = []")
    case True
    then have "session_method_pref T True True s ty prefs = libssh2_error s E_METHOD_NOT_SUPPORTED
        ''The requested method(s) are not currently supported''"
      using new assms(1-3) by (simp add: session_method_pref_def)
    then show ?thesis
      using True error_keeps_prefs by (simp add: case_prod_unfold)
  next
    case False
    then have "session_method_pref T True True s ty prefs = (0, set_prefs ty ?new s)"
      using new assms(1-3) by (simp add: session_method_pref_def Let_def)
    then show ?thesis
      using False pn assms(1,2) by (simp add: set_prefs_same set_prefs_other)
  qed
qed

theorem method_pref_filters_witness:
  "case session_method_pref sample_tables True True sample_kex 2 (str ''zz,c2,yy,c1,xx'') of (rc, s') \<Rightarrow>
     rc = 0 \<and> (\<exists>p. prefs_of 2 s' = Some p \<and> pref_names p = [str ''c2'', str ''c1''])"
proof -
  have "good_table (t_crypt sample_tables)" by code_simp
  moreover have "pref_table sample_tables 2 = Some (t_crypt sample_tables)" by (simp add: pref_table_def)
  moreover have "filter (\<lambda>n. n \<in> set (map m_name (t_crypt sample_tables))) (given_names 2 (str ''zz,c2,yy,c1,xx''))
      = [str ''c2'', str ''c1'']" by code_simp
  ultimately show ?thesis
    using method_pref_filters [of 2 sample_tables "t_crypt sample_tables" "str ''zz,c2,yy,c1,xx''" sample_kex]
    by (simp split: prod.splits)
qed

section \<open>The client's KEXINIT packet\<close>

text \<open>The text of a name list in the packet.\<close>

definition field_text :: "bytes option \<times> kmethod list \<Rightarrow> bytes" where
  "field_text f = (case fst f of Some p \<Rightarrow> c_str p | None \<Rightarrow> butlast (with_commas (map m_name (snd f))))"

text \<open>
  \<open>puts f bs\<close>: with room for \<open>bs\<close> and one more byte, \<open>f\<close> stays inside the block and leaves \<open>bs\<close> written; unlike
  for \<open>appends\<close>, the byte behind may have been touched.
\<close>

definition puts :: "(wbuf \<Rightarrow> wbuf option) \<Rightarrow> bytes \<Rightarrow> bool" where
  "puts f bs \<longleftrightarrow>
     (\<forall>w. wb_wf w \<and> length bs < room w \<longrightarrow>
        (\<exists>w'. f w = Some w' \<and> wb_wf w' \<and> written w' = written w @ bs \<and>
              room w' = room w - length bs \<and> length (wb_mem w') = length (wb_mem w)))"

lemma appends_puts: "appends f bs \<Longrightarrow> puts f bs"
  unfolding puts_def by (meson appendsD less_imp_le_nat)

lemma putsD:
  assumes "puts f bs" "wb_wf w" "length bs < room w"
  obtains w' where "f w = Some w'" "wb_wf w'" "written w' = written w @ bs" "room w' = room w - length bs"
    "length (wb_mem w') = length (wb_mem w)"
  using assms unfolding puts_def by blast

lemma puts_bind:
  assumes "puts f a" "puts g b"
  shows "puts (\<lambda>w. Option.bind (f w) g) (a @ b)"
  unfolding puts_def
proof (intro allI impI)
  fix w assume w: "wb_wf w \<and> length (a @ b) < room w"
  then obtain w1 where w1: "f w = Some w1" "wb_wf w1" "written w1 = written w @ a" "room w1 = room w - length a"
    "length (wb_mem w1) = length (wb_mem w)"
    using assms(1) by (auto simp: puts_def)
  then obtain w2 where "g w1 = Some w2" "wb_wf w2" "written w2 = written w1 @ b" "room w2 = room w1 - length b"
    "length (wb_mem w2) = length (wb_mem w1)"
    using assms(2) w by (auto simp: puts_def)
  then show "\<exists>w'. Option.bind (f w) g = Some w' \<and> wb_wf w' \<and> written w' = written w @ a @ b \<and>
      room w' = room w - length (a @ b) \<and> length (wb_mem w') = length (wb_mem w)"
    using w1 by simp
qed

lemma appends_put_names: "appends (put_names ms) (with_commas (map m_name ms))"
proof (induction ms)
  case (Cons m ms)
  then show ?case
    using appends_bind [OF appends_put_bytes [of "m_name m @ [COMMA]"] Cons] by (simp add: with_commas_def)
qed (simp add: with_commas_def appends_Some)

lemma with_commas_Nil [simp]: "with_commas ns = [] \<longleftrightarrow> ns = []"
  by (auto simp: with_commas_def)

lemma strlen_text: "kex_method_strlen ms = length (butlast (with_commas (map m_name ms)))"
proof -
  have "length (with_commas ns) = sum_list (map (\<lambda>n. length n + 1) ns)" for ns
    by (induction ns) (auto simp: with_commas_def)
  then show ?thesis by (simp add: kex_method_strlen_def o_def)
qed

text \<open>Writing all the names with their commas and stepping back over the last comma.\<close>

lemma puts_names_back:
  assumes "ms \<noteq> []"
  shows "puts (\<lambda>w. map_option (wb_pos_update (\<lambda>_. wb_pos w + kex_method_strlen ms)) (put_names ms w))
    (butlast (with_commas (map m_name ms)))"
  unfolding puts_def
proof (intro allI impI)
  obtain u c where t: "with_commas (map m_name ms) = u @ [c]"
    using assms with_commas_Nil [of "map m_name ms"] by (metis map_is_Nil_conv rev_exhaust)
  have strlen: "kex_method_strlen ms = length u" by (simp add: strlen_text t)
  fix w assume "wb_wf w \<and> length (butlast (with_commas (map m_name ms))) < room w"
  then have w: "wb_wf w" "length (u @ [c]) \<le> room w" by (simp_all add: t)
  from appendsD [OF appends_put_names [of ms, unfolded t] this] obtain w' where w': "put_names ms w = Some w'"
    "wb_wf w'" "written w' = written w @ u @ [c]" "room w' = room w - length (u @ [c])"
    "length (wb_mem w') = length (wb_mem w)" .
  have pos: "wb_pos w' = wb_pos w + Suc (length u)"
    using w w'(2,4,5) by (simp add: room_def wb_wf_def)
  have "take (wb_pos w + length u) (wb_mem w') = take (wb_pos w + length u) (written w')"
    using pos by (simp add: written_def min_def)
  also have "\<dots> = written w @ u"
    unfolding w'(3) using w by (simp add: written_def wb_wf_def min_def)
  finally show "\<exists>w''. map_option (wb_pos_update (\<lambda>_. wb_pos w + kex_method_strlen ms)) (put_names ms w) = Some w'' \<and>
      wb_wf w'' \<and> written w'' = written w @ butlast (with_commas (map m_name ms)) \<and>
      room w'' = room w - length (butlast (with_commas (map m_name ms))) \<and>
      length (wb_mem w'') = length (wb_mem w)"
    using w w' pos by (simp add: t strlen written_def wb_wf_def room_def)
qed

lemma puts_prefs:
  assumes "short (field_text f)"
  shows "puts (put_prefs f) (wire_string (field_text f))"
proof (cases "fst f")
  case (Some p)
  then have "put_prefs f = (\<lambda>w. Option.bind (store_u32 (word_of_nat (length (c_str p))) w) (put_bytes (c_str p)))"
    using assms by (auto simp: put_prefs_def prefs_len_def field_text_def)
  then show ?thesis
    using appends_puts [OF appends_bind [OF appends_store_u32 appends_put_bytes]] Some
    by (simp add: wire_string_def field_text_def)
next
  case None
  define ms where "ms = snd f"
  have len: "unat (word_of_nat (kex_method_strlen ms) :: u32) = kex_method_strlen ms"
    using assms None by (simp add: field_text_def strlen_text ms_def)
  show ?thesis
  proof (cases "ms = []")
    case True
    then have "put_prefs f = (\<lambda>w. Option.bind (store_u32 0 w) Some)"
      using None by (auto simp: put_prefs_def prefs_len_def kex_method_list_def kex_method_strlen_def ms_def Let_def)
    then show ?thesis
      using appends_puts [OF appends_bind [OF appends_store_u32 [of 0] appends_Some]] None True
      by (simp add: wire_string_def field_text_def with_commas_def ms_def)
  next
    case False
    then have "put_prefs f = (\<lambda>w. Option.bind (store_u32 (word_of_nat (kex_method_strlen ms)) w)
        (\<lambda>w. map_option (wb_pos_update (\<lambda>_. wb_pos w + kex_method_strlen ms)) (put_names ms w)))"
      using None len by (auto simp: put_prefs_def prefs_len_def kex_method_list_def ms_def [symmetric] Let_def)
    then show ?thesis
      using puts_bind [OF appends_puts [OF appends_store_u32] puts_names_back [OF False]] None
      by (simp add: wire_string_def field_text_def ms_def strlen_text)
  qed
qed

lemma puts_all_prefs:
  "list_all (\<lambda>f. short (field_text f)) fs \<Longrightarrow>
     puts (put_all_prefs fs) (concat (map (\<lambda>f. wire_string (field_text f)) fs))"
proof (induction fs)
  case Nil
  then show ?case using appends_puts [OF appends_Some] by simp
next
  case (Cons f fs)
  then show ?case using puts_bind [OF puts_prefs Cons.IH, of f] by simp
qed

lemma get_strings_wire:
  "sb_wf b \<Longrightarrow> list_all short xs \<Longrightarrow> ahead b = concat (map wire_string xs) @ r \<Longrightarrow>
     \<exists>b'. get_strings (length xs) b = Some (xs, b') \<and> ahead b' = r \<and> sb_wf b'"
proof (induction xs arbitrary: b)
  case (Cons x xs)
  have g: "get_string b = (Some x, advance (4 + length x) b)"
    using get_string_wire [of b x "concat (map wire_string xs) @ r"] Cons.prems by simp
  have "ahead (advance (4 + length x) b) = concat (map wire_string xs) @ r"
    using Cons.prems by (simp add: ahead_advance)
  moreover have "sb_wf (advance (4 + length x) b)"
    using Cons.prems by (simp add: sb_wf_advance)
  ultimately show ?case
    using Cons.IH [of "advance (4 + length x) b"] Cons.prems g by auto
qed simp

lemma prefs_len_text: "prefs_len (fst f) (snd f) = word_of_nat (length (field_text f))"
  by (simp add: prefs_len_def field_text_def strlen_text split: option.splits)

text \<open>The packet that the protocol asks for.\<close>

definition kexinit_packet :: "bytes \<Rightarrow> bytes list \<Rightarrow> bytes" where
  "kexinit_packet cookie texts = [20] @ take 16 cookie @ concat (map wire_string texts) @ [0] @ htonu32 0"

lemma kexinit_fill_packet:
  assumes "length cookie \<ge> 16" "length fs = 10" "sum_list (map (\<lambda>f. length (field_text f)) fs) < 2 ^ 32"
  shows "kexinit_fill cookie fs = Some (kexinit_packet cookie (map field_text fs))"
proof -
  let ?body = "concat (map (\<lambda>f. wire_string (field_text f)) fs)"
  let ?n = "sum_list (map (\<lambda>f. length (field_text f)) fs)"
  have "length (field_text f) \<le> ?n" if "f \<in> set fs" for f
    using that member_le_sum_list [of "length (field_text f)" "map (\<lambda>f. length (field_text f)) fs"] by auto
  then have short: "list_all (\<lambda>f. short (field_text f)) fs"
    using assms(3) by (auto simp: list_all_iff intro: le_less_trans)
  have sum: "sum_list (map (\<lambda>f. prefs_len (fst f) (snd f)) gs) = word_of_nat (sum_list (map (\<lambda>f. length (field_text f)) gs))" for gs
    by (induction gs) (simp_all add: prefs_len_text)
  have blen: "length ?body = 4 * length fs + ?n"
    by (induction fs) auto
  have len: "length ?body = 40 + ?n" using blen assms(2) by simp
  let ?all = "\<lambda>w. Option.bind (put_bytes [20] w) (\<lambda>w1. Option.bind (put_bytes (take 16 cookie) w1) (put_all_prefs fs))"
  have p: "puts ?all ([20] @ take 16 cookie @ ?body)"
    by (intro puts_bind appends_puts [OF appends_put_bytes] puts_all_prefs short)
  obtain w3 where w3: "?all (wb_new (62 + ?n)) = Some w3" "wb_wf w3" "written w3 = [20] @ take 16 cookie @ ?body"
    "room w3 = 5" "length (wb_mem w3) = 62 + ?n"
    by (rule putsD [OF p, of "wb_new (62 + ?n)"]) (use len assms(1) in \<open>simp_all add: min_def\<close>)
  obtain w5 where w5: "Option.bind (put_bytes [0] w3) (store_u32 0) = Some w5" "written w5 = written w3 @ [0] @ htonu32 0"
    "room w5 = 0" "wb_wf w5"
    using appendsD [OF appends_bind [OF appends_put_bytes [of "[0]"] appends_store_u32 [of 0]] w3(2)] w3(4) by auto
  have "wb_mem w5 = written w5"
    using w5(3,4) by (simp add: room_def wb_wf_def written_def)
  moreover have "\<lparr>wb_mem = replicate (62 + ?n) 0, wb_pos = 0\<rparr> = wb_new (62 + ?n)" by (simp add: wb_new_def)
  ultimately show ?thesis
    using w3 w5 assms(3)
    by (auto simp: kexinit_fill_def sum kexinit_packet_def o_def Let_def bind_eq_Some_conv)
qed

text \<open>
  the client's KEXINIT.  With a 16-byte cookie and name lists of less than 4 GB together, \<open>kexinit\<close> stays
  inside the block it allocates (although \<open>kex_method_list\<close> writes a comma behind every list), sends and
  keeps the packet of RFC 4253, section 7.1, and a receiver that reads ten strings behind the cookie gets exactly the
  client's ten lists.
\<close>

theorem kexinit_sends_preferences:
  assumes "length cookie \<ge> 16" "\<not> kexinit_created s"
    and "sum_list (map (\<lambda>f. length (field_text f)) (kexinit_fields T s)) < 2 ^ 32"
  defines "texts \<equiv> map field_text (kexinit_fields T s)"
  shows "kexinit T True (Some cookie) 0 s = Some (0, s\<lparr>local_kexinit := Some (kexinit_packet cookie texts)\<rparr>) \<and>
    (\<exists>buf. get_strings 10 \<lparr>sb_data = kexinit_packet cookie texts, sb_off = 17\<rparr> = Some (texts, buf))"
proof -
  let ?b = "\<lparr>sb_data = kexinit_packet cookie texts, sb_off = 17\<rparr>"
  have ten: "length (kexinit_fields T s) = 10" by (simp add: kexinit_fields_def)
  have short: "list_all short texts"
    using assms(3) member_le_sum_list [of _ "map length texts"]
    by (fastforce simp: texts_def list_all_iff o_def)
  have ah: "ahead ?b = concat (map wire_string texts) @ [0] @ htonu32 0"
    using assms(1) by (simp add: ahead_def kexinit_packet_def)
  have "length (concat (map wire_string ts)) = 4 * length ts + sum_list (map length ts)" for ts
    by (induction ts) auto
  from this [of texts] have "length (concat (map wire_string texts)) = 40 + sum_list (map (\<lambda>f. length (field_text f)) (kexinit_fields T s))"
    using ten by (simp add: texts_def o_def)
  then have "sb_wf ?b"
    using assms(1,3) by (simp add: sb_wf_def kexinit_packet_def)
  from get_strings_wire [OF this short ah] have "\<exists>buf. get_strings 10 ?b = Some (texts, buf)"
    using ten by (auto simp: texts_def)
  then show ?thesis
    using kexinit_fill_packet [OF assms(1) ten assms(3)] assms(2) by (simp add: kexinit_def texts_def)
qed

theorem kexinit_sends_preferences_witness:
  "\<exists>s'. kexinit sample_tables True (Some (replicate 16 7)) 0 sample_kex = Some (0, s')"
proof -
  have "length (replicate 16 (7 :: byte)) \<ge> 16" by simp
  moreover have "\<not> kexinit_created sample_kex" by code_simp
  moreover have "sum_list (map (\<lambda>f. length (field_text f)) (kexinit_fields sample_tables sample_kex)) = 29" by code_simp
  then have "sum_list (map (\<lambda>f. length (field_text f)) (kexinit_fields sample_tables sample_kex)) < 2 ^ 32" by simp
  ultimately show ?thesis
    using kexinit_sends_preferences [of "replicate 16 7" sample_kex sample_tables] by blast
qed

end
