(* ===== verification/Packet.thy ===== *)
theory Packet
  imports Session_State Kex_Agree
begin

text \<open>
  \<^verbatim>\<open>libssh2/src/packet.c\<close>: what happens to every packet that the transport layer delivers
  (\<open>_libssh2_packet_add\<close> with a handler per message type), the three kinds of channels that the server
  may open, and the search of the packet brigade.

  A non-blocking operation that cannot proceed returns \<open>LIBSSH2_ERROR_EAGAIN\<close> and is called again with
  the same arguments; the state variables tell it where to resume.  A result \<open>None\<close> is an access through a
  null pointer or outside an array.
\<close>

section \<open>Channels opened by the server\<close>

definition FwdNotReq :: bytes where "FwdNotReq = str ''Forward not requested''"
definition X11FwdUnAvil :: bytes where "X11FwdUnAvil = str ''X11 Forward Unavailable''"
definition AuthAgentUnavail :: bytes where "AuthAgentUnavail = str ''Auth Agent unavailable''"

definition u32_at :: "bytes \<Rightarrow> nat \<Rightarrow> u32" where
  "u32_at data off = ntohu32 (take 4 (drop off data))"

text \<open>The two replies, as the code writes them into the state's packet array.\<close>

definition open_confirmation :: "channel \<Rightarrow> bytes" where
  "open_confirmation c =
     [MSG_CHANNEL_OPEN_CONFIRMATION] @ htonu32 (cd_id (ch_remote c)) @ htonu32 (cd_id (ch_local c)) @
     htonu32 (window_size_initial (ch_remote c)) @ htonu32 (packet_size (ch_remote c))"

definition open_failure :: "u32 \<Rightarrow> u32 \<Rightarrow> bytes \<Rightarrow> bytes" where
  "open_failure sender code descr =
     [MSG_CHANNEL_OPEN_FAILURE] @ htonu32 sender @ htonu32 code @ wire_string descr @ htonu32 0"

text \<open>
  The fields that the three requests share are read in the same order.  A failed read leaves the
  fields before it set and names the field.
\<close>

definition parse_numbers :: "open_req \<Rightarrow> string_buf \<Rightarrow> nat option \<times> open_req \<times> string_buf" where
  "parse_numbers r b0 =
     (case get_u32 b0 of
        (None, b1) \<Rightarrow> (Some 0, r, b1)
      | (Some v1, b1) \<Rightarrow>
          (case get_u32 b1 of
             (None, b2) \<Rightarrow> (Some 1, r\<lparr>sender_channel := v1\<rparr>, b2)
           | (Some v2, b2) \<Rightarrow>
               (case get_u32 b2 of
                  (None, b3) \<Rightarrow> (Some 2, r\<lparr>sender_channel := v1, initial_window_size := v2\<rparr>, b3)
                | (Some v3, b3) \<Rightarrow>
                    (None, r\<lparr>sender_channel := v1, initial_window_size := v2, or_packet_size := v3\<rparr>, b3))))"

text \<open>A new channel for the request: \<open>remote\<close> is the side that sends us data.\<close>

definition new_channel :: "bytes \<Rightarrow> open_req \<Rightarrow> session \<Rightarrow> addr \<times> session" where
  "new_channel ctype r s =
     (let (cid, s1) = channel_nextid s;
          c = zero_channel\<lparr>channel_type := ctype,
                ch_remote := empty_data\<lparr>cd_id := sender_channel r, window_size_initial := CHANNEL_WINDOW_DEFAULT,
                  window_size := CHANNEL_WINDOW_DEFAULT, packet_size := CHANNEL_PACKET_DEFAULT\<rparr>,
                ch_local := empty_data\<lparr>cd_id := cid, window_size_initial := initial_window_size r,
                  window_size := initial_window_size r, packet_size := or_packet_size r\<rparr>\<rparr>;
          a = next_addr s1 in
      (a, s1\<lparr>chan := (chan s1)(a := c), next_addr := Suc a\<rparr>))"

text \<open>
  Sending \<open>n\<close> bytes of the state's packet array; \<open>None\<close> when the array is shorter.
\<close>

definition send_array :: "bytes \<Rightarrow> nat \<Rightarrow> session \<Rightarrow> (int \<times> session) option" where
  "send_array arr n s = (if length arr < n then None else Some (transport_send (take n arr) s))"

subsection \<open>Forwarded connections\<close>

definition set_Q :: "(open_req \<Rightarrow> open_req) \<Rightarrow> session \<Rightarrow> session" where
  "set_Q f s = s\<lparr>packAdd_Qlstn_state := f (packAdd_Qlstn_state s)\<rparr>"

definition listener_parse :: "bytes \<Rightarrow> open_req \<Rightarrow> string option \<times> open_req" where
  "listener_parse data r0 =
     (case parse_numbers r0 \<lparr>sb_data = data, sb_off = 20\<rparr> of
        (Some i, r, _) \<Rightarrow>
          (Some ([''Data too short extracting channel'', ''Data too short extracting window size'',
                  ''Data too short extracting packet''] ! i), r)
      | (None, r1, b1) \<Rightarrow>
          (case get_string b1 of
             (None, _) \<Rightarrow> (Some ''Data too short extracting host'', r1)
           | (Some h, b2) \<Rightarrow>
               (case get_u32 b2 of
                  (None, _) \<Rightarrow> (Some ''Data too short extracting port'', r1\<lparr>or_host := h\<rparr>)
                | (Some p, b3) \<Rightarrow>
                    (case get_string b3 of
                       (None, _) \<Rightarrow> (Some ''Data too short extracting shost'', r1\<lparr>or_host := h, or_port := p\<rparr>)
                     | (Some sh, b4) \<Rightarrow>
                         (case get_u32 b4 of
                            (None, _) \<Rightarrow> (Some ''Data too short extracting sport'',
                              r1\<lparr>or_host := h, or_port := p, or_shost := sh\<rparr>)
                          | (Some sp, _) \<Rightarrow>
                              (None, r1\<lparr>or_host := h, or_port := p, or_shost := sh, or_sport := sp,
                                        or_state := NB_allocated\<rparr>))))))"

text \<open>The index of the first listener for the requested host and port.\<close>

definition listener_matches :: "open_req \<Rightarrow> listener \<Rightarrow> bool" where
  "listener_matches r l \<longleftrightarrow> ln_port l = sint (or_port r) \<and> ln_host l = or_host r"

definition find_listener :: "session \<Rightarrow> nat option" where
  "find_listener s =
     find (\<lambda>i. listener_matches (packAdd_Qlstn_state s) (listeners s ! i)) [0..<length (listeners s)]"

text \<open>
  The body of the loop at the matching listener: \<open>Inl\<close> is a \<open>break\<close> with the failure code, \<open>Inr\<close> a
  \<open>return\<close>.  The channel pointer of the state is cleared on every entry.
\<close>

definition listener_create :: "listener \<Rightarrow> session \<Rightarrow> u32 option \<times> session" where
  "listener_create l s =
     (if queue_maxsize l \<noteq> 0 \<and> queue_maxsize l \<le> queue_size l then
        (Some OPEN_RESOURCE_SHORTAGE, set_Q (or_state_update (\<lambda>_. NB_sent)) s)
      else
        let (ok1, s1) = alloc s in
        if \<not> ok1 then
          (Some OPEN_RESOURCE_SHORTAGE, set_Q (or_state_update (\<lambda>_. NB_sent))
             (serr E_ALLOC ''Unable to allocate a channel for new connection'' s1))
        else
          let (ok2, s2) = alloc s1 in
          if \<not> ok2 then
            (Some OPEN_RESOURCE_SHORTAGE, set_Q (or_state_update (\<lambda>_. NB_sent))
               (serr E_ALLOC ''Unable to allocate a channel for new connection'' s2))
          else
            let (a, s3) = new_channel (str ''forwarded-tcpip'') (packAdd_Qlstn_state s2) s2 in
            (None, set_Q (\<lambda>r. r\<lparr>or_channel := Some a, or_packet := open_confirmation (chan s3 a),
                                or_state := NB_created\<rparr>) s3))"

definition queue_channel :: "nat \<Rightarrow> addr \<Rightarrow> session \<Rightarrow> session" where
  "queue_channel i a s =
     s\<lparr>listeners := (listeners s)[i := (listeners s ! i)\<lparr>ln_queue := ln_queue (listeners s ! i) @ [a],
                                                        queue_size := queue_size (listeners s ! i) + 1\<rparr>]\<rparr>"

definition listener_at :: "nat \<Rightarrow> session \<Rightarrow> (u32 \<times> session) + (int \<times> session)" where
  "listener_at i s0 =
     (let s = set_Q (or_channel_update (\<lambda>_. None)) s0;
          (failed, s1) = (if or_state (packAdd_Qlstn_state s) = NB_allocated then listener_create (listeners s ! i) s
                          else (None, s)) in
      case failed of
        Some code \<Rightarrow> Inl (code, s1)
      | None \<Rightarrow>
          let (rc, s2) = transport_send (take 17 (or_packet (packAdd_Qlstn_state s1))) s1 in
          if rc = E_EAGAIN then Inr (rc, s2)
          else if rc \<noteq> 0 then
            Inr (rc, serr rc ''Unable to send channel open confirmation'' (set_Q (or_state_update (\<lambda>_. NB_idle)) s2))
          else
            let s3 = (case or_channel (packAdd_Qlstn_state s2) of Some a \<Rightarrow> queue_channel i a s2 | None \<Rightarrow> s2) in
            Inr (0, set_Q (or_state_update (\<lambda>_. NB_idle)) s3))"

definition listener_refuse :: "u32 \<Rightarrow> session \<Rightarrow> int \<times> session" where
  "listener_refuse code s0 =
     (let s = set_Q (\<lambda>r. r\<lparr>or_state := NB_sent, or_packet := open_failure (sender_channel r) code FwdNotReq\<rparr>) s0;
          (rc, s1) = transport_send (or_packet (packAdd_Qlstn_state s)) s in
      if rc = E_EAGAIN then (rc, s1)
      else if rc \<noteq> 0 then (rc, serr rc ''Unable to send open failure'' (set_Q (or_state_update (\<lambda>_. NB_idle)) s1))
      else (0, set_Q (or_state_update (\<lambda>_. NB_idle)) s1))"

definition packet_queue_listener :: "bytes \<Rightarrow> session \<Rightarrow> int \<times> session" where
  "packet_queue_listener data s0 =
     (let parsed = (if or_state (packAdd_Qlstn_state s0) = NB_idle then
                      if length data < 20 then Inl (E_OUT_OF_BOUNDARY, serr E_OUT_OF_BOUNDARY ''Unexpected packet size'' s0)
                      else
                        (case listener_parse data (packAdd_Qlstn_state s0) of
                           (Some msg, r) \<Rightarrow> Inl (E_BUFFER_TOO_SMALL, serr E_BUFFER_TOO_SMALL msg (set_Q (\<lambda>_. r) s0))
                         | (None, r) \<Rightarrow> Inr (set_Q (\<lambda>_. r) s0))
                    else Inr s0) in
      case parsed of
        Inl res \<Rightarrow> res
      | Inr s \<Rightarrow>
          if or_state (packAdd_Qlstn_state s) \<noteq> NB_sent then
            (case find_listener s of
               Some i \<Rightarrow>
                 (case listener_at i s of
                    Inl (code, s1) \<Rightarrow> listener_refuse code s1
                  | Inr res \<Rightarrow> res)
             | None \<Rightarrow> listener_refuse OPEN_ADMINISTRATIVELY_PROHIBITED s)
          else listener_refuse OPEN_ADMINISTRATIVELY_PROHIBITED s)"

subsection \<open>X11\<close>

definition set_X :: "(open_req \<Rightarrow> open_req) \<Rightarrow> session \<Rightarrow> session" where
  "set_X f s = s\<lparr>packAdd_x11open_state := f (packAdd_x11open_state s)\<rparr>"

definition x11_parse :: "bytes \<Rightarrow> open_req \<Rightarrow> string option \<times> open_req" where
  "x11_parse data r0 =
     (case parse_numbers r0 \<lparr>sb_data = data, sb_off = 8\<rparr> of
        (Some i, r, _) \<Rightarrow>
          (Some ([''unexpected sender channel size'', ''unexpected window size'', ''unexpected window size''] ! i), r)
      | (None, r1, b1) \<Rightarrow>
          (case get_string b1 of
             (None, _) \<Rightarrow> (Some ''unexpected host size'', r1)
           | (Some sh, b2) \<Rightarrow>
               (case get_u32 b2 of
                  (None, _) \<Rightarrow> (Some ''unexpected port size'', r1\<lparr>or_shost := sh\<rparr>)
                | (Some sp, _) \<Rightarrow> (None, r1\<lparr>or_shost := sh, or_sport := sp, or_state := NB_allocated\<rparr>))))"

definition x11_exit :: "u32 \<Rightarrow> session \<Rightarrow> int \<times> session" where
  "x11_exit code s0 =
     (let s = set_X (\<lambda>r. r\<lparr>or_packet := open_failure (sender_channel r) code X11FwdUnAvil\<rparr>) s0;
          (rc, s1) = transport_send (or_packet (packAdd_x11open_state s)) s in
      if rc = E_EAGAIN then (rc, s1)
      else if rc \<noteq> 0 then (rc, serr rc ''Unable to send open failure'' (set_X (or_state_update (\<lambda>_. NB_idle)) s1))
      else (0, set_X (or_state_update (\<lambda>_. NB_idle)) s1))"

text \<open>
  Allocating the channel: \<open>Inl\<close> jumps to the exit with a failure code.  The new channel is kept in a local
  variable only; the state's \<open>channel\<close> is not set.
\<close>

definition x11_create :: "session \<Rightarrow> (u32 \<times> session) + (addr \<times> session)" where
  "x11_create s =
     (let (ok1, s1) = alloc s in
      if \<not> ok1 then Inl (OPEN_RESOURCE_SHORTAGE, serr E_ALLOC ''allocate a channel for new connection'' s1)
      else
        let (ok2, s2) = alloc s1 in
        if \<not> ok2 then Inl (OPEN_RESOURCE_SHORTAGE, serr E_ALLOC ''allocate a channel for new connection'' s2)
        else
          let (a, s3) = new_channel (str ''x11'') (packAdd_x11open_state s2) s2 in
          Inr (a, set_X (\<lambda>r. r\<lparr>or_packet := open_confirmation (chan s3 a), or_state := NB_created\<rparr>) s3))"

text \<open>Sending the confirmation and linking the channel, which \<open>channel\<close> may not point to.\<close>

definition x11_confirm :: "addr option \<Rightarrow> session \<Rightarrow> (int \<times> session) option" where
  "x11_confirm channel s =
     (let (rc, s1) = transport_send (take 17 (or_packet (packAdd_x11open_state s))) s in
      if rc = E_EAGAIN then Some (rc, s1)
      else if rc \<noteq> 0 then
        Some (E_SOCKET_SEND, serr E_SOCKET_SEND ''Unable to send channel open confirmation''
                (set_X (or_state_update (\<lambda>_. NB_idle)) s1))
      else case channel of
        None \<Rightarrow> None
      | Some a \<Rightarrow>
          let r = packAdd_x11open_state s1 in
          Some (0, set_X (or_state_update (\<lambda>_. NB_idle))
                     (s1\<lparr>channels := channels s1 @ [a], events := events s1 @ [Ev_x11 a (or_shost r) (or_sport r)]\<rparr>)))"

definition x11_start :: "bytes \<Rightarrow> session \<Rightarrow> session + session" where
  "x11_start data s =
     (if or_state (packAdd_x11open_state s) = NB_idle then
        if length data < 8 then Inl (serr E_INVAL ''unexpected data length'' s)
        else
          (case x11_parse data (packAdd_x11open_state s) of
             (Some msg, r) \<Rightarrow> Inl (serr E_INVAL msg (set_X (\<lambda>_. r) s))
           | (None, r) \<Rightarrow> Inr (set_X (\<lambda>_. r) s))
      else Inr s)"

definition x11_proceed :: "session \<Rightarrow> (int \<times> session) option" where
  "x11_proceed s =
     (if has_x11_cb s then
        if or_state (packAdd_x11open_state s) = NB_allocated then
          (case x11_create s of
             Inl (code, s1) \<Rightarrow> Some (x11_exit code s1)
           | Inr (a, s1) \<Rightarrow> x11_confirm (Some a) s1)
        else if or_state (packAdd_x11open_state s) = NB_created then
          x11_confirm (or_channel (packAdd_x11open_state s)) s
        else Some (x11_exit OPEN_CONNECT_FAILED s)
      else Some (x11_exit OPEN_RESOURCE_SHORTAGE s))"

definition packet_x11_open :: "bytes \<Rightarrow> session \<Rightarrow> (int \<times> session) option" where
  "packet_x11_open data s =
     (case x11_start data s of
        Inl s1 \<Rightarrow> Some (x11_exit OPEN_CONNECT_FAILED s1)
      | Inr s1 \<Rightarrow> x11_proceed s1)"

subsection \<open>The authentication agent\<close>

definition set_A :: "(open_req \<Rightarrow> open_req) \<Rightarrow> session \<Rightarrow> session" where
  "set_A f s = s\<lparr>packAdd_authagent_state := f (packAdd_authagent_state s)\<rparr>"

text \<open>The array holds \<open>17 + strlen(AuthAgentUnavail)\<close> bytes, but the length sent is that of the X11 message.\<close>

definition authagent_exit :: "u32 \<Rightarrow> session \<Rightarrow> (int \<times> session) option" where
  "authagent_exit code s0 =
     (let s = set_A (\<lambda>r. r\<lparr>or_packet := open_failure (sender_channel r) code AuthAgentUnavail\<rparr>) s0 in
      case send_array (or_packet (packAdd_authagent_state s)) (17 + length X11FwdUnAvil) s of
        None \<Rightarrow> None
      | Some (rc, s1) \<Rightarrow>
          Some (if rc = E_EAGAIN then (rc, s1)
                else if rc \<noteq> 0 then
                  (rc, serr rc ''Unable to send open failure'' (set_A (or_state_update (\<lambda>_. NB_idle)) s1))
                else (0, set_A (or_state_update (\<lambda>_. NB_idle)) s1)))"

definition authagent_create :: "session \<Rightarrow> (u32 \<times> session) + session" where
  "authagent_create s =
     (let (ok1, s1) = alloc s in
      if \<not> ok1 then
        Inl (OPEN_RESOURCE_SHORTAGE, serr E_ALLOC ''allocate a channel for new connection''
               (set_A (or_channel_update (\<lambda>_. None)) s1))
      else
        let (ok2, s2) = alloc s1 in
        if \<not> ok2 then Inl (OPEN_RESOURCE_SHORTAGE, serr E_ALLOC ''allocate a channel for new connection'' s2)
        else
          let (a, s3) = new_channel (str ''auth agent'') (packAdd_authagent_state s2) s2 in
          Inr (set_A (\<lambda>r. r\<lparr>or_channel := Some a, or_packet := open_confirmation (chan s3 a),
                            or_state := NB_created\<rparr>) s3))"

definition authagent_confirm :: "session \<Rightarrow> (int \<times> session) option" where
  "authagent_confirm s =
     (let (rc, s1) = transport_send (take 17 (or_packet (packAdd_authagent_state s))) s in
      if rc = E_EAGAIN then Some (rc, s1)
      else if rc \<noteq> 0 then
        Some (E_SOCKET_SEND, serr E_SOCKET_SEND ''Unable to send channel open confirmation''
                (set_A (or_state_update (\<lambda>_. NB_idle)) s1))
      else case or_channel (packAdd_authagent_state s1) of
        None \<Rightarrow> None
      | Some a \<Rightarrow>
          Some (0, set_A (or_state_update (\<lambda>_. NB_idle))
                     (s1\<lparr>channels := channels s1 @ [a], packet_total_num := 0, fullpacket_state := NB_idle,
                         events := events s1 @ [Ev_authagent a]\<rparr>)))"

definition authagent_start :: "bytes \<Rightarrow> session \<Rightarrow> session + session" where
  "authagent_start data s =
     (if or_state (packAdd_authagent_state s) = NB_idle then
        (case parse_numbers (packAdd_authagent_state s) \<lparr>sb_data = data, sb_off = 27\<rparr> of
           (Some i, r, _) \<Rightarrow>
             Inl (serr E_BUFFER_TOO_SMALL
               ([''Data too short extracting channel'', ''Data too short extracting window size'',
                 ''Data too short extracting packet''] ! i) (set_A (\<lambda>_. r) s))
         | (None, r, _) \<Rightarrow> Inr (set_A (\<lambda>_. r\<lparr>or_state := NB_allocated\<rparr>) s))
      else Inr s)"

definition authagent_proceed :: "session \<Rightarrow> (int \<times> session) option" where
  "authagent_proceed s =
     (if has_authagent_cb s then
        if or_state (packAdd_authagent_state s) = NB_allocated then
          (case authagent_create s of
             Inl (code, s1) \<Rightarrow> authagent_exit code s1
           | Inr s1 \<Rightarrow> authagent_confirm s1)
        else if or_state (packAdd_authagent_state s) = NB_created then authagent_confirm s
        else authagent_exit OPEN_CONNECT_FAILED s
      else authagent_exit OPEN_RESOURCE_SHORTAGE s)"

definition packet_authagent_open :: "bytes \<Rightarrow> session \<Rightarrow> (int \<times> session) option" where
  "packet_authagent_open data s =
     (if length data < 27 then Some (E_OUT_OF_BOUNDARY, serr E_OUT_OF_BOUNDARY ''Unexpected packet size'' s)
      else
        case authagent_start data s of
          Inl s1 \<Rightarrow> Some (E_BUFFER_TOO_SMALL, s1)
        | Inr s1 \<Rightarrow> authagent_proceed s1)"

section \<open>Adding a packet\<close>

text \<open>
  What becomes of the packet's memory: freed, linked into the brigade, or still the caller's.
\<close>

datatype data_fate = Freed | Queued | Held

text \<open>The end of a handler: the packet is freed and the state machine goes back to idle.\<close>

definition pa_done :: "int \<Rightarrow> session \<Rightarrow> (int \<times> data_fate) \<times> session" where
  "pa_done rc s = ((rc, Freed), s\<lparr>packAdd_state := NB_idle\<rparr>)"

definition strict_violation :: "string \<Rightarrow> session \<Rightarrow> int \<times> session" where
  "strict_violation desc s =
     (E_SOCKET_DISCONNECT,
      serr E_SOCKET_DISCONNECT desc
        (libssh2_session_disconnect desc (s\<lparr>socket_state := SOCKET_DISCONNECTED, packAdd_state := NB_idle\<rparr>)))"

text \<open>
  The checks during the initial key exchange: \<open>Inl\<close> returns (and the packet has been freed), \<open>Inr\<close> goes on.
\<close>

definition kexinit_strict :: "bytes \<Rightarrow> session \<Rightarrow> (int \<times> session) + session" where
  "kexinit_strict data s =
     (if kex_strict s then Inr s
      else if length data < 17 then
        Inl (E_BUFFER_TOO_SMALL, serr E_BUFFER_TOO_SMALL ''Data too short extracting kex'' (s\<lparr>packAdd_state := NB_idle\<rparr>))
      else case get_string \<lparr>sb_data = data, sb_off = 17\<rparr> of
        (None, _) \<Rightarrow>
          Inl (E_BUFFER_TOO_SMALL, serr E_BUFFER_TOO_SMALL ''Algs too short'' (s\<lparr>packAdd_state := NB_idle\<rparr>))
      | (Some algs, _) \<Rightarrow>
          Inr (if length algs = 0 \<or> kex_agree_instr algs strict_name \<noteq> None then s\<lparr>kex_strict := True\<rparr> else s))"

definition pa_initial_kex :: "bytes \<Rightarrow> u32 \<Rightarrow> session \<Rightarrow> (int \<times> session) + session" where
  "pa_initial_kex data seq s =
     (if sflags s AND STATE_INITIAL_KEX = 0 then Inr s
      else
        case (if hd data = MSG_KEXINIT then
                (case kexinit_strict data s of
                   Inl res \<Rightarrow> Inl res
                 | Inr s1 \<Rightarrow>
                     if kex_strict s1 \<and> seq \<noteq> 0 then
                       Inl (strict_violation ''strict KEX violation: KEXINIT was not the first packet'' s1)
                     else Inr s1)
              else Inr s) of
          Inl res \<Rightarrow> Inl res
        | Inr s1 \<Rightarrow>
            if kex_strict s1 \<and> fullpacket_required_type s1 \<noteq> 0 \<and> fullpacket_required_type s1 \<noteq> hd data then
              Inl (strict_violation ''strict KEX violation: unexpected packet type'' s1)
            else Inr s1)"

subsection \<open>Messages about the connection\<close>

text \<open>A string that may be missing: the C code ignores the result of the read.\<close>

definition opt_string :: "string_buf \<Rightarrow> bytes \<times> string_buf" where
  "opt_string b = (case get_string b of (None, b1) \<Rightarrow> ([], b1) | (Some x, b1) \<Rightarrow> (x, b1))"

definition pa_disconnect :: "bytes \<Rightarrow> session \<Rightarrow> (int \<times> data_fate) \<times> session" where
  "pa_disconnect data s =
     (let s1 = (if length data \<ge> 5 \<and> has_disconnect_cb s then
                  (let (r, b1) = get_u32 \<lparr>sb_data = data, sb_off = 1\<rparr>;
                       (message, b2) = opt_string b1;
                       (language, _) = opt_string b2 in
                   s\<lparr>events := events s @ [Ev_disconnect (case r of None \<Rightarrow> 0 | Some v \<Rightarrow> v) message language]\<rparr>)
                else s) in
      pa_done E_SOCKET_DISCONNECT (serr E_SOCKET_DISCONNECT ''socket disconnect'' (s1\<lparr>socket_state := SOCKET_DISCONNECTED\<rparr>)))"

definition pa_ignore :: "bytes \<Rightarrow> session \<Rightarrow> (int \<times> data_fate) \<times> session" where
  "pa_ignore data s =
     pa_done 0 (if has_ignore_cb s then
                  s\<lparr>events := events s @ [Ev_ignore (if length data \<ge> 2 then tl data else [])]\<rparr>
                else s)"

definition pa_debug :: "bytes \<Rightarrow> session \<Rightarrow> (int \<times> data_fate) \<times> session" where
  "pa_debug data s =
     pa_done 0
       (if length data \<ge> 2 \<and> has_debug_cb s then
          (let (message, language) =
                 (if length data \<ge> 6 then
                    (let (m, b1) = opt_string \<lparr>sb_data = data, sb_off = 2\<rparr>; (l, _) = opt_string b1 in (m, l))
                  else ([], [])) in
           s\<lparr>events := events s @ [Ev_debug (data ! 1) message language]\<rparr>)
        else s)"

text \<open>
  The extensions: reads beyond the end of the packet fail and are ignored, and the loop goes on for the
  announced number of extensions.
\<close>

fun ext_loop :: "nat \<Rightarrow> string_buf \<Rightarrow> session \<Rightarrow> int \<times> session" where
  "ext_loop 0 b s = (0, s)"
| "ext_loop (Suc n) b s =
     (let (name, b1) = opt_string b;
          (value, b2) = opt_string b1 in
      if name = str ''server-sig-algs'' then
        let (ok, s1) = alloc s in
        if ok then ext_loop n b2 (s1\<lparr>server_sign_algorithms := Some value\<rparr>)
        else (E_ALLOC, serr E_ALLOC ''memory for server sign algo'' (s1\<lparr>server_sign_algorithms := None\<rparr>))
      else ext_loop n b2 s)"

definition pa_ext_info :: "bytes \<Rightarrow> session \<Rightarrow> (int \<times> data_fate) \<times> session" where
  "pa_ext_info data s =
     (if length data \<ge> 5 then
        (case get_u32 \<lparr>sb_data = data, sb_off = 1\<rparr> of
           (None, _) \<Rightarrow> pa_done E_PROTO (serr E_PROTO ''Invalid extension info received'' s)
         | (Some n, b) \<Rightarrow> (let (rc, s1) = ext_loop (unat n) b s in pa_done rc s1))
      else pa_done 0 s)"

definition pa_jump5 :: "session \<Rightarrow> (int \<times> data_fate) \<times> session" where
  "pa_jump5 s =
     (let (rc, s1) = transport_send [MSG_REQUEST_FAILURE] (s\<lparr>packAdd_state := NB_jump5\<rparr>) in
      if rc = E_EAGAIN then ((rc, Held), s1) else pa_done 0 s1)"

definition pa_global_request :: "bytes \<Rightarrow> session \<Rightarrow> (int \<times> data_fate) \<times> session" where
  "pa_global_request data s =
     (if length data \<ge> 5 then
        (let len = unat (u32_at data 1);
             want_reply = (if len \<le> 2 ^ 32 - 1 - 6 \<and> length data \<ge> 6 + len then data ! (5 + len) else 0) in
         if want_reply \<noteq> 0 then pa_jump5 s else pa_done 0 s)
      else pa_done 0 s)"

subsection \<open>Messages about channels\<close>

text \<open>
  Data for a channel.  \<open>data_head\<close> is the offset of the payload; \<open>datalen\<close> may be cut, first to the packet size
  and then to the window that was offered.  \<open>Inl\<close> ends the handling, \<open>Inr\<close> yields the length with which
  the packet is queued.
\<close>

definition pa_jump1 :: "nat \<Rightarrow> session \<Rightarrow> ((int \<times> data_fate) \<times> session) option" where
  "pa_jump1 datalen s =
     (case packAdd_channelp s of
        None \<Rightarrow> None
      | Some a \<Rightarrow>
          let (rc, s1) = channel_receive_window_adjust a (word_of_nat (size_sub datalen 13)) True
                           (s\<lparr>packAdd_state := NB_jump1\<rparr>) in
          Some (if rc = E_EAGAIN then ((rc, Freed), s1) else ((0, Freed), s1\<lparr>packAdd_state := NB_idle\<rparr>)))"

definition pa_ignore_extended :: "addr \<Rightarrow> nat \<Rightarrow> session \<Rightarrow> ((int \<times> data_fate) \<times> session) option" where
  "pa_ignore_extended a len s =
     (let c = chan s a;
          win = unat (window_size (ch_remote c));
          datalen = (if read_avail c + len - 13 \<ge> win then size_sub win (read_avail c) + 13 else len) in
      pa_jump1 datalen
        (upd_chan a (upd_remote (window_size_update (\<lambda>w. w - word_of_nat (datalen - 13))))
          (s\<lparr>packAdd_channelp := Some a\<rparr>)))"

definition pa_accept_data :: "addr \<Rightarrow> nat \<Rightarrow> nat \<Rightarrow> session \<Rightarrow> ((int \<times> data_fate) \<times> session) + (nat \<times> session)" where
  "pa_accept_data a data_head len s0 =
     (let psize = unat (packet_size (ch_remote (chan s0 a)));
          (len1, s1) = (if psize < len - data_head then
                          (psize + data_head,
                           serr E_CHANNEL_PACKET_EXCEEDED
                             ''Packet contains more data than we offered to receive, truncating'' s0)
                        else (len, s0));
          c = chan s1 a;
          win = unat (window_size (ch_remote c)) in
      if win \<le> read_avail c then
        Inl (pa_done 0 (serr E_CHANNEL_WINDOW_EXCEEDED ''The current receive window is full, data ignored'' s1))
      else
        let s2 = upd_chan a (upd_remote (cd_eof_update (\<lambda>_. False))) s1;
            (len2, s3) = (if read_avail c + len1 - data_head > win then
                            (win - read_avail c + data_head,
                             serr E_CHANNEL_WINDOW_EXCEEDED
                               ''Remote sent more data than current window allows, truncating'' s2)
                          else (len1, s2)) in
        Inr (len2, upd_chan a (read_avail_update (\<lambda>r. r + (len2 - data_head))) s3))"

definition pa_channel_data ::
  "bytes \<Rightarrow> nat \<Rightarrow> session \<Rightarrow> (((int \<times> data_fate) \<times> session) + (nat \<times> session)) option" where
  "pa_channel_data data data_head s =
     (case (if length data \<ge> data_head then channel_locate s (u32_at data 1) else None) of
        None \<Rightarrow> Some (Inl (pa_done 0 (serr E_CHANNEL_UNKNOWN ''Packet received for unknown channel'' s)))
      | Some a \<Rightarrow>
          if extended_data_ignore_mode (ch_remote (chan s a)) = EXTENDED_DATA_IGNORE \<and>
             hd data = MSG_CHANNEL_EXTENDED_DATA
          then map_option Inl (pa_ignore_extended a (length data) s)
          else Some (pa_accept_data a data_head (length data) s))"

definition pa_channel_eof :: "bytes \<Rightarrow> session \<Rightarrow> (int \<times> data_fate) \<times> session" where
  "pa_channel_eof data s =
     pa_done 0
       (case (if length data \<ge> 5 then channel_locate s (u32_at data 1) else None) of
          None \<Rightarrow> s
        | Some a \<Rightarrow> upd_chan a (upd_remote (cd_eof_update (\<lambda>_. True))) s)"

definition pa_channel_close :: "bytes \<Rightarrow> session \<Rightarrow> (int \<times> data_fate) \<times> session" where
  "pa_channel_close data s =
     pa_done 0
       (case (if length data \<ge> 5 then channel_locate s (u32_at data 1) else None) of
          None \<Rightarrow> s
        | Some a \<Rightarrow> upd_chan a (upd_remote (\<lambda>d. d\<lparr>cd_close := True, cd_eof := True\<rparr>)) s)"

definition pa_window_adjust :: "bytes \<Rightarrow> session \<Rightarrow> (int \<times> data_fate) \<times> session" where
  "pa_window_adjust data s =
     pa_done 0
       (if length data < 9 then s
        else case channel_locate s (u32_at data 1) of
          None \<Rightarrow> s
        | Some a \<Rightarrow> upd_chan a (upd_local (window_size_update (\<lambda>w. w + u32_at data 5))) s)"

text \<open>
  Requests on a channel: the exit status and the exit signal are recorded, every other request is
  refused if a reply is wanted.  A truncated signal name leaves the block that was allocated for it
  unwritten.
\<close>

definition exit_status_request :: "bytes \<Rightarrow> session \<Rightarrow> session" where
  "exit_status_request data s =
     (case (if length data \<ge> 20 then channel_locate s (u32_at data 1) else None) of
        None \<Rightarrow> s
      | Some a \<Rightarrow>
          if length data \<ge> 25 then upd_chan a (exit_status_update (\<lambda>_. u32_at data 21)) s else s)"

definition exit_signal_request :: "bytes \<Rightarrow> session \<Rightarrow> int \<times> session" where
  "exit_signal_request data s =
     (case (if length data \<ge> 20 then channel_locate s (u32_at data 1) else None) of
        None \<Rightarrow> (0, s)
      | Some a \<Rightarrow>
          if length data \<ge> 25 then
            (let namelen = unat (u32_at data 21);
                 (ok, s1) = (if namelen \<le> 2 ^ 32 - 2 then alloc s else (False, s)) in
             if \<not> ok then
               (E_ALLOC, serr E_ALLOC ''memory for signal name'' (upd_chan a (exit_signal_update (\<lambda>_. No_signal)) s1))
             else
               (0, upd_chan a (exit_signal_update (\<lambda>_.
                     if 25 + namelen \<le> length data then Signal (take namelen (drop 25 data))
                     else Uninitialised (namelen + 1))) s1))
          else (0, s))"

definition pa_jump4 :: "bytes \<Rightarrow> session \<Rightarrow> (int \<times> data_fate) \<times> session" where
  "pa_jump4 data s =
     (let (rc, s1) = transport_send ([MSG_CHANNEL_FAILURE] @ take 4 (drop 1 data)) (s\<lparr>packAdd_state := NB_jump4\<rparr>) in
      if rc = E_EAGAIN then ((rc, Held), s1) else pa_done rc s1)"

definition pa_channel_request :: "bytes \<Rightarrow> session \<Rightarrow> (int \<times> data_fate) \<times> session" where
  "pa_channel_request data s =
     (if length data \<ge> 9 then
        (let len = u32_at data 5;
             want_reply = (if unat (len + 9) < length data then data ! unat (len + 9) else 1);
             (rc, s1) =
               (if len = 11 \<and> 20 \<le> length data \<and> take 11 (drop 9 data) = str ''exit-status''
                then (0, exit_status_request data s)
                else if len = 11 \<and> 20 \<le> length data \<and> take 11 (drop 9 data) = str ''exit-signal''
                then exit_signal_request data s
                else (0, s)) in
         if want_reply \<noteq> 0 then pa_jump4 data s1 else pa_done rc s1)
      else pa_done 0 s)"

text \<open>The end of \<open>SSH_MSG_CHANNEL_OPEN\<close>, after the handler for the channel type.\<close>

definition pa_opened :: "int \<times> session \<Rightarrow> (int \<times> data_fate) \<times> session" where
  "pa_opened res = (if fst res = E_EAGAIN then ((fst res, Held), snd res) else pa_done (fst res) (snd res))"

definition pa_jump2 :: "bytes \<Rightarrow> session \<Rightarrow> (int \<times> data_fate) \<times> session" where
  "pa_jump2 data s = pa_opened (packet_queue_listener data (s\<lparr>packAdd_state := NB_jump2\<rparr>))"

definition pa_jump3 :: "bytes \<Rightarrow> session \<Rightarrow> ((int \<times> data_fate) \<times> session) option" where
  "pa_jump3 data s = map_option pa_opened (packet_x11_open data (s\<lparr>packAdd_state := NB_jump3\<rparr>))"

definition pa_jumpauthagent :: "bytes \<Rightarrow> session \<Rightarrow> ((int \<times> data_fate) \<times> session) option" where
  "pa_jumpauthagent data s =
     map_option pa_opened (packet_authagent_open data (s\<lparr>packAdd_state := NB_jumpauthagent\<rparr>))"

definition opens :: "bytes \<Rightarrow> bytes \<Rightarrow> bool" where
  "opens data ctype \<longleftrightarrow>
     length data \<ge> length ctype + 5 \<and> unat (u32_at data 1) = length ctype \<and> take (length ctype) (drop 5 data) = ctype"

definition pa_channel_open :: "bytes \<Rightarrow> session \<Rightarrow> ((int \<times> data_fate) \<times> session) option" where
  "pa_channel_open data s =
     (if length data < 17 then Some (pa_done 0 s)
      else if opens data (str ''forwarded-tcpip'') then Some (pa_jump2 data (s\<lparr>packAdd_Qlstn_state := empty_req\<rparr>))
      else if opens data (str ''x11'') then pa_jump3 data (s\<lparr>packAdd_x11open_state := empty_req\<rparr>)
      else if opens data (str ''auth-agent@openssh.com'') then
        pa_jumpauthagent data (s\<lparr>packAdd_authagent_state := empty_req\<rparr>)
      else Some (pa_done 0 s))"

subsection \<open>The whole operation\<close>

text \<open>A KEXINIT outside a key exchange, now in the brigade, starts one.\<close>

definition pa_rekey :: "bytes \<Rightarrow> session \<Rightarrow> (int \<times> data_fate) \<times> session" where
  "pa_rekey data s1 =
     (if hd data = MSG_KEXINIT \<and> sflags s1 AND STATE_EXCHANGING_KEYS = 0 \<or> packAdd_state s1 = NB_sent2 then
        (let (rc, rest) = script_next (kex_rc s1);
             s2 = s1\<lparr>readPack_state := NB_idle, packet_total_num := 0, packAdd_state := NB_idle,
                    fullpacket_state := NB_idle, kex_rc := rest\<rparr> in
         if rc = E_EAGAIN then ((rc, Queued), s2) else ((0, Queued), s2))
      else ((0, Queued), s1\<lparr>packAdd_state := NB_idle\<rparr>))"

text \<open>Queueing the packet, cut to \<open>datalen\<close> bytes.\<close>

definition pa_enqueue :: "bytes \<Rightarrow> nat \<Rightarrow> nat \<Rightarrow> session \<Rightarrow> (int \<times> data_fate) \<times> session" where
  "pa_enqueue data datalen data_head s0 =
     (let (ok, s) = alloc s0 in
      if \<not> ok then pa_done E_ALLOC s
      else
        pa_rekey data (s\<lparr>packets := packets s @ [\<lparr>pk_data = take datalen data, pk_head = data_head\<rparr>],
                        packAdd_state := NB_sent1\<rparr>))"

definition pa_dispatch :: "bytes \<Rightarrow> session \<Rightarrow> ((int \<times> data_fate) \<times> session) option" where
  "pa_dispatch data s =
     (let msg = hd data;
          queue_data = (\<lambda>data_head.
            case pa_channel_data data data_head s of
              None \<Rightarrow> None
            | Some (Inl res) \<Rightarrow> Some res
            | Some (Inr (datalen, s1)) \<Rightarrow> Some (pa_enqueue data datalen data_head (s1\<lparr>packAdd_state := NB_sent\<rparr>))) in
      if msg = MSG_DISCONNECT then Some (pa_disconnect data s)
      else if msg = MSG_IGNORE then Some (pa_ignore data s)
      else if msg = MSG_DEBUG then Some (pa_debug data s)
      else if msg = MSG_EXT_INFO then Some (pa_ext_info data s)
      else if msg = MSG_GLOBAL_REQUEST then Some (pa_global_request data s)
      else if msg = MSG_CHANNEL_EXTENDED_DATA then queue_data 13
      else if msg = MSG_CHANNEL_DATA then queue_data 9
      else if msg = MSG_CHANNEL_EOF then Some (pa_channel_eof data s)
      else if msg = MSG_CHANNEL_REQUEST then Some (pa_channel_request data s)
      else if msg = MSG_CHANNEL_CLOSE then Some (pa_channel_close data s)
      else if msg = MSG_CHANNEL_OPEN then pa_channel_open data s
      else if msg = MSG_CHANNEL_WINDOW_ADJUST then Some (pa_window_adjust data s)
      else Some (pa_enqueue data (length data) 0 (s\<lparr>packAdd_state := NB_sent\<rparr>)))"

text \<open>
  \<open>_libssh2_packet_add\<close> on a non-empty packet.  \<open>mac_ok\<close> is \<open>macstate != LIBSSH2_MAC_INVALID\<close>; \<open>seq\<close> is the
  packet's sequence number.
\<close>

definition packet_add :: "bytes \<Rightarrow> bool \<Rightarrow> u32 \<Rightarrow> session \<Rightarrow> ((int \<times> data_fate) \<times> session) option" where
  "packet_add data mac_ok seq s =
     (case packAdd_state s of
        NB_jump1 \<Rightarrow> pa_jump1 (length data) s
      | NB_jump2 \<Rightarrow> Some (pa_jump2 data s)
      | NB_jump3 \<Rightarrow> pa_jump3 data s
      | NB_jump4 \<Rightarrow> Some (pa_jump4 data s)
      | NB_jump5 \<Rightarrow> Some (pa_jump5 s)
      | NB_jumpauthagent \<Rightarrow> pa_jumpauthagent data s
      | _ \<Rightarrow>
          if packAdd_state s = NB_idle \<and> \<not> mac_ok \<and> (case macerror s of None \<Rightarrow> True | Some f \<Rightarrow> f data \<noteq> 0) then
            Some ((E_INVALID_MAC, Freed), serr E_INVALID_MAC ''Invalid MAC received'' s)
          else
            let s1 = (if packAdd_state s = NB_idle then s\<lparr>packAdd_state := NB_allocated\<rparr> else s) in
            (case pa_initial_kex data seq s1 of
               Inl (rc, s2) \<Rightarrow> Some ((rc, Freed), s2)
             | Inr s2 \<Rightarrow>
                 if packAdd_state s2 = NB_allocated then pa_dispatch data s2
                 else if packAdd_state s2 = NB_sent then Some (pa_enqueue data (length data) 0 s2)
                 else Some (pa_rekey data s2)))"

section \<open>Searching the brigade\<close>

definition pk_matches :: "byte \<Rightarrow> nat \<Rightarrow> bytes option \<Rightarrow> nat \<Rightarrow> packet \<Rightarrow> bool" where
  "pk_matches ptype ofs mbuf mlen p \<longleftrightarrow>
     hd (pk_data p) = ptype \<and> length (pk_data p) \<ge> ofs + mlen \<and>
     (case mbuf of None \<Rightarrow> True | Some b \<Rightarrow> take mlen (drop ofs (pk_data p)) = take mlen b)"

fun ask_loop :: "byte \<Rightarrow> nat \<Rightarrow> bytes option \<Rightarrow> nat \<Rightarrow> bool \<Rightarrow> packet list \<Rightarrow> (packet \<times> packet list) option + unit" where
  "ask_loop ptype ofs mbuf mlen strict [] = Inl None"
| "ask_loop ptype ofs mbuf mlen strict (p # ps) =
     (if pk_matches ptype ofs mbuf mlen p then Inl (Some (p, ps))
      else if strict then Inr ()
      else case ask_loop ptype ofs mbuf mlen strict ps of
        Inl (Some (q, qs)) \<Rightarrow> Inl (Some (q, p # qs))
      | r \<Rightarrow> r)"

text \<open>\<open>_libssh2_packet_ask\<close>: the first matching packet is taken out of the brigade.\<close>

definition packet_ask :: "byte \<Rightarrow> nat \<Rightarrow> bytes option \<Rightarrow> nat \<Rightarrow> session \<Rightarrow> (int \<times> bytes option) \<times> session" where
  "packet_ask ptype ofs mbuf mlen s =
     (case ask_loop ptype ofs mbuf mlen (kex_strict s \<and> sflags s AND STATE_INITIAL_KEX \<noteq> 0) (packets s) of
        Inl (Some (p, ps)) \<Rightarrow> ((0, Some (pk_data p)), s\<lparr>packets := ps\<rparr>)
      | Inl None \<Rightarrow> ((- 1, None), s)
      | Inr () \<Rightarrow>
          ((E_SOCKET_DISCONNECT, None),
           serr E_SOCKET_DISCONNECT ''strict KEX violation: unexpected packet type''
             (libssh2_session_disconnect ''strict KEX violation: unexpected packet type'' s)))"

fun packet_askv :: "bytes \<Rightarrow> nat \<Rightarrow> bytes option \<Rightarrow> nat \<Rightarrow> session \<Rightarrow> (int \<times> bytes option) \<times> session" where
  "packet_askv [] ofs mbuf mlen s = ((- 1, None), s)"
| "packet_askv (t # ts) ofs mbuf mlen s =
     (case packet_ask t ofs mbuf mlen s of
        ((rc, d), s1) \<Rightarrow> if rc = 0 then ((0, d), s1) else packet_askv ts ofs mbuf mlen s1)"

end
