(* ===== verification/Packet_Window.thy ===== *)
theory Packet_Window
  imports Packet
begin

text \<open>
  The receive side of flow control.  \<open>chan_inv\<close> ties the counters of every channel to the brigade: the bytes
  available to read are exactly the bytes of the queued data packets, they fit into the window that was
  offered, and channel numbers are unique.  Every message that \<open>_libssh2_packet_add\<close> handles keeps it.
\<close>

section \<open>Frames\<close>

text \<open>The connection layer's own state; everything else is bookkeeping of the operations.\<close>

definition conn ::
  "session \<Rightarrow> addr list \<times> (addr \<Rightarrow> channel) \<times> addr \<times> u32 \<times> listener list \<times> packet list" where
  "conn s = (channels s, chan s, next_addr s, next_channel s, listeners s, packets s)"

lemma conn_eq_iff:
  "conn s = conn t \<longleftrightarrow> channels s = channels t \<and> chan s = chan t \<and> next_addr s = next_addr t \<and>
     next_channel s = next_channel t \<and> listeners s = listeners t \<and> packets s = packets t"
  by (simp add: conn_def)

lemma conn_serr [simp]: "conn (serr c m s) = conn s"
  by (simp add: conn_def serr_def libssh2_error_def libssh2_error_flags_def)

lemma conn_alloc [simp]: "conn (snd (alloc s)) = conn s"
  by (simp add: conn_def alloc_def)

lemma conn_transport_send [simp]: "conn (snd (transport_send p s)) = conn s"
  by (simp add: conn_def transport_send_def split_beta Let_def)

lemma conn_updates [simp]:
  "conn (s\<lparr>packAdd_state := x1\<rparr>) = conn s"
  "conn (s\<lparr>packAdd_channelp := x2\<rparr>) = conn s"
  "conn (s\<lparr>events := x3\<rparr>) = conn s"
  "conn (s\<lparr>socket_state := x4\<rparr>) = conn s"
  "conn (s\<lparr>kex_strict := x5\<rparr>) = conn s"
  "conn (s\<lparr>server_sign_algorithms := x6\<rparr>) = conn s"
  "conn (s\<lparr>packAdd_Qlstn_state := x7\<rparr>) = conn s"
  "conn (s\<lparr>packAdd_x11open_state := x8\<rparr>) = conn s"
  "conn (s\<lparr>packAdd_authagent_state := x9\<rparr>) = conn s"
  "conn (s\<lparr>disconnect_state := x10\<rparr>) = conn s"
  "conn (s\<lparr>sflags := x11\<rparr>) = conn s"
  "conn (s\<lparr>kex_rc := x12\<rparr>) = conn s"
  "conn (s\<lparr>readPack_state := x13\<rparr>) = conn s"
  "conn (s\<lparr>fullpacket_state := x14\<rparr>) = conn s"
  "conn (s\<lparr>packet_total_num := x15\<rparr>) = conn s"
  by (simp_all add: conn_def)

lemma conn_set [simp]: "conn (set_Q f s) = conn s" "conn (set_X f s) = conn s" "conn (set_A f s) = conn s"
  by (simp_all add: conn_def set_Q_def set_X_def set_A_def)

lemma conn_disconnect [simp]: "conn (libssh2_session_disconnect m s) = conn s"
  by (simp add: libssh2_session_disconnect_def session_disconnect_ex_def session_disconnect_def split_beta Let_def)
     (simp add: conn_def)

lemma conn_done [simp]: "conn (snd (pa_done rc s)) = conn s"
  by (simp add: pa_done_def)

section \<open>The invariant\<close>

definition is_data :: "packet \<Rightarrow> bool" where
  "is_data p \<longleftrightarrow> hd (pk_data p) = MSG_CHANNEL_DATA \<or> hd (pk_data p) = MSG_CHANNEL_EXTENDED_DATA"

definition data_for :: "u32 \<Rightarrow> packet \<Rightarrow> bool" where
  "data_for cid p \<longleftrightarrow> is_data p \<and> u32_at (pk_data p) 1 = cid"

definition payload_len :: "packet \<Rightarrow> nat" where
  "payload_len p = length (pk_data p) - pk_head p"

definition queued :: "u32 \<Rightarrow> packet list \<Rightarrow> nat" where
  "queued cid ps = sum_list (map payload_len (filter (data_for cid) ps))"

lemma queued_append [simp]: "queued cid (ps @ qs) = queued cid ps + queued cid qs"
  by (simp add: queued_def)

lemma queued_Nil [simp]: "queued cid [] = 0"
  by (simp add: queued_def)

lemma queued_Cons: "queued cid (p # ps) = (if data_for cid p then payload_len p else 0) + queued cid ps"
  by (simp add: queued_def)

definition window_ok :: "channel \<Rightarrow> bool" where
  "window_ok c \<longleftrightarrow> read_avail c \<le> unat (window_size (ch_remote c)) \<and>
     unat (window_size (ch_remote c)) + unat (adjust_queue c) < 2 ^ 32"

definition chan_ok :: "session \<Rightarrow> addr \<Rightarrow> bool" where
  "chan_ok s a \<longleftrightarrow> a < next_addr s \<and> local_id s a < next_channel s \<and> window_ok (chan s a) \<and>
     read_avail (chan s a) = queued (local_id s a) (packets s)"

definition chan_inv :: "session \<Rightarrow> bool" where
  "chan_inv s \<longleftrightarrow>
     distinct (all_channels s) \<and> inj_on (local_id s) (set (all_channels s)) \<and>
     (\<forall>a \<in> set (all_channels s). chan_ok s a) \<and>
     (\<forall>p \<in> set (packets s). is_data p \<longrightarrow> u32_at (pk_data p) 1 < next_channel s)"

lemma chan_inv_cong: "conn s' = conn s \<Longrightarrow> chan_inv s' = chan_inv s"
  by (simp add: conn_eq_iff chan_inv_def chan_ok_def all_channels_def local_id_def inj_on_def)

lemma chan_inv_conn: "chan_inv s \<Longrightarrow> conn s' = conn s \<Longrightarrow> chan_inv s'"
  using chan_inv_cong by blast

text \<open>A channel that is not linked anywhere yet.\<close>

definition fresh :: "addr \<Rightarrow> session \<Rightarrow> bool" where
  "fresh a s \<longleftrightarrow> a \<notin> set (all_channels s) \<and> local_id s a \<notin> local_id s ` set (all_channels s) \<and> chan_ok s a"

lemma fresh_cong: "conn s' = conn s \<Longrightarrow> fresh a s' = fresh a s"
  by (simp add: conn_eq_iff fresh_def chan_ok_def all_channels_def local_id_def)

section \<open>Channels come and go\<close>

lemma foldl_max_id:
  assumes "\<forall>a \<in> set xs. f a \<le> (n :: u32)"
  shows "foldl (\<lambda>i a. if f a > i then f a else i) n xs = n"
  using assms by (induction xs) auto

lemma nextid_fresh:
  assumes "chan_inv s"
  shows "channel_nextid s = (next_channel s, s\<lparr>next_channel := next_channel s + 1\<rparr>)"
proof -
  have "\<forall>a \<in> set (channels s). local_id s a \<le> next_channel s"
    using assms by (auto simp: chan_inv_def chan_ok_def all_channels_def intro: less_imp_le)
  then show ?thesis by (simp add: channel_nextid_def foldl_max_id Let_def)
qed

lemma unat_succ_id: "n \<noteq> - 1 \<Longrightarrow> unat (n + 1 :: u32) = Suc (unat n)"
  using unatSuc [of n] by (metis add.commute eq_neg_iff_add_eq_0)

lemma less_succ_id: "n \<noteq> - 1 \<Longrightarrow> x < n + (1 :: u32) \<longleftrightarrow> x \<le> n"
  by (simp add: word_less_nat_alt word_le_nat_alt unat_succ_id less_Suc_eq_le)

lemma add_channel_inv:
  assumes inv: "chan_inv s" and room: "next_channel s \<noteq> - 1"
    and c: "cd_id (ch_local c) = next_channel s" "window_ok c" "read_avail c = 0"
    and s': "channels s' = channels s" "listeners s' = listeners s" "packets s' = packets s"
      "next_addr s' = Suc (next_addr s)" "next_channel s' = next_channel s + 1" "chan s' = (chan s)(next_addr s := c)"
  shows "chan_inv s' \<and> fresh (next_addr s) s'"
proof -
  let ?a = "next_addr s"
  have all: "all_channels s' = all_channels s" by (simp add: all_channels_def s')
  have a_new: "?a \<notin> set (all_channels s)" using inv by (auto simp: chan_inv_def chan_ok_def)
  have same: "chan s' b = chan s b" if "b \<in> set (all_channels s)" for b
    using s'(6) a_new that by (metis fun_upd_other)
  have ids: "local_id s' b = local_id s b" if "b \<in> set (all_channels s)" for b
    using same [OF that] by (simp add: local_id_def)
  have cid: "local_id s' ?a = next_channel s" using c(1) s'(6) by (simp add: local_id_def)
  have q0: "queued (next_channel s) (packets s) = 0"
    using inv by (auto simp: chan_inv_def queued_def data_for_def filter_empty_conv)
  have "chan_ok s' b" if "b \<in> set (all_channels s)" for b
    using inv that same [OF that] ids [OF that] room
    by (auto simp: chan_inv_def chan_ok_def s'(3-5) less_succ_id intro: less_SucI less_imp_le)
  moreover have "inj_on (local_id s') (set (all_channels s'))"
    using inv ids by (auto simp: chan_inv_def all inj_on_def)
  moreover have "next_channel s \<notin> local_id s' ` set (all_channels s)"
    using inv ids by (auto simp: chan_inv_def chan_ok_def)
  ultimately show ?thesis
    using inv room a_new q0 c(2,3) cid s'(6)
    by (auto simp: chan_inv_def fresh_def all s'(1-5) chan_ok_def less_succ_id intro: less_imp_le)
qed

lemma new_channel_inv:
  assumes inv: "chan_inv s" and room: "next_channel s \<noteq> - 1" and new: "new_channel t r s = (a, s')"
  shows "chan_inv s' \<and> fresh a s' \<and> listeners s' = listeners s"
proof -
  have a: "a = next_addr s" and s': "chan s' = (chan s)(next_addr s := chan s' a)"
    "channels s' = channels s" "listeners s' = listeners s" "packets s' = packets s"
    "next_addr s' = Suc (next_addr s)" "next_channel s' = next_channel s + 1" and
    c: "cd_id (ch_local (chan s' a)) = next_channel s" "window_ok (chan s' a)" "read_avail (chan s' a) = 0"
    using new nextid_fresh [OF inv]
    by (auto simp: new_channel_def split_beta Let_def window_ok_def zero_channel_def empty_data_def CHANNEL_WINDOW_DEFAULT_def)
  show ?thesis using add_channel_inv [OF inv room c s'(2-6,1)] a s'(3) by simp
qed

lemma link_channel:
  assumes "chan_inv s" "fresh a s"
  shows "chan_inv (s\<lparr>channels := channels s @ [a]\<rparr>)"
proof -
  let ?s = "s\<lparr>channels := channels s @ [a]\<rparr>"
  have "set (all_channels ?s) = insert a (set (all_channels s))" "distinct (all_channels ?s)"
    using assms by (auto simp: all_channels_def chan_inv_def fresh_def)
  moreover have "local_id ?s = local_id s" "chan_ok ?s = chan_ok s"
    by (auto simp: local_id_def chan_ok_def fun_eq_iff)
  ultimately show ?thesis
    using assms by (auto simp: chan_inv_def fresh_def)
qed

lemma queue_channel_inv:
  assumes inv: "chan_inv s" "fresh a s" and i: "i < length (listeners s)"
  shows "chan_inv (queue_channel i a s)"
proof -
  let ?s = "queue_channel i a s" and ?ls = "listeners s"
  have ls: "?ls = take i ?ls @ ?ls ! i # drop (Suc i) ?ls" using i by (rule id_take_nth_drop)
  have all: "all_channels s = channels s @ concat (map ln_queue (take i ?ls)) @ ln_queue (?ls ! i) @
      concat (map ln_queue (drop (Suc i) ?ls))"
    unfolding all_channels_def by (subst ls) simp
  have all': "all_channels ?s = channels s @ concat (map ln_queue (take i ?ls)) @ (ln_queue (?ls ! i) @ [a]) @
      concat (map ln_queue (drop (Suc i) ?ls))"
    using i by (simp add: all_channels_def queue_channel_def upd_conv_take_nth_drop)
  have "set (all_channels ?s) = insert a (set (all_channels s))"
    unfolding all all' by auto
  moreover have "distinct (all_channels ?s)"
    using inv unfolding chan_inv_def fresh_def all all' by auto
  moreover have "local_id ?s = local_id s" "chan_ok ?s = chan_ok s" "next_channel ?s = next_channel s"
      "packets ?s = packets s"
    by (auto simp: local_id_def chan_ok_def fun_eq_iff queue_channel_def)
  ultimately show ?thesis
    using inv by (auto simp: chan_inv_def fresh_def)
qed

lemma upd_chan_cong: "f (chan s a) = g (chan s a) \<Longrightarrow> upd_chan a f s = upd_chan a g s"
  by (simp add: upd_chan_def)

text \<open>Changes to one channel that leave its number and its accounts alone.\<close>

lemma chan_inv_upd:
  assumes inv: "chan_inv s"
    and keep: "local_id (upd_chan a f s) a = local_id s a"
      "window_ok (chan s a) \<Longrightarrow> window_ok (f (chan s a))" "read_avail (f (chan s a)) = read_avail (chan s a)"
  shows "chan_inv (upd_chan a f s)"
proof -
  have ids: "local_id (upd_chan a f s) = local_id s"
    using keep(1) by (auto simp: local_id_def upd_chan_def fun_eq_iff)
  have "all_channels (upd_chan a f s) = all_channels s" "packets (upd_chan a f s) = packets s"
      "next_channel (upd_chan a f s) = next_channel s"
    by (simp_all add: all_channels_def upd_chan_def)
  moreover have "chan_ok (upd_chan a f s) b" if "chan_ok s b" for b
    using that keep ids by (auto simp: chan_ok_def upd_chan_def)
  ultimately show ?thesis
    using inv by (auto simp: chan_inv_def ids)
qed

lemma located:
  assumes "channel_locate s cid = Some a"
  shows "a \<in> set (all_channels s)" "local_id s a = cid"
  using assms by (auto simp: channel_locate_def find_Some_iff)

section \<open>The receive window\<close>

definition adjustable :: "channel \<Rightarrow> u32 \<Rightarrow> bool" where
  "adjustable c adj \<longleftrightarrow> read_avail c \<le> unat (window_size (ch_remote c)) \<and>
     unat (window_size (ch_remote c)) + unat adj + unat (adjust_queue c) < 2 ^ 32"

lemma adjust_chan:
  assumes "channel_receive_window_adjust a adj force s = (rc, s')" "adjustable (chan s a) adj"
  shows "window_ok (chan s' a) \<and> read_avail (chan s' a) = read_avail (chan s a) \<and>
    local_id s' a = local_id s a \<and> conn (s'\<lparr>chan := chan s\<rparr>) = conn s \<and> (\<forall>b. b \<noteq> a \<longrightarrow> chan s' b = chan s b)"
proof -
  have nowrap: "unat (adj + adjust_queue (chan s a)) = unat adj + unat (adjust_queue (chan s a))"
    "unat (window_size (ch_remote (chan s a)) + adj) = unat (window_size (ch_remote (chan s a))) + unat adj"
    "unat (window_size (ch_remote (chan s a)) + (adj + adjust_queue (chan s a))) =
       unat (window_size (ch_remote (chan s a))) + (unat adj + unat (adjust_queue (chan s a)))"
    using assms(2) by (auto simp: adjustable_def unat_word_ariths)
  show ?thesis
    using assms nowrap
    by (auto simp: channel_receive_window_adjust_def adjustable_def window_ok_def Let_def split_beta
          upd_chan_def upd_remote_def conn_def local_id_def transport_send_def serr_def libssh2_error_def
          libssh2_error_flags_def algebra_simps split: if_splits)
qed

lemma adjust_inv:
  assumes "channel_receive_window_adjust a adj force s = (rc, s')" "adjustable (chan s a) adj" "chan_inv s"
  shows "chan_inv s'"
proof -
  have c: "window_ok (chan s' a)" "read_avail (chan s' a) = read_avail (chan s a)" "local_id s' a = local_id s a"
      "conn (s'\<lparr>chan := chan s\<rparr>) = conn s" "\<forall>b. b \<noteq> a \<longrightarrow> chan s' b = chan s b"
    using adjust_chan [OF assms(1,2)] by auto
  then have "conn s' = conn (upd_chan a (\<lambda>_. chan s' a) s)"
    by (auto simp: conn_eq_iff upd_chan_def fun_eq_iff)
  moreover have "chan_inv (upd_chan a (\<lambda>_. chan s' a) s)"
    by (rule chan_inv_upd) (use assms(3) c in \<open>auto simp: local_id_def upd_chan_def\<close>)
  ultimately show ?thesis by (rule chan_inv_conn [rotated])
qed

lemma jump1_inv:
  assumes "pa_jump1 datalen s = Some (res, s')" "packAdd_channelp s = Some a"
    "adjustable (chan s a) (word_of_nat (size_sub datalen 13))" "chan_inv s"
  shows "chan_inv s'"
proof -
  let ?s = "s\<lparr>packAdd_state := NB_jump1\<rparr>"
  obtain rc s1 where adj: "channel_receive_window_adjust a (word_of_nat (size_sub datalen 13)) True ?s = (rc, s1)"
    by (cases "channel_receive_window_adjust a (word_of_nat (size_sub datalen 13)) True ?s") auto
  have "chan_inv ?s" by (rule chan_inv_conn [OF assms(4)]) simp
  then have "chan_inv s1" using adjust_inv [OF adj] assms(3) by simp
  moreover have "conn s' = conn s1"
    using assms(1,2) adj by (auto simp: pa_jump1_def split: if_splits)
  ultimately show ?thesis by (rule chan_inv_conn)
qed

text \<open>Ignored extended data: the window shrinks by what was received and grows again by the same amount.\<close>

lemma ignore_extended_inv:
  assumes res: "pa_ignore_extended a len s = Some (res, s')" and inv: "chan_inv s"
    and a: "a \<in> set (all_channels s)" and len: "13 \<le> len"
  shows "chan_inv s'"
proof -
  let ?c = "chan s a"
  let ?win = "unat (window_size (ch_remote ?c))"
  define d where "d = (if read_avail ?c + len - 13 \<ge> ?win then ?win - read_avail ?c else len - 13)"
  let ?f = "upd_remote (window_size_update (\<lambda>w. w - word_of_nat d))"
  let ?s = "upd_chan a ?f (s\<lparr>packAdd_channelp := Some a\<rparr>)"
  have ok: "window_ok ?c" using inv a by (auto simp: chan_inv_def chan_ok_def)
  have le: "d \<le> ?win - read_avail ?c" "?win < 2 ^ 32"
    using len unsigned_less [of "window_size (ch_remote ?c)"] by (auto simp: d_def)
  then have d: "d < 2 ^ 32" by simp
  have datalen: "(if read_avail ?c + len - 13 \<ge> ?win then size_sub ?win (read_avail ?c) + 13 else len) = d + 13"
    using ok len le by (auto simp: d_def window_ok_def)
  have jump: "pa_jump1 (d + 13) ?s = Some (res, s')"
    using res unfolding pa_ignore_extended_def Let_def datalen by simp
  have w: "unat (window_size (ch_remote ?c) - word_of_nat d) = ?win - d"
    using le d by (subst unat_sub) (auto simp: word_le_nat_alt unat_of_nat take_bit_nat_eq_self)
  have "chan_inv (s\<lparr>packAdd_channelp := Some a\<rparr>)" by (rule chan_inv_conn [OF inv]) simp
  then have "chan_inv ?s"
    by (rule chan_inv_upd)
       (use ok le w in \<open>auto simp: local_id_def upd_chan_def upd_remote_def window_ok_def\<close>)
  moreover have "adjustable (chan ?s a) (word_of_nat (size_sub (d + 13) 13))"
    using ok le w d
    by (auto simp: adjustable_def upd_chan_def upd_remote_def window_ok_def unat_of_nat take_bit_nat_eq_self)
  moreover have "packAdd_channelp ?s = Some a" by (simp add: upd_chan_def)
  ultimately show ?thesis using jump1_inv [OF jump] by simp
qed

section \<open>Accepting data\<close>

text \<open>What of a packet is accepted: the packet size and the rest of the window bound the payload.\<close>

definition accepted_len :: "channel \<Rightarrow> nat \<Rightarrow> nat" where
  "accepted_len c n = min (min n (unat (packet_size (ch_remote c)))) (unat (window_size (ch_remote c)) - read_avail c)"

lemma accept_data:
  assumes "data_head \<le> len" "read_avail (chan s a) < unat (window_size (ch_remote (chan s a)))"
  shows "\<exists>s'. pa_accept_data a data_head len s = Inr (data_head + accepted_len (chan s a) (len - data_head), s') \<and>
    conn s' = conn (upd_chan a (\<lambda>c. (upd_remote (cd_eof_update (\<lambda>_. False)) c)
      \<lparr>read_avail := read_avail c + accepted_len c (len - data_head)\<rparr>) s)"
proof -
  let ?c = "chan s a"
  let ?p = "unat (packet_size (ch_remote ?c))" and ?w = "unat (window_size (ch_remote ?c)) - read_avail ?c"
    and ?n = "len - data_head"
  note serr = conn_serr [unfolded conn_eq_iff]
  have eq: "conn (upd_chan a f (serr c m (upd_chan a g (serr c' m' s)))) = conn (upd_chan a (f \<circ> g) s)"
       "conn (upd_chan a f (upd_chan a g (serr c' m' s))) = conn (upd_chan a (f \<circ> g) s)"
       "conn (upd_chan a f (serr c m (upd_chan a g s))) = conn (upd_chan a (f \<circ> g) s)"
       "conn (upd_chan a f (upd_chan a g s)) = conn (upd_chan a (f \<circ> g) s)" for f g c m c' m'
    by (simp_all add: conn_eq_iff serr upd_chan_def)
  show ?thesis
    using assms
    by (cases "?p < ?n"; cases "?w < min ?p ?n")
       (auto simp: pa_accept_data_def accepted_len_def Let_def eq serr comp_def min_def upd_remote_def
          intro!: arg_cong [where f = conn] upd_chan_cong)
qed

end
