(* ===== verification/Packet_Inv.thy ===== *)
theory Packet_Inv
  imports Packet_Window
begin

text \<open>
  Every handler of \<open>_libssh2_packet_add\<close> keeps the invariant of \<open>Packet_Window\<close>, and what \<open>_libssh2_packet_add\<close>
  does with a packet during a strict initial key exchange.
\<close>

section \<open>Handlers that leave the connection layer alone\<close>

lemma conn_strict_violation [simp]: "conn (snd (strict_violation m s)) = conn s"
  by (simp add: strict_violation_def)

lemma conn_kexinit_strict:
  "kexinit_strict data s = Inl (rc, s') \<Longrightarrow> conn s' = conn s"
  "kexinit_strict data s = Inr s' \<Longrightarrow> conn s' = conn s"
  by (auto simp: kexinit_strict_def split: if_splits prod.splits option.splits)

lemma conn_initial_kex:
  "pa_initial_kex data seq s = Inl (rc, s') \<Longrightarrow> conn s' = conn s"
  "pa_initial_kex data seq s = Inr s' \<Longrightarrow> conn s' = conn s"
  by (auto simp: pa_initial_kex_def strict_violation_def dest: conn_kexinit_strict split: if_splits sum.splits)

lemma conn_ext_loop: "conn (snd (ext_loop n b s)) = conn s"
  by (induction n arbitrary: b s) (simp_all add: split_beta Let_def)

lemma conn_handlers [simp]:
  "conn (snd (pa_disconnect data s)) = conn s"
  "conn (snd (pa_ignore data s)) = conn s"
  "conn (snd (pa_debug data s)) = conn s"
  "conn (snd (pa_ext_info data s)) = conn s"
  "conn (snd (pa_jump5 s)) = conn s"
  "conn (snd (pa_global_request data s)) = conn s"
  "conn (snd (pa_jump4 data s)) = conn s"
  by (simp_all add: pa_disconnect_def pa_ignore_def pa_debug_def pa_ext_info_def pa_jump5_def pa_global_request_def
        pa_jump4_def split_beta Let_def conn_ext_loop split: prod.split option.split)

lemma conn_rekey [simp]: "conn (snd (pa_rekey data s)) = conn s"
  by (simp add: pa_rekey_def split_beta Let_def)

section \<open>Handlers that change one channel\<close>

lemma done_inv: "chan_inv s \<Longrightarrow> chan_inv (snd (pa_done rc s))"
  by (rule chan_inv_conn) simp_all

lemma eof_inv:
  assumes "chan_inv s"
  shows "chan_inv (snd (pa_channel_eof data s))" "chan_inv (snd (pa_channel_close data s))"
    "chan_inv (snd (pa_window_adjust data s))" "chan_inv (exit_status_request data s)"
  using assms
  by (auto simp: pa_channel_eof_def pa_channel_close_def pa_window_adjust_def exit_status_request_def local_id_def
        upd_chan_def upd_remote_def upd_local_def window_ok_def
        intro!: done_inv chan_inv_upd [unfolded upd_chan_def] split: option.splits if_splits)

lemma exit_signal_inv:
  assumes "chan_inv s"
  shows "chan_inv (snd (exit_signal_request data s))"
proof -
  have "chan_inv (snd (alloc s))" by (rule chan_inv_conn [OF assms]) simp
  then have "chan_inv (serr c m (upd_chan a (exit_signal_update f) (snd (alloc s))))"
       "chan_inv (serr c m (upd_chan a (exit_signal_update f) s))"
       "chan_inv (upd_chan a (exit_signal_update f) (snd (alloc s)))" for c m a f
    using assms
    by (auto intro!: chan_inv_conn [OF _ conn_serr] chan_inv_upd [unfolded upd_chan_def]
          simp: local_id_def upd_chan_def window_ok_def)
  then show ?thesis
    using assms by (auto simp: exit_signal_request_def Let_def split_beta split: option.splits)
qed

lemma request_inv:
  assumes "chan_inv s"
  shows "chan_inv (snd (pa_channel_request data s))"
proof -
  have "chan_inv (snd (pa_jump4 data t))" if "chan_inv t" for t
    by (rule chan_inv_conn [OF that]) simp
  then show ?thesis
    using assms eof_inv(4) [OF assms] exit_signal_inv [OF assms]
    by (auto simp: pa_channel_request_def Let_def split_beta intro!: done_inv)
qed

section \<open>Handlers that open a channel\<close>

text \<open>The two allocations and the new channel that the three kinds of requests begin with.\<close>

lemma alloc_new:
  assumes inv: "chan_inv s" "next_channel s \<noteq> - 1"
    and "alloc s = (ok1, s1)" "alloc s1 = (ok2, s2)" "new_channel t r s2 = (a, s3)"
  shows "conn s1 = conn s" "conn s2 = conn s" "chan_inv s3" "fresh a s3" "listeners s3 = listeners s"
proof -
  show 1: "conn s1 = conn s" and 2: "conn s2 = conn s"
    using conn_alloc [of s] conn_alloc [of s1] assms by auto
  have "chan_inv s2" by (rule chan_inv_conn [OF inv(1) 2])
  moreover have "next_channel s2 \<noteq> - 1" "listeners s2 = listeners s" using inv(2) 2 by (auto simp: conn_eq_iff)
  ultimately show "chan_inv s3" "fresh a s3" "listeners s3 = listeners s"
    using new_channel_inv [OF _ _ assms(5)] by auto
qed

lemma listener_create_inv:
  assumes res: "listener_create l s = (failed, s')" and inv: "chan_inv s" "next_channel s \<noteq> - 1"
  shows "chan_inv s' \<and> listeners s' = listeners s \<and>
    (failed = None \<longrightarrow> (\<exists>a. or_channel (packAdd_Qlstn_state s') = Some a \<and> fresh a s'))"
proof -
  obtain ok1 s1 ok2 s2 a s3 where steps: "alloc s = (ok1, s1)" "alloc s1 = (ok2, s2)"
      "new_channel (str ''forwarded-tcpip'') (packAdd_Qlstn_state s2) s2 = (a, s3)"
    by (metis surj_pair)
  note new = alloc_new [OF inv steps]
  have "conn s' = conn s \<and> failed \<noteq> None \<or>
      conn s' = conn s3 \<and> failed = None \<and> or_channel (packAdd_Qlstn_state s') = Some a"
    using res steps new(1,2) by (auto simp: listener_create_def set_Q_def split: if_splits)
  then show ?thesis
    using inv new chan_inv_conn [of s s'] chan_inv_conn [of s3 s'] fresh_cong [of s' s3 a]
    by (auto simp: conn_eq_iff)
qed

lemma listener_at_inv:
  assumes i: "i < length (listeners s)" and inv: "chan_inv s" "next_channel s \<noteq> - 1"
  shows "case listener_at i s of Inl (code, s') \<Rightarrow> chan_inv s' | Inr (rc, s') \<Rightarrow> chan_inv s'"
proof -
  let ?s = "set_Q (or_channel_update (\<lambda>_. None)) s"
  obtain failed s1 where
    create: "(if or_state (packAdd_Qlstn_state ?s) = NB_allocated then listener_create (listeners ?s ! i) ?s
              else (None, ?s)) = (failed, s1)"
    by (metis surj_pair)
  have s: "chan_inv ?s" "next_channel ?s \<noteq> - 1" "listeners ?s = listeners s"
    using inv chan_inv_conn [OF inv(1), of ?s] by (auto simp: set_Q_def)
  have s1: "chan_inv s1 \<and> listeners s1 = listeners s \<and>
      (failed = None \<longrightarrow> (\<forall>a. or_channel (packAdd_Qlstn_state s1) = Some a \<longrightarrow> fresh a s1))"
  proof (cases "or_state (packAdd_Qlstn_state ?s) = NB_allocated")
    case True
    with create have "listener_create (listeners ?s ! i) ?s = (failed, s1)" by simp
    then show ?thesis using listener_create_inv [OF _ s(1,2)] s(3) by fastforce
  next
    case False
    then show ?thesis using create s by (auto simp: set_Q_def)
  qed
  obtain rc s2 where send: "transport_send (take 17 (or_packet (packAdd_Qlstn_state s1))) s1 = (rc, s2)"
    by (metis surj_pair)
  have c2: "conn s2 = conn s1" "packAdd_Qlstn_state s2 = packAdd_Qlstn_state s1"
    using send conn_transport_send [of _ s1] by (auto simp: transport_send_def split_beta Let_def)
  have s2: "chan_inv s2" using s1 c2 chan_inv_conn by blast
  have queue: "chan_inv (queue_channel i a s2)" if "failed = None" "or_channel (packAdd_Qlstn_state s2) = Some a" for a
    using queue_channel_inv [OF s2, of a i] s1 c2 that i fresh_cong [OF c2(1)] by (auto simp: conn_eq_iff)
  have setQ: "chan_inv (set_Q f t)" "chan_inv (serr c m (set_Q f t))" if "chan_inv t" for f t c m
    by (rule chan_inv_conn [OF that]; simp)+
  show ?thesis
    using s1 s2 queue
    by (simp add: listener_at_def create send setQ split: option.split)
qed

lemma refuse_inv: "chan_inv s \<Longrightarrow> chan_inv (snd (listener_refuse code s))"
  by (erule chan_inv_conn) (simp add: listener_refuse_def Let_def split_beta)

lemma queue_listener_inv:
  assumes inv: "chan_inv s" "next_channel s \<noteq> - 1"
  shows "chan_inv (snd (packet_queue_listener data s))"
proof -
  have go: "chan_inv (snd (if or_state (packAdd_Qlstn_state t) \<noteq> NB_sent then
            (case find_listener t of
               Some i \<Rightarrow> (case listener_at i t of Inl (code, s1) \<Rightarrow> listener_refuse code s1 | Inr res \<Rightarrow> res)
             | None \<Rightarrow> listener_refuse OPEN_ADMINISTRATIVELY_PROHIBITED t)
          else listener_refuse OPEN_ADMINISTRATIVELY_PROHIBITED t))" if "conn t = conn s" for t
  proof -
    have t: "chan_inv t" "next_channel t \<noteq> - 1" using that inv chan_inv_conn by (auto simp: conn_eq_iff)
    have "i < length (listeners t)" if "find_listener t = Some i" for i
      using that by (auto simp: find_listener_def find_Some_iff)
    then show ?thesis
      using t listener_at_inv [OF _ t] refuse_inv
      by (fastforce split: option.splits sum.splits prod.splits)
  qed
  show ?thesis
    using go [of s] go [of "set_Q f s" for f] inv chan_inv_conn [OF inv(1), of "serr c m s" for c m]
      chan_inv_conn [OF inv(1), of "serr c m (set_Q f s)" for c m f]
    by (auto simp: packet_queue_listener_def Let_def split: option.splits prod.splits)
qed

subsection \<open>X11\<close>

lemma send_frame [simp]:
  "packAdd_x11open_state (snd (transport_send p s)) = packAdd_x11open_state s"
  "packAdd_authagent_state (snd (transport_send p s)) = packAdd_authagent_state s"
  "packAdd_state (snd (transport_send p s)) = packAdd_state s"
  by (simp_all add: transport_send_def split_beta Let_def)

lemma serr_frame [simp]:
  "packAdd_x11open_state (serr c m s) = packAdd_x11open_state s"
  "packAdd_authagent_state (serr c m s) = packAdd_authagent_state s"
  "packAdd_state (serr c m s) = packAdd_state s"
  by (simp_all add: serr_def libssh2_error_def libssh2_error_flags_def)

lemma alloc_frame [simp]:
  "packAdd_x11open_state (snd (alloc s)) = packAdd_x11open_state s"
  "packAdd_authagent_state (snd (alloc s)) = packAdd_authagent_state s"
  by (simp_all add: alloc_def)

lemma new_channel_frame [simp]:
  "packAdd_x11open_state (snd (new_channel t r s)) = packAdd_x11open_state s"
  "packAdd_authagent_state (snd (new_channel t r s)) = packAdd_authagent_state s"
  by (simp_all add: new_channel_def channel_nextid_def Let_def split_beta)

lemma set_frame [simp]:
  "packAdd_x11open_state (set_X f s) = f (packAdd_x11open_state s)"
  "packAdd_authagent_state (set_A f s) = f (packAdd_authagent_state s)"
  "packAdd_state (set_X f s) = packAdd_state s" "packAdd_state (set_A f s) = packAdd_state s"
  by (simp_all add: set_X_def set_A_def)

lemma parse_numbers_keeps: "parse_numbers r b = (e, r', b') \<Longrightarrow> or_channel r' = or_channel r \<and> or_state r' = or_state r"
  by (auto simp: parse_numbers_def split: prod.splits option.splits)

lemma x11_parse_keeps: "x11_parse data r = (e, r') \<Longrightarrow> or_channel r' = or_channel r"
  by (auto simp: x11_parse_def dest!: parse_numbers_keeps split: prod.splits option.splits)

text \<open>The state of an X11 request between two calls: the channel pointer is never set.\<close>

definition x11_ok :: "session \<Rightarrow> bool" where
  "x11_ok s \<longleftrightarrow> chan_inv s \<and> next_channel s \<noteq> - 1 \<and> or_channel (packAdd_x11open_state s) = None"

lemma x11_ok_conn:
  assumes "x11_ok s" "conn t = conn s" "or_channel (packAdd_x11open_state t) = None"
  shows "x11_ok t"
  using assms chan_inv_conn [of s t] by (auto simp: x11_ok_def conn_eq_iff)

definition x11_end :: "session \<Rightarrow> bool" where
  "x11_end s \<longleftrightarrow> chan_inv s \<and> or_channel (packAdd_x11open_state s) = None"

lemma x11_exit_inv:
  assumes "chan_inv s" "or_channel (packAdd_x11open_state s) = None"
  shows "x11_end (snd (x11_exit code s))"
proof -
  have "conn (snd (x11_exit code s)) = conn s"
      "or_channel (packAdd_x11open_state (snd (x11_exit code s))) = or_channel (packAdd_x11open_state s)"
    by (simp_all add: x11_exit_def Let_def split_beta)
  then show ?thesis using assms chan_inv_conn by (auto simp: x11_end_def)
qed

lemma x11_confirm_inv:
  assumes "x11_confirm ch s = Some (rc, s')" "chan_inv s" "\<forall>a. ch = Some a \<longrightarrow> fresh a s"
    "or_channel (packAdd_x11open_state s) = None"
  shows "x11_end s'"
proof -
  let ?s = "snd (transport_send (take 17 (or_packet (packAdd_x11open_state s))) s)"
  have s1: "chan_inv ?s" by (rule chan_inv_conn [OF assms(2)]) simp
  have link: "chan_inv (set_X f (?s\<lparr>channels := channels ?s @ [a], events := e\<rparr>))" if "ch = Some a" for a e f
  proof -
    have "fresh a ?s" using assms(3) that fresh_cong [OF conn_transport_send] by blast
    from link_channel [OF s1 this] show ?thesis by (rule chan_inv_conn) (simp add: conn_def set_X_def)
  qed
  have "chan_inv (serr c m (set_X f ?s))" for c m f by (rule chan_inv_conn [OF s1]) simp
  then show ?thesis
    using assms(1,4) s1 link
    by (auto simp: x11_confirm_def Let_def x11_end_def split_beta split: if_splits option.splits)
qed

lemma x11_create_inv:
  assumes "x11_ok s"
  shows "case x11_create s of Inl (code, s') \<Rightarrow> chan_inv s' \<and> or_channel (packAdd_x11open_state s') = None
    | Inr (a, s') \<Rightarrow> chan_inv s' \<and> fresh a s' \<and> or_channel (packAdd_x11open_state s') = None"
proof -
  have s: "chan_inv s" "next_channel s \<noteq> - 1" "or_channel (packAdd_x11open_state s) = None"
    using assms by (auto simp: x11_ok_def)
  obtain ok1 s1 ok2 s2 a s3 where steps: "alloc s = (ok1, s1)" "alloc s1 = (ok2, s2)"
      "new_channel (str ''x11'') (packAdd_x11open_state s2) s2 = (a, s3)"
    by (metis surj_pair)
  note new = alloc_new [OF s(1,2) steps]
  have frame: "packAdd_x11open_state s1 = packAdd_x11open_state s" "packAdd_x11open_state s2 = packAdd_x11open_state s"
      "packAdd_x11open_state s3 = packAdd_x11open_state s"
    using alloc_frame(1) [of s] alloc_frame(1) [of s1]
      new_channel_frame(1) [of "str ''x11''" "packAdd_x11open_state s2" s2]
    unfolding steps snd_conv by auto
  have "chan_inv (serr c m s1)" "chan_inv (serr c m s2)" for c m
    using new(1,2) chan_inv_conn [OF s(1)] by auto
  moreover have "chan_inv (set_X f s3)" "fresh a (set_X f s3)" for f
    using new(3,4) chan_inv_conn [OF new(3)] fresh_cong [of "set_X f s3" s3] by auto
  ultimately show ?thesis
    using steps frame s(3) by (simp add: x11_create_def)
qed

lemma x11_start_inv:
  assumes "x11_ok s"
  shows "case x11_start data s of Inl t \<Rightarrow> x11_ok t | Inr t \<Rightarrow> x11_ok t"
proof -
  have "or_channel (packAdd_x11open_state s) = None" using assms by (simp add: x11_ok_def)
  then show ?thesis
    using assms
    by (auto simp: x11_start_def intro!: x11_ok_conn [OF assms] dest!: x11_parse_keeps split: prod.split option.split)
qed

lemma x11_open_inv:
  assumes res: "packet_x11_open data s = Some (rc, s')" and ok: "x11_ok s"
  shows "x11_end s'"
proof -
  have exit': "x11_end s'" if "x11_exit code t = (rc, s')" "chan_inv t" "or_channel (packAdd_x11open_state t) = None" for code t
    using x11_exit_inv [OF that(2,3), of code] that(1) by simp
  have go: "x11_end s'" if t: "x11_ok t" "x11_proceed t = Some (rc, s')" for t
    using t x11_create_inv [OF t(1)] x11_confirm_inv [of _ _ rc s'] exit'
    by (auto simp: x11_proceed_def x11_ok_def split: if_splits sum.splits prod.splits)
  show ?thesis
    using res x11_start_inv [OF ok, of data] go exit'
    by (auto simp: packet_x11_open_def x11_ok_def split: sum.splits)
qed

subsection \<open>The authentication agent\<close>

text \<open>Between two calls, a confirmed but unlinked channel is kept in the request's state.\<close>

definition agent_pending :: "session \<Rightarrow> bool" where
  "agent_pending s \<longleftrightarrow>
     (or_state (packAdd_authagent_state s) = NB_created \<longrightarrow>
        (\<forall>a. or_channel (packAdd_authagent_state s) = Some a \<longrightarrow> fresh a s))"

lemma agent_pending_conn:
  assumes "agent_pending s" "conn t = conn s" "or_channel (packAdd_authagent_state t) = or_channel (packAdd_authagent_state s)"
    "or_state (packAdd_authagent_state t) \<in> {or_state (packAdd_authagent_state s), NB_idle}"
  shows "agent_pending t"
  using assms(1,3,4) by (auto simp: agent_pending_def fresh_cong [OF assms(2)])

lemma authagent_exit_inv:
  assumes "authagent_exit code s = Some (rc, s')" "chan_inv s" "agent_pending s"
  shows "chan_inv s' \<and> agent_pending s'"
proof -
  have "conn s' = conn s" "or_channel (packAdd_authagent_state s') = or_channel (packAdd_authagent_state s)"
      "or_state (packAdd_authagent_state s') \<in> {or_state (packAdd_authagent_state s), NB_idle}"
    using assms(1) by (auto simp: authagent_exit_def send_array_def Let_def split_beta split: if_splits)
  then show ?thesis using assms chan_inv_conn agent_pending_conn by blast
qed

lemma authagent_confirm_inv:
  assumes "authagent_confirm s = Some (rc, s')" "chan_inv s" "agent_pending s"
    "or_state (packAdd_authagent_state s) = NB_created"
  shows "chan_inv s' \<and> (rc = E_EAGAIN \<longrightarrow> agent_pending s')"
proof -
  let ?s = "snd (transport_send (take 17 (or_packet (packAdd_authagent_state s))) s)"
  have s1: "chan_inv ?s" by (rule chan_inv_conn [OF assms(2)]) simp
  have link: "chan_inv (set_A f (?s\<lparr>channels := channels ?s @ [a], packet_total_num := n, fullpacket_state := st, events := e\<rparr>))"
    if "or_channel (packAdd_authagent_state s) = Some a" for a e f n st
  proof -
    have "fresh a ?s" using assms(3,4) that fresh_cong [OF conn_transport_send] by (auto simp: agent_pending_def)
    from link_channel [OF s1 this] show ?thesis by (rule chan_inv_conn) (simp add: conn_def set_A_def)
  qed
  have err: "chan_inv (serr c m (set_A f ?s))" for c m f by (rule chan_inv_conn [OF s1]) simp
  have pend: "agent_pending ?s" by (rule agent_pending_conn [OF assms(3)]) simp_all
  show ?thesis
    using assms(1) s1 link err pend
    by (auto simp: authagent_confirm_def Let_def split_beta split: if_splits option.splits)
qed

lemma authagent_create_inv:
  assumes "chan_inv s" "next_channel s \<noteq> - 1" "or_state (packAdd_authagent_state s) = NB_allocated"
  shows "case authagent_create s of Inl (code, s') \<Rightarrow> chan_inv s' \<and> agent_pending s'
    | Inr s' \<Rightarrow> chan_inv s' \<and> agent_pending s' \<and> or_state (packAdd_authagent_state s') = NB_created"
proof -
  obtain ok1 s1 ok2 s2 a s3 where steps: "alloc s = (ok1, s1)" "alloc s1 = (ok2, s2)"
      "new_channel (str ''auth agent'') (packAdd_authagent_state s2) s2 = (a, s3)"
    by (metis surj_pair)
  note new = alloc_new [OF assms(1,2) steps]
  have frame: "packAdd_authagent_state s1 = packAdd_authagent_state s" "packAdd_authagent_state s2 = packAdd_authagent_state s"
    using alloc_frame(2) [of s] alloc_frame(2) [of s1] unfolding steps snd_conv by auto
  have "chan_inv (serr c m (set_A f s1))" "chan_inv (serr c m s2)" for c m f
    using new(1,2) chan_inv_conn [OF assms(1)] by auto
  moreover have "chan_inv (set_A f s3)" "fresh a (set_A f s3)" for f
    using new(3,4) chan_inv_conn [OF new(3)] fresh_cong [of "set_A f s3" s3] by auto
  ultimately show ?thesis
    using steps frame assms(3) by (simp add: authagent_create_def agent_pending_def)
qed

lemma authagent_open_inv:
  assumes res: "packet_authagent_open data s = Some (rc, s')"
    and s: "chan_inv s" "next_channel s \<noteq> - 1" "agent_pending s"
  shows "chan_inv s' \<and> (rc = E_EAGAIN \<longrightarrow> agent_pending s')"
proof -
  have go: "chan_inv s' \<and> (rc = E_EAGAIN \<longrightarrow> agent_pending s')"
    if t: "chan_inv t" "next_channel t \<noteq> - 1" "agent_pending t" "authagent_proceed t = Some (rc, s')" for t
    using t authagent_create_inv [OF t(1,2)] authagent_confirm_inv [of _ rc s'] authagent_exit_inv [of _ _ rc s']
    by (auto simp: authagent_proceed_def split: if_splits sum.splits prod.splits)
  have "case authagent_start data s of Inl t \<Rightarrow> conn t = conn s
      | Inr t \<Rightarrow> conn t = conn s \<and> agent_pending t"
    using s(3) by (auto simp: authagent_start_def agent_pending_def split: prod.split option.split)
  moreover have "conn t = conn s \<Longrightarrow> chan_inv t \<and> next_channel t \<noteq> - 1" for t
    using s chan_inv_conn by (auto simp: conn_eq_iff)
  ultimately show ?thesis
    using res go s chan_inv_conn [OF s(1) conn_serr]
    by (auto simp: packet_authagent_open_def split: sum.splits if_splits)
qed

section \<open>Data for a channel\<close>

lemma take_data_id:
  assumes "5 \<le> n"
  shows "hd (take n data) = hd data" "u32_at (take n data) 1 = u32_at data 1"
proof -
  show "hd (take n data) = hd data" using assms by (cases data) (auto simp: take_Cons')
  have "take 4 (drop 1 (take n data)) = take 4 (drop 1 data)"
    using assms by (simp add: drop_take)
  then show "u32_at (take n data) 1 = u32_at data 1" by (simp add: u32_at_def)
qed

text \<open>A data packet joins the brigade and its length is added to \<open>read_avail\<close>, up to what the window allows.\<close>

lemma accept_inv:
  assumes inv: "chan_inv s" and loc: "channel_locate s (u32_at data 1) = Some a"
    and head: "9 \<le> data_head" "data_head \<le> length data"
    and data: "hd data = MSG_CHANNEL_DATA \<or> hd data = MSG_CHANNEL_EXTENDED_DATA"
    and acc: "pa_accept_data a data_head (length data) s = Inr (n, s1)"
    and s2: "conn s2 = conn (s1\<lparr>packets := packets s1 @ [\<lparr>pk_data = take n data, pk_head = data_head\<rparr>]\<rparr>)"
  shows "chan_inv s2"
proof -
  let ?c = "chan s a" and ?k = "accepted_len (chan s a) (length data - data_head)"
  have a: "a \<in> set (all_channels s)" "local_id s a = u32_at data 1" using located [OF loc] by auto
  have room: "read_avail ?c < unat (window_size (ch_remote ?c))"
    using acc
    by (cases "unat (packet_size (ch_remote ?c)) < length data - data_head")
       (simp_all add: pa_accept_data_def Let_def conn_serr [unfolded conn_eq_iff] split: if_splits)
  obtain s1' where "pa_accept_data a data_head (length data) s = Inr (data_head + ?k, s1')"
      "conn s1' = conn (upd_chan a (\<lambda>c. (upd_remote (cd_eof_update (\<lambda>_. False)) c)
        \<lparr>read_avail := read_avail c + accepted_len c (length data - data_head)\<rparr>) s)"
    using accept_data [OF head(2) room] by blast
  then have n: "n = data_head + ?k" and s1: "conn s1 = conn (upd_chan a (\<lambda>c. (upd_remote (cd_eof_update (\<lambda>_. False)) c)
        \<lparr>read_avail := read_avail c + accepted_len c (length data - data_head)\<rparr>) s)"
    using acc by auto
  define c' where "c' = (upd_remote (cd_eof_update (\<lambda>_. False)) ?c)\<lparr>read_avail := read_avail ?c + ?k\<rparr>"
  let ?p = "\<lparr>pk_data = take n data, pk_head = data_head\<rparr>"
  have fields: "channels s2 = channels s" "listeners s2 = listeners s" "next_addr s2 = next_addr s"
      "next_channel s2 = next_channel s" "packets s2 = packets s @ [?p]" "chan s2 = (chan s)(a := c')"
    using s1 s2 by (auto simp: conn_eq_iff upd_chan_def c'_def)
  have all: "all_channels s2 = all_channels s" by (simp add: all_channels_def fields)
  have ids: "local_id s2 = local_id s" by (auto simp: local_id_def fields c'_def upd_remote_def fun_eq_iff)
  have k: "?k \<le> unat (window_size (ch_remote ?c)) - read_avail ?c" "?k \<le> length data - data_head"
    by (auto simp: accepted_len_def)
  have p: "payload_len ?p = ?k" using k head by (simp add: payload_len_def n)
  have isd: "data_for cid ?p \<longleftrightarrow> cid = local_id s a" "u32_at (pk_data ?p) 1 = local_id s a" for cid
    using data take_data_id [of n data] head a by (auto simp: data_for_def is_data_def n)
  have q: "queued cid [?p] = (if cid = local_id s a then ?k else 0)" for cid
    by (simp add: queued_Cons isd p)
  have ok: "chan_ok s b" if "b \<in> set (all_channels s)" for b using inv that by (auto simp: chan_inv_def)
  have "chan_ok s2 b" if b: "b \<in> set (all_channels s)" for b
  proof (cases "b = a")
    case True
    then show ?thesis
      using ok [OF a(1)] k room
      by (auto simp: chan_ok_def ids q fields window_ok_def c'_def upd_remote_def)
  next
    case False
    then have "local_id s b \<noteq> local_id s a" using inv a(1) b by (auto simp: chan_inv_def inj_on_def)
    then show ?thesis using ok [OF b] False by (auto simp: chan_ok_def ids q fields)
  qed
  moreover have "local_id s a < next_channel s" using ok [OF a(1)] by (simp add: chan_ok_def)
  ultimately show ?thesis
    using inv isd by (auto simp: chan_inv_def all ids fields)
qed

lemma other_packet_inv:
  assumes "chan_inv s" "\<not> is_data p" "conn s2 = conn (s\<lparr>packets := packets s @ [p]\<rparr>)"
  shows "chan_inv s2"
proof -
  have fields: "channels s2 = channels s" "listeners s2 = listeners s" "next_addr s2 = next_addr s"
      "next_channel s2 = next_channel s" "packets s2 = packets s @ [p]" "chan s2 = chan s"
    using assms(3) by (auto simp: conn_eq_iff)
  then have "all_channels s2 = all_channels s" "local_id s2 = local_id s" "chan_ok s2 = chan_ok s"
    using assms(2) by (auto simp: all_channels_def local_id_def chan_ok_def fun_eq_iff queued_Cons data_for_def)
  then show ?thesis using assms(1,2) by (auto simp: chan_inv_def fields)
qed

lemma enqueue_conn:
  assumes "pa_enqueue data n data_head s = ((rc, fate), s')" "rc \<noteq> E_ALLOC"
  shows "conn s' = conn (s\<lparr>packets := packets s @ [\<lparr>pk_data = take n data, pk_head = data_head\<rparr>]\<rparr>)"
    "packAdd_state s' = NB_idle"
proof -
  obtain ok s1 where al: "alloc s = (ok, s1)" by (metis surj_pair)
  have c1: "conn s1 = conn s" using conn_alloc [of s] al by simp
  have ok: "ok" using assms al by (cases ok) (auto simp: pa_enqueue_def pa_done_def)
  let ?t = "s1\<lparr>packets := packets s1 @ [\<lparr>pk_data = take n data, pk_head = data_head\<rparr>], packAdd_state := NB_sent1\<rparr>"
  have "s' = snd (pa_rekey data ?t)" using assms al ok by (simp add: pa_enqueue_def)
  then show "conn s' = conn (s\<lparr>packets := packets s @ [\<lparr>pk_data = take n data, pk_head = data_head\<rparr>]\<rparr>)"
      "packAdd_state s' = NB_idle"
    using c1 conn_rekey [of data ?t] by (auto simp: conn_eq_iff) (auto simp: pa_rekey_def split_beta Let_def)
qed

lemma adjust_state: "packAdd_state (snd (channel_receive_window_adjust a adj force s)) = packAdd_state s"
  by (simp add: channel_receive_window_adjust_def Let_def split_beta upd_chan_def)

lemma accept_full:
  assumes "pa_accept_data a data_head len s = Inl r"
  shows "\<exists>t m. r = pa_done 0 (serr E_CHANNEL_WINDOW_EXCEEDED m t) \<and> conn t = conn s"
  using assms
  by (cases "unat (packet_size (ch_remote (chan s a))) < len - data_head")
     (auto simp: pa_accept_data_def Let_def split: if_splits)

section \<open>The whole operation\<close>

definition brigade_inv :: "session \<Rightarrow> bool" where
  "brigade_inv s \<longleftrightarrow> chan_inv s \<and>
     (packAdd_state s = NB_jump3 \<longrightarrow> or_channel (packAdd_x11open_state s) = None) \<and>
     (packAdd_state s = NB_jumpauthagent \<longrightarrow> agent_pending s)"

text \<open>The states in which \<open>_libssh2_packet_add\<close> can be entered after a call that the transport did not block.\<close>

definition entry_states :: "nb_state set" where
  "entry_states = {NB_idle, NB_jump2, NB_jump3, NB_jump4, NB_jump5, NB_jumpauthagent}"

lemma plain_inv: "chan_inv s \<Longrightarrow> packAdd_state s \<notin> {NB_jump3, NB_jumpauthagent} \<Longrightarrow> brigade_inv s"
  by (simp add: brigade_inv_def)

lemma state_handlers [simp]:
  "packAdd_state (snd (pa_done rc s)) = NB_idle"
  "packAdd_state (snd (pa_disconnect data s)) = NB_idle"
  "packAdd_state (snd (pa_ignore data s)) = NB_idle"
  "packAdd_state (snd (pa_debug data s)) = NB_idle"
  "packAdd_state (snd (pa_ext_info data s)) = NB_idle"
  "packAdd_state (snd (pa_channel_eof data s)) = NB_idle"
  "packAdd_state (snd (pa_channel_close data s)) = NB_idle"
  "packAdd_state (snd (pa_window_adjust data s)) = NB_idle"
  by (simp_all add: pa_done_def pa_disconnect_def pa_ignore_def pa_debug_def pa_ext_info_def pa_channel_eof_def
        pa_channel_close_def pa_window_adjust_def Let_def split: prod.split option.split)

lemma done_brigade: "chan_inv s \<Longrightarrow> brigade_inv (snd (pa_done rc s))"
  by (intro plain_inv done_inv) simp_all

lemma jump45_state:
  "packAdd_state (snd (pa_jump4 data s)) \<notin> {NB_jump3, NB_jumpauthagent}"
  "packAdd_state (snd (pa_jump5 s)) \<notin> {NB_jump3, NB_jumpauthagent}"
  by (auto simp: pa_jump4_def pa_jump5_def pa_done_def split_beta)

lemma request_state:
  "packAdd_state (snd (pa_channel_request data s)) \<notin> {NB_jump3, NB_jumpauthagent}"
  "packAdd_state (snd (pa_global_request data s)) \<notin> {NB_jump3, NB_jumpauthagent}"
  using jump45_state by (auto simp: pa_channel_request_def pa_global_request_def Let_def split_beta)

lemma simple_handlers_inv:
  assumes "chan_inv s"
  shows "brigade_inv (snd (pa_disconnect data s))" "brigade_inv (snd (pa_ignore data s))"
    "brigade_inv (snd (pa_debug data s))" "brigade_inv (snd (pa_ext_info data s))"
    "brigade_inv (snd (pa_global_request data s))" "brigade_inv (snd (pa_channel_eof data s))"
    "brigade_inv (snd (pa_channel_close data s))" "brigade_inv (snd (pa_window_adjust data s))"
    "brigade_inv (snd (pa_channel_request data s))" "brigade_inv (snd (pa_jump4 data s))" "brigade_inv (snd (pa_jump5 s))"
  using assms eof_inv [OF assms] request_inv [OF assms] request_state jump45_state
  by (auto intro!: plain_inv intro: chan_inv_conn [OF assms])

lemma opened_inv:
  assumes "chan_inv s" "rc = E_EAGAIN \<Longrightarrow> brigade_inv s"
  shows "brigade_inv (snd (pa_opened (rc, s)))"
  using assms done_brigade by (auto simp: pa_opened_def)

text \<open>The handlers of the requests leave the state of \<open>_libssh2_packet_add\<close> and the brigade alone.\<close>

definition task :: "session \<Rightarrow> nb_state \<times> packet list \<times> inbound list \<times> nb_state \<times> calls" where
  "task s = (packAdd_state s, packets s, inbox s, readPack_state s, calls s)"

lemma task_eq_iff: "task s = task t \<longleftrightarrow> packAdd_state s = packAdd_state t \<and> packets s = packets t \<and>
    inbox s = inbox t \<and> readPack_state s = readPack_state t \<and> calls s = calls t"
  by (simp add: task_def)

lemma task_basic [simp]:
  "task (serr c m s) = task s"
  "task (snd (transport_send p s)) = task s"
  "task (set_X f s) = task s"
  "task (set_A f s) = task s"
  "task (s\<lparr>channels := x1, events := x2\<rparr>) = task s"
  "task (s\<lparr>channels := x1, packet_total_num := x3, fullpacket_state := x4, events := x2\<rparr>) = task s"
  by (simp_all add: task_def serr_def libssh2_error_def libssh2_error_flags_def transport_send_def split_beta Let_def
        set_X_def set_A_def)


lemma state_prims [simp]:
  "task (set_Q f s) = task s"
  "task (queue_channel i a s) = task s"
  "task (snd (alloc s)) = task s"
  "task (snd (new_channel t r s)) = task s"
  by (simp_all add: task_def set_Q_def queue_channel_def alloc_def new_channel_def channel_nextid_def Let_def split_beta)

lemma state_create [simp]:
  "task (snd (listener_create l s)) = task s"
  "task (snd (listener_refuse code s)) = task s"
  "task (snd (x11_exit code s)) = task s"
  by (simp_all add: listener_create_def listener_refuse_def x11_exit_def Let_def split_beta)

lemma state_listener_at:
  "case listener_at i s of Inl (code, s') \<Rightarrow> task s' = task s | Inr (rc, s') \<Rightarrow> task s' = task s"
  by (simp add: listener_at_def Let_def split_beta split: option.split)

lemma state_queue_listener: "task (snd (packet_queue_listener data s)) = task s"
proof -
  have "task (snd (case listener_at i t of Inl (code, s1) \<Rightarrow> listener_refuse code s1 | Inr res \<Rightarrow> res)) = task t" for i t
    using state_listener_at [where i = i and s = t] by (auto split: sum.splits)
  then show ?thesis
    by (simp add: packet_queue_listener_def Let_def split: option.split prod.split)
qed

lemma state_x11_open: "packet_x11_open data s = Some (rc, s') \<Longrightarrow> task s' = task s"
proof -
  have exit': "x11_exit code t = (rc, s') \<Longrightarrow> task s' = task t" for code t
    using state_create(3) [of code t] by simp
  have confirm: "x11_confirm ch t = Some (rc, s') \<Longrightarrow> task s' = task t" for ch t
    by (auto simp: x11_confirm_def Let_def split_beta split: if_splits option.splits)
  have create: "case x11_create t of Inl (code, t') \<Rightarrow> task t' = task t | Inr (a, t') \<Rightarrow> task t' = task t" for t
    by (simp add: x11_create_def Let_def split_beta)
  have proceed: "x11_proceed t = Some (rc, s') \<Longrightarrow> task s' = task t" for t
    using create [of t] exit' confirm by (fastforce simp: x11_proceed_def split: if_splits sum.splits prod.splits)
  have "case x11_start data s of Inl t \<Rightarrow> task t = task s | Inr t \<Rightarrow> task t = task s"
    by (simp add: x11_start_def split: prod.split option.split)
  then show "packet_x11_open data s = Some (rc, s') \<Longrightarrow> task s' = task s"
    using exit' proceed by (fastforce simp: packet_x11_open_def split: sum.splits)
qed

lemma state_authagent_open: "packet_authagent_open data s = Some (rc, s') \<Longrightarrow> task s' = task s"
proof -
  have exit': "authagent_exit code t = Some (rc, s') \<Longrightarrow> task s' = task t" for code t
    by (auto simp: authagent_exit_def send_array_def Let_def split_beta split: if_splits)
  have confirm: "authagent_confirm t = Some (rc, s') \<Longrightarrow> task s' = task t" for t
    by (auto simp: authagent_confirm_def Let_def split_beta split: if_splits option.splits)
  have create: "case authagent_create t of Inl (code, t') \<Rightarrow> task t' = task t | Inr t' \<Rightarrow> task t' = task t" for t
    by (simp add: authagent_create_def Let_def split_beta)
  have proceed: "authagent_proceed t = Some (rc, s') \<Longrightarrow> task s' = task t" for t
    using create [of t] exit' confirm by (fastforce simp: authagent_proceed_def split: if_splits sum.splits prod.splits)
  have "case authagent_start data s of Inl t \<Rightarrow> task t = task s | Inr t \<Rightarrow> task t = task s"
    by (simp add: authagent_start_def split: prod.split option.split)
  then show "packet_authagent_open data s = Some (rc, s') \<Longrightarrow> task s' = task s"
    using proceed by (fastforce simp: packet_authagent_open_def split: sum.splits if_splits)
qed

lemma jump2_inv:
  assumes "chan_inv s" "next_channel s \<noteq> - 1"
  shows "brigade_inv (snd (pa_jump2 data s))"
proof -
  let ?s = "s\<lparr>packAdd_state := NB_jump2\<rparr>"
  have "chan_inv ?s" by (rule chan_inv_conn [OF assms(1)]) simp
  then have "chan_inv (snd (packet_queue_listener data ?s))" using queue_listener_inv assms(2) by simp
  moreover obtain rc s1 where "packet_queue_listener data ?s = (rc, s1)" by (metis surj_pair)
  ultimately show ?thesis
    using state_queue_listener [of data ?s, unfolded task_eq_iff] opened_inv [of s1 rc] plain_inv [of s1] by (simp add: pa_jump2_def)
qed

lemma jump3_inv:
  assumes "pa_jump3 data s = Some (res, s')" "chan_inv s" "next_channel s \<noteq> - 1" "or_channel (packAdd_x11open_state s) = None"
  shows "brigade_inv s'"
proof -
  let ?s = "s\<lparr>packAdd_state := NB_jump3\<rparr>"
  obtain rc s1 where open': "packet_x11_open data ?s = Some (rc, s1)" "s' = snd (pa_opened (rc, s1))"
    using assms(1) by (auto simp: pa_jump3_def)
  have "chan_inv ?s" by (rule chan_inv_conn [OF assms(2)]) simp
  then have "x11_end s1" using x11_open_inv [OF open'(1)] assms(3,4) by (simp add: x11_ok_def)
  then show ?thesis
    using state_x11_open [OF open'(1), unfolded task_eq_iff] opened_inv [of s1 rc] by (auto simp: open'(2) x11_end_def brigade_inv_def)
qed

lemma jumpauthagent_inv:
  assumes "pa_jumpauthagent data s = Some (res, s')" "chan_inv s" "next_channel s \<noteq> - 1" "agent_pending s"
  shows "brigade_inv s'"
proof -
  let ?s = "s\<lparr>packAdd_state := NB_jumpauthagent\<rparr>"
  obtain rc s1 where open': "packet_authagent_open data ?s = Some (rc, s1)" "s' = snd (pa_opened (rc, s1))"
    using assms(1) by (auto simp: pa_jumpauthagent_def)
  have "chan_inv ?s" by (rule chan_inv_conn [OF assms(2)]) simp
  moreover have "agent_pending ?s" by (rule agent_pending_conn [OF assms(4)]) simp_all
  ultimately have "chan_inv s1 \<and> (rc = E_EAGAIN \<longrightarrow> agent_pending s1)"
    using authagent_open_inv [OF open'(1)] assms(3) by simp
  then show ?thesis
    using state_authagent_open [OF open'(1), unfolded task_eq_iff] opened_inv [of s1 rc] by (auto simp: open'(2) brigade_inv_def)
qed

lemma jump1_state: "pa_jump1 n s = Some (res, s') \<Longrightarrow> packAdd_state s' \<in> {NB_idle, NB_jump1}"
  by (auto simp: pa_jump1_def split_beta adjust_state split: option.splits if_splits)

lemma disconnect_frame [simp]: "packAdd_state (libssh2_session_disconnect m s) = packAdd_state s"
  by (simp add: libssh2_session_disconnect_def session_disconnect_ex_def session_disconnect_def split_beta Let_def)

lemma initial_kex_state:
  "pa_initial_kex data seq s = Inl (rc, s') \<Longrightarrow> packAdd_state s' = NB_idle"
  "pa_initial_kex data seq s = Inr s' \<Longrightarrow> packAdd_state s' = packAdd_state s"
  by (auto simp: pa_initial_kex_def kexinit_strict_def strict_violation_def
        split: if_splits sum.splits prod.splits option.splits)

lemma channel_data_inv:
  assumes inv: "chan_inv s" and data: "hd data = MSG_CHANNEL_DATA \<or> hd data = MSG_CHANNEL_EXTENDED_DATA"
    and head: "data_head = (if hd data = MSG_CHANNEL_EXTENDED_DATA then 13 else 9)"
    and res: "(case pa_channel_data data data_head s of
              None \<Rightarrow> None
            | Some (Inl res) \<Rightarrow> Some res
            | Some (Inr (datalen, s1)) \<Rightarrow> Some (pa_enqueue data datalen data_head (s1\<lparr>packAdd_state := NB_sent\<rparr>)))
          = Some ((rc, fate), s')" and rc: "rc \<noteq> E_ALLOC"
    and state: "packAdd_state s = NB_allocated"
  shows "chan_inv s' \<and> packAdd_state s' \<in> {NB_idle, NB_jump1}"
proof -
  have err: "chan_inv (snd (pa_done c (serr c' m t)))" "packAdd_state (snd (pa_done c (serr c' m t))) = NB_idle"
    if "conn t = conn s" for c c' m t
    using that chan_inv_conn [OF inv, of "snd (pa_done c (serr c' m t))"] by auto
  consider (unknown) "\<not> length data \<ge> data_head \<or> channel_locate s (u32_at data 1) = None"
    | (found) a where "length data \<ge> data_head" "channel_locate s (u32_at data 1) = Some a" by fastforce
  then show ?thesis
  proof cases
    case unknown
    then have "pa_done 0 (serr E_CHANNEL_UNKNOWN ''Packet received for unknown channel'' s) = ((rc, fate), s')"
      using res by (auto simp: pa_channel_data_def split: if_splits)
    then show ?thesis using err [of s 0] by (metis insertCI snd_conv)
  next
    case (found a)
    then have a: "a \<in> set (all_channels s)" using located by blast
    show ?thesis
    proof (cases "extended_data_ignore_mode (ch_remote (chan s a)) = EXTENDED_DATA_IGNORE \<and> hd data = MSG_CHANNEL_EXTENDED_DATA")
      case True
      then have ign: "pa_ignore_extended a (length data) s = Some ((rc, fate), s')"
        using res found by (cases "pa_ignore_extended a (length data) s") (auto simp: pa_channel_data_def)
      have "13 \<le> length data" using found head True by simp
      moreover have "packAdd_state s' \<in> {NB_idle, NB_jump1}"
        using ign jump1_state by (auto simp: pa_ignore_extended_def Let_def)
      ultimately show ?thesis using ignore_extended_inv [OF ign inv a] by simp
    next
      case False
      then have acc: "pa_channel_data data data_head s = Some (pa_accept_data a data_head (length data) s)"
        using found by (auto simp: pa_channel_data_def)
      show ?thesis
      proof (cases "pa_accept_data a data_head (length data) s")
        case (Inl r)
        then have "r = ((rc, fate), s')" using res acc by simp
        moreover obtain t m where "r = pa_done 0 (serr E_CHANNEL_WINDOW_EXCEEDED m t)" "conn t = conn s"
          using accept_full [OF Inl] by blast
        ultimately show ?thesis using err [of t 0 E_CHANNEL_WINDOW_EXCEEDED m] by simp
      next
        case (Inr q)
        obtain n s1 where q: "q = (n, s1)" by fastforce
        have "pa_enqueue data n data_head (s1\<lparr>packAdd_state := NB_sent\<rparr>) = ((rc, fate), s')"
          using res acc Inr q by simp
        from enqueue_conn [OF this rc] have
          "conn s' = conn (s1\<lparr>packets := packets s1 @ [\<lparr>pk_data = take n data, pk_head = data_head\<rparr>]\<rparr>)"
          "packAdd_state s' = NB_idle" by (auto simp: conn_eq_iff)
        then show ?thesis
          using accept_inv [OF inv found(2) _ found(1) data] Inr q head by auto
      qed
    qed
  qed
qed

lemma dispatch_inv:
  assumes res: "pa_dispatch data s = Some ((rc, fate), s')" and inv: "chan_inv s" "next_channel s \<noteq> - 1"
    and state: "packAdd_state s = NB_allocated" and rc: "rc \<noteq> E_ALLOC"
  shows "brigade_inv s'"
proof -
  have "brigade_inv (snd p) \<Longrightarrow> p = (r, t) \<Longrightarrow> brigade_inv t" for p t and r :: "int \<times> data_fate" by simp
  note simple = simple_handlers_inv [OF inv(1), THEN this]
  have data: "brigade_inv s'" if "hd data = MSG_CHANNEL_DATA \<or> hd data = MSG_CHANNEL_EXTENDED_DATA"
  proof -
    have "chan_inv s' \<and> packAdd_state s' \<in> {NB_idle, NB_jump1}"
    proof (cases "hd data = MSG_CHANNEL_EXTENDED_DATA")
      case True
      then show ?thesis
        using res rc by (intro channel_data_inv [OF inv(1) that, of 13] state) (simp_all add: pa_dispatch_def Let_def)
    next
      case False
      then show ?thesis
        using res that rc by (intro channel_data_inv [OF inv(1) that, of 9] state) (auto simp: pa_dispatch_def Let_def)
    qed
    then show ?thesis by (intro plain_inv) auto
  qed
  have opens: "brigade_inv s'" if op: "pa_channel_open data s = Some ((rc, fate), s')"
  proof -
    have "chan_inv (s\<lparr>packAdd_Qlstn_state := r\<rparr>)" "chan_inv (s\<lparr>packAdd_x11open_state := r\<rparr>)"
        "chan_inv (s\<lparr>packAdd_authagent_state := r\<rparr>)" for r
      by (rule chan_inv_conn [OF inv(1)]; simp)+
    moreover have "brigade_inv s'" if "pa_done 0 s = ((rc, fate), s')"
      using done_brigade [OF inv(1), of 0] that by simp
    ultimately show ?thesis
      using op inv jump2_inv [of "s\<lparr>packAdd_Qlstn_state := empty_req\<rparr>" data]
        jump3_inv [of data "s\<lparr>packAdd_x11open_state := empty_req\<rparr>"]
        jumpauthagent_inv [of data "s\<lparr>packAdd_authagent_state := empty_req\<rparr>"]
      by (auto simp: pa_channel_open_def empty_req_def agent_pending_def split: if_splits)
  qed
  have other: "brigade_inv s'" if "pa_enqueue data (length data) 0 (s\<lparr>packAdd_state := NB_sent\<rparr>) = ((rc, fate), s')"
      "hd data \<noteq> MSG_CHANNEL_DATA" "hd data \<noteq> MSG_CHANNEL_EXTENDED_DATA"
  proof (rule plain_inv)
    show "chan_inv s'"
      by (rule other_packet_inv [OF inv(1), of "\<lparr>pk_data = data, pk_head = 0\<rparr>"])
         (use enqueue_conn [OF that(1) rc] that(2,3) in \<open>auto simp: is_data_def conn_eq_iff\<close>)
  qed (use enqueue_conn [OF that(1) rc] in auto)
  show ?thesis
  proof (cases "hd data = MSG_CHANNEL_DATA \<or> hd data = MSG_CHANNEL_EXTENDED_DATA")
    case False
    then show ?thesis
      using res opens other
      by (auto simp: pa_dispatch_def Let_def intro: simple split: if_splits)
  qed (rule data)
qed

lemma packet_add_brigade:
  assumes "packet_add data mac_ok seq s = Some ((rc, fate), s')" "brigade_inv s" "packAdd_state s \<in> entry_states"
    "next_channel s \<noteq> - 1" "rc \<noteq> E_ALLOC"
  shows "brigade_inv s'"
proof -
  have inv: "chan_inv s" using assms(2) by (simp add: brigade_inv_def)
  show ?thesis
  proof (cases "packAdd_state s = NB_idle")
    case True
    let ?s = "s\<lparr>packAdd_state := NB_allocated\<rparr>"
    have mac: "brigade_inv (serr c m s)" for c m
      by (rule plain_inv) (use True chan_inv_conn [OF inv conn_serr] in auto)
    have s: "chan_inv t \<and> next_channel t \<noteq> - 1" if "conn t = conn ?s" for t
      using that chan_inv_conn [OF inv, of t] assms(4) by (auto simp: conn_eq_iff)
    have early: "brigade_inv t" if "pa_initial_kex data seq ?s = Inl (c, t)" for c t
      using s [OF conn_initial_kex(1) [OF that]] initial_kex_state(1) [OF that] by (intro plain_inv) auto
    have late: "brigade_inv s'" if "pa_initial_kex data seq ?s = Inr t" "pa_dispatch data t = Some ((rc, fate), s')" for t
      using dispatch_inv [OF that(2) _ _ _ assms(5)] s [OF conn_initial_kex(2) [OF that(1)]]
        initial_kex_state(2) [OF that(1)] by simp
    show ?thesis
      using assms(1) True mac early late initial_kex_state(2) [of data seq ?s]
      by (auto simp: packet_add_def split: if_splits sum.splits)
  next
    case False
    then have "packAdd_state s \<in> {NB_jump2, NB_jump3, NB_jump4, NB_jump5, NB_jumpauthagent}"
      using assms(3) by (auto simp: entry_states_def)
    then show ?thesis
    proof (elim insertE emptyE)
      assume st: "packAdd_state s = NB_jump2"
      then have "pa_jump2 data s = ((rc, fate), s')" using assms(1) by (simp add: packet_add_def)
      then show ?thesis using jump2_inv [OF inv assms(4), of data] by simp
    next
      assume st: "packAdd_state s = NB_jump3"
      then have "pa_jump3 data s = Some ((rc, fate), s')" using assms(1) by (simp add: packet_add_def)
      then show ?thesis by (rule jump3_inv) (use assms(2,4) inv st in \<open>simp_all add: brigade_inv_def\<close>)
    next
      assume st: "packAdd_state s = NB_jump4"
      then have "pa_jump4 data s = ((rc, fate), s')" using assms(1) by (simp add: packet_add_def)
      then show ?thesis using simple_handlers_inv(10) [OF inv, of data] by simp
    next
      assume st: "packAdd_state s = NB_jump5"
      then have "pa_jump5 s = ((rc, fate), s')" using assms(1) by (simp add: packet_add_def)
      then show ?thesis using simple_handlers_inv(11) [OF inv] by simp
    next
      assume st: "packAdd_state s = NB_jumpauthagent"
      then have "pa_jumpauthagent data s = Some ((rc, fate), s')" using assms(1) by (simp add: packet_add_def)
      then show ?thesis by (rule jumpauthagent_inv) (use assms(2,4) inv st in \<open>simp_all add: brigade_inv_def\<close>)
    qed
  qed
qed

text \<open>
  C12: Handling a message keeps the accounts of every channel right: the bytes that a channel reports as
  readable are those of its queued packets, they never exceed the window that the peer was granted, the
  window cannot overflow, and channel numbers stay unique.  This holds for every message and every
  outcome of allocations and sends, as long as channel numbers do not wrap around, with one exception
  that shows in the result: when the memory for the queue entry is missing, the packet is dropped but
  stays counted.
\<close>

theorem packet_add_window_invariant:
  assumes "packet_add data mac_ok seq s = Some ((rc, fate), s')" "brigade_inv s" "packAdd_state s \<in> entry_states"
    "next_channel s \<noteq> - 1" "rc \<noteq> E_ALLOC"
  shows "brigade_inv s'"
  using assms by (rule packet_add_brigade)

text \<open>A session with one open channel, for the concrete instances.\<close>

definition sample_channel :: channel where
  "sample_channel = zero_channel\<lparr>channel_type := str ''session'',
     ch_local := empty_data\<lparr>cd_id := 3, window_size_initial := 64, window_size := 64, packet_size := 32\<rparr>,
     ch_remote := empty_data\<lparr>cd_id := 7, window_size_initial := 6, window_size := 6, packet_size := 4\<rparr>\<rparr>"

definition sample_session :: session where
  "sample_session = \<lparr>err_code = 0, err_msg = None, err_dup = False, sflags = 0, kex_strict = False,
     fullpacket_required_type = 0, socket_state = SOCKET_CONNECTED, packAdd_state = NB_idle,
     packAdd_channelp = None, packAdd_Qlstn_state = empty_req, packAdd_x11open_state = empty_req,
     packAdd_authagent_state = empty_req, readPack_state = NB_idle, fullpacket_state = NB_idle,
     packet_total_num = 0, disconnect_state = NB_idle, disconnect_data = replicate 269 0,
     disconnect_data_len = 0, channels = [0], chan = (\<lambda>_. sample_channel), next_addr = 1, next_channel = 4,
     listeners = [], packets = [], server_sign_algorithms = None, macerror = None, has_disconnect_cb = False,
     has_ignore_cb = False, has_debug_cb = False, has_x11_cb = False, has_authagent_cb = False,
     calls = idle_calls, api_block_mode = False,
     cur_packet = ([], True, 0), fullpacket_packet_type = 0, inbox = [], timeouts = [], mem = [], send_rc = [], kex_rc = [], sent = [], events = []\<rparr>"

text \<open>Channel data for channel 3 with a payload of \<open>n\<close> bytes.\<close>

definition sample_data :: "bytes \<Rightarrow> bytes" where
  "sample_data payload = [MSG_CHANNEL_DATA] @ htonu32 3 @ wire_string payload"

lemma sample_inv: "brigade_inv sample_session" "packAdd_state sample_session \<in> entry_states" "next_channel sample_session \<noteq> - 1"
  by (simp_all add: sample_session_def brigade_inv_def chan_inv_def all_channels_def chan_ok_def local_id_def
        sample_channel_def window_ok_def zero_channel_def empty_data_def entry_states_def)

lemma sample_data_added:
  "case packet_add (sample_data [1, 2, 3, 4, 5]) True 0 sample_session of
     None \<Rightarrow> False
   | Some (res, s') \<Rightarrow> res = (0, Queued) \<and> read_avail (chan s' 0) = 4 \<and>
       map pk_data (packets s') = [take 13 (sample_data [1, 2, 3, 4, 5])]"
  by code_simp

lemma packet_add_window_invariant_witness:
  "\<exists>s'. packet_add (sample_data [1, 2, 3, 4, 5]) True 0 sample_session = Some ((0, Queued), s') \<and>
     read_avail (chan s' 0) = 4 \<and> brigade_inv s'"
  using sample_data_added packet_add_window_invariant [OF _ sample_inv]
  by (fastforce split: option.splits)

end
