(* ===== verification/Packet_Safety.thy ===== *)
theory Packet_Safety
  imports Packet_Inv
begin

text \<open>
  What \<open>_libssh2_packet_add\<close> promises about the packet it is given and about a strict initial key exchange,
  how the brigade is searched, and what goes wrong when an operation has to be resumed.
\<close>

section \<open>Strict key exchange\<close>

text \<open>The name lists of a KEXINIT message whose first list asks for strict key exchange.\<close>

definition asks_strict :: "bytes \<Rightarrow> bool" where
  "asks_strict data \<longleftrightarrow>
     (\<exists>cookie algs rest. length cookie = 16 \<and> short algs \<and> data = [MSG_KEXINIT] @ cookie @ wire_string algs @ rest \<and>
        (algs = [] \<or> strict_name \<in> set (split_commas algs)))"

lemma kexinit_strict_asked:
  assumes "asks_strict data" "length data < 2 ^ 64" "\<not> kex_strict s"
  shows "kexinit_strict data s = Inr (s\<lparr>kex_strict := True\<rparr>)"
proof -
  obtain cookie algs rest where d: "length cookie = 16" "short algs"
      "data = [MSG_KEXINIT] @ cookie @ wire_string algs @ rest" "algs = [] \<or> strict_name \<in> set (split_commas algs)"
    using assms(1) by (auto simp: asks_strict_def)
  have "get_string \<lparr>sb_data = data, sb_off = 17\<rparr> = (Some algs, advance (4 + length algs) \<lparr>sb_data = data, sb_off = 17\<rparr>)"
    by (rule get_string_wire) (use d assms(2) in \<open>simp_all add: sb_wf_def ahead_def\<close>)
  moreover have "kex_agree_instr algs strict_name \<noteq> None \<longleftrightarrow> strict_name \<in> set (split_commas algs)"
    by (rule instr_iff) (simp add: proper_name_def strict_name_def str_def)
  ultimately show ?thesis
    using assms(3) d by (auto simp: kexinit_strict_def)
qed

lemma disconnect_frame2:
  "events (libssh2_session_disconnect m s) = events s"
  "socket_state (libssh2_session_disconnect m s) = socket_state s"
  by (simp_all add: libssh2_session_disconnect_def session_disconnect_ex_def session_disconnect_def transport_send_def
        split_beta Let_def serr_def libssh2_error_def libssh2_error_flags_def)

lemma strict_violation_effect:
  "\<exists>s'. strict_violation m s = (E_SOCKET_DISCONNECT, s') \<and> conn s' = conn s \<and> events s' = events s \<and>
     socket_state s' = SOCKET_DISCONNECTED \<and> packAdd_state s' = NB_idle \<and> err_code s' = E_SOCKET_DISCONNECT"
  using disconnect_frame2 [of m "s\<lparr>socket_state := SOCKET_DISCONNECTED, packAdd_state := NB_idle\<rparr>"]
    disconnect_frame [of m "s\<lparr>socket_state := SOCKET_DISCONNECTED, packAdd_state := NB_idle\<rparr>"]
  by (simp add: strict_violation_def)
     (simp add: serr_def libssh2_error_def libssh2_error_flags_def)

text \<open>
  C38: During the initial key exchange with strict KEX, whether agreed before or asked for by this very KEXINIT,
  a KEXINIT that is not the first packet and any packet other than the one that the exchange waits for end the
  connection: the packet is freed without being handled, no callback runs, no channel changes, nothing is
  queued, and the socket is marked as disconnected.
\<close>

theorem strict_kex_rejects:
  assumes kex: "sflags s AND STATE_INITIAL_KEX \<noteq> 0" "packAdd_state s = NB_idle" "length data < 2 ^ 64"
    and strict: "kex_strict s \<or> asks_strict data"
    and bad: "hd data = MSG_KEXINIT \<and> seq \<noteq> 0 \<or>
      fullpacket_required_type s \<noteq> 0 \<and> fullpacket_required_type s \<noteq> hd data"
  shows "\<exists>s'. packet_add data True seq s = Some ((E_SOCKET_DISCONNECT, Freed), s') \<and> conn s' = conn s \<and>
    events s' = events s \<and> socket_state s' = SOCKET_DISCONNECTED \<and> packAdd_state s' = NB_idle \<and>
    err_code s' = E_SOCKET_DISCONNECT"
proof -
  let ?s = "s\<lparr>packAdd_state := NB_allocated\<rparr>"
  have asked: "hd data = MSG_KEXINIT" if "asks_strict data" using that by (auto simp: asks_strict_def)
  define t where "t = (if hd data = MSG_KEXINIT \<and> \<not> kex_strict s then ?s\<lparr>kex_strict := True\<rparr> else ?s)"
  have t: "kex_strict t" "fullpacket_required_type t = fullpacket_required_type s" "conn t = conn s" "events t = events s"
    using strict asked by (auto simp: t_def)
  have step: "kexinit_strict data ?s = Inr t" if "hd data = MSG_KEXINIT"
  proof (cases "kex_strict s")
    case True
    then show ?thesis by (simp add: kexinit_strict_def t_def)
  next
    case False
    then show ?thesis using strict kexinit_strict_asked [OF _ kex(3), of ?s] that by (simp add: t_def)
  qed
  have t2: "t = ?s" if "hd data \<noteq> MSG_KEXINIT" using that by (simp add: t_def)
  obtain m where "pa_initial_kex data seq ?s = Inl (strict_violation m t)"
  proof (cases "hd data = MSG_KEXINIT")
    case True
    then show ?thesis using that kex step bad t by (cases "seq = 0") (auto simp: pa_initial_kex_def)
  next
    case False
    then show ?thesis using that kex bad t t2 by (auto simp: pa_initial_kex_def)
  qed
  then show ?thesis
    using strict_violation_effect [of m t] kex t by (auto simp: packet_add_def)
qed


text \<open>A KEXINIT that asks for strict key exchange, as the second packet of the connection.\<close>

lemma strict_kex_rejects_witness:
  "\<exists>s'. packet_add ([MSG_KEXINIT] @ replicate 16 0 @ wire_string strict_name) True 1 (sample_session\<lparr>sflags := STATE_INITIAL_KEX\<rparr>)
     = Some ((E_SOCKET_DISCONNECT, Freed), s') \<and> packets s' = [] \<and> events s' = [] \<and> socket_state s' = SOCKET_DISCONNECTED"
proof -
  let ?s = "sample_session\<lparr>sflags := STATE_INITIAL_KEX\<rparr>" and ?d = "[MSG_KEXINIT] @ replicate 16 0 @ wire_string strict_name"
  have "strict_name \<in> set (split_commas strict_name)" by code_simp
  moreover have "short strict_name" by (simp add: strict_name_def)
  ultimately have "asks_strict ?d"
    unfolding asks_strict_def by (intro exI [of _ "replicate 16 0"] exI [of _ strict_name] exI [of _ "[]"]) simp
  then have "\<exists>s'. packet_add ?d True 1 ?s = Some ((E_SOCKET_DISCONNECT, Freed), s') \<and> conn s' = conn ?s \<and>
    events s' = events ?s \<and> socket_state s' = SOCKET_DISCONNECTED \<and> packAdd_state s' = NB_idle \<and>
    err_code s' = E_SOCKET_DISCONNECT"
    by (intro strict_kex_rejects) (simp_all add: sample_session_def strict_name_def)
  then show ?thesis by (auto simp: conn_eq_iff sample_session_def)
qed

section \<open>Searching the brigade\<close>

lemma ask_loop_extract:
  "ask_loop t ofs m n False ps =
     Inl (map_option (\<lambda>(xs, p, ys). (p, xs @ ys)) (List.extract (pk_matches t ofs m n) ps))"
  by (induction ps) (auto simp: extract_Cons_code extract_Nil_code split: option.split)

text \<open>
  C39: \<open>_libssh2_packet_ask\<close> takes out of the brigade the first packet of the type that matches and leaves the
  others in order; without a match it changes nothing.  In a strict initial key exchange only the packet at
  the head may be taken, anything else there ends the connection.
\<close>

theorem packet_ask_extracts:
  "packet_ask t ofs m n s =
     (if kex_strict s \<and> sflags s AND STATE_INITIAL_KEX \<noteq> 0 \<and> packets s \<noteq> [] \<and> \<not> pk_matches t ofs m n (hd (packets s))
      then ((E_SOCKET_DISCONNECT, None),
            serr E_SOCKET_DISCONNECT ''strict KEX violation: unexpected packet type''
              (libssh2_session_disconnect ''strict KEX violation: unexpected packet type'' s))
      else case List.extract (pk_matches t ofs m n) (packets s) of
        None \<Rightarrow> ((- 1, None), s)
      | Some (before, p, after) \<Rightarrow> ((0, Some (pk_data p)), s\<lparr>packets := before @ after\<rparr>))"
proof (cases "kex_strict s \<and> sflags s AND STATE_INITIAL_KEX \<noteq> 0")
  case True
  then show ?thesis
    by (cases "packets s") (simp_all add: packet_ask_def extract_Cons_code extract_Nil_code split: unit.split)
next
  case False
  then show ?thesis
    by (auto simp: packet_ask_def ask_loop_extract split: option.split)
qed


section \<open>The packet's memory\<close>

lemma fate_handlers [simp]:
  "snd (fst (pa_done rc s)) = Freed"
  "snd (fst (pa_disconnect data s)) = Freed"
  "snd (fst (pa_ignore data s)) = Freed"
  "snd (fst (pa_debug data s)) = Freed"
  "snd (fst (pa_ext_info data s)) = Freed"
  "snd (fst (pa_channel_eof data s)) = Freed"
  "snd (fst (pa_channel_close data s)) = Freed"
  "snd (fst (pa_window_adjust data s)) = Freed"
  by (simp_all add: pa_done_def pa_disconnect_def pa_ignore_def pa_debug_def pa_ext_info_def pa_channel_eof_def
        pa_channel_close_def pa_window_adjust_def Let_def split: prod.split option.split)

text \<open>
  The contract of the caller's pointer: \<open>Queued\<close> adds one entry that holds a prefix of the packet with the start of its payload, \<open>Freed\<close> and
  \<open>Held\<close> add none, and a packet stays with the caller exactly if the call has to be repeated.
\<close>

definition fate_ok :: "bytes \<Rightarrow> session \<Rightarrow> int \<times> data_fate \<Rightarrow> session \<Rightarrow> bool" where
  "fate_ok data s res s' \<longleftrightarrow>
     (case snd res of
        Queued \<Rightarrow> (\<exists>n h. packets s' = packets s @ [\<lparr>pk_data = take n data, pk_head = h\<rparr>] \<and> h \<le> length (take n data)) \<and> packAdd_state s' = NB_idle
      | Freed \<Rightarrow> packets s' = packets s \<and> (packAdd_state s' = NB_idle \<or> fst res = E_EAGAIN \<and> packAdd_state s' = NB_jump1)
      | Held \<Rightarrow> packets s' = packets s \<and> fst res = E_EAGAIN \<and> packAdd_state s' \<noteq> NB_idle)"

lemma fate_done: "packets s' = packets s \<Longrightarrow> fate_ok data s (fst (pa_done rc s')) (snd (pa_done rc s'))"
  by (simp add: fate_ok_def pa_done_def)

lemma packets_upd [simp]: "packets (upd_chan a f s) = packets s"
  by (simp add: upd_chan_def)

lemma packets_conn: "conn s' = conn s \<Longrightarrow> packets s' = packets s"
  by (simp add: conn_eq_iff)

lemma packets_prims [simp]:
  "packets (serr c m s) = packets s"
  "packets (snd (alloc s)) = packets s"
  "packets (snd (transport_send p s)) = packets s"
  by (rule packets_conn, simp)+

lemma packets_handlers:
  "packets (snd (pa_disconnect data s)) = packets s"
  "packets (snd (pa_ignore data s)) = packets s"
  "packets (snd (pa_debug data s)) = packets s"
  "packets (snd (pa_ext_info data s)) = packets s"
  "packets (snd (pa_channel_eof data s)) = packets s"
  "packets (snd (pa_channel_close data s)) = packets s"
  "packets (snd (pa_window_adjust data s)) = packets s"
  by (rule packets_conn, simp; fail)+
     (simp_all add: pa_channel_eof_def pa_channel_close_def pa_window_adjust_def pa_done_def split: option.split)

lemma adjust_packets: "packets (snd (channel_receive_window_adjust a adj force s)) = packets s"
  by (simp add: channel_receive_window_adjust_def Let_def split_beta)

lemma fate_simple:
  "fate_ok data s (fst (pa_disconnect data s)) (snd (pa_disconnect data s))"
  "fate_ok data s (fst (pa_ignore data s)) (snd (pa_ignore data s))"
  "fate_ok data s (fst (pa_debug data s)) (snd (pa_debug data s))"
  "fate_ok data s (fst (pa_ext_info data s)) (snd (pa_ext_info data s))"
  "fate_ok data s (fst (pa_channel_eof data s)) (snd (pa_channel_eof data s))"
  "fate_ok data s (fst (pa_channel_close data s)) (snd (pa_channel_close data s))"
  "fate_ok data s (fst (pa_window_adjust data s)) (snd (pa_window_adjust data s))"
  by (simp_all add: fate_ok_def packets_handlers)

lemma fate_jump45:
  "fate_ok data s (fst (pa_jump4 data s)) (snd (pa_jump4 data s))"
  "fate_ok data s (fst (pa_jump5 s)) (snd (pa_jump5 s))"
  by (auto simp: fate_ok_def pa_jump4_def pa_jump5_def split_beta pa_done_def)

lemma fate_opened:
  assumes "task s1 = (st, packets s, ib, rs)" "st \<noteq> NB_idle"
  shows "fate_ok data s (fst (pa_opened (rc, s1))) (snd (pa_opened (rc, s1)))"
  using assms by (auto simp: pa_opened_def fate_ok_def pa_done_def task_def)

lemma fate_jump2: "fate_ok data s (fst (pa_jump2 data s)) (snd (pa_jump2 data s))"
proof -
  obtain rc s1 where q: "packet_queue_listener data (s\<lparr>packAdd_state := NB_jump2\<rparr>) = (rc, s1)" by fastforce
  then have "task s1 = (NB_jump2, packets s, inbox s, readPack_state s, calls s)"
    using state_queue_listener [of data "s\<lparr>packAdd_state := NB_jump2\<rparr>"] by (simp add: task_def)
  from fate_opened [OF this] show ?thesis by (simp add: pa_jump2_def q)
qed

lemma fate_jump3:
  assumes "pa_jump3 data s = Some (res, s')"
  shows "fate_ok data s res s'"
proof -
  obtain rc s1 where q: "packet_x11_open data (s\<lparr>packAdd_state := NB_jump3\<rparr>) = Some (rc, s1)" "pa_opened (rc, s1) = (res, s')"
    using assms by (auto simp: pa_jump3_def)
  have "task s1 = (NB_jump3, packets s, inbox s, readPack_state s, calls s)" using state_x11_open [OF q(1)] by (simp add: task_def)
  from fate_opened [OF this, of data rc] show ?thesis by (simp add: q)
qed

lemma fate_jumpauthagent:
  assumes "pa_jumpauthagent data s = Some (res, s')"
  shows "fate_ok data s res s'"
proof -
  obtain rc s1 where q: "packet_authagent_open data (s\<lparr>packAdd_state := NB_jumpauthagent\<rparr>) = Some (rc, s1)"
      "pa_opened (rc, s1) = (res, s')"
    using assms by (auto simp: pa_jumpauthagent_def)
  have "task s1 = (NB_jumpauthagent, packets s, inbox s, readPack_state s, calls s)" using state_authagent_open [OF q(1)] by (simp add: task_def)
  from fate_opened [OF this, of data rc] show ?thesis by (simp add: q)
qed

lemma fate_jump1:
  assumes "pa_jump1 n s = Some (res, s')"
  shows "fate_ok data s res s'"
  using assms
  by (auto simp: pa_jump1_def fate_ok_def split_beta adjust_state adjust_packets split: option.splits if_splits)

lemma fate_cong: "packets s = packets t \<Longrightarrow> fate_ok data s = fate_ok data t"
  by (simp add: fate_ok_def fun_eq_iff split: data_fate.split)

lemma fate_enqueue:
  assumes "packets t = packets s" "packAdd_state t \<noteq> NB_jump1" "h \<le> n" "h \<le> length data"
  shows "fate_ok data s (fst (pa_enqueue data n h t)) (snd (pa_enqueue data n h t))"
  using assms packets_conn [OF conn_rekey]
  by (auto simp: pa_enqueue_def split_beta fate_ok_def pa_done_def) (auto simp: pa_rekey_def split_beta Let_def)

lemma accept_packets:
  assumes "pa_accept_data a data_head len s = Inr (n, s1)"
  shows "packets s1 = packets s"
  using assms
  by (cases "unat (packet_size (ch_remote (chan s a))) < len - data_head")
     (auto simp: pa_accept_data_def Let_def split: if_splits)

lemma accept_bounds:
  assumes "pa_accept_data a h len s = Inr (n, s1)" "h \<le> len"
  shows "h \<le> n \<and> n \<le> len"
  using assms
  by (cases "unat (packet_size (ch_remote (chan s a))) < len - h")
     (auto simp: pa_accept_data_def Let_def split: if_splits)

lemma fate_channel_data:
  assumes res: "(case pa_channel_data data data_head s of
              None \<Rightarrow> None
            | Some (Inl res) \<Rightarrow> Some res
            | Some (Inr (datalen, s1)) \<Rightarrow> Some (pa_enqueue data datalen data_head (s1\<lparr>packAdd_state := NB_sent\<rparr>)))
          = Some (r, s')"
  shows "fate_ok data s r s'"
proof (cases "pa_channel_data data data_head s")
  case (Some q)
  show ?thesis
  proof (cases q)
    case (Inl p)
    then have p: "p = (r, s')" using res Some by simp
    have "packets s = packets t \<Longrightarrow> p = pa_done c t \<Longrightarrow> ?thesis" for c t
      using fate_done [of t s data c] p by (metis fst_conv snd_conv)
    moreover have "pa_ignore_extended a n s = Some p \<Longrightarrow> ?thesis" for a n
    proof -
      have "fate_ok data (upd_chan a f (s\<lparr>packAdd_channelp := Some a\<rparr>)) = fate_ok data s" for f
        by (rule fate_cong) simp
      then show "pa_ignore_extended a n s = Some p \<Longrightarrow> ?thesis"
        using p by (auto simp: pa_ignore_extended_def Let_def dest!: fate_jump1 [where data = data])
    qed
    moreover have "pa_accept_data a data_head n s = Inl p \<Longrightarrow> ?thesis" for a n
      using accept_full [of a data_head n s p] calculation(1) packets_conn by (metis packets_prims(1))
    moreover have "p = pa_done 0 (serr E_CHANNEL_UNKNOWN m s) \<Longrightarrow> ?thesis" for m
      using calculation(1) [of "serr E_CHANNEL_UNKNOWN m s" 0] by simp
    ultimately show ?thesis
      using Some Inl by (auto simp: pa_channel_data_def split: option.splits if_splits)
  next
    case (Inr p)
    obtain n s1 where p: "p = (n, s1)" by fastforce
    have "packets s1 = packets s"
      using Some Inr p by (auto simp: pa_channel_data_def dest!: accept_packets split: option.splits if_splits)
    moreover have "data_head \<le> n \<and> n \<le> length data"
      using Some Inr p by (auto simp: pa_channel_data_def dest!: accept_bounds split: option.splits if_splits)
    ultimately show ?thesis
      using fate_enqueue [of "s1\<lparr>packAdd_state := NB_sent\<rparr>" s data_head n data] res Some Inr p by simp
  qed
qed (use res in simp)

lemma fate_requests:
  "fate_ok data s (fst (pa_channel_request data s)) (snd (pa_channel_request data s))"
  "fate_ok data s (fst (pa_global_request data s)) (snd (pa_global_request data s))"
proof -
  have sig: "packets (snd (exit_signal_request data s)) = packets s"
    by (simp add: exit_signal_request_def Let_def split_beta split: option.split)
  have jump: "fate_ok data s (fst (pa_jump4 data t)) (snd (pa_jump4 data t))" if "packets t = packets s" for t
    using fate_jump45(1) [of data t] fate_cong [OF that] by simp
  have "packets (exit_status_request data s) = packets s"
    by (simp add: exit_status_request_def split: option.split)
  then show "fate_ok data s (fst (pa_channel_request data s)) (snd (pa_channel_request data s))"
    using sig by (simp add: pa_channel_request_def Let_def split_beta fate_done jump)
  show "fate_ok data s (fst (pa_global_request data s)) (snd (pa_global_request data s))"
    by (simp add: pa_global_request_def Let_def fate_jump45 fate_done)
qed

lemma fate_dispatch:
  assumes "pa_dispatch data s = Some (r, s')"
  shows "fate_ok data s r s'"
proof -
  have "fate_ok data s (fst p) (snd p) \<Longrightarrow> p = (q, t) \<Longrightarrow> fate_ok data s q t" for p q t by simp
  note simple = fate_simple [THEN this] fate_requests [THEN this] fate_done [THEN this]
  have opens: "fate_ok data s r s'" if "pa_channel_open data s = Some (r, s')"
    using that fate_jump2 [of data "s\<lparr>packAdd_Qlstn_state := empty_req\<rparr>"]
      fate_jump3 [of data "s\<lparr>packAdd_x11open_state := empty_req\<rparr>" r s']
      fate_jumpauthagent [of data "s\<lparr>packAdd_authagent_state := empty_req\<rparr>" r s']
      fate_cong [of "s\<lparr>packAdd_Qlstn_state := empty_req\<rparr>" s data] fate_cong [of "s\<lparr>packAdd_x11open_state := empty_req\<rparr>" s data]
      fate_cong [of "s\<lparr>packAdd_authagent_state := empty_req\<rparr>" s data]
    by (auto simp: pa_channel_open_def intro: simple split: if_splits)
  have other: "fate_ok data s r s'" if "pa_enqueue data (length data) 0 (s\<lparr>packAdd_state := NB_sent\<rparr>) = (r, s')"
    using fate_enqueue [of "s\<lparr>packAdd_state := NB_sent\<rparr>" s 0 "length data" data] that by simp
  show ?thesis
    using assms opens other fate_channel_data [of data 13 s r s'] fate_channel_data [of data 9 s r s']
    by (auto simp: pa_dispatch_def Let_def intro: simple split: if_splits)
qed

lemma packet_add_fate:
  assumes "packet_add data mac_ok seq s = Some (res, s')" "packAdd_state s \<in> insert NB_jump1 entry_states"
  shows "fate_ok data s res s'"
proof (cases "packAdd_state s = NB_idle")
  case True
  let ?s = "s\<lparr>packAdd_state := NB_allocated\<rparr>"
  have early: "fate_ok data s (c, Freed) t" if "pa_initial_kex data seq ?s = Inl (c, t)" for c t
    using conn_initial_kex(1) [OF that] initial_kex_state(1) [OF that] by (simp add: fate_ok_def conn_eq_iff)
  have late: "fate_ok data s res s'" if "pa_initial_kex data seq ?s = Inr t" "pa_dispatch data t = Some (res, s')" for t
    using fate_dispatch [of data t res s'] conn_initial_kex(2) [OF that(1)] that fate_cong [of t s data]
    by (simp add: conn_eq_iff)
  show ?thesis
    using assms(1) True early late initial_kex_state(2) [of data seq ?s]
    by (auto simp: packet_add_def fate_ok_def split: if_splits sum.splits)
next
  case False
  have "fate_ok data s (fst p) (snd p) \<Longrightarrow> p = (q, t) \<Longrightarrow> fate_ok data s q t" for p q t by simp
  note step = fate_jump45 [THEN this] fate_jump2 [THEN this]
  show ?thesis
    using assms False
    by (auto simp: packet_add_def entry_states_def intro: step fate_jump1 fate_jump3 fate_jumpauthagent)
qed



end
