(* ===== verification/Packet_Resume.thy ===== *)
theory Packet_Resume
  imports Packet_Safety
begin

text \<open>
  What is delivered to a channel, and the operations that do not survive being resumed after \<open>EAGAIN\<close>: a
  forwarded connection, an X11 connection and the adjustment of a receive window.
\<close>

section \<open>Delivery\<close>

lemma initial_kex_done: "sflags s AND STATE_INITIAL_KEX = 0 \<Longrightarrow> pa_initial_kex data seq s = Inr s"
  by (simp add: pa_initial_kex_def)

lemma packet_add_idle:
  assumes "packAdd_state s = NB_idle" "sflags s AND STATE_INITIAL_KEX = 0"
  shows "packet_add data True seq s = pa_dispatch data (s\<lparr>packAdd_state := NB_allocated\<rparr>)"
  using assms initial_kex_done [of "s\<lparr>packAdd_state := NB_allocated\<rparr>"] by (simp add: packet_add_def)

lemma rekey_other: "hd data \<noteq> MSG_KEXINIT \<Longrightarrow> packAdd_state s \<noteq> NB_sent2 \<Longrightarrow>
    pa_rekey data s = ((0, Queued), s\<lparr>packAdd_state := NB_idle\<rparr>)"
  by (simp add: pa_rekey_def)

lemma serr_mem [simp]: "mem (serr c m s) = mem s"
  by (simp add: serr_def libssh2_error_def libssh2_error_flags_def)

lemma accept_mem:
  assumes "pa_accept_data a data_head len s = Inr (n, s1)"
  shows "mem s1 = mem s"
  using assms
  by (cases "unat (packet_size (ch_remote (chan s a))) < len - data_head")
     (auto simp: pa_accept_data_def Let_def upd_chan_def split: if_splits)

lemma accept_window_full:
  assumes "\<not> read_avail (chan s a) < unat (window_size (ch_remote (chan s a)))"
  shows "\<exists>t m. pa_accept_data a data_head len s = Inl (pa_done 0 (serr E_CHANNEL_WINDOW_EXCEEDED m t)) \<and> conn t = conn s"
  using assms
  by (cases "unat (packet_size (ch_remote (chan s a))) < len - data_head")
     (auto simp: pa_accept_data_def Let_def conn_serr [unfolded conn_eq_iff])

lemma channel_data_delivery:
  assumes idle: "packAdd_state s = NB_idle" "sflags s AND STATE_INITIAL_KEX = 0"
    and msg: "data = [MSG_CHANNEL_DATA] @ htonu32 cid @ htonu32 n @ payload"
    and chan: "channel_locate s cid = Some a" and mem: "mem s = True # rest"
  shows "\<exists>s'. packet_add data True seq s =
      Some ((0, if read_avail (chan s a) < unat (window_size (ch_remote (chan s a))) then Queued else Freed), s') \<and>
    (let k = accepted_len (chan s a) (length payload) in
     if read_avail (chan s a) < unat (window_size (ch_remote (chan s a)))
     then packets s' = packets s @ [\<lparr>pk_data = take (9 + k) data, pk_head = 9\<rparr>] \<and>
       read_avail (chan s' a) = read_avail (chan s a) + k \<and> \<not> cd_eof (ch_remote (chan s' a))
     else packets s' = packets s \<and> chan s' = chan s)"
proof -
  let ?s = "s\<lparr>packAdd_state := NB_allocated\<rparr>"
  have len: "length data = 9 + length payload" "hd data = MSG_CHANNEL_DATA" using msg by simp_all
  have cid: "u32_at data (Suc 0) = cid" using msg by (simp add: u32_at_def)
  have loc: "channel_locate ?s cid = Some a"
    using chan by (simp add: channel_locate_def all_channels_def local_id_def)
  have dispatch: "packet_add data True seq s = (case pa_channel_data data 9 ?s of
        None \<Rightarrow> None
      | Some (Inl res) \<Rightarrow> Some res
      | Some (Inr (n, s1)) \<Rightarrow> Some (pa_enqueue data n 9 (s1\<lparr>packAdd_state := NB_sent\<rparr>)))"
    by (simp add: packet_add_idle [OF idle] pa_dispatch_def len)
  have acc: "pa_channel_data data 9 ?s = Some (pa_accept_data a 9 (length data) ?s)"
    using loc by (simp add: pa_channel_data_def len cid)
  show ?thesis
  proof (cases "read_avail (chan s a) < unat (window_size (ch_remote (chan s a)))")
    case True
    then obtain s1 where s1: "pa_accept_data a 9 (length data) ?s = Inr (9 + accepted_len (chan s a) (length payload), s1)"
        "conn s1 = conn (upd_chan a (\<lambda>c. (upd_remote (cd_eof_update (\<lambda>_. False)) c)
          \<lparr>read_avail := read_avail c + accepted_len c (length payload)\<rparr>) ?s)"
      using accept_data [of 9 "length data" ?s a] by (auto simp: len)
    have "mem s1 = True # rest" using accept_mem [OF s1(1)] mem by simp
    then have "packet_add data True seq s = Some ((0, Queued), s1\<lparr>mem := rest, packAdd_state := NB_idle,
        packets := packets s1 @ [\<lparr>pk_data = take (9 + accepted_len (chan s a) (length payload)) data, pk_head = 9\<rparr>]\<rparr>)"
      by (simp add: dispatch acc s1(1) [unfolded len] pa_enqueue_def alloc_def rekey_other len)
    then show ?thesis
      using True s1(2) by (simp add: conn_eq_iff upd_chan_def upd_remote_def Let_def)
  next
    case False
    then obtain t m where "pa_accept_data a 9 (9 + length payload) ?s = Inl (pa_done 0 (serr E_CHANNEL_WINDOW_EXCEEDED m t))"
        "conn t = conn ?s"
      using accept_window_full [of ?s a 9 "9 + length payload"] by auto
    then have "packet_add data True seq s = Some (pa_done 0 (serr E_CHANNEL_WINDOW_EXCEEDED m t))"
        "conn (snd (pa_done 0 (serr E_CHANNEL_WINDOW_EXCEEDED m t))) = conn s"
      by (simp_all add: dispatch acc [unfolded len] len)
    then show ?thesis
      using False by (auto simp: pa_done_def conn_eq_iff conn_serr [unfolded conn_eq_iff])
  qed
qed

text \<open>
  Data for an open channel is queued for it, cut to the packet size and to the rest of the window that
  the peer was granted, and nothing else is: \<open>read_avail\<close> grows by exactly what was kept, the end-of-file mark
  of the channel is taken back, and once the window is used up the data is dropped without a trace in the
  channel.
\<close>

theorem channel_data_delivered:
  assumes idle: "packAdd_state s = NB_idle" "sflags s AND STATE_INITIAL_KEX = 0"
    and msg: "data = [MSG_CHANNEL_DATA] @ htonu32 cid @ htonu32 n @ payload"
    and chan: "channel_locate s cid = Some a" and mem: "mem s = True # rest"
  shows "\<exists>s'. packet_add data True seq s =
      Some ((0, if read_avail (chan s a) < unat (window_size (ch_remote (chan s a))) then Queued else Freed), s') \<and>
    (let k = accepted_len (chan s a) (length payload) in
     if read_avail (chan s a) < unat (window_size (ch_remote (chan s a)))
     then packets s' = packets s @ [\<lparr>pk_data = take (9 + k) data, pk_head = 9\<rparr>] \<and>
       read_avail (chan s' a) = read_avail (chan s a) + k \<and> \<not> cd_eof (ch_remote (chan s' a))
     else packets s' = packets s \<and> chan s' = chan s)"
  using assms by (rule channel_data_delivery)

lemma channel_data_delivered_witness:
  "\<exists>s'. packet_add (sample_data [1, 2, 3, 4, 5]) True 0 (sample_session\<lparr>mem := [True]\<rparr>) = Some ((0, Queued), s') \<and>
     packets s' = [\<lparr>pk_data = take 13 (sample_data [1, 2, 3, 4, 5]), pk_head = 9\<rparr>] \<and> read_avail (chan s' 0) = 4"
proof -
  let ?s = "sample_session\<lparr>mem := [True]\<rparr>" and ?d = "[1, 2, 3, 4, 5] :: bytes"
  have k: "accepted_len (chan ?s 0) (length ?d) = 4" "read_avail (chan ?s 0) = 0"
      "unat (window_size (ch_remote (chan ?s 0))) = 6" "packets ?s = []"
    by (simp_all add: sample_session_def sample_channel_def zero_channel_def empty_data_def accepted_len_def)
  have "packAdd_state ?s = NB_idle" "sflags ?s AND STATE_INITIAL_KEX = 0" "mem ?s = True # []"
      "channel_locate ?s 3 = Some 0"
    by (simp_all add: sample_session_def sample_channel_def channel_locate_def all_channels_def local_id_def)
  moreover have "sample_data ?d = [MSG_CHANNEL_DATA] @ htonu32 3 @ htonu32 5 @ ?d"
    by (simp add: sample_data_def wire_string_def)
  ultimately show ?thesis
    using channel_data_delivered [of ?s "sample_data ?d" 3 5 ?d 0 "[]"] unfolding Let_def k by auto
qed

section \<open>Operations that are resumed\<close>

text \<open>
  A forwarded connection is lost when its confirmation could not be sent at once.  The call that resumes
  the request clears the pointer to the new channel before it sends the confirmation: the peer is told that
  the channel is open, but no listener and no list of the session holds it.
\<close>

theorem listener_retry_loses_channel:
  assumes state: "packAdd_state s = NB_jump2" "or_state (packAdd_Qlstn_state s) = NB_created"
    and listener: "find_listener s = Some i" and sends: "send_rc s = 0 # rest"
  shows "\<exists>s'. packet_add data mac_ok seq s = Some ((0, Freed), s') \<and>
     sent s' = sent s @ [take 17 (or_packet (packAdd_Qlstn_state s))] \<and>
     all_channels s' = all_channels s \<and> packAdd_state s' = NB_idle \<and> or_state (packAdd_Qlstn_state s') = NB_idle"
proof -
  have "find_listener (s\<lparr>packAdd_state := NB_jump2\<rparr>) = Some i"
    using listener by (simp add: find_listener_def)
  then have "packet_queue_listener data (s\<lparr>packAdd_state := NB_jump2\<rparr>) =
      (0, s\<lparr>packAdd_state := NB_jump2, send_rc := rest, sent := sent s @ [take 17 (or_packet (packAdd_Qlstn_state s))],
            packAdd_Qlstn_state := (packAdd_Qlstn_state s)\<lparr>or_channel := None, or_state := NB_idle\<rparr>\<rparr>)"
    using state sends
    by (simp add: packet_queue_listener_def listener_at_def set_Q_def transport_send_def Let_def)
  then show ?thesis
    using state by (simp add: packet_add_def pa_jump2_def pa_opened_def pa_done_def all_channels_def)
qed

text \<open>Both calls for one request: the first would block, the second succeeds, and the queue stays empty.\<close>

definition sample_forward :: bytes where
  "sample_forward = [MSG_CHANNEL_OPEN] @ wire_string (str ''forwarded-tcpip'') @ htonu32 9 @ htonu32 100 @ htonu32 50 @
     wire_string (str ''h'') @ htonu32 22 @ wire_string (str ''c'') @ htonu32 5000"

definition sample_listening :: session where
  "sample_listening = sample_session\<lparr>send_rc := [E_EAGAIN, 0],
     listeners := [\<lparr>ln_host = str ''h'', ln_port = 22, queue_size = 0, queue_maxsize = 16, ln_queue = [],
       chanFwdCncl_state = NB_idle, chanFwdCncl_data = []\<rparr>]\<rparr>"

lemma sample_forward_blocks:
  "case packet_add sample_forward True 0 sample_listening of
     None \<Rightarrow> False
   | Some (res, s') \<Rightarrow> res = (E_EAGAIN, Held) \<and> packAdd_state s' = NB_jump2 \<and>
       or_state (packAdd_Qlstn_state s') = NB_created \<and> find_listener s' = Some 0 \<and> send_rc s' = [0] \<and>
       or_channel (packAdd_Qlstn_state s') = Some 1 \<and> all_channels s' = [0]"
  by code_simp

lemma listener_retry_loses_channel_witness:
  "\<exists>s1 s2. packet_add sample_forward True 0 sample_listening = Some ((E_EAGAIN, Held), s1) \<and>
     packet_add sample_forward True 0 s1 = Some ((0, Freed), s2) \<and> all_channels s2 = [0]"
proof -
  obtain s1 where s1: "packet_add sample_forward True 0 sample_listening = Some ((E_EAGAIN, Held), s1)"
      "packAdd_state s1 = NB_jump2" "or_state (packAdd_Qlstn_state s1) = NB_created" "find_listener s1 = Some 0"
      "send_rc s1 = 0 # []" "all_channels s1 = [0]"
    using sample_forward_blocks by (auto split: option.splits)
  then show ?thesis using listener_retry_loses_channel [OF s1(2,3,4,5), of sample_forward True 0] by auto
qed

text \<open>
  An X11 connection that is resumed the same way dereferences a null pointer, since the new channel was
  only kept in a local variable; and a request for the agent that is refused sends one byte from beyond
  the array that holds the reply.
\<close>

lemma x11_retry_null:
  assumes "packAdd_state s = NB_jump3" "or_state (packAdd_x11open_state s) = NB_created"
    "or_channel (packAdd_x11open_state s) = None" "has_x11_cb s" "send_rc s = 0 # rest"
  shows "packet_add data mac_ok seq s = None"
  using assms
  by (simp add: packet_add_def pa_jump3_def packet_x11_open_def x11_start_def x11_proceed_def x11_confirm_def
        transport_send_def Let_def)

lemma agent_refusal_overread: "authagent_exit code s = None"
  by (simp add: authagent_exit_def send_array_def open_failure_def AuthAgentUnavail_def X11FwdUnAvil_def)

text \<open>
  An adjustment of the receive window that had to be resumed forgets what was queued before it: the
  message announces the collected amount, but only the part of the last call is added to the window, so
  the peer may send more than the library is going to accept.
\<close>

theorem adjust_retry_loses_queue:
  assumes idle: "adjust_state (chan s a) = NB_idle" and send: "send_rc s = E_EAGAIN # 0 # rest"
    and go: "force \<or> CHANNEL_MINADJUST \<le> adj + adjust_queue (chan s a)" and some: "adj \<noteq> 0"
    and first: "channel_receive_window_adjust a adj force s = (rc1, s1)"
    and second: "channel_receive_window_adjust a adj force s1 = (rc2, s2)"
  shows "rc1 = E_EAGAIN \<and> rc2 = 0 \<and>
    sent s2 = sent s @ [[MSG_CHANNEL_WINDOW_ADJUST] @ htonu32 (cd_id (ch_remote (chan s a))) @
      htonu32 (adj + adjust_queue (chan s a))] \<and>
    window_size (ch_remote (chan s2 a)) = window_size (ch_remote (chan s a)) + adj \<and> adjust_queue (chan s2 a) = 0"
proof -
  have s1: "rc1 = E_EAGAIN" "send_rc s1 = 0 # rest" "sent s1 = sent s" "adjust_state (chan s1 a) = NB_created"
      "ch_remote (chan s1 a) = ch_remote (chan s a)" "adjust_queue (chan s1 a) = 0"
      "adjust_adjust (chan s1 a) = [MSG_CHANNEL_WINDOW_ADJUST] @ htonu32 (cd_id (ch_remote (chan s a))) @
         htonu32 (adj + adjust_queue (chan s a))"
    using first idle send go some
    by (auto simp: channel_receive_window_adjust_def transport_send_def Let_def upd_chan_def serr_def
          libssh2_error_def libssh2_error_flags_def not_less split: if_splits)
  then show ?thesis
    using second by (auto simp: channel_receive_window_adjust_def transport_send_def Let_def upd_chan_def upd_remote_def)
qed

lemma adjust_retry_loses_queue_witness:
  "let s = upd_chan 0 (adjust_queue_update (\<lambda>_. 500)) (sample_session\<lparr>send_rc := [E_EAGAIN, 0]\<rparr>);
       s1 = snd (channel_receive_window_adjust 0 1000 False s);
       s2 = snd (channel_receive_window_adjust 0 1000 False s1) in
   sent s2 = [[MSG_CHANNEL_WINDOW_ADJUST] @ htonu32 7 @ htonu32 1500] \<and> window_size (ch_remote (chan s2 0)) = 1006"
proof -
  let ?s = "upd_chan 0 (adjust_queue_update (\<lambda>_. 500)) (sample_session\<lparr>send_rc := [E_EAGAIN, 0]\<rparr>)"
  obtain rc1 s1 where s1: "channel_receive_window_adjust 0 1000 False ?s = (rc1, s1)" by fastforce
  obtain rc2 s2 where s2: "channel_receive_window_adjust 0 1000 False s1 = (rc2, s2)" by fastforce
  have s: "adjust_state (chan ?s 0) = NB_idle" "send_rc ?s = E_EAGAIN # 0 # []" "adjust_queue (chan ?s 0) = 500"
      "window_size (ch_remote (chan ?s 0)) = 6" "cd_id (ch_remote (chan ?s 0)) = 7" "sent ?s = []"
    by (simp_all add: upd_chan_def sample_session_def sample_channel_def zero_channel_def empty_data_def)
  have "False \<or> CHANNEL_MINADJUST \<le> 1000 + adjust_queue (chan ?s 0)" "(1000 :: u32) \<noteq> 0"
    by (simp_all add: s CHANNEL_MINADJUST_def)
  from adjust_retry_loses_queue [OF s(1,2) this s1 s2] show ?thesis
    by (simp add: Let_def s1 s2 s)
qed

end
