(* ===== verification/Transport_Read.thy ===== *)
theory Transport_Read
  imports Packet_Resume
begin

text \<open>
  The upper end of \<^verbatim>\<open>libssh2/src/transport.c\<close>: what \<open>_libssh2_transport_read\<close> does once a packet is complete, and
  how an interrupted packet is taken up again.  Collecting and decrypting the bytes is represented by the
  session's \<open>inbox\<close>.
\<close>

section \<open>Reading one packet\<close>

text \<open>
  \<open>fullpacket\<close>: the packet is handed to \<open>_libssh2_packet_add\<close>; its type is the result.
\<close>

definition fullpacket :: "session \<Rightarrow> (int \<times> session) option" where
  "fullpacket s0 =
     (let (payload, mac_ok, seq) = cur_packet s0;
          s = (if fullpacket_state s0 = NB_idle then s0\<lparr>fullpacket_packet_type := hd payload, fullpacket_state := NB_created\<rparr>
               else s0) in
      if fullpacket_state s = NB_created then
        (case packet_add payload mac_ok seq s of
           None \<Rightarrow> None
         | Some ((rc, _), s1) \<Rightarrow>
             if rc = E_EAGAIN then Some (rc, s1)
             else if rc \<noteq> 0 then Some (rc, s1\<lparr>fullpacket_state := NB_idle\<rparr>)
             else Some (uint (fullpacket_packet_type s1), s1\<lparr>fullpacket_state := NB_idle\<rparr>))
      else Some (uint (fullpacket_packet_type s), s\<lparr>fullpacket_state := NB_idle\<rparr>))"

definition read_complete :: "session \<Rightarrow> (int \<times> session) option" where
  "read_complete s =
     (case fullpacket s of
        None \<Rightarrow> None
      | Some (rc, s1) \<Rightarrow>
          if rc = E_EAGAIN then
            Some (rc, if packAdd_state s1 \<noteq> NB_idle then s1\<lparr>readPack_state := NB_jump1\<rparr> else s1)
          else Some (rc, s1\<lparr>packet_total_num := 0\<rparr>))"

text \<open>
  \<open>_libssh2_transport_read\<close>: a pending key exchange is continued first, then an interrupted packet, then the
  socket is read.
\<close>

definition transport_read :: "session \<Rightarrow> (int \<times> session) option" where
  "transport_read s0 =
     (let (rc, s) = (if sflags s0 AND STATE_EXCHANGING_KEYS \<noteq> 0 \<and> sflags s0 AND STATE_KEX_ACTIVE = 0
                     then (fst (script_next (kex_rc s0)), s0\<lparr>kex_rc := snd (script_next (kex_rc s0))\<rparr>)
                     else (0, s0)) in
      if rc \<noteq> 0 then Some (rc, s)
      else if readPack_state s = NB_jump1 then read_complete (s\<lparr>readPack_state := NB_idle\<rparr>)
      else if socket_state s = SOCKET_DISCONNECTED then Some (E_SOCKET_DISCONNECT, s)
      else case inbox s of
        [] \<Rightarrow> Some (E_EAGAIN, s)
      | In_rc r # rest \<Rightarrow> Some (r, s\<lparr>inbox := rest\<rparr>)
      | In_packet msg body mac_ok seq # rest \<Rightarrow>
          read_complete (s\<lparr>inbox := rest, cur_packet := (msg # body, mac_ok, seq)\<rparr>))"

section \<open>Reading consumes the input\<close>

definition io :: "session \<Rightarrow> inbound list \<times> nb_state \<times> calls" where
  "io s = (inbox s, readPack_state s, calls s)"

lemma io_task: "task s = task t \<Longrightarrow> io s = io t"
  by (simp add: task_eq_iff io_def)

lemma io_prims [simp]:
  "io (serr c m s) = io s" "io (snd (alloc s)) = io s" "io (snd (transport_send p s)) = io s"
  "io (upd_chan a f s) = io s" "io (s\<lparr>packAdd_state := x1\<rparr>) = io s" "io (s\<lparr>packAdd_channelp := x2\<rparr>) = io s"
  "io (s\<lparr>events := x3\<rparr>) = io s" "io (s\<lparr>socket_state := x4\<rparr>) = io s" "io (s\<lparr>kex_strict := x5\<rparr>) = io s"
  "io (s\<lparr>server_sign_algorithms := x6\<rparr>) = io s" "io (s\<lparr>sflags := x7\<rparr>) = io s" "io (s\<lparr>disconnect_state := x8\<rparr>) = io s"
  "io (s\<lparr>packAdd_Qlstn_state := y1\<rparr>) = io s" "io (s\<lparr>packAdd_x11open_state := y2\<rparr>) = io s"
  "io (s\<lparr>packAdd_authagent_state := y3\<rparr>) = io s" "io (s\<lparr>packets := y4\<rparr>) = io s"
  by (simp_all add: io_def serr_def libssh2_error_def libssh2_error_flags_def alloc_def transport_send_def upd_chan_def
        split_beta Let_def)

lemma io_disconnect [simp]: "io (libssh2_session_disconnect m s) = io s"
  by (simp add: libssh2_session_disconnect_def session_disconnect_ex_def session_disconnect_def split_beta Let_def)
     (simp add: io_def)

lemma io_done [simp]: "io (snd (pa_done rc s)) = io s"
  by (simp add: pa_done_def)

lemma io_initial_kex:
  "pa_initial_kex data seq s = Inl (rc, s') \<Longrightarrow> io s' = io s"
  "pa_initial_kex data seq s = Inr s' \<Longrightarrow> io s' = io s"
  by (auto simp: pa_initial_kex_def kexinit_strict_def strict_violation_def
        split: if_splits sum.splits prod.splits option.splits)

lemma io_ext_loop: "io (snd (ext_loop n b s)) = io s"
  by (induction n arbitrary: b s) (simp_all add: split_beta Let_def)

lemma io_adjust [simp]: "io (snd (channel_receive_window_adjust a adj force s)) = io s"
  by (simp add: channel_receive_window_adjust_def Let_def split_beta)

lemma io_handlers [simp]:
  "io (snd (pa_disconnect data s)) = io s" "io (snd (pa_ignore data s)) = io s" "io (snd (pa_debug data s)) = io s"
  "io (snd (pa_ext_info data s)) = io s" "io (snd (pa_jump5 s)) = io s" "io (snd (pa_global_request data s)) = io s"
  "io (snd (pa_jump4 data s)) = io s" "io (snd (pa_channel_eof data s)) = io s" "io (snd (pa_channel_close data s)) = io s"
  "io (snd (pa_window_adjust data s)) = io s" "io (exit_status_request data s) = io s"
  "io (snd (exit_signal_request data s)) = io s"
  by (simp_all add: pa_disconnect_def pa_ignore_def pa_debug_def pa_ext_info_def pa_jump5_def pa_global_request_def
        pa_jump4_def pa_channel_eof_def pa_channel_close_def pa_window_adjust_def exit_status_request_def
        exit_signal_request_def split_beta Let_def io_ext_loop split: prod.split option.split)

lemma io_request [simp]: "io (snd (pa_channel_request data s)) = io s"
  by (simp add: pa_channel_request_def Let_def split_beta)

lemma io_jump1: "pa_jump1 n s = Some (r, s') \<Longrightarrow> io s' = io s"
  by (auto simp: pa_jump1_def split_beta split: option.splits if_splits)

lemma io_opened [simp]: "io (snd (pa_opened r)) = io (snd r)"
  by (simp add: pa_opened_def)

lemma io_jumps:
  "io (snd (pa_jump2 data s)) = io s"
  "pa_jump3 data s = Some (r, s') \<Longrightarrow> io s' = io s"
  "pa_jumpauthagent data s = Some (r, s') \<Longrightarrow> io s' = io s"
proof -
  show "io (snd (pa_jump2 data s)) = io s"
    using io_task [OF state_queue_listener] by (simp add: pa_jump2_def)
  show "io s' = io s" if j: "pa_jump3 data s = Some (r, s')"
  proof -
    obtain q where "packet_x11_open data (s\<lparr>packAdd_state := NB_jump3\<rparr>) = Some q" "pa_opened q = (r, s')"
      using j by (auto simp: pa_jump3_def)
    then show ?thesis using io_task [OF state_x11_open] io_opened [of q] by (metis io_prims(5) prod.collapse snd_conv)
  qed
  show "io s' = io s" if j: "pa_jumpauthagent data s = Some (r, s')"
  proof -
    obtain q where "packet_authagent_open data (s\<lparr>packAdd_state := NB_jumpauthagent\<rparr>) = Some q" "pa_opened q = (r, s')"
      using j by (auto simp: pa_jumpauthagent_def)
    then show ?thesis using io_task [OF state_authagent_open] io_opened [of q] by (metis io_prims(5) prod.collapse snd_conv)
  qed
qed

definition io_kept :: "session \<Rightarrow> session \<Rightarrow> bool" where
  "io_kept s s' \<longleftrightarrow> inbox s' = inbox s \<and> readPack_state s' \<in> {readPack_state s, NB_idle} \<and> calls s' = calls s"

lemma io_kept_eq: "io s' = io s \<Longrightarrow> io_kept s s'"
  by (simp add: io_def io_kept_def)

lemma io_kept_cong: "io t = io s \<Longrightarrow> io_kept t s' = io_kept s s'"
  by (simp add: io_def io_kept_def)

lemma io_rekey: "io_kept s (snd (pa_rekey data s))"
  by (simp add: pa_rekey_def split_beta Let_def io_kept_def)

lemma io_enqueue: "io_kept s (snd (pa_enqueue data n h s))"
proof -
  obtain ok t where a: "alloc s = (ok, t)" by (metis surj_pair)
  then have t: "io t = io s" using io_prims(2) [of s] by simp
  define u where "u = t\<lparr>packets := packets t @ [\<lparr>pk_data = take n data, pk_head = h\<rparr>], packAdd_state := NB_sent1\<rparr>"
  have "io u = io s" using t by (simp add: u_def)
  then have rekey: "io_kept s (snd (pa_rekey data u))" using io_rekey [of u data] io_kept_cong by blast
  have failed: "io_kept s (snd (pa_done E_ALLOC t))" by (rule io_kept_eq) (simp only: io_done t)
  have "pa_enqueue data n h s = (if \<not> ok then pa_done E_ALLOC t else pa_rekey data u)"
    unfolding pa_enqueue_def a Let_def prod.case u_def by (rule refl)
  then show ?thesis using rekey failed by (cases ok) (simp_all only: if_True if_False not_True_eq_False not_False_eq_True)
qed

lemma io_channel_data:
  assumes "pa_channel_data data h s = Some (Inl (r, s'))"
  shows "io s' = io s"
proof -
  have acc: "io s' = io s" if "pa_accept_data a h n s = Inl (r, s')" for a n
    using that
    by (cases "unat (packet_size (ch_remote (chan s a))) < n - h")
       (auto simp: pa_accept_data_def Let_def pa_done_def split: if_splits)
  have ign: "io s' = io s" if "pa_ignore_extended a n s = Some (r, s')" for a n
    using that by (auto simp: pa_ignore_extended_def Let_def dest!: io_jump1)
  show ?thesis
    using assms acc ign by (auto simp: pa_channel_data_def pa_done_def split: option.splits if_splits)
qed

lemma io_channel_data2:
  assumes "pa_channel_data data h s = Some (Inr (n, s'))"
  shows "io s' = io s"
proof -
  have acc: "io s' = io s" if "pa_accept_data a h m s = Inr (n, s')" for a m
    using that
    by (cases "unat (packet_size (ch_remote (chan s a))) < m - h")
       (auto simp: pa_accept_data_def Let_def split: if_splits)
  then show ?thesis using assms by (auto simp: pa_channel_data_def split: option.splits if_splits)
qed

lemma io_dispatch:
  assumes "pa_dispatch data s = Some (r, s')"
  shows "io_kept s s'"
proof -
  have "io (snd p) = io s \<Longrightarrow> p = (q, t) \<Longrightarrow> io_kept s t" for p q t by (auto intro: io_kept_eq)
  note simple = io_handlers(1-10) [THEN this] io_request [THEN this] io_done [THEN this]
  have queue: "io_kept s s'" if "(case pa_channel_data data h s of
              None \<Rightarrow> None
            | Some (Inl res) \<Rightarrow> Some res
            | Some (Inr (datalen, s1)) \<Rightarrow> Some (pa_enqueue data datalen h (s1\<lparr>packAdd_state := NB_sent\<rparr>)))
          = Some (r, s')" for h
  proof (cases "pa_channel_data data h s")
    case (Some p)
    show ?thesis
    proof (cases p)
      case (Inl q)
      then show ?thesis using io_channel_data [of data h s r s'] that Some by (auto intro: io_kept_eq)
    next
      case (Inr q)
      then obtain n s1 where q: "p = Inr (n, s1)" by (cases q) auto
      then show ?thesis
        using io_channel_data2 [of data h s n s1] that Some io_enqueue [of "s1\<lparr>packAdd_state := NB_sent\<rparr>" data n h]
          io_kept_cong [of "s1\<lparr>packAdd_state := NB_sent\<rparr>" s] by simp
    qed
  qed (use that in simp)
  have opens: "io_kept s s'" if "pa_channel_open data s = Some (r, s')"
    using that io_jumps(1) [of data "s\<lparr>packAdd_Qlstn_state := empty_req\<rparr>"]
      io_jumps(2) [of data "s\<lparr>packAdd_x11open_state := empty_req\<rparr>" r s']
      io_jumps(3) [of data "s\<lparr>packAdd_authagent_state := empty_req\<rparr>" r s']
    by (auto simp: pa_channel_open_def intro: simple io_kept_eq split: if_splits)
  have other: "io_kept s s'" if "pa_enqueue data (length data) 0 (s\<lparr>packAdd_state := NB_sent\<rparr>) = (r, s')"
    using io_enqueue [of "s\<lparr>packAdd_state := NB_sent\<rparr>" data "length data" 0] that by (simp add: io_kept_def)
  show ?thesis
    using assms opens other queue [of 13] queue [of 9]
    by (auto simp: pa_dispatch_def Let_def intro: simple split: if_splits)
qed

lemma io_packet_add:
  assumes "packet_add data mac_ok seq s = Some (r, s')"
  shows "io_kept s s'"
proof -
  let ?s = "if packAdd_state s = NB_idle then s\<lparr>packAdd_state := NB_allocated\<rparr> else s"
  have s: "io ?s = io s" by simp
  have late: "io_kept s s'" if k: "pa_initial_kex data seq ?s = Inr t" and
     d: "(if packAdd_state t = NB_allocated then pa_dispatch data t
          else if packAdd_state t = NB_sent then Some (pa_enqueue data (length data) 0 t)
          else Some (pa_rekey data t)) = Some (r, s')" for t
  proof -
    have "io t = io s" using io_initial_kex(2) [OF k] s by simp
    moreover consider "pa_dispatch data t = Some (r, s')" | "pa_enqueue data (length data) 0 t = (r, s')" | "pa_rekey data t = (r, s')"
      using d by (metis option.inject)
    then have "io_kept t s'"
    proof cases
      case 1
      then show ?thesis by (rule io_dispatch)
    next
      case 2
      then show ?thesis using io_enqueue [of t data "length data" 0] by (simp only: snd_conv)
    next
      case 3
      then show ?thesis using io_rekey [of t data] by (simp only: snd_conv)
    qed
    ultimately show ?thesis using io_kept_cong by blast
  qed
  have early: "io_kept s s'" if "pa_initial_kex data seq ?s = Inl (c, s')" for c
    using io_initial_kex(1) [OF that] s by (simp add: io_kept_eq)
  have start: "io_kept s s'" if st: "packAdd_state s \<notin> {NB_jump1, NB_jump2, NB_jump3, NB_jump4, NB_jump5, NB_jumpauthagent}"
  proof (cases "packAdd_state s = NB_idle \<and> \<not> mac_ok \<and> (case macerror s of None \<Rightarrow> True | Some f \<Rightarrow> f data \<noteq> 0)")
    case True
    then show ?thesis using assms by (auto simp: packet_add_def intro: io_kept_eq)
  next
    case False
    then have "packet_add data mac_ok seq s =
      (case pa_initial_kex data seq ?s of
               Inl (rc, s2) \<Rightarrow> Some ((rc, Freed), s2)
             | Inr s2 \<Rightarrow>
                 if packAdd_state s2 = NB_allocated then pa_dispatch data s2
                 else if packAdd_state s2 = NB_sent then Some (pa_enqueue data (length data) 0 s2)
                 else Some (pa_rekey data s2))"
      using st by (cases "packAdd_state s") (simp_all add: packet_add_def, blast)
    then show ?thesis
      using assms early late by (cases "pa_initial_kex data seq ?s") (simp_all only: sum.case split: prod.splits, blast)
  qed
  show ?thesis
  proof (cases "packAdd_state s")
    case NB_jump1
    then show ?thesis using assms by (auto simp: packet_add_def intro: io_kept_eq io_jump1)
  next
    case NB_jump2
    then show ?thesis using assms io_jumps(1) [of data s] by (auto simp: packet_add_def intro: io_kept_eq)
  next
    case NB_jump3
    then show ?thesis using assms by (auto simp: packet_add_def intro: io_kept_eq io_jumps(2))
  next
    case NB_jump4
    then show ?thesis using assms io_handlers(7) [of data s] by (auto simp: packet_add_def intro: io_kept_eq)
  next
    case NB_jump5
    then show ?thesis using assms io_handlers(5) [of s] by (auto simp: packet_add_def intro: io_kept_eq)
  next
    case NB_jumpauthagent
    then show ?thesis using assms by (auto simp: packet_add_def intro: io_kept_eq io_jumps(3))
  qed (use start in simp_all)
qed

lemma calls_read_complete:
  assumes "read_complete s = Some (rc, s')"
  shows "calls s' = calls s"
proof -
  obtain payload mac_ok seq where cur: "cur_packet s = (payload, mac_ok, seq)" by (cases "cur_packet s") auto
  let ?s = "if fullpacket_state s = NB_idle then s\<lparr>fullpacket_packet_type := hd payload, fullpacket_state := NB_created\<rparr> else s"
  have added: "calls t = calls s" if "packet_add payload mac_ok seq ?s = Some (r, t)" for r t
    using io_packet_add [OF that] by (auto simp: io_kept_def split: if_splits)
  have full: "calls t = calls s" if "fullpacket s = Some (c, t)" for c t
    using that added
    by (cases "packet_add payload mac_ok seq ?s") (auto simp: fullpacket_def cur Let_def split: if_splits)
  show ?thesis
    using assms full by (auto simp: read_complete_def split: option.splits if_splits)
qed

text \<open>Reading a packet does not disturb the calls that are waiting for one.\<close>

lemma calls_transport_read:
  assumes "transport_read s = Some (rc, s')"
  shows "calls s' = calls s"
  using assms calls_read_complete
  by (fastforce simp: transport_read_def Let_def split: if_splits prod.splits list.splits inbound.splits)

lemma io_read_complete:
  assumes "read_complete s = Some (rc, s')" "readPack_state s \<noteq> NB_jump1"
  shows "inbox s' = inbox s" "rc \<noteq> E_EAGAIN \<Longrightarrow> readPack_state s' \<noteq> NB_jump1"
proof -
  obtain payload mac_ok seq where cur: "cur_packet s = (payload, mac_ok, seq)" by (cases "cur_packet s") auto
  let ?s = "if fullpacket_state s = NB_idle then s\<lparr>fullpacket_packet_type := hd payload, fullpacket_state := NB_created\<rparr> else s"
  have added: "inbox t = inbox s \<and> readPack_state t \<noteq> NB_jump1" if "packet_add payload mac_ok seq ?s = Some (r, t)" for r t
    using io_packet_add [OF that] assms(2) by (auto simp: io_kept_def split: if_splits)
  have full: "inbox t = inbox s \<and> readPack_state t \<noteq> NB_jump1" if "fullpacket s = Some (c, t)" for c t
    using that added assms(2)
    by (cases "packet_add payload mac_ok seq ?s") (auto simp: fullpacket_def cur Let_def split: if_splits)
  show "inbox s' = inbox s" "rc \<noteq> E_EAGAIN \<Longrightarrow> readPack_state s' \<noteq> NB_jump1"
    using assms(1) full by (auto simp: read_complete_def split: option.splits if_splits)
qed

text \<open>
  What is still to be read: two steps for every item of the input, one for an interrupted packet.
\<close>

definition pending :: "session \<Rightarrow> nat" where
  "pending s = 2 * length (inbox s) + (if readPack_state s = NB_jump1 then 1 else 0)"

lemma script_next_shrinks: "fst (script_next xs) \<noteq> 0 \<Longrightarrow> length (snd (script_next xs)) < length xs"
  by (cases xs) auto

lemma transport_read_consumes:
  assumes res: "transport_read s = Some (rc, s')" and rc: "0 \<le> rc"
  shows "pending s' < pending s \<or> pending s' = pending s \<and> length (kex_rc s') < length (kex_rc s)"
proof -
  define k where "k = (if sflags s AND STATE_EXCHANGING_KEYS \<noteq> 0 \<and> sflags s AND STATE_KEX_ACTIVE = 0
      then (fst (script_next (kex_rc s)), s\<lparr>kex_rc := snd (script_next (kex_rc s))\<rparr>) else (0, s))"
  obtain c t where k_eq: "k = (c, t)" by fastforce
  have t: "inbox t = inbox s" "readPack_state t = readPack_state s" "socket_state t = socket_state s"
    "c \<noteq> 0 \<Longrightarrow> length (kex_rc t) < length (kex_rc s)"
    using k_eq script_next_shrinks [of "kex_rc s"] by (auto simp: k_def split: if_splits)
  note step = res [unfolded transport_read_def, folded k_def, unfolded k_eq Let_def prod.case]
  have eagain: "rc \<noteq> E_EAGAIN" "rc \<noteq> E_SOCKET_DISCONNECT" using rc by auto
  show ?thesis
  proof (cases "c = 0 \<and> readPack_state t = NB_jump1")
    case True
    then show ?thesis
      using step t io_read_complete [of "t\<lparr>readPack_state := NB_idle\<rparr>" rc s'] eagain by (simp add: pending_def)
  next
    case False
    show ?thesis
    proof (cases "c = 0")
      case True
      then obtain i rest where inbox: "inbox t = i # rest"
        using step False eagain by (cases "inbox t") (auto split: if_splits)
      then show ?thesis
      proof (cases i)
        case (In_rc r)
        then show ?thesis using step True False inbox t eagain by (auto simp: pending_def split: if_splits)
      next
        case (In_packet m b ok seq)
        let ?t = "t\<lparr>inbox := rest, cur_packet := (m # b, ok, seq)\<rparr>"
        have read: "read_complete ?t = Some (rc, s')"
          using step True False inbox In_packet eagain by (auto split: if_splits)
        have jump: "readPack_state s \<noteq> NB_jump1" using True False t by simp
        have "inbox s' = rest" "readPack_state s' \<noteq> NB_jump1"
          using io_read_complete [OF read] jump t eagain by auto
        then show ?thesis using inbox t by (simp add: pending_def)
      qed
    qed (use step t in \<open>auto simp: pending_def\<close>)
  qed
qed

end
