(* ===== verification/Transport_Inv.thy ===== *)
theory Transport_Inv
  imports Transport_Read
begin

text \<open>
  Reading whole packets keeps the accounts of the receive windows: \<open>packet_add\<close> changes the channels that exist
  only in their flags and counters, numbers at most one new channel, and appends at most one packet to the
  brigade.  From this follow the invariant of \<open>_libssh2_transport_read\<close> and of the loop that drains the input.
\<close>

section \<open>What a packet cannot change\<close>

text \<open>
  \<open>grows k s s'\<close>: the channels of \<open>s\<close> are still there, with their numbers and their treatment of extended data,
  and at most \<open>k\<close> channels have been numbered.
\<close>

type_synonym requests = "request \<times> request \<times> request \<times> request \<times> request \<times> nb_state \<times> nb_state \<times> bytes"

definition requests :: "channel \<Rightarrow> requests" where
  "requests c = (setenv_req c, reqPTY c, reqX11 c, process_req c, req_auth_agent c, req_auth_agent_try_state c,
     sendsignal_state c, sendsignal_packet c)"

definition ident :: "session \<Rightarrow> addr \<Rightarrow> u32 \<times> u32 \<times> int \<times> requests" where
  "ident s a = (local_id s a, cd_id (ch_remote (chan s a)), extended_data_ignore_mode (ch_remote (chan s a)), requests (chan s a))"

definition grows :: "nat \<Rightarrow> session \<Rightarrow> session \<Rightarrow> bool" where
  "grows k s s' \<longleftrightarrow> next_addr s \<le> next_addr s' \<and> set (all_channels s) \<subseteq> set (all_channels s') \<and>
     unat (next_channel s') \<le> unat (next_channel s) + k \<and> (\<forall>a < next_addr s. ident s' a = ident s a)"

lemma grows_conn: "conn s' = conn s \<Longrightarrow> grows k s s'"
  by (simp add: conn_eq_iff grows_def ident_def local_id_def all_channels_def)

lemma grows_trans:
  assumes "grows j s t" "grows k t u"
  shows "grows (j + k) s u"
  using assms by (force simp: grows_def)

lemma grows_trans0 [trans]: "grows 0 s t \<Longrightarrow> grows k t u \<Longrightarrow> grows k s u" "grows k s t \<Longrightarrow> grows 0 t u \<Longrightarrow> grows k s u"
  using grows_trans [of 0 s t k u] grows_trans [of k s t 0 u] by simp_all

lemma grows_mono: "grows j s t \<Longrightarrow> j \<le> k \<Longrightarrow> grows k s t"
  by (auto simp: grows_def)

lemma grows_upd: "ident (upd_chan a f s) a = ident s a \<Longrightarrow> grows k s (upd_chan a f s)"
  by (auto simp: grows_def ident_def upd_chan_def local_id_def all_channels_def)

lemma grows_new:
  assumes "chan_inv s"
  shows "grows (Suc 0) s (snd (new_channel t r s))"
proof -
  have "unat (next_channel s + 1) \<le> unat (next_channel s) + 1"
    using unat_succ_id [of "next_channel s"] by (cases "next_channel s = - 1") auto
  then show ?thesis
    by (simp add: grows_def new_channel_def nextid_fresh [OF assms] Let_def ident_def local_id_def all_channels_def)
qed

lemma grows_refl: "grows k s s"
  by (rule grows_conn) simp

definition keeps_ident :: "(channel \<Rightarrow> channel) \<Rightarrow> bool" where
  "keeps_ident f \<longleftrightarrow> (\<forall>c. cd_id (ch_local (f c)) = cd_id (ch_local c) \<and> cd_id (ch_remote (f c)) = cd_id (ch_remote c) \<and>
     extended_data_ignore_mode (ch_remote (f c)) = extended_data_ignore_mode (ch_remote c) \<and> requests (f c) = requests c)"

lemma grows_prims:
  assumes "grows k s t"
  shows "grows k s (serr c m t)" "grows k s (snd (transport_send p t))"
    "keeps_ident f \<Longrightarrow> grows k s (upd_chan a f t)"
  by (rule grows_trans0(2) [OF assms], rule grows_conn, simp)+
     (rule grows_trans0(2) [OF assms grows_upd], simp add: keeps_ident_def ident_def upd_chan_def local_id_def)

lemma grows_adjust: "grows k s (snd (channel_receive_window_adjust a adj force s))"
  by (simp add: channel_receive_window_adjust_def Let_def split_beta)
     (intro conjI impI grows_prims grows_refl; simp add: keeps_ident_def upd_remote_def requests_def)

section \<open>Requests to open a channel\<close>

lemma alloc2_conn: "alloc s = (ok1, s1) \<Longrightarrow> alloc s1 = (ok2, s2) \<Longrightarrow> conn s1 = conn s \<and> conn s2 = conn s"
  using conn_alloc [of s] conn_alloc [of s1] by simp

lemma grows_alloc_new:
  assumes "chan_inv s" "alloc s = (ok1, s1)" "alloc s1 = (ok2, s2)" "new_channel t r s2 = (a, s3)"
  shows "grows (Suc 0) s s3"
proof -
  have c: "conn s2 = conn s" using alloc2_conn [OF assms(2,3)] by simp
  have "grows (Suc 0) s2 s3" using grows_new [OF chan_inv_conn [OF assms(1) c], of t r] assms(4) by simp
  then show ?thesis by (rule grows_trans0(1) [OF grows_conn [OF c]])
qed

lemma grows_listener_create:
  assumes "chan_inv s"
  shows "grows (Suc 0) s (snd (listener_create l s))"
proof -
  obtain ok1 s1 ok2 s2 a s3 where steps: "alloc s = (ok1, s1)" "alloc s1 = (ok2, s2)"
      "new_channel (str ''forwarded-tcpip'') (packAdd_Qlstn_state s2) s2 = (a, s3)"
    by (metis surj_pair)
  have c: "conn s1 = conn s" "conn s2 = conn s" using alloc2_conn [OF steps(1,2)] by simp_all
  have "grows (Suc 0) s (set_Q f s3)" for f
    by (rule grows_trans0(2) [OF grows_alloc_new [OF assms steps]]) (rule grows_conn, simp)
  then show ?thesis
    using c by (auto simp: listener_create_def steps intro: grows_conn)
qed

lemma grows_queue: "i < length (listeners s) \<Longrightarrow> grows k s (queue_channel i a s)"
proof -
  assume i: "i < length (listeners s)"
  let ?ls = "listeners s"
  have ls: "?ls = take i ?ls @ ?ls ! i # drop (Suc i) ?ls" using i by (rule id_take_nth_drop)
  have "set (concat (map ln_queue ?ls)) \<subseteq> set (concat (map ln_queue (take i ?ls @ (?ls ! i) \<lparr>ln_queue := ln_queue (?ls ! i) @ [a],
      queue_size := queue_size (?ls ! i) + 1\<rparr> # drop (Suc i) ?ls)))"
    by (subst ls) auto
  then show ?thesis
    using i by (auto simp: grows_def queue_channel_def all_channels_def ident_def local_id_def upd_conv_take_nth_drop)
qed

lemma grows_listener_at:
  assumes "chan_inv s" "i < length (listeners s)" "next_channel s \<noteq> - 1"
  shows "case listener_at i s of Inl (code, s') \<Rightarrow> grows (Suc 0) s s' | Inr (rc, s') \<Rightarrow> grows (Suc 0) s s'"
proof -
  let ?s = "set_Q (or_channel_update (\<lambda>_. None)) s"
  have cs: "conn ?s = conn s" by simp
  have same: "listeners ?s = listeners s" "next_channel ?s = next_channel s" by (simp_all add: set_Q_def)
  have inv: "chan_inv ?s" by (rule chan_inv_conn [OF assms(1) cs])
  obtain failed s1 where
    create: "(if or_state (packAdd_Qlstn_state ?s) = NB_allocated then listener_create (listeners ?s ! i) ?s
              else (None, ?s)) = (failed, s1)"
    by fastforce
  have "grows (Suc 0) ?s s1"
    using create grows_listener_create [OF inv, of "listeners ?s ! i"] grows_conn [of ?s ?s "Suc 0"]
    by (auto split: if_splits)
  then have g: "grows (Suc 0) s s1" by (rule grows_trans0(1) [OF grows_conn [OF cs]])
  have ls: "listeners s1 = listeners s"
    using create listener_create_inv [OF _ inv, of "listeners ?s ! i" failed s1] assms(3)
    by (cases "or_state (packAdd_Qlstn_state ?s) = NB_allocated") (auto simp: same)
  obtain rc s2 where send: "transport_send (take 17 (or_packet (packAdd_Qlstn_state s1))) s1 = (rc, s2)" by fastforce
  have c2: "conn s2 = conn s1" using conn_transport_send [of "take 17 (or_packet (packAdd_Qlstn_state s1))" s1] send by simp
  have fin: "grows (Suc 0) s t" if "conn t = conn s2" for t
    by (rule grows_trans0(2) [OF g grows_conn]) (simp add: that c2)
  have i2: "i < length (listeners s2)" using c2 ls assms(2) by (simp add: conn_eq_iff)
  have queue: "grows (Suc 0) s (set_Q f (queue_channel i a s2))" for f a
    by (rule grows_trans0(2) [OF grows_trans0(2) [OF fin [OF refl] grows_queue [OF i2]]]) (rule grows_conn, simp)
  show ?thesis
    by (simp add: listener_at_def create send Let_def g fin queue split: option.split)
qed

lemma grows_queue_listener:
  assumes "chan_inv s" "next_channel s \<noteq> - 1"
  shows "grows (Suc 0) s (snd (packet_queue_listener data s))"
proof -
  have refuse: "grows k t (snd (listener_refuse code t))" for k t code
    by (rule grows_conn) (simp add: listener_refuse_def Let_def split_beta)
  have go: "grows (Suc 0) s (snd (if or_state (packAdd_Qlstn_state t) \<noteq> NB_sent then
            (case find_listener t of
               Some i \<Rightarrow> (case listener_at i t of Inl (code, s1) \<Rightarrow> listener_refuse code s1 | Inr res \<Rightarrow> res)
             | None \<Rightarrow> listener_refuse OPEN_ADMINISTRATIVELY_PROHIBITED t)
          else listener_refuse OPEN_ADMINISTRATIVELY_PROHIBITED t))" if t: "conn t = conn s" for t
  proof -
    have inv: "chan_inv t" "next_channel t \<noteq> - 1" using chan_inv_conn [OF assms(1) t] assms(2) t by (auto simp: conn_eq_iff)
    have at: "grows (Suc 0) t (snd (case listener_at i t of Inl (code, s1) \<Rightarrow> listener_refuse code s1 | Inr res \<Rightarrow> res))"
      if "find_listener t = Some i" for i
    proof -
      have "i < length (listeners t)" using that by (auto simp: find_listener_def find_Some_iff)
      from grows_listener_at [OF inv(1) this inv(2)] show ?thesis
        by (auto split: sum.splits intro: grows_trans0(2) [OF _ refuse])
    qed
    show ?thesis
      by (rule grows_trans0(1) [OF grows_conn [OF t]]) (auto split: option.split intro: refuse at)
  qed
  define parsed where "parsed = (if or_state (packAdd_Qlstn_state s) = NB_idle then
                      if length data < 20 then Inl (E_OUT_OF_BOUNDARY, serr E_OUT_OF_BOUNDARY ''Unexpected packet size'' s)
                      else
                        (case listener_parse data (packAdd_Qlstn_state s) of
                           (Some msg, r) \<Rightarrow> Inl (E_BUFFER_TOO_SMALL, serr E_BUFFER_TOO_SMALL msg (set_Q (\<lambda>_. r) s))
                         | (None, r) \<Rightarrow> Inr (set_Q (\<lambda>_. r) s))
                    else Inr s)"
  have early: "conn (snd res) = conn s" if "parsed = Inl res" for res
    using that by (auto simp: parsed_def split: if_splits prod.splits option.splits)
  have late: "conn t = conn s" if "parsed = Inr t" for t
    using that by (auto simp: parsed_def split: if_splits prod.splits option.splits)
  note eq = packet_queue_listener_def [of data s, unfolded Let_def, folded parsed_def]
  show ?thesis
  proof (cases parsed)
    case (Inl res)
    then show ?thesis using grows_conn [OF early [OF Inl]] by (simp add: eq)
  next
    case (Inr t)
    then show ?thesis using go [OF late [OF Inr]] by (simp only: eq sum.case)
  qed
qed

lemma grows_link: "grows k s (s\<lparr>channels := channels s @ [a]\<rparr>)"
  by (auto simp: grows_def all_channels_def ident_def local_id_def)

lemma grows_linked: "conn t = conn (s\<lparr>channels := channels s @ [a]\<rparr>) \<Longrightarrow> grows k s t"
  using grows_trans0(2) [OF grows_link grows_conn] by blast

lemma grows_x11_open:
  assumes res: "packet_x11_open data s = Some (rc, s')" and ok: "x11_ok s"
  shows "grows (Suc 0) s s'"
proof -
  have exit': "grows k t (snd (x11_exit code t))" for k t code
    by (rule grows_conn) (simp add: x11_exit_def Let_def split_beta)
  have confirm: "grows k t u" if "x11_confirm ch t = Some (rc, u)" for k t u ch
  proof -
    let ?t = "snd (transport_send (take 17 (or_packet (packAdd_x11open_state t))) t)"
    have "conn u = conn t \<or> (\<exists>a. conn u = conn (t\<lparr>channels := channels t @ [a]\<rparr>))"
      using that conn_transport_send [of "take 17 (or_packet (packAdd_x11open_state t))" t]
      by (auto simp: x11_confirm_def Let_def split_beta conn_def set_X_def conn_serr [unfolded conn_eq_iff]
            split: if_splits option.splits)
    then show ?thesis using grows_conn grows_linked by blast
  qed
  have create: "case x11_create t of Inl (code, u) \<Rightarrow> grows (Suc 0) t u | Inr (a, u) \<Rightarrow> grows (Suc 0) t u"
    if t: "x11_ok t" for t
  proof -
    have inv: "chan_inv t" using t by (simp add: x11_ok_def)
    obtain ok1 s1 ok2 s2 a s3 where steps: "alloc t = (ok1, s1)" "alloc s1 = (ok2, s2)"
        "new_channel (str ''x11'') (packAdd_x11open_state s2) s2 = (a, s3)"
      by (metis surj_pair)
    have "grows (Suc 0) t (set_X f s3)" for f
      by (rule grows_trans0(2) [OF grows_alloc_new [OF inv steps]]) (rule grows_conn, simp)
    then show ?thesis
      using alloc2_conn [OF steps(1,2)] by (auto simp: x11_create_def steps intro: grows_conn)
  qed
  have go: "grows (Suc 0) t s'" if t: "x11_ok t" "x11_proceed t = Some (rc, s')" for t
  proof (cases "x11_create t")
    case (Inl p)
    then show ?thesis
      using t create [OF t(1)] confirm [of _ t s' "Suc 0"] exit' [of "Suc 0" t] exit' [of 0 "snd p" "fst p"]
        grows_trans0(2) [of "Suc 0" t "snd p" s']
      by (auto simp: x11_proceed_def split: if_splits)
         (metis snd_conv)+
  next
    case (Inr p)
    then show ?thesis
      using t create [OF t(1)] confirm [of _ t s' "Suc 0"] exit' [of "Suc 0" t] confirm [of "Some (fst p)" "snd p" s' 0]
        grows_trans0(2) [of "Suc 0" t "snd p" s']
      by (auto simp: x11_proceed_def split: if_splits)
         (metis snd_conv)+
  qed
  show ?thesis
  proof (cases "x11_start data s")
    case (Inl t)
    then have "conn t = conn s" by (auto simp: x11_start_def split: if_splits prod.splits option.splits)
    then show ?thesis
      using res Inl exit' [of "Suc 0" t OPEN_CONNECT_FAILED] grows_trans0(1) [OF grows_conn, of t s "Suc 0" s']
      by (simp add: packet_x11_open_def)
  next
    case (Inr t)
    then have "conn t = conn s" by (auto simp: x11_start_def split: if_splits prod.splits option.splits)
    moreover have "x11_ok t" using x11_start_inv [OF ok, of data] Inr by simp
    ultimately show ?thesis
      using res Inr go [of t] grows_trans0(1) [OF grows_conn, of t s "Suc 0" s'] by (simp add: packet_x11_open_def)
  qed
qed

lemma grows_authagent_open:
  assumes res: "packet_authagent_open data s = Some (rc, s')" and inv: "chan_inv s"
  shows "grows (Suc 0) s s'"
proof -
  have exit': "grows k t u" if "authagent_exit code t = Some (r, u)" for k t u code r
    by (rule grows_conn) (use that in \<open>auto simp: authagent_exit_def send_array_def Let_def split_beta split: if_splits\<close>)
  have confirm: "grows k t u" if "authagent_confirm t = Some (r, u)" for k t u r
  proof -
    have "conn u = conn t \<or> (\<exists>a. conn u = conn (t\<lparr>channels := channels t @ [a]\<rparr>))"
      using that conn_transport_send [of "take 17 (or_packet (packAdd_authagent_state t))" t]
      by (auto simp: authagent_confirm_def Let_def split_beta conn_def set_A_def conn_serr [unfolded conn_eq_iff]
            split: if_splits option.splits)
    then show ?thesis using grows_conn grows_linked by blast
  qed
  have create: "case authagent_create t of Inl (code, u) \<Rightarrow> grows (Suc 0) t u | Inr u \<Rightarrow> grows (Suc 0) t u"
    if inv: "chan_inv t" for t
  proof -
    obtain ok1 s1 ok2 s2 a s3 where steps: "alloc t = (ok1, s1)" "alloc s1 = (ok2, s2)"
        "new_channel (str ''auth agent'') (packAdd_authagent_state s2) s2 = (a, s3)"
      by (metis surj_pair)
    have "grows (Suc 0) t (set_A f s3)" for f
      by (rule grows_trans0(2) [OF grows_alloc_new [OF inv steps]]) (rule grows_conn, simp)
    then show ?thesis
      using alloc2_conn [OF steps(1,2)] by (auto simp: authagent_create_def steps intro: grows_conn)
  qed
  have go: "grows (Suc 0) t s'" if t: "chan_inv t" "authagent_proceed t = Some (rc, s')" for t
  proof (cases "authagent_create t")
    case (Inl p)
    then show ?thesis
      using t create [OF t(1)] confirm [of t rc s' "Suc 0"] exit' [of _ t rc s' "Suc 0"] exit' [of "fst p" "snd p" rc s' 0]
        grows_trans0(2) [of "Suc 0" t "snd p" s']
      by (auto simp: authagent_proceed_def split: if_splits)
  next
    case (Inr u)
    then show ?thesis
      using t create [OF t(1)] confirm [of t rc s' "Suc 0"] exit' [of _ t rc s' "Suc 0"] confirm [of u rc s' 0]
        grows_trans0(2) [of "Suc 0" t u s']
      by (auto simp: authagent_proceed_def split: if_splits)
  qed
  have start: "case authagent_start data s of Inl t \<Rightarrow> conn t = conn s | Inr t \<Rightarrow> conn t = conn s"
    by (simp add: authagent_start_def split: prod.split option.split)
  show ?thesis
  proof (cases "authagent_start data s")
    case (Inl t)
    then show ?thesis
      using res start by (auto simp: packet_authagent_open_def intro: grows_conn split: if_splits)
  next
    case (Inr t)
    then have c: "conn t = conn s" using start by simp
    show ?thesis
      using res Inr go [OF chan_inv_conn [OF inv c]] grows_trans0(1) [OF grows_conn [OF c], of "Suc 0" s']
      by (auto simp: packet_authagent_open_def intro: grows_conn split: if_splits)
  qed
qed

section \<open>Every packet\<close>

lemma grows_done: "grows k s t \<Longrightarrow> grows k s (snd (pa_done rc t))"
  by (rule grows_trans0(2), assumption, rule grows_conn, simp)

lemma grows_opened: "grows k s t \<Longrightarrow> grows k s (snd (pa_opened (rc, t)))"
  using grows_done by (simp add: pa_opened_def)

lemma grows_simple:
  "grows k s (snd (pa_disconnect data s))" "grows k s (snd (pa_ignore data s))" "grows k s (snd (pa_debug data s))"
  "grows k s (snd (pa_ext_info data s))" "grows k s (snd (pa_jump5 s))" "grows k s (snd (pa_global_request data s))"
  "grows k s (snd (pa_jump4 data s))" "grows k s (snd (pa_rekey data s))"
  by (rule grows_conn, simp)+

lemma keeps_ident [simp]:
  "keeps_ident (upd_remote (cd_eof_update f))" "keeps_ident (upd_remote (\<lambda>d. d\<lparr>cd_close := x, cd_eof := y\<rparr>))"
  "keeps_ident (upd_local (window_size_update w))" "keeps_ident (upd_remote (window_size_update w))"
  "keeps_ident (exit_status_update g)" "keeps_ident (exit_signal_update h)" "keeps_ident (read_avail_update i)"
  by (simp_all add: keeps_ident_def upd_remote_def upd_local_def requests_def)

lemma grows_requests:
  "grows k s (snd (pa_channel_eof data s))" "grows k s (snd (pa_channel_close data s))"
  "grows k s (snd (pa_window_adjust data s))" "grows k s (snd (pa_channel_request data s))"
proof -
  show "grows k s (snd (pa_channel_eof data s))" "grows k s (snd (pa_channel_close data s))"
      "grows k s (snd (pa_window_adjust data s))"
    by (simp_all add: pa_channel_eof_def pa_channel_close_def pa_window_adjust_def grows_done grows_refl grows_prims
          split: option.split)
  have status: "grows k s (exit_status_request data s)"
    by (simp add: exit_status_request_def grows_refl grows_prims split: option.split)
  have "grows k s (snd (alloc s))" by (rule grows_conn) simp
  then have signal: "grows k s (snd (exit_signal_request data s))"
    by (simp add: exit_signal_request_def Let_def split_beta grows_refl grows_prims split: option.split)
  have "grows k s (snd (pa_jump4 data t))" if "grows k s t" for t
    by (rule grows_trans0(2) [OF that]) (rule grows_simple)
  then show "grows k s (snd (pa_channel_request data s))"
    using status signal grows_refl
    by (simp add: pa_channel_request_def Let_def split_beta grows_done)
qed

lemma grows_jump1: "pa_jump1 n s = Some (r, s') \<Longrightarrow> grows k s s'"
proof -
  have "grows k s (snd (channel_receive_window_adjust a adj force (s\<lparr>packAdd_state := NB_jump1\<rparr>)))" for a adj force
    by (rule grows_trans0(1) [OF grows_conn grows_adjust]) simp
  moreover have "grows k s t \<Longrightarrow> grows k s (t\<lparr>packAdd_state := x\<rparr>)" for t x
    by (rule grows_trans0(2), assumption, rule grows_conn, simp)
  ultimately show "pa_jump1 n s = Some (r, s') \<Longrightarrow> ?thesis"
    by (auto simp: pa_jump1_def split_beta split: option.splits if_splits)
qed

lemma grows_enqueue: "grows k s (snd (pa_enqueue data n h s))"
proof -
  obtain ok t where a: "alloc s = (ok, t)" by (metis surj_pair)
  have t: "conn t = conn s" using conn_alloc [of s] a by simp
  define u where "u = t\<lparr>packets := packets t @ [\<lparr>pk_data = take n data, pk_head = h\<rparr>], packAdd_state := NB_sent1\<rparr>"
  have "grows k s u"
    by (rule grows_trans0(1) [OF grows_conn [OF t]])
       (simp add: u_def grows_def ident_def local_id_def all_channels_def)
  then have "grows k s (snd (pa_rekey data u))" by (rule grows_trans0(2)) (rule grows_simple)
  moreover have "pa_enqueue data n h s = (if \<not> ok then pa_done E_ALLOC t else pa_rekey data u)"
    unfolding pa_enqueue_def a Let_def prod.case u_def by (rule refl)
  ultimately show ?thesis using grows_done [OF grows_conn [OF t]] by simp
qed

lemma grows_channel_data:
  assumes "pa_channel_data data h s = Some p"
  shows "case p of Inl (r, s') \<Rightarrow> grows k s s' | Inr (n, s') \<Rightarrow> grows k s s'"
proof -
  have marked: "grows 0 s (upd_chan a f (s\<lparr>packAdd_channelp := q\<rparr>))" if "keeps_ident f" for a f q
    by (rule grows_prims(3) [OF grows_conn that]) simp
  have ignored: "grows k s s'" if "pa_ignore_extended a n s = Some (r, s')" for a n r s'
    using that [unfolded pa_ignore_extended_def Let_def]
    by (rule grows_trans0(1) [OF marked grows_jump1, rotated]) simp
  have accepted: "case q of Inl (r, s') \<Rightarrow> grows k s s' | Inr (n, s') \<Rightarrow> grows k s s'"
    if "pa_accept_data a h m s = q" for a m q
    using that
    by (cases "unat (packet_size (ch_remote (chan s a))) < m - h")
       (auto simp: pa_accept_data_def Let_def pa_done_def intro!: grows_prims grows_refl
          grows_trans0(2) [OF _ grows_conn [of "t\<lparr>packAdd_state := x\<rparr>" t for t x]] split: if_splits)
  have unknown: "grows k s t" if "pa_done 0 (serr c m s) = (r, t)" for c m r t
    using grows_done [OF grows_prims(1) [OF grows_refl], of k s 0 c m] that by simp
  show ?thesis
    using assms ignored accepted [OF refl]
    by (auto simp: pa_channel_data_def split: option.splits if_splits dest!: unknown)
qed

lemma grows_opens:
  assumes "chan_inv s" "next_channel s \<noteq> - 1"
  shows "grows (Suc 0) s (snd (pa_jump2 data s))"
    "pa_jump3 data s = Some (r, s') \<Longrightarrow> or_channel (packAdd_x11open_state s) = None \<Longrightarrow> grows (Suc 0) s s'"
    "pa_jumpauthagent data s = Some (r, s') \<Longrightarrow> grows (Suc 0) s s'"
proof -
  have start: "grows 0 s (s\<lparr>packAdd_state := x\<rparr>)" "chan_inv (s\<lparr>packAdd_state := x\<rparr>)" for x
    by (rule grows_conn, simp) (rule chan_inv_conn [OF assms(1)], simp)
  have done': "grows (Suc 0) s (snd (pa_opened (rc, t)))" if "grows (Suc 0) (s\<lparr>packAdd_state := x\<rparr>) t" for t rc x
    by (rule grows_opened [OF grows_trans0(1) [OF start(1) that]])
  obtain rc t where q: "packet_queue_listener data (s\<lparr>packAdd_state := NB_jump2\<rparr>) = (rc, t)" by fastforce
  have "grows (Suc 0) (s\<lparr>packAdd_state := NB_jump2\<rparr>) t"
    using grows_queue_listener [OF start(2), of NB_jump2 data] q assms(2) by simp
  from done' [OF this, of rc] show "grows (Suc 0) s (snd (pa_jump2 data s))" by (simp add: pa_jump2_def q)
  show "grows (Suc 0) s s'" if j: "pa_jump3 data s = Some (r, s')" "or_channel (packAdd_x11open_state s) = None"
  proof -
    obtain rc t where q: "packet_x11_open data (s\<lparr>packAdd_state := NB_jump3\<rparr>) = Some (rc, t)" "pa_opened (rc, t) = (r, s')"
      using j by (auto simp: pa_jump3_def)
    have "x11_ok (s\<lparr>packAdd_state := NB_jump3\<rparr>)" using start(2) assms(2) j(2) by (simp add: x11_ok_def)
    from done' [OF grows_x11_open [OF q(1) this], of rc] show ?thesis by (simp add: q(2))
  qed
  show "grows (Suc 0) s s'" if j: "pa_jumpauthagent data s = Some (r, s')"
  proof -
    obtain rc t where q: "packet_authagent_open data (s\<lparr>packAdd_state := NB_jumpauthagent\<rparr>) = Some (rc, t)" "pa_opened (rc, t) = (r, s')"
      using j by (auto simp: pa_jumpauthagent_def)
    from done' [OF grows_authagent_open [OF q(1) start(2)], of rc] show ?thesis by (simp add: q(2))
  qed
qed

lemma grows_dispatch:
  assumes res: "pa_dispatch data s = Some (r, s')" and inv: "chan_inv s" "next_channel s \<noteq> - 1"
  shows "grows (Suc 0) s s'"
proof -
  have pair: "grows (Suc 0) s (snd p) \<Longrightarrow> p = (q, t) \<Longrightarrow> grows (Suc 0) s t" for p q t by simp
  note simple = grows_simple [THEN pair] grows_requests [THEN pair] grows_done [OF grows_refl, THEN pair]
  have enqueue: "grows (Suc 0) s (snd (pa_enqueue data n h (t\<lparr>packAdd_state := x\<rparr>)))" if "grows (Suc 0) s t" for n h t x
    by (rule grows_trans0(2) [OF that grows_trans0(1) [OF grows_conn grows_enqueue]]) simp
  have queue: "grows (Suc 0) s s'" if "(case pa_channel_data data h s of
              None \<Rightarrow> None
            | Some (Inl res) \<Rightarrow> Some res
            | Some (Inr (datalen, s1)) \<Rightarrow> Some (pa_enqueue data datalen h (s1\<lparr>packAdd_state := NB_sent\<rparr>)))
          = Some (r, s')" for h
    using that grows_channel_data [of data h s _ "Suc 0"] enqueue
    by (auto split: option.splits sum.splits) (metis snd_conv)+
  have opens: "grows (Suc 0) s s'" if op: "pa_channel_open data s = Some (r, s')"
  proof -
    have start: "chan_inv (s\<lparr>packAdd_Qlstn_state := q\<rparr>)" "chan_inv (s\<lparr>packAdd_x11open_state := q\<rparr>)"
        "chan_inv (s\<lparr>packAdd_authagent_state := q\<rparr>)" "grows 0 s (s\<lparr>packAdd_Qlstn_state := q\<rparr>)"
        "grows 0 s (s\<lparr>packAdd_x11open_state := q\<rparr>)" "grows 0 s (s\<lparr>packAdd_authagent_state := q\<rparr>)" for q
      by (rule chan_inv_conn [OF inv(1)], simp)+ (rule grows_conn, simp)+
    show ?thesis
      using op inv(2) pair [OF grows_trans0(1) [OF start(4) grows_opens(1) [OF start(1)]], of empty_req data r s']
        grows_trans0(1) [OF start(5) grows_opens(2) [OF start(2)], of empty_req data r s']
        grows_trans0(1) [OF start(6) grows_opens(3) [OF start(3)], of empty_req data r s']
      by (auto simp: pa_channel_open_def empty_req_def intro: simple split: if_splits)
  qed
  have other: "grows (Suc 0) s s'" if "pa_enqueue data (length data) 0 (s\<lparr>packAdd_state := NB_sent\<rparr>) = (r, s')"
    using enqueue [OF grows_refl, of "length data" 0 NB_sent] that by simp
  show ?thesis
    using res opens other queue [of 13] queue [of 9]
    by (auto simp: pa_dispatch_def Let_def intro: simple split: if_splits)
qed

lemma packet_add_grows:
  assumes res: "packet_add data mac_ok seq s = Some (r, s')" and inv: "brigade_inv s" "next_channel s \<noteq> - 1"
    and entry: "packAdd_state s \<in> insert NB_jump1 entry_states"
  shows "grows (Suc 0) s s'"
proof (cases "packAdd_state s = NB_idle")
  case True
  let ?s = "s\<lparr>packAdd_state := NB_allocated\<rparr>"
  have s: "grows 0 s t \<and> chan_inv t \<and> next_channel t \<noteq> - 1" if "conn t = conn ?s" for t
    using that inv chan_inv_conn [of s t] grows_conn [of t s] by (auto simp: brigade_inv_def conn_eq_iff)
  have early: "grows (Suc 0) s t" if "pa_initial_kex data seq ?s = Inl (c, t)" for c t
    using s [OF conn_initial_kex(1) [OF that]] grows_mono by blast
  have late: "grows (Suc 0) s s'" if "pa_initial_kex data seq ?s = Inr t" "pa_dispatch data t = Some (r, s')" for t
    using grows_dispatch [OF that(2)] s [OF conn_initial_kex(2) [OF that(1)]] grows_trans0(1) by blast
  show ?thesis
    using res True early late initial_kex_state(2) [of data seq ?s] grows_prims(1) [OF grows_refl]
    by (auto simp: packet_add_def split: if_splits sum.splits)
next
  case False
  have pair: "grows (Suc 0) s (snd p) \<Longrightarrow> p = (q, t) \<Longrightarrow> grows (Suc 0) s t" for p q t by simp
  have c: "chan_inv s" using inv by (simp add: brigade_inv_def)
  show ?thesis
    using res False entry inv
    by (auto simp: packet_add_def entry_states_def brigade_inv_def
          intro: grows_jump1 grows_simple [THEN pair] grows_opens(1) [OF c inv(2), THEN pair] grows_opens(2,3) [OF c inv(2)])
qed

section \<open>Reading\<close>

text \<open>The state between two calls of \<open>_libssh2_transport_read\<close>.\<close>

definition reader_inv :: "session \<Rightarrow> bool" where
  "reader_inv s \<longleftrightarrow> brigade_inv s \<and> packAdd_state s \<in> entry_states \<and>
     unat (next_channel s) + pending s < 2 ^ 32 - 1"

definition heads_ok :: "session \<Rightarrow> bool" where
  "heads_ok s \<longleftrightarrow> (\<forall>p \<in> set (packets s). pk_head p \<le> length (pk_data p))"

lemma brigade_frame:
  assumes "brigade_inv s" "conn t = conn s" "packAdd_state t = packAdd_state s"
    "packAdd_x11open_state t = packAdd_x11open_state s" "packAdd_authagent_state t = packAdd_authagent_state s"
  shows "brigade_inv t"
proof -
  have "agent_pending s \<Longrightarrow> agent_pending t"
    using assms(5) fresh_cong [OF assms(2)] by (simp add: agent_pending_def)
  then show ?thesis
    using assms chan_inv_conn [of s t] by (auto simp: brigade_inv_def)
qed

lemma read_complete_step:
  assumes res: "read_complete s = Some (rc, s')" and inv: "brigade_inv s" "next_channel s \<noteq> - 1"
    and entry: "packAdd_state s \<in> entry_states" and rc: "rc \<noteq> E_ALLOC"
  shows "brigade_inv s' \<and> grows (Suc 0) s s' \<and> (rc \<noteq> E_EAGAIN \<longrightarrow> packAdd_state s' \<in> entry_states) \<and>
    (\<exists>ps. packets s' = packets s @ ps \<and> (\<forall>p \<in> set ps. pk_head p \<le> length (pk_data p)))"
proof -
  let ?P = "\<lambda>c t. brigade_inv t \<and> grows (Suc 0) s t \<and> (c \<noteq> E_EAGAIN \<longrightarrow> packAdd_state t \<in> entry_states) \<and>
    (\<exists>ps. packets t = packets s @ ps \<and> (\<forall>p \<in> set ps. pk_head p \<le> length (pk_data p)))"
  obtain payload mac_ok seq where cur: "cur_packet s = (payload, mac_ok, seq)" by (cases "cur_packet s") auto
  define s0 where "s0 = (if fullpacket_state s = NB_idle
    then s\<lparr>fullpacket_packet_type := hd payload, fullpacket_state := NB_created\<rparr> else s)"
  have s0: "conn s0 = conn s" "packAdd_state s0 = packAdd_state s" "brigade_inv s0" "next_channel s0 = next_channel s"
      "packets s0 = packets s"
    by (auto simp: s0_def conn_def intro: brigade_frame [OF inv(1)])
  have frame: "?P c (t\<lparr>fullpacket_state := x\<rparr>) = ?P c t" "?P c (t\<lparr>packet_total_num := n\<rparr>) = ?P c t"
      "?P c (t\<lparr>readPack_state := y\<rparr>) = ?P c t" for c t x n y
    by (auto simp: grows_def ident_def local_id_def all_channels_def intro: brigade_frame brigade_frame [rotated -1])
  have added: "?P c t" if a: "packet_add payload mac_ok seq s0 = Some ((c, f), t)" and c: "c \<noteq> E_ALLOC" for c f t
  proof -
    have "fate_ok payload s0 (c, f) t" using packet_add_fate [OF a] entry s0(2) by simp
    then have "(c \<noteq> E_EAGAIN \<longrightarrow> packAdd_state t \<in> entry_states) \<and>
       (\<exists>ps. packets t = packets s @ ps \<and> (\<forall>p \<in> set ps. pk_head p \<le> length (pk_data p)))"
      by (auto simp: fate_ok_def s0(5) entry_states_def split: data_fate.splits)
    moreover have "brigade_inv t"
      using packet_add_brigade [OF a s0(3)] entry s0(2,4) inv(2) c by simp
    moreover have "grows (Suc 0) s t"
      using packet_add_grows [OF a s0(3)] entry s0(2,4) inv(2) grows_trans0(1) [OF grows_conn [OF s0(1)]] by simp
    ultimately show ?thesis by blast
  qed
  have skip: "?P c (s0\<lparr>fullpacket_state := NB_idle\<rparr>)" for c
    unfolding frame using s0 entry grows_conn [OF s0(1)] by simp
  have full: "?P c t" if "fullpacket s = Some (c, t)" "c \<noteq> E_ALLOC" for c t
  proof (cases "fullpacket_state s0 = NB_created")
    case True
    have "\<exists>c' f t'. packet_add payload mac_ok seq s0 = Some ((c', f), t')"
      using that(1) True
      by (cases "packet_add payload mac_ok seq s0") (auto simp: fullpacket_def cur Let_def s0_def [symmetric])
    then obtain c' f t' where a: "packet_add payload mac_ok seq s0 = Some ((c', f), t')" by blast
    then have e: "(c, t) = (if c' = E_EAGAIN then (c', t') else if c' \<noteq> 0 then (c', t'\<lparr>fullpacket_state := NB_idle\<rparr>)
             else (uint (fullpacket_packet_type t'), t'\<lparr>fullpacket_state := NB_idle\<rparr>))"
      using that(1) True by (simp add: fullpacket_def cur Let_def s0_def [symmetric] split: if_splits)
    have c': "c' \<noteq> E_ALLOC" using e that(2) by (auto split: if_splits)
    have "?P c' t'" using added [OF a c'] .
    moreover have "uint (fullpacket_packet_type t') \<noteq> E_EAGAIN"
      using uint_ge_0 [of "fullpacket_packet_type t'"] by linarith
    ultimately show ?thesis using e frame(1) [where t = t'] by (auto split: if_splits)
  next
    case False
    then show ?thesis using that(1) skip by (auto simp: fullpacket_def cur Let_def s0_def [symmetric])
  qed
  obtain c t where f: "fullpacket s = Some (c, t)" using res by (auto simp: read_complete_def split: option.splits)
  have c: "c = rc" using res f by (auto simp: read_complete_def split: if_splits)
  have "?P rc t" using full [OF f] rc c by simp
  then have "?P rc s'"
    using res f c frame(2,3) [where c = rc and t = t] by (auto simp: read_complete_def split: if_splits)
  then show ?thesis .
qed

end
