(* ===== verification/Transport_Drain.thy ===== *)
theory Transport_Drain
  imports Transport_Inv
begin

text \<open>
  The loop \<^verbatim>\<open>do rc = _libssh2_transport_read(session); while(rc > 0);\<close> of \<^verbatim>\<open>channel.c\<close>: it ends, and everything
  it reads leaves the channels' accounts in order.
\<close>

section \<open>One packet\<close>

lemma transport_read_step:
  assumes res: "transport_read s = Some (rc, s')" and inv: "brigade_inv s" "next_channel s \<noteq> - 1"
    and entry: "packAdd_state s \<in> entry_states" and rc: "rc \<noteq> E_ALLOC"
  shows "brigade_inv s' \<and> grows (Suc 0) s s' \<and> (rc \<noteq> E_EAGAIN \<longrightarrow> packAdd_state s' \<in> entry_states) \<and>
    (\<exists>ps. packets s' = packets s @ ps \<and> (\<forall>p \<in> set ps. pk_head p \<le> length (pk_data p))) \<and>
    (0 \<le> rc \<longrightarrow> unat (next_channel s') + pending s' \<le> unat (next_channel s) + pending s)"
proof -
  define k where "k = (if sflags s AND STATE_EXCHANGING_KEYS \<noteq> 0 \<and> sflags s AND STATE_KEX_ACTIVE = 0
      then (fst (script_next (kex_rc s)), s\<lparr>kex_rc := snd (script_next (kex_rc s))\<rparr>) else (0, s))"
  obtain c t where k_eq: "k = (c, t)" by fastforce
  note step = res [unfolded transport_read_def, folded k_def, unfolded k_eq Let_def prod.case]
  have t: "conn t = conn s" "packAdd_state t = packAdd_state s" "packAdd_x11open_state t = packAdd_x11open_state s"
      "packAdd_authagent_state t = packAdd_authagent_state s" "inbox t = inbox s" "readPack_state t = readPack_state s"
    using k_eq by (auto simp: k_def conn_def split: if_splits)
  have plain: "brigade_inv u \<and> grows (Suc 0) s u \<and> packAdd_state u \<in> entry_states \<and> packets u = packets s \<and>
      next_channel u = next_channel s"
    if u: "conn u = conn s" "packAdd_state u = packAdd_state s" "packAdd_x11open_state u = packAdd_x11open_state s"
      "packAdd_authagent_state u = packAdd_authagent_state s" for u
    using brigade_frame [OF inv(1) u] grows_conn [OF u(1)] entry u by (simp add: conn_eq_iff)
  have grown: "unat (next_channel s') + pending s' \<le> unat (next_channel s) + pending s"
    if "grows (Suc 0) s s'" "pending s' < pending s"
    using that by (simp add: grows_def)
  have read: ?thesis
    if read: "read_complete u = Some (rc, s')" and u: "conn u = conn s" "packAdd_state u = packAdd_state s"
      "packAdd_x11open_state u = packAdd_x11open_state s" "packAdd_authagent_state u = packAdd_authagent_state s"
      and less: "0 \<le> rc \<Longrightarrow> pending s' < pending s" for u
  proof -
    have pu: "brigade_inv u" "next_channel u \<noteq> - 1" "packAdd_state u \<in> entry_states" "packets u = packets s"
      using plain [OF u] inv(2) by simp_all
    note r = read_complete_step [OF read pu(1,2,3) rc]
    have "grows (Suc 0) s s'" using r grows_trans0(1) [OF grows_conn [OF u(1)]] by blast
    then show ?thesis using r grown less pu(4) by simp
  qed
  have eagain: "0 \<le> rc \<Longrightarrow> rc \<noteq> E_EAGAIN" by auto
  consider "c \<noteq> 0" | "c = 0" "readPack_state t = NB_jump1" | "c = 0" "readPack_state t \<noteq> NB_jump1" by blast
  then show ?thesis
  proof cases
    case 1
    then have "s' = t" using step by simp
    then show ?thesis using plain [OF t(1-4)] t by (simp add: pending_def)
  next
    case 2
    then have r: "read_complete (t\<lparr>readPack_state := NB_idle\<rparr>) = Some (rc, s')" using step by simp
    have less: "pending s' < pending s" if "0 \<le> rc"
      using io_read_complete [OF r] eagain [OF that] t 2 by (simp add: pending_def)
    show ?thesis by (rule read [OF r _ _ _ _ less]) (use t in \<open>simp_all add: conn_def\<close>)
  next
    case 3
    show ?thesis
    proof (cases "socket_state t = SOCKET_DISCONNECTED")
      case True
      then have "s' = t" using step 3 by simp
      then show ?thesis using plain [OF t(1-4)] t by (simp add: pending_def)
    next
      case False
      show ?thesis
      proof (cases "inbox t")
        case Nil
        then have "s' = t" using step 3 False by simp
        then show ?thesis using plain [OF t(1-4)] t by (simp add: pending_def)
      next
        case (Cons i rest)
        have len: "length (inbox s) = Suc (length rest)" by (metis Cons length_Cons t(5))
        show ?thesis
        proof (cases i)
          case (In_rc r)
          then have s': "s' = t\<lparr>inbox := rest\<rparr>" using step 3 False Cons by simp
          then show ?thesis
            using len plain [of s'] t(1-4,6) by (simp add: pending_def conn_def)
        next
          case (In_packet m b ok seq)
          then have r: "read_complete (t\<lparr>inbox := rest, cur_packet := (m # b, ok, seq)\<rparr>) = Some (rc, s')"
            using step 3 False Cons by simp
          have less: "pending s' < pending s" if "0 \<le> rc"
            using io_read_complete [OF r] eagain [OF that] t(6) 3 len by (simp add: pending_def)
          show ?thesis by (rule read [OF r _ _ _ _ less]) (use t in \<open>simp_all add: conn_def\<close>)
        qed
      qed
    qed
  qed
qed

text \<open>
  C14: Reading makes progress: every call of \<open>_libssh2_transport_read\<close> that does not return a negative code has
  taken an item of the input, or finished an interrupted packet, or at least used up a step of a key exchange.
  The loops that call it while it returns a packet type therefore end.
\<close>

theorem transport_read_progress:
  assumes "transport_read s = Some (rc, s')" "0 \<le> rc"
  shows "((pending s', length (kex_rc s')), (pending s, length (kex_rc s))) \<in> less_than <*lex*> less_than"
  using transport_read_consumes [OF assms] by auto

section \<open>Draining the input\<close>

function drain :: "session \<Rightarrow> (int \<times> session) option" where
  "drain s =
     (case transport_read s of
        None \<Rightarrow> None
      | Some (rc, s1) \<Rightarrow> if rc > 0 then drain s1 else Some (rc, s1))"
  by pat_completeness auto

termination
proof (relation "inv_image (less_than <*lex*> less_than) (\<lambda>s. (pending s, length (kex_rc s)))")
  fix s p rc s1
  assume "transport_read s = Some p" "(rc, s1) = p" "0 < rc"
  then have "transport_read s = Some (rc, s1)" "0 \<le> rc" by simp_all
  from transport_read_consumes [OF this]
  show "(s1, s) \<in> inv_image (less_than <*lex*> less_than) (\<lambda>s. (pending s, length (kex_rc s)))" by auto
qed (intro wf_inv_image wf_lex_prod wf_less_than)

declare drain.simps [simp del]

lemma drain_inv:
  assumes "drain s = Some (rc, s')" "reader_inv s" "rc \<noteq> E_ALLOC"
  shows "brigade_inv s' \<and> (\<exists>k. grows k s s') \<and> (rc \<noteq> E_EAGAIN \<longrightarrow> packAdd_state s' \<in> entry_states) \<and>
    (\<exists>ps. packets s' = packets s @ ps \<and> (\<forall>p \<in> set ps. pk_head p \<le> length (pk_data p)))"
  using assms
proof (induction s rule: drain.induct)
  case (1 s)
  obtain c t where t: "transport_read s = Some (c, t)"
    using "1.prems"(1) by (auto simp: drain.simps [of s] split: option.splits)
  have next': "next_channel s \<noteq> - 1" using "1.prems"(2) by (auto simp: reader_inv_def unsigned_minus_1_eq_mask mask_eq_exp_minus_1)
  have c: "c > 0 \<or> c = rc" using "1.prems"(1) t by (auto simp: drain.simps [of s] split: if_splits)
  then have "c \<noteq> E_ALLOC" using "1.prems"(3) by auto
  note step = transport_read_step [OF t _ next' _ this]
  have st: "brigade_inv t" "grows (Suc 0) s t" "c \<noteq> E_EAGAIN \<longrightarrow> packAdd_state t \<in> entry_states"
      "0 \<le> c \<longrightarrow> unat (next_channel t) + pending t \<le> unat (next_channel s) + pending s"
      "\<exists>ps. packets t = packets s @ ps \<and> (\<forall>p \<in> set ps. pk_head p \<le> length (pk_data p))"
    using step "1.prems"(2) by (auto simp: reader_inv_def)
  show ?case
  proof (cases "c > 0")
    case False
    then have "s' = t" "c = rc" using "1.prems"(1) t by (auto simp: drain.simps [of s])
    then show ?thesis using st by blast
  next
    case True
    then have d: "drain t = Some (rc, s')" using "1.prems"(1) t by (simp add: drain.simps [of s])
    have "reader_inv t" using st True "1.prems"(2) by (auto simp: reader_inv_def)
    from "1.IH" [OF t refl True d this "1.prems"(3)]
    have ih: "brigade_inv s'" "\<exists>k. grows k t s'" "rc \<noteq> E_EAGAIN \<longrightarrow> packAdd_state s' \<in> entry_states"
        "\<exists>ps. packets s' = packets t @ ps \<and> (\<forall>p \<in> set ps. pk_head p \<le> length (pk_data p))" by auto
    have "\<exists>ps. packets s' = packets s @ ps \<and> (\<forall>p \<in> set ps. pk_head p \<le> length (pk_data p))"
      using ih(4) st(5) by fastforce
    then show ?thesis using ih grows_trans [OF st(2)] by blast
  qed
qed


text \<open>Three packets are waiting: data, the end of file, and a packet that only the transport layer sees.\<close>

definition sample_input :: session where
  "sample_input = sample_session\<lparr>inbox :=
     [In_packet MSG_CHANNEL_DATA (tl (sample_data [1, 2, 3])) True 0,
      In_packet MSG_CHANNEL_EOF (htonu32 3) True 1, In_packet MSG_IGNORE [] True 2]\<rparr>"

lemma sample_input_inv: "reader_inv sample_input"
proof -
  have "brigade_inv sample_input"
    by (rule brigade_frame [OF sample_inv(1)]) (simp_all add: sample_input_def conn_def)
  then show ?thesis by (simp add: reader_inv_def sample_input_def pending_def sample_session_def entry_states_def)
qed

lemma sample_input_drained:
  "case drain sample_input of None \<Rightarrow> False
   | Some (rc, s') \<Rightarrow> rc = E_EAGAIN \<and> map pk_data (packets s') = [sample_data [1, 2, 3]] \<and>
       read_avail (chan s' 0) = 3 \<and> cd_eof (ch_remote (chan s' 0)) \<and> inbox s' = []"
  by code_simp


lemma transport_read_progress_witness:
  "\<exists>s'. transport_read sample_input = Some (94, s') \<and>
     ((pending s', length (kex_rc s')), (pending sample_input, 0)) \<in> less_than <*lex*> less_than"
proof -
  have "case transport_read sample_input of None \<Rightarrow> False | Some (rc, s') \<Rightarrow> rc = 94"
    by code_simp
  then obtain s' where s': "transport_read sample_input = Some (94, s')" by (auto split: option.splits)
  moreover have "kex_rc sample_input = []" by (simp add: sample_input_def sample_session_def)
  ultimately show ?thesis using transport_read_progress [OF s'] by simp
qed

end
