(* ===== verification/Channel_Read.thy ===== *)
theory Channel_Read
  imports Transport_Drain
begin

text \<open>
  Reading from a channel, \<^verbatim>\<open>libssh2/src/channel.c\<close>: the brigade of packets, shared by all channels, is the
  store in which every stream of every channel is a queue of bytes.
\<close>

section \<open>The operations\<close>

definition matches_stream :: "int \<Rightarrow> channel \<Rightarrow> packet \<Rightarrow> bool" where
  "matches_stream stream_id c p \<longleftrightarrow>
     (let data = pk_data p; mine = (cd_id (ch_local c) = u32_at data 1) in
      stream_id \<noteq> 0 \<and> hd data = MSG_CHANNEL_EXTENDED_DATA \<and> mine \<and> length data \<ge> 9 \<and> stream_id = sint (u32_at data 5) \<or>
      stream_id = 0 \<and> hd data = MSG_CHANNEL_DATA \<and> mine \<or>
      stream_id = 0 \<and> hd data = MSG_CHANNEL_EXTENDED_DATA \<and> mine \<and>
        extended_data_ignore_mode (ch_remote c) = EXTENDED_DATA_MERGE)"

text \<open>
  The loop over the brigade, with the number of bytes still wanted.  \<open>None\<close>: the payload of a packet starts
  behind its end, and the copy would read outside it.
\<close>

fun read_loop :: "int \<Rightarrow> channel \<Rightarrow> nat \<Rightarrow> packet list \<Rightarrow> (bytes \<times> packet list) option" where
  "read_loop stream_id c want [] = Some ([], [])"
| "read_loop stream_id c want (p # ps) =
     (if want = 0 then Some ([], p # ps)
      else if length (pk_data p) < 5 \<or> \<not> matches_stream stream_id c p then
        map_option (\<lambda>(b, qs). (b, p # qs)) (read_loop stream_id c want ps)
      else if length (pk_data p) < pk_head p then None
      else
        let have = length (pk_data p) - pk_head p in
        if want \<ge> have then
          map_option (\<lambda>(b, qs). (drop (pk_head p) (pk_data p) @ b, qs)) (read_loop stream_id c (want - have) ps)
        else Some (take want (drop (pk_head p) (pk_data p)), p\<lparr>pk_head := pk_head p + want\<rparr> # ps))"

text \<open>
  The receive window is widened first if it has become too narrow for \<open>buflen\<close> bytes; \<open>Some\<close> is the return
  code of an adjustment that did not complete.
\<close>

definition read_adjust :: "addr \<Rightarrow> nat \<Rightarrow> session \<Rightarrow> int option \<times> session" where
  "read_adjust a buflen s =
     (let c = chan s a; r = ch_remote c in
      if read_state c = NB_jump1 \<or> unat (window_size r) < unat (window_size_initial r div 4 * 3) + buflen then
        let adjustment0 = window_size_initial r + word_of_nat buflen - window_size r;
            adjustment = (if adjustment0 < CHANNEL_MINADJUST then CHANNEL_MINADJUST else adjustment0);
            (rc, s1) = channel_receive_window_adjust a adjustment False (upd_chan a (read_state_update (\<lambda>_. NB_jump1)) s) in
        if rc \<noteq> 0 then (Some rc, s1) else (None, upd_chan a (read_state_update (\<lambda>_. NB_idle)) s1)
      else (None, s))"

text \<open>Taking the data out of the brigade, after the input has been drained with the result \<open>rc\<close>.\<close>

definition read_brigade :: "addr \<Rightarrow> int \<Rightarrow> nat \<Rightarrow> int \<Rightarrow> session \<Rightarrow> ((int \<times> bytes) \<times> session) option" where
  "read_brigade a stream_id buflen rc s =
     (case read_loop stream_id (chan s a) buflen (packets s) of
        None \<Rightarrow> None
      | Some (buf, ps) \<Rightarrow>
          let s1 = s\<lparr>packets := ps\<rparr>; r = ch_remote (chan s a); n = length buf in
          Some (if n = 0 then
                  if cd_eof r \<or> cd_close r then ((0, []), s1)
                  else if rc \<noteq> E_EAGAIN then ((0, []), s1)
                  else ((rc, []), serr rc ''would block'' s1)
                else
                  ((int n, buf),
                   upd_chan a (\<lambda>c. (upd_remote (window_size_update (\<lambda>w. w - word_of_nat n)) c)
                     \<lparr>read_avail := size_sub (read_avail c) n\<rparr>) s1)))"

definition channel_read :: "addr \<Rightarrow> int \<Rightarrow> nat \<Rightarrow> session \<Rightarrow> ((int \<times> bytes) \<times> session) option" where
  "channel_read a stream_id buflen s =
     (case read_adjust a buflen s of
        (Some rc, s1) \<Rightarrow> Some ((rc, []), s1)
      | (None, s1) \<Rightarrow>
          (case drain s1 of
             None \<Rightarrow> None
           | Some (rc, s2) \<Rightarrow>
               if rc < 0 \<and> rc \<noteq> E_EAGAIN then Some ((rc, []), serr rc ''transport read'' s2)
               else read_brigade a stream_id buflen rc s2))"

text \<open>
  \<open>_libssh2_channel_packet_data_len\<close>, \<open>libssh2_channel_window_read_ex\<close> (the number of bytes queued and the window) and
  \<open>libssh2_channel_eof\<close>: queries that walk the brigade.
\<close>

definition channel_packet_data_len :: "addr \<Rightarrow> int \<Rightarrow> session \<Rightarrow> nat" where
  "channel_packet_data_len a stream_id s =
     (case find (\<lambda>p. length (pk_data p) \<ge> 5 \<and> matches_stream stream_id (chan s a) p) (packets s) of
        None \<Rightarrow> 0
      | Some p \<Rightarrow> size_sub (length (pk_data p)) (pk_head p))"

definition for_channel :: "u32 \<Rightarrow> packet \<Rightarrow> bool" where
  "for_channel cid p \<longleftrightarrow>
     (hd (pk_data p) = MSG_CHANNEL_DATA \<or> hd (pk_data p) = MSG_CHANNEL_EXTENDED_DATA) \<and>
     length (pk_data p) \<ge> 5 \<and> u32_at (pk_data p) 1 = cid"

definition window_read_ex :: "addr \<Rightarrow> session \<Rightarrow> u32 \<times> nat \<times> u32" where
  "window_read_ex a s =
     (let c = chan s a in
      (window_size (ch_remote c),
       foldl (\<lambda>n p. if length (pk_data p) \<ge> 1 \<and> for_channel (cd_id (ch_local c)) p
                    then n + size_sub (length (pk_data p)) (pk_head p) else n) 0 (packets s),
       window_size_initial (ch_remote c)))"

definition window_write_ex :: "addr \<Rightarrow> session \<Rightarrow> u32 \<times> u32" where
  "window_write_ex a s = (window_size (ch_local (chan s a)), window_size_initial (ch_local (chan s a)))"

definition channel_eof :: "addr \<Rightarrow> session \<Rightarrow> int" where
  "channel_eof a s =
     (if \<exists>p \<in> set (packets s). length (pk_data p) \<ge> 1 \<and> for_channel (cd_id (ch_local (chan s a))) p then 0
      else if cd_eof (ch_remote (chan s a)) then 1 else 0)"

section \<open>Streams\<close>

text \<open>What a stream of a channel still has to deliver: the rest of its packets, in the order of the brigade.\<close>

definition unread :: "packet \<Rightarrow> bytes" where
  "unread p = drop (pk_head p) (pk_data p)"

definition in_stream :: "int \<Rightarrow> channel \<Rightarrow> packet \<Rightarrow> bool" where
  "in_stream sid c p \<longleftrightarrow> 5 \<le> length (pk_data p) \<and> matches_stream sid c p"

definition stream_of :: "int \<Rightarrow> channel \<Rightarrow> packet list \<Rightarrow> bytes" where
  "stream_of sid c ps = concat (map unread (filter (in_stream sid c) ps))"

lemma stream_append [simp]: "stream_of sid c (ps @ qs) = stream_of sid c ps @ stream_of sid c qs"
  by (simp add: stream_of_def)

lemma stream_Cons: "stream_of sid c (p # ps) = (if in_stream sid c p then unread p else []) @ stream_of sid c ps"
  by (simp add: stream_of_def)

lemma in_stream_head [simp]: "in_stream sid c (p\<lparr>pk_head := h\<rparr>) = in_stream sid c p"
  by (simp add: in_stream_def matches_stream_def)

text \<open>The loop delivers the front of its stream, leaves the rest of it, and touches no other packet.\<close>

lemma read_loop_stream:
  assumes "\<forall>p \<in> set ps. pk_head p \<le> length (pk_data p)"
  shows "\<exists>b qs. read_loop sid c n ps = Some (b, qs) \<and> b = take n (stream_of sid c ps) \<and>
    stream_of sid c qs = drop n (stream_of sid c ps) \<and>
    filter (\<lambda>p. \<not> in_stream sid c p) qs = filter (\<lambda>p. \<not> in_stream sid c p) ps \<and>
    (\<forall>q \<in> set qs. pk_head q \<le> length (pk_data q) \<and> (\<exists>p \<in> set ps. pk_data p = pk_data q))"
  using assms
proof (induction ps arbitrary: n)
  case (Cons p ps)
  have tl: "\<forall>p \<in> set ps. pk_head p \<le> length (pk_data p)" and head: "pk_head p \<le> length (pk_data p)"
    using Cons.prems by simp_all
  have skip: "(length (pk_data p) < 5 \<or> \<not> matches_stream sid c p) = (\<not> in_stream sid c p)"
    by (auto simp: in_stream_def)
  consider "n = 0" | "n \<noteq> 0" "\<not> in_stream sid c p" | "n \<noteq> 0" "in_stream sid c p" "length (pk_data p) - pk_head p \<le> n"
    | "n \<noteq> 0" "in_stream sid c p" "n < length (pk_data p) - pk_head p" by linarith
  then show ?case
  proof cases
    case 1
    then show ?thesis using Cons.prems by auto
  next
    case 2
    obtain b qs where ih: "read_loop sid c n ps = Some (b, qs)" "b = take n (stream_of sid c ps)"
        "stream_of sid c qs = drop n (stream_of sid c ps)"
        "filter (\<lambda>p. \<not> in_stream sid c p) qs = filter (\<lambda>p. \<not> in_stream sid c p) ps"
        "\<forall>q \<in> set qs. pk_head q \<le> length (pk_data q) \<and> (\<exists>p \<in> set ps. pk_data p = pk_data q)"
      using Cons.IH [OF tl, of n] by blast
    then show ?thesis using 2 head by (simp add: skip stream_Cons)
  next
    case 3
    let ?m = "n - (length (pk_data p) - pk_head p)"
    obtain b qs where ih: "read_loop sid c ?m ps = Some (b, qs)" "b = take ?m (stream_of sid c ps)"
        "stream_of sid c qs = drop ?m (stream_of sid c ps)"
        "filter (\<lambda>p. \<not> in_stream sid c p) qs = filter (\<lambda>p. \<not> in_stream sid c p) ps"
        "\<forall>q \<in> set qs. pk_head q \<le> length (pk_data q) \<and> (\<exists>p \<in> set ps. pk_data p = pk_data q)"
      using Cons.IH [OF tl, of ?m] by blast
    then show ?thesis using 3 head by (simp add: skip stream_Cons unread_def Let_def)
  next
    case 4
    then show ?thesis
      using head tl by (auto simp: skip stream_Cons unread_def Let_def add.commute)
  qed
qed (simp add: stream_of_def)

lemma in_stream_data: "in_stream sid c p \<Longrightarrow> data_for (cd_id (ch_local c)) p"
  by (auto simp: in_stream_def matches_stream_def data_for_def is_data_def Let_def)

lemma data_for_head [simp]: "data_for cid (p\<lparr>pk_head := h\<rparr>) = data_for cid p"
  by (simp add: data_for_def is_data_def)

text \<open>The bytes taken out are missing from the account of this channel and of no other.\<close>

lemma read_loop_queued:
  assumes "read_loop sid c n ps = Some (b, qs)"
  shows "queued cid qs + (if cid = cd_id (ch_local c) then length b else 0) = queued cid ps"
  using assms
proof (induction sid c n ps arbitrary: b qs rule: read_loop.induct)
  case (2 sid c n p ps)
  have skip: "(length (pk_data p) < 5 \<or> \<not> matches_stream sid c p) = (\<not> in_stream sid c p)"
    by (auto simp: in_stream_def)
  have own: "data_for cid p = (cid = cd_id (ch_local c))" if "in_stream sid c p"
    using in_stream_data [OF that] by (auto simp: data_for_def)
  consider "n = 0" | "n \<noteq> 0" "\<not> in_stream sid c p" | "n \<noteq> 0" "in_stream sid c p" "length (pk_data p) - pk_head p \<le> n"
    | "n \<noteq> 0" "in_stream sid c p" "n < length (pk_data p) - pk_head p" by linarith
  then show ?case
  proof cases
    case 1
    then show ?thesis using "2.prems" by simp
  next
    case 2
    then obtain qs' where q: "read_loop sid c n ps = Some (b, qs')" "qs = p # qs'"
      using "2.prems" by (auto simp: skip)
    show ?thesis using "2.IH"(1) [OF 2(1) _ q(1)] 2(2) q(2) by (simp add: skip queued_Cons)
  next
    case 3
    then obtain b' where q: "read_loop sid c (n - (length (pk_data p) - pk_head p)) ps = Some (b', qs)"
        "b = unread p @ b'" "pk_head p \<le> length (pk_data p)"
      using "2.prems" by (auto simp: skip Let_def unread_def split: if_splits)
    have ih: "queued cid qs + (if cid = cd_id (ch_local c) then length b' else 0) = queued cid ps"
      by (rule "2.IH"(2) [OF 3(1) _ _ refl 3(3) q(1)]) (use 3(2) q(3) in \<open>simp_all add: skip\<close>)
    have "length b = payload_len p + length b'" using q(2) by (simp add: unread_def payload_len_def)
    then show ?thesis
      using ih own [OF 3(2)] by (cases "cid = cd_id (ch_local c)") (simp_all add: queued_Cons)
  next
    case 4
    then have q: "length b = n" "qs = p\<lparr>pk_head := pk_head p + n\<rparr> # ps"
      using "2.prems" by (auto simp: skip Let_def split: if_splits)
    have "payload_len (p\<lparr>pk_head := pk_head p + n\<rparr>) + n = payload_len p"
      using 4(3) by (simp add: payload_len_def)
    then show ?thesis
      using q own [OF 4(2)] by (cases "cid = cd_id (ch_local c)") (simp_all add: queued_Cons)
  qed
qed simp

section \<open>The accounts while one channel is worked on\<close>

text \<open>
  An operation on the linked channel \<open>a\<close>: the lists of channels, the other channels and the packets of the
  others are as before.
\<close>

definition local_step :: "addr \<Rightarrow> session \<Rightarrow> session \<Rightarrow> bool" where
  "local_step a s s' \<longleftrightarrow> channels s' = channels s \<and> listeners s' = listeners s \<and> next_addr s' = next_addr s \<and>
     next_channel s' = next_channel s \<and> (\<forall>b. b \<noteq> a \<longrightarrow> chan s' b = chan s b) \<and> ident s' a = ident s a \<and>
     (\<forall>cid. cid \<noteq> local_id s a \<longrightarrow> queued cid (packets s') = queued cid (packets s)) \<and>
     packAdd_state s' = packAdd_state s \<and> packAdd_x11open_state s' = packAdd_x11open_state s \<and>
     packAdd_authagent_state s' = packAdd_authagent_state s \<and> io s' = io s"

lemma local_step_trans: "local_step a s t \<Longrightarrow> local_step a t u \<Longrightarrow> local_step a s u"
  by (simp add: local_step_def ident_def)

lemma local_step_ids: "local_step a s s' \<Longrightarrow> local_id s' b = local_id s b"
  by (cases "b = a") (auto simp: local_step_def ident_def local_id_def)

lemma local_step_all: "local_step a s s' \<Longrightarrow> all_channels s' = all_channels s"
  by (simp add: local_step_def all_channels_def)

lemma local_step_inv:
  assumes step: "local_step a s s'" and inv: "brigade_inv s" and a: "a \<in> set (all_channels s)"
    and own: "window_ok (chan s' a)" "read_avail (chan s' a) = queued (local_id s a) (packets s')"
    and ids: "\<forall>q \<in> set (packets s'). \<exists>p \<in> set (packets s). pk_data p = pk_data q"
  shows "brigade_inv s'"
proof -
  note st = step [unfolded local_step_def]
  have c: "chan_inv s" using inv by (simp add: brigade_inv_def)
  have other: "chan_ok s' b" if "chan_ok s b" "b \<noteq> a" "local_id s b \<noteq> local_id s a" for b
    using that st local_step_ids [OF step, of b] by (simp add: chan_ok_def)
  have self: "chan_ok s' a"
    using c a own st local_step_ids [OF step, of a] by (auto simp: chan_inv_def chan_ok_def)
  have "chan_ok s' b" if "b \<in> set (all_channels s)" for b
    using c that a other [of b] self by (cases "b = a") (auto simp: chan_inv_def inj_on_def)
  moreover have "inj_on (local_id s') (set (all_channels s))"
    using c local_step_ids [OF step] by (simp add: chan_inv_def inj_on_def)
  moreover have "\<forall>p \<in> set (packets s'). is_data p \<longrightarrow> u32_at (pk_data p) 1 < next_channel s'"
    using c ids st by (fastforce simp: chan_inv_def is_data_def)
  ultimately have "chan_inv s'"
    using c local_step_all [OF step] by (simp add: chan_inv_def)
  moreover have "fresh b s \<Longrightarrow> fresh b s'" for b
    using a other [of b] local_step_all [OF step] local_step_ids [OF step] by (auto simp: fresh_def)
  ultimately show ?thesis
    using inv st by (auto simp: brigade_inv_def agent_pending_def)
qed

lemma adjust_frame:
  "packAdd_x11open_state (snd (channel_receive_window_adjust a adj force s)) = packAdd_x11open_state s"
  "packAdd_authagent_state (snd (channel_receive_window_adjust a adj force s)) = packAdd_authagent_state s"
  by (simp_all add: channel_receive_window_adjust_def Let_def split_beta upd_chan_def)

lemma adjust_step:
  assumes adj: "channel_receive_window_adjust a adj force s = (rc, s')" "adjustable (chan s a) adj"
    and inv: "brigade_inv s" and a: "a \<in> set (all_channels s)"
  shows "local_step a s s' \<and> brigade_inv s' \<and> packets s' = packets s"
proof -
  have c: "window_ok (chan s' a)" "read_avail (chan s' a) = read_avail (chan s a)" "local_id s' a = local_id s a"
      "conn (s'\<lparr>chan := chan s\<rparr>) = conn s" "\<forall>b. b \<noteq> a \<longrightarrow> chan s' b = chan s b"
    using adjust_chan [OF adj] by auto
  have "chan_ok s a" using inv a by (auto simp: brigade_inv_def chan_inv_def)
  then have own: "a < next_addr s" "read_avail (chan s a) = queued (local_id s a) (packets s)" by (auto simp: chan_ok_def)
  have step: "local_step a s s'"
    using c(4,5) own(1) grows_adjust [of 0 s a adj force] io_adjust [of a adj force s] adjust_state [of a adj force s]
      adjust_frame [of a adj force s]
    by (simp add: adj(1) local_step_def conn_def grows_def)
  moreover have p: "packets s' = packets s" using c(4) by (simp add: conn_def)
  moreover have "brigade_inv s'"
    by (rule local_step_inv [OF step inv a]) (use c own p in auto)
  ultimately show ?thesis by simp
qed

text \<open>Changes to the bookkeeping of a channel's operations.\<close>

lemma local_step_upd:
  assumes "\<And>c. ch_local (f c) = ch_local c \<and> ch_remote (f c) = ch_remote c \<and> read_avail (f c) = read_avail c \<and>
      adjust_queue (f c) = adjust_queue c \<and> requests (f c) = requests c"
    and inv: "brigade_inv s" and a: "a \<in> set (all_channels s)"
  shows "local_step a s (upd_chan a f s) \<and> brigade_inv (upd_chan a f s) \<and> packets (upd_chan a f s) = packets s"
proof -
  have step: "local_step a s (upd_chan a f s)"
    using assms(1) by (simp add: local_step_def upd_chan_def ident_def local_id_def io_def)
  have "chan_ok s a" using inv a by (auto simp: brigade_inv_def chan_inv_def)
  then have "brigade_inv (upd_chan a f s)"
    using assms(1) by (intro local_step_inv [OF step inv a]) (auto simp: upd_chan_def chan_ok_def window_ok_def)
  then show ?thesis using step by simp
qed

text \<open>
  There is room for the adjustment: the window that the peer may end up with still fits into 32 bits.
\<close>

definition read_room :: "channel \<Rightarrow> nat \<Rightarrow> bool" where
  "read_room c n \<longleftrightarrow>
     unat (window_size_initial (ch_remote c)) + n + unat CHANNEL_MINADJUST + unat (adjust_queue c) < 2 ^ 32 \<and>
     (read_state c = NB_jump1 \<longrightarrow> unat (window_size (ch_remote c)) \<le> unat (window_size_initial (ch_remote c)) + n)"

lemma quarter_le: "unat (w div 4 * 3 :: u32) \<le> unat w"
proof -
  have "unat (w div 4 * 3) \<le> unat (w div 4) * 3"
    by (simp add: unat_word_ariths)
  also have "\<dots> \<le> unat w" by (simp add: unat_div)
  finally show ?thesis .
qed

lemma read_adjustable:
  assumes "read_room c n" "window_ok c"
    "read_state c = NB_jump1 \<or> unat (window_size (ch_remote c)) < unat (window_size_initial (ch_remote c) div 4 * 3) + n"
  shows "adjustable c (let adj = window_size_initial (ch_remote c) + word_of_nat n - window_size (ch_remote c) in
    if adj < CHANNEL_MINADJUST then CHANNEL_MINADJUST else adj)"
proof -
  let ?ws = "window_size (ch_remote c)" and ?wi = "window_size_initial (ch_remote c)"
  have le: "unat ?ws \<le> unat ?wi + n"
    using assms(1,3) quarter_le [of ?wi] by (auto simp: read_room_def)
  have small: "unat ?wi + n < 2 ^ 32" using assms(1) by (simp add: read_room_def)
  then have "unat (word_of_nat n :: u32) = n" by (simp add: unat_of_nat take_bit_nat_eq_self)
  then have sum: "unat (?wi + word_of_nat n) = unat ?wi + n"
    using small by (simp add: unat_word_ariths)
  have "unat (?wi + word_of_nat n - ?ws) = unat ?wi + n - unat ?ws"
    using le sum by (subst unat_sub) (simp_all add: word_le_nat_alt)
  then show ?thesis
    using assms(1,2) le by (auto simp: adjustable_def read_room_def window_ok_def Let_def word_less_nat_alt)
qed

lemma read_adjust_step:
  assumes res: "read_adjust a n s = (r, s')" and inv: "brigade_inv s" and a: "a \<in> set (all_channels s)"
    and room: "read_room (chan s a) n"
  shows "local_step a s s' \<and> brigade_inv s' \<and> packets s' = packets s"
proof (cases "read_state (chan s a) = NB_jump1 \<or>
    unat (window_size (ch_remote (chan s a))) < unat (window_size_initial (ch_remote (chan s a)) div 4 * 3) + n")
  case False
  then have "s' = s" using res by (simp add: read_adjust_def Let_def)
  then show ?thesis using inv by (simp add: local_step_def)
next
  case True
  define adj where "adj = (let adj = window_size_initial (ch_remote (chan s a)) + word_of_nat n - window_size (ch_remote (chan s a)) in
    if adj < CHANNEL_MINADJUST then CHANNEL_MINADJUST else adj)"
  define t where "t = upd_chan a (read_state_update (\<lambda>_. NB_jump1)) s"
  obtain rc u where u: "channel_receive_window_adjust a adj False t = (rc, u)" by fastforce
  have s': "s' = (if rc \<noteq> 0 then u else upd_chan a (read_state_update (\<lambda>_. NB_idle)) u)"
    using res True u by (auto simp: read_adjust_def Let_def adj_def t_def)
  have "window_ok (chan s a)" using inv a by (auto simp: brigade_inv_def chan_inv_def chan_ok_def)
  then have "adjustable (chan s a) adj" using read_adjustable [OF room _ True] by (simp add: adj_def)
  then have adjt: "adjustable (chan t a) adj" by (simp add: t_def upd_chan_def adjustable_def)
  have t: "local_step a s t \<and> brigade_inv t \<and> packets t = packets s"
    unfolding t_def by (rule local_step_upd [OF _ inv a]) (simp add: requests_def)
  have at: "a \<in> set (all_channels t)" using a t local_step_all [of a s t] by simp
  have ut: "local_step a t u \<and> brigade_inv u \<and> packets u = packets t"
    using adjust_step [OF u adjt _ at] t by simp
  have au: "a \<in> set (all_channels u)" using at ut local_step_all [of a t u] by simp
  have "local_step a u (upd_chan a (read_state_update (\<lambda>_. NB_idle)) u) \<and>
      brigade_inv (upd_chan a (read_state_update (\<lambda>_. NB_idle)) u) \<and>
      packets (upd_chan a (read_state_update (\<lambda>_. NB_idle)) u) = packets u"
    by (rule local_step_upd) (use ut au in \<open>auto simp: requests_def\<close>)
  then show ?thesis
    using s' t ut local_step_trans [of a s t u] local_step_trans [of a s u s'] by (simp split: if_splits)
qed

section \<open>Reading\<close>

definition channel_stream :: "addr \<Rightarrow> int \<Rightarrow> session \<Rightarrow> bytes" where
  "channel_stream a sid s = stream_of sid (chan s a) (packets s)"

lemma in_stream_cong: "ident s' a = ident s a \<Longrightarrow> in_stream sid (chan s' a) = in_stream sid (chan s a)"
  by (auto simp: fun_eq_iff in_stream_def matches_stream_def ident_def local_id_def Let_def)

lemma stream_cong:
  assumes "ident s' a = ident s a"
  shows "stream_of sid (chan s' a) = stream_of sid (chan s a)"
  by (rule ext) (simp only: stream_of_def in_stream_cong [OF assms])

lemma stream_disjoint:
  assumes "filter (\<lambda>p. \<not> P p) qs = filter (\<lambda>p. \<not> P p) ps" "\<And>p. in_stream sid c p \<Longrightarrow> \<not> P p"
  shows "stream_of sid c qs = stream_of sid c ps"
proof -
  have "filter (in_stream sid c) xs = filter (in_stream sid c) (filter (\<lambda>p. \<not> P p) xs)" for xs
    using assms(2) by (induction xs) auto
  then have "filter (in_stream sid c) qs = filter (in_stream sid c) ps" using assms(1) by metis
  then show ?thesis by (simp only: stream_of_def)
qed

lemma read_brigade_step:
  assumes res: "read_brigade a sid n c s = Some ((rc, b), s')" and inv: "brigade_inv s" "heads_ok s"
    and a: "a \<in> set (all_channels s)"
  shows "local_step a s s' \<and> brigade_inv s' \<and> heads_ok s' \<and> b = take n (channel_stream a sid s) \<and>
    channel_stream a sid s' = drop n (channel_stream a sid s) \<and> (0 \<le> rc \<longrightarrow> rc = int (length b)) \<and>
    filter (\<lambda>p. \<not> in_stream sid (chan s a) p) (packets s') = filter (\<lambda>p. \<not> in_stream sid (chan s a) p) (packets s)"
proof -
  let ?c = "chan s a"
  obtain buf ps where loop: "read_loop sid ?c n (packets s) = Some (buf, ps)" "buf = take n (channel_stream a sid s)"
      "stream_of sid ?c ps = drop n (channel_stream a sid s)"
      "filter (\<lambda>p. \<not> in_stream sid ?c p) ps = filter (\<lambda>p. \<not> in_stream sid ?c p) (packets s)"
      "\<forall>q \<in> set ps. pk_head q \<le> length (pk_data q) \<and> (\<exists>p \<in> set (packets s). pk_data p = pk_data q)"
    using read_loop_stream [of "packets s" sid ?c n] inv(2) by (auto simp: heads_ok_def channel_stream_def)
  have count: "queued cid ps + (if cid = local_id s a then length buf else 0) = queued cid (packets s)" for cid
    using read_loop_queued [OF loop(1)] by (simp add: local_id_def)
  have other: "queued cid ps = queued cid (packets s)" if "cid \<noteq> local_id s a" for cid
    using count [of cid] that by simp
  let ?n = "length buf"
  have c: "window_ok ?c" "read_avail ?c = queued (local_id s a) (packets s)"
    using inv(1) a by (auto simp: brigade_inv_def chan_inv_def chan_ok_def)
  then have le: "?n \<le> read_avail ?c" "read_avail ?c - ?n = queued (local_id s a) ps"
    using count [of "local_id s a"] by auto
  have n32: "?n \<le> unat (window_size (ch_remote ?c))" "?n < 2 ^ 32"
    using le(1) c(1) by (auto simp: window_ok_def)
  have w: "unat (window_size (ch_remote ?c) - word_of_nat ?n) = unat (window_size (ch_remote ?c)) - ?n"
    using n32 by (subst unat_sub) (auto simp: word_le_nat_alt unat_of_nat take_bit_nat_eq_self)
  define t where "t = (if ?n = 0 then (if \<not> (cd_eof (ch_remote ?c) \<or> cd_close (ch_remote ?c)) \<and> c = E_EAGAIN
      then serr c ''would block'' (s\<lparr>packets := ps\<rparr>) else s\<lparr>packets := ps\<rparr>)
    else upd_chan a (\<lambda>c. (upd_remote (window_size_update (\<lambda>w. w - word_of_nat ?n)) c)
                     \<lparr>read_avail := size_sub (read_avail c) ?n\<rparr>) (s\<lparr>packets := ps\<rparr>))"
  have s': "s' = t" "b = buf" "0 \<le> rc \<longrightarrow> rc = int ?n"
    using res loop(1) by (auto simp: read_brigade_def Let_def t_def split: if_splits)
  have packets: "packets t = ps" by (simp add: t_def)
  have "read_avail ?c < 2 ^ 64"
    using c(1) unsigned_less [of "window_size (ch_remote ?c)"] by (auto simp: window_ok_def)
  then have sub: "size_sub (read_avail ?c) ?n = read_avail ?c - ?n" using le(1) by simp
  have chan: "chan t = (chan s)(a := (upd_remote (window_size_update (\<lambda>w. w - word_of_nat ?n)) ?c)
      \<lparr>read_avail := read_avail ?c - ?n\<rparr>)"
    by (auto simp: t_def upd_chan_def sub conn_serr [unfolded conn_eq_iff] upd_remote_def)
  have step: "local_step a s t"
    by (auto simp: local_step_def packets chan ident_def requests_def local_id_def upd_remote_def other [unfolded local_id_def])
      (auto simp: t_def upd_chan_def conn_serr [unfolded conn_eq_iff] io_def serr_def libssh2_error_def libssh2_error_flags_def)
  have "brigade_inv t"
    by (rule local_step_inv [OF step inv(1) a])
       (use c w n32 le loop(5) in \<open>auto simp: packets chan window_ok_def upd_remote_def\<close>)
  moreover have "heads_ok t" using loop(5) by (simp add: heads_ok_def packets)
  moreover have "channel_stream a sid t = drop n (channel_stream a sid s)"
    using loop(3) stream_cong [of t a s sid] step by (simp add: channel_stream_def packets local_step_def)
  ultimately show ?thesis using step loop(2,4) by (simp add: s' packets)
qed

lemma reader_local: "local_step a s s' \<Longrightarrow> brigade_inv s' \<Longrightarrow> reader_inv s \<Longrightarrow> reader_inv s'"
  by (auto simp: reader_inv_def local_step_def pending_def io_def)

lemma local_step_next: "local_step a s s' \<Longrightarrow> next_addr s' = next_addr s"
  by (simp add: local_step_def)

lemma linked_below: "brigade_inv s \<Longrightarrow> a \<in> set (all_channels s) \<Longrightarrow> a < next_addr s"
  by (auto simp: brigade_inv_def chan_inv_def chan_ok_def)

lemma local_step_ident: "local_step a s s' \<Longrightarrow> ident s' x = ident s x"
  by (cases "x = a") (auto simp: local_step_def ident_def local_id_def)

lemma adjust_neg:
  assumes "fst (channel_receive_window_adjust a adj force s) \<noteq> 0"
  shows "fst (channel_receive_window_adjust a adj force s) < 0"
  using assms by (auto simp: channel_receive_window_adjust_def Let_def split_beta split: if_splits)

lemma read_adjust_neg: "read_adjust a n s = (Some c, s') \<Longrightarrow> c < 0"
  by (auto simp: read_adjust_def Let_def split_beta intro!: adjust_neg split: if_splits)

text \<open>
  The whole operation: what the brigade held and what arrived is what was delivered and what is left.
\<close>

definition read_result :: "addr \<Rightarrow> int \<Rightarrow> nat \<Rightarrow> session \<Rightarrow> int \<Rightarrow> bytes \<Rightarrow> session \<Rightarrow> packet list \<Rightarrow> bool" where
  "read_result a sid n s rc b s' ps \<longleftrightarrow>
     stream_of sid (chan s a) (packets s @ ps) = b @ stream_of sid (chan s a) (packets s') \<and>
     (0 \<le> rc \<longrightarrow> rc = int (length b) \<and> b = take n (stream_of sid (chan s a) (packets s @ ps))) \<and>
     filter (\<lambda>p. \<not> in_stream sid (chan s a) p) (packets s') = filter (\<lambda>p. \<not> in_stream sid (chan s a) p) (packets s @ ps)"

definition kept_channels :: "session \<Rightarrow> session \<Rightarrow> bool" where
  "kept_channels s s' \<longleftrightarrow> (\<forall>x \<in> set (all_channels s). x \<in> set (all_channels s') \<and> ident s' x = ident s x)"

lemma kept_local: "local_step a s s' \<Longrightarrow> kept_channels s s'"
  using local_step_all local_step_ident by (auto simp: kept_channels_def)

lemma kept_trans: "kept_channels s t \<Longrightarrow> kept_channels t u \<Longrightarrow> kept_channels s u"
  by (auto simp: kept_channels_def)

lemma drain_step:
  assumes d: "drain s = Some (rc, s')" and inv: "reader_inv s" "heads_ok s" and rc: "rc \<noteq> E_ALLOC"
  shows "brigade_inv s' \<and> heads_ok s' \<and> kept_channels s s' \<and> (\<exists>ps. packets s' = packets s @ ps)"
proof -
  have b: "brigade_inv s" using inv(1) by (simp add: reader_inv_def)
  obtain k ps where r: "brigade_inv s'" "grows k s s'" "packets s' = packets s @ ps"
      "\<forall>p \<in> set ps. pk_head p \<le> length (pk_data p)"
    using drain_inv [OF d inv(1) rc] by blast
  have "kept_channels s s'"
    using r(2) linked_below [OF b] by (auto simp: kept_channels_def grows_def)
  then show ?thesis using r inv(2) by (auto simp: heads_ok_def)
qed

lemma channel_read_result:
  assumes res: "channel_read a sid n s = Some ((rc, b), s')" and inv: "reader_inv s" "heads_ok s"
    and a: "a \<in> set (all_channels s)" and room: "read_room (chan s a) n" and rc: "rc \<noteq> E_ALLOC"
  shows "brigade_inv s' \<and> heads_ok s' \<and> kept_channels s s' \<and> (\<exists>ps. read_result a sid n s rc b s' ps)"
proof -
  have b: "brigade_inv s" using inv(1) by (simp add: reader_inv_def)
  obtain r s1 where adj: "read_adjust a n s = (r, s1)" by fastforce
  have s1: "local_step a s s1" "brigade_inv s1" "packets s1 = packets s"
    using read_adjust_step [OF adj b a room] by auto
  have a1: "a \<in> set (all_channels s1)" using a local_step_all [OF s1(1)] by simp
  have h1: "heads_ok s1" using inv(2) s1(3) by (simp add: heads_ok_def)
  show ?thesis
  proof (cases r)
    case (Some c)
    then have s': "s' = s1" "b = []" "rc = c" using res adj by (auto simp: channel_read_def)
    have "read_result a sid n s rc b s' []" if "rc < 0"
      using that s' s1(3) by (simp add: read_result_def)
    moreover have "rc < 0" using read_adjust_neg [of a n s c s1] adj Some s'(3) by simp
    ultimately show ?thesis using s1 h1 kept_local [OF s1(1)] s'(1) by auto
  next
    case None
    then obtain c s2 where d: "drain s1 = Some (c, s2)"
      using res adj by (auto simp: channel_read_def split: option.splits)
    show ?thesis
    proof (cases "c < 0 \<and> c \<noteq> E_EAGAIN")
      case True
      then have s': "s' = serr c ''transport read'' s2" "b = []" "rc = c"
        using res adj None d by (auto simp: channel_read_def)
      obtain ps where r: "brigade_inv s2" "heads_ok s2" "kept_channels s1 s2" "packets s2 = packets s1 @ ps"
        using drain_step [OF d reader_local [OF s1(1,2) inv(1)] h1] rc s'(3) by auto
      have "read_result a sid n s rc b s' ps"
        using True s' r(4) s1(3) by (simp add: read_result_def)
      moreover have "brigade_inv s'" unfolding s'(1) by (rule brigade_frame [OF r(1)]) simp_all
      moreover have "kept_channels s s'"
        using kept_trans [OF kept_local [OF s1(1)] r(3)]
        by (simp add: s'(1) kept_channels_def all_channels_def ident_def local_id_def conn_serr [unfolded conn_eq_iff])
      ultimately show ?thesis using r(2) by (auto simp: heads_ok_def s'(1))
    next
      case False
      then have rb: "read_brigade a sid n c s2 = Some ((rc, b), s')"
        using res adj None d by (auto simp: channel_read_def)
      have "c \<noteq> E_ALLOC" using False by auto
      then obtain ps where r: "brigade_inv s2" "heads_ok s2" "kept_channels s1 s2" "packets s2 = packets s1 @ ps"
        using drain_step [OF d reader_local [OF s1(1,2) inv(1)] h1] by auto
      have a2: "a \<in> set (all_channels s2)" and i2: "ident s2 a = ident s a"
        using r(3) a1 local_step_ident [OF s1(1)] by (auto simp: kept_channels_def)
      have step: "local_step a s2 s'" "brigade_inv s'" "heads_ok s'" "b = take n (channel_stream a sid s2)"
          "channel_stream a sid s' = drop n (channel_stream a sid s2)" "0 \<le> rc \<longrightarrow> rc = int (length b)"
          "filter (\<lambda>p. \<not> in_stream sid (chan s2 a) p) (packets s') = filter (\<lambda>p. \<not> in_stream sid (chan s2 a) p) (packets s2)"
        using read_brigade_step [OF rb r(1,2) a2] by blast+
      have i': "ident s' a = ident s a" using local_step_ident [OF step(1)] i2 by simp
      have p2: "packets s2 = packets s @ ps" using r(4) s1(3) by simp
      have split: "channel_stream a sid s2 = b @ channel_stream a sid s'" using step(4,5) by simp
      have eq: "channel_stream a sid s2 = stream_of sid (chan s a) (packets s @ ps)"
          "channel_stream a sid s' = stream_of sid (chan s a) (packets s')"
        by (simp_all only: channel_stream_def stream_cong [OF i2] stream_cong [OF i'] p2)
      have "read_result a sid n s rc b s' ps"
        unfolding read_result_def eq [symmetric] using split step(4,6,7) [unfolded in_stream_cong [OF i2] p2] by blast
      moreover have "kept_channels s s'"
        by (rule kept_trans [OF kept_local [OF s1(1)] kept_trans [OF r(3) kept_local [OF step(1)]]])
      ultimately show ?thesis using step(2,3) by blast
    qed
  qed
qed

text \<open>
  C22: A channel is a queue of bytes.  What a read delivers is the front of what its stream held followed by what
  arrived during the call, as much as was asked for or all there is, and the rest stays in the stream in its
  order: nothing is lost, repeated or reordered, however the bytes were cut into packets.
\<close>

theorem channel_read_fifo:
  assumes "channel_read a sid n s = Some ((rc, b), s')" "reader_inv s" "heads_ok s" "a \<in> set (all_channels s)"
    "read_room (chan s a) n" "0 \<le> rc"
  shows "rc = int (length b) \<and> (\<exists>arrived. b = take n (channel_stream a sid s @ arrived) \<and>
    channel_stream a sid s' = drop n (channel_stream a sid s @ arrived))"
proof -
  have "rc \<noteq> E_ALLOC" using assms(6) by auto
  then obtain ps where ps: "kept_channels s s'" "read_result a sid n s rc b s' ps"
    using channel_read_result [OF assms(1-5)] by blast
  then have i: "ident s' a = ident s a" using assms(4) by (simp add: kept_channels_def)
  have "channel_stream a sid s' = stream_of sid (chan s a) (packets s')"
    by (simp only: channel_stream_def stream_cong [OF i])
  moreover have "stream_of sid (chan s a) (packets s @ ps) = b @ stream_of sid (chan s a) (packets s')" "rc = int (length b)"
      "b = take n (stream_of sid (chan s a) (packets s @ ps))"
    using ps(2) assms(6) unfolding read_result_def by blast+
  ultimately have "rc = int (length b)" "b = take n (channel_stream a sid s @ stream_of sid (chan s a) ps)"
      "channel_stream a sid s @ stream_of sid (chan s a) ps = b @ channel_stream a sid s'"
    by (simp_all only: stream_append channel_stream_def [of a sid s])
  then show ?thesis by (metis append_take_drop_id same_append_eq)
qed

lemma channel_read_neg:
  assumes "channel_read a sid n s = Some ((rc, b), s')" "rc < 0"
  shows "b = []"
proof -
  have "b = []" if "read_brigade a sid n c t = Some ((rc, b), s')" for c t
    using that assms(2) by (auto simp: read_brigade_def Let_def split: option.splits if_splits)
  then show ?thesis
    using assms(1) by (auto simp: channel_read_def split: prod.splits option.splits if_splits)
qed

text \<open>
  A read that does not succeed takes nothing out: whether it would block, fails while the input is drained or while
  the window is adjusted, all bytes that were there or arrived are still in the stream.
\<close>

theorem channel_read_failure_keeps_data:
  assumes "channel_read a sid n s = Some ((rc, b), s')" "reader_inv s" "heads_ok s" "a \<in> set (all_channels s)"
    "read_room (chan s a) n" "rc < 0" "rc \<noteq> E_ALLOC"
  shows "b = [] \<and> (\<exists>arrived. channel_stream a sid s' = channel_stream a sid s @ arrived)"
proof -
  obtain ps where ps: "kept_channels s s'" "read_result a sid n s rc b s' ps"
    using channel_read_result [OF assms(1-5,7)] by blast
  have b: "b = []" using channel_read_neg [OF assms(1,6)] .
  have i: "ident s' a = ident s a" using ps(1) assms(4) by (simp add: kept_channels_def)
  have "channel_stream a sid s' = stream_of sid (chan s a) (packets s')"
    by (simp only: channel_stream_def stream_cong [OF i])
  moreover have "stream_of sid (chan s a) (packets s @ ps) = b @ stream_of sid (chan s a) (packets s')"
    using ps(2) unfolding read_result_def by blast
  ultimately have "channel_stream a sid s' = channel_stream a sid s @ stream_of sid (chan s a) ps"
    by (simp only: stream_append channel_stream_def [of a sid s] b append_Nil)
  then show ?thesis using b by blast
qed

text \<open>
  C25: Reading from one channel leaves the streams of all other channels alone: they only grow by what arrives for them.
\<close>

theorem channel_read_isolates:
  assumes "channel_read a sid n s = Some ((rc, b), s')" "reader_inv s" "heads_ok s" "a \<in> set (all_channels s)"
    "read_room (chan s a) n" "rc \<noteq> E_ALLOC" "x \<in> set (all_channels s)" "x \<noteq> a"
  shows "\<exists>arrived. channel_stream x sid' s' = channel_stream x sid' s @ arrived"
proof -
  obtain ps where ps: "kept_channels s s'" "read_result a sid n s rc b s' ps"
    using channel_read_result [OF assms(1-6)] by blast
  have "local_id s x \<noteq> local_id s a"
    using assms(2,4,7,8) by (auto simp: reader_inv_def brigade_inv_def chan_inv_def dest: inj_onD)
  then have dis: "\<not> in_stream sid (chan s a) p" if "in_stream sid' (chan s x) p" for p
    using that in_stream_data [of sid' "chan s x" p] in_stream_data [of sid "chan s a" p]
    by (auto simp: data_for_def local_id_def)
  have "stream_of sid' (chan s x) (packets s') = stream_of sid' (chan s x) (packets s @ ps)"
    by (rule stream_disjoint [where P = "in_stream sid (chan s a)"]) (use ps(2) dis in \<open>auto simp: read_result_def\<close>)
  moreover have i: "ident s' x = ident s x" using ps(1) assms(7) by (simp add: kept_channels_def)
  ultimately show ?thesis by (simp only: channel_stream_def stream_cong [OF i] stream_append) blast
qed

text \<open>
  Reading keeps the accounts of every channel: the window shrinks by what was delivered, and the bytes that
  are left are still those that the channel reports.
\<close>

theorem channel_read_window:
  assumes "channel_read a sid n s = Some ((rc, b), s')" "reader_inv s" "heads_ok s" "a \<in> set (all_channels s)"
    "read_room (chan s a) n" "rc \<noteq> E_ALLOC"
  shows "brigade_inv s' \<and> heads_ok s' \<and> a \<in> set (all_channels s')"
  using channel_read_result [OF assms] assms(4) by (auto simp: kept_channels_def)

section \<open>Queries\<close>

lemma foldl_count: "foldl (\<lambda>n p. if P p then n + f p else n) (m :: nat) ps = m + sum_list (map f (filter P ps))"
  by (induction ps arbitrary: m) auto

text \<open>
  The number of readable bytes that \<open>libssh2_channel_window_read_ex\<close> counts by walking the brigade is the number that
  the channel keeps in \<open>read_avail\<close>.
\<close>

theorem window_read_counts:
  assumes "brigade_inv s" "heads_ok s" "a \<in> set (all_channels s)"
    and "\<forall>p \<in> set (packets s). length (pk_data p) < 2 ^ 32 \<and> (is_data p \<longrightarrow> 5 \<le> length (pk_data p))"
  shows "window_read_ex a s =
    (window_size (ch_remote (chan s a)), read_avail (chan s a), window_size_initial (ch_remote (chan s a)))"
proof -
  let ?cid = "local_id s a"
  have "(1 \<le> length (pk_data p) \<and> for_channel ?cid p) = data_for ?cid p" if "p \<in> set (packets s)" for p
    using assms(4) that by (auto simp: for_channel_def data_for_def is_data_def)
  then have eq: "filter (\<lambda>p. 1 \<le> length (pk_data p) \<and> for_channel ?cid p) (packets s) = filter (data_for ?cid) (packets s)"
    by (rule filter_cong [OF refl])
  have "size_sub (length (pk_data p)) (pk_head p) = payload_len p" if "p \<in> set (packets s)" for p
    using assms(2,4) that by (force simp: heads_ok_def payload_len_def)
  then have "map (\<lambda>p. size_sub (length (pk_data p)) (pk_head p)) (filter (data_for ?cid) (packets s)) =
      map payload_len (filter (data_for ?cid) (packets s))"
    by simp
  then have "foldl (\<lambda>n p. if length (pk_data p) \<ge> 1 \<and> for_channel ?cid p
      then n + size_sub (length (pk_data p)) (pk_head p) else n) 0 (packets s) = queued ?cid (packets s)"
    by (simp only: foldl_count eq queued_def)
  moreover have "read_avail (chan s a) = queued ?cid (packets s)"
    using assms(1,3) by (auto simp: brigade_inv_def chan_inv_def chan_ok_def)
  ultimately show ?thesis by (simp add: window_read_ex_def local_id_def Let_def)
qed

text \<open>
  A channel reports the end of its file only when the peer has announced it and every stream of the channel, the
  extended ones included, has been read to its end.
\<close>

theorem channel_eof_drained:
  assumes "channel_eof a s = 1"
  shows "cd_eof (ch_remote (chan s a)) \<and> channel_stream a sid s = []"
proof -
  have none: "\<not> (Suc 0 \<le> length (pk_data p) \<and> for_channel (local_id s a) p)" if "p \<in> set (packets s)" for p
    using assms that by (auto simp: channel_eof_def local_id_def split: if_splits)
  have "\<not> in_stream sid (chan s a) p" if "p \<in> set (packets s)" for p
    using none [OF that] in_stream_data [of sid "chan s a" p]
    by (auto simp: for_channel_def data_for_def is_data_def in_stream_def local_id_def)
  then show ?thesis
    using assms by (auto simp: channel_stream_def stream_of_def channel_eof_def filter_empty_conv split: if_splits)
qed

section \<open>Instances\<close>

lemma sample_input_room: "a = 0 \<Longrightarrow> read_room (chan sample_input a) 2" "heads_ok sample_input" "0 \<in> set (all_channels sample_input)"
  by (simp_all add: sample_input_def sample_session_def sample_channel_def zero_channel_def empty_data_def read_room_def
        CHANNEL_MINADJUST_def heads_ok_def all_channels_def)

lemma sample_read:
  "case channel_read 0 0 2 sample_input of None \<Rightarrow> False
   | Some ((rc, b), s') \<Rightarrow> rc = 2 \<and> b = [1, 2] \<and> channel_stream 0 0 s' = [3] \<and> read_avail (chan s' 0) = 1"
  by code_simp

lemma channel_read_fifo_witness:
  "\<exists>s' arrived. channel_read 0 0 2 sample_input = Some ((2, [1, 2]), s') \<and> [1, 2] = take 2 arrived \<and>
     channel_stream 0 0 s' = drop 2 arrived \<and> channel_stream 0 0 s' = [3]"
proof -
  obtain s' where s': "channel_read 0 0 2 sample_input = Some ((2, [1, 2]), s')" "channel_stream 0 0 s' = [3]"
    using sample_read by (auto split: option.splits)
  moreover have "channel_stream 0 0 sample_input = []"
    by (simp add: channel_stream_def stream_of_def sample_input_def sample_session_def)
  ultimately show ?thesis
    using channel_read_fifo [OF s'(1) sample_input_inv sample_input_room(2,3) sample_input_room(1) [OF refl]] by auto
qed

lemma channel_read_window_witness:
  "\<exists>s'. channel_read 0 0 2 sample_input = Some ((2, [1, 2]), s') \<and> brigade_inv s' \<and> read_avail (chan s' 0) = 1"
proof -
  obtain s' where s': "channel_read 0 0 2 sample_input = Some ((2, [1, 2]), s')" "read_avail (chan s' 0) = 1"
    using sample_read by (auto split: option.splits)
  then show ?thesis
    using channel_read_window [OF s'(1) sample_input_inv sample_input_room(2,3) sample_input_room(1) [OF refl]] by simp
qed

text \<open>A session that waits for its socket, and one with a second channel for which data are queued.\<close>

definition sample_idle :: session where
  "sample_idle = sample_session\<lparr>packets := [\<lparr>pk_data = [MSG_CHANNEL_EXTENDED_DATA] @ htonu32 3 @ htonu32 1 @ wire_string [8, 9],
       pk_head = 13\<rparr>],
     chan := (\<lambda>_. sample_channel\<lparr>read_avail := 2\<rparr>)\<rparr>"

lemma sample_idle_inv: "reader_inv sample_idle" "read_room (chan sample_idle 0) 2" "heads_ok sample_idle"
    "0 \<in> set (all_channels sample_idle)" "channel_stream 0 0 sample_idle = []" "channel_stream 0 1 sample_idle = [8, 9]"
proof -
  have "brigade_inv sample_idle"
    by (simp add: sample_idle_def sample_session_def brigade_inv_def chan_inv_def all_channels_def chan_ok_def local_id_def
        sample_channel_def window_ok_def zero_channel_def empty_data_def queued_def data_for_def is_data_def u32_at_def
        payload_len_def wire_string_def)
  then show "reader_inv sample_idle"
    by (simp add: reader_inv_def pending_def sample_idle_def sample_session_def entry_states_def)
  show "read_room (chan sample_idle 0) 2" "heads_ok sample_idle" "0 \<in> set (all_channels sample_idle)"
    by (simp_all add: sample_idle_def sample_session_def sample_channel_def zero_channel_def empty_data_def read_room_def
        CHANNEL_MINADJUST_def heads_ok_def all_channels_def wire_string_def)
  show "channel_stream 0 0 sample_idle = []" "channel_stream 0 1 sample_idle = [8, 9]" by code_simp+
qed

lemma channel_read_failure_keeps_data_witness:
  "\<exists>s' arrived. channel_read 0 0 2 sample_idle = Some ((E_EAGAIN, []), s') \<and> channel_stream 0 0 s' = arrived"
proof -
  have "case channel_read 0 0 2 sample_idle of None \<Rightarrow> False | Some ((rc, b), s') \<Rightarrow> rc = E_EAGAIN \<and> b = []"
    by code_simp
  then obtain s' where s': "channel_read 0 0 2 sample_idle = Some ((E_EAGAIN, []), s')" by (auto split: option.splits)
  then show ?thesis
    using channel_read_failure_keeps_data [OF s' sample_idle_inv(1,3,4,2)] sample_idle_inv(5) by simp
qed

lemma window_read_counts_witness: "window_read_ex 0 sample_idle = (6, 2, 6)"
proof -
  have "brigade_inv sample_idle" using sample_idle_inv(1) by (simp add: reader_inv_def)
  then have "window_read_ex 0 sample_idle =
    (window_size (ch_remote (chan sample_idle 0)), read_avail (chan sample_idle 0), window_size_initial (ch_remote (chan sample_idle 0)))"
    by (rule window_read_counts [OF _ sample_idle_inv(3,4)])
       (simp add: sample_idle_def wire_string_def)
  then show ?thesis by (simp add: sample_idle_def sample_channel_def empty_data_def)
qed

definition sample_two :: session where
  "sample_two = sample_session\<lparr>channels := [0, 1], next_addr := 2,
     chan := (\<lambda>_. sample_channel)(1 := sample_channel\<lparr>ch_local := empty_data\<lparr>cd_id := 2\<rparr>\<rparr>),
     inbox := [In_packet MSG_CHANNEL_DATA (tl (sample_data [1, 2])) True 0,
       In_packet MSG_CHANNEL_DATA (htonu32 2 @ wire_string [5]) True 1]\<rparr>"

lemma channel_read_isolates_witness:
  "\<exists>s' arrived. channel_read 0 0 2 sample_two = Some ((2, [1, 2]), s') \<and> channel_stream 1 0 s' = channel_stream 1 0 sample_two @ arrived \<and>
     channel_stream 1 0 s' = [5]"
proof -
  have "brigade_inv sample_two"
    by (simp add: sample_two_def sample_session_def brigade_inv_def chan_inv_def all_channels_def chan_ok_def local_id_def
        sample_channel_def window_ok_def zero_channel_def empty_data_def)
  then have inv: "reader_inv sample_two"
    by (simp add: reader_inv_def pending_def sample_two_def sample_session_def entry_states_def)
  have room: "read_room (chan sample_two 0) 2" "heads_ok sample_two" "0 \<in> set (all_channels sample_two)"
      "1 \<in> set (all_channels sample_two)"
    by (simp_all add: sample_two_def sample_session_def sample_channel_def zero_channel_def empty_data_def read_room_def
        CHANNEL_MINADJUST_def heads_ok_def all_channels_def)
  have "case channel_read 0 0 2 sample_two of None \<Rightarrow> False
     | Some ((rc, b), s') \<Rightarrow> rc = 2 \<and> b = [1, 2] \<and> channel_stream 1 0 s' = [5]"
    by code_simp
  then obtain s' where s': "channel_read 0 0 2 sample_two = Some ((2, [1, 2]), s')" "channel_stream 1 0 s' = [5]"
    by (auto split: option.splits)
  then show ?thesis
    using channel_read_isolates [OF s'(1) inv room(2,3,1) _ room(4), of 0] by simp
qed

lemma channel_eof_drained_witness:
  "cd_eof (ch_remote (chan (upd_chan 0 (upd_remote (cd_eof_update (\<lambda>_. True))) sample_session) 0))"
proof -
  have "channel_eof 0 (upd_chan 0 (upd_remote (cd_eof_update (\<lambda>_. True))) sample_session) = 1"
    by code_simp
  from channel_eof_drained [OF this, of 0] show ?thesis by simp
qed

end
