(* ===== verification/Packet_Require.thy ===== *)
theory Packet_Require
  imports Transport_Drain
begin

text \<open>
  Waiting for a packet, \<^verbatim>\<open>libssh2/src/packet.c\<close>: \<open>_libssh2_packet_require\<close>, \<open>_libssh2_packet_requirev\<close> and \<open>_libssh2_packet_burn\<close>
  search the brigade, then read until a packet of a wanted type has arrived.  Whether the time for a reply has
  run out is decided by the script \<open>timeouts\<close>; of the start time only whether it is set matters, and it is passed
  and returned where the code looks at it.
\<close>

section \<open>The operations\<close>

definition timed_out :: "session \<Rightarrow> bool \<times> session" where
  "timed_out s = (case timeouts s of [] \<Rightarrow> (False, s) | b # bs \<Rightarrow> (b, s\<lparr>timeouts := bs\<rparr>))"

lemma ask_frame:
  "pending (snd (packet_ask t ofs mbuf mlen s)) = pending s" "kex_rc (snd (packet_ask t ofs mbuf mlen s)) = kex_rc s"
proof -
  have "io (snd (packet_ask t ofs mbuf mlen s)) = io s"
    by (simp add: packet_ask_def split: sum.split option.split unit.split)
  then show "pending (snd (packet_ask t ofs mbuf mlen s)) = pending s" by (simp add: pending_def io_def)
  have "kex_rc (libssh2_session_disconnect m s) = kex_rc s" for m
    by (simp add: libssh2_session_disconnect_def session_disconnect_ex_def session_disconnect_def split_beta Let_def
          serr_def libssh2_error_def libssh2_error_flags_def transport_send_def)
  then show "kex_rc (snd (packet_ask t ofs mbuf mlen s)) = kex_rc s"
    by (simp add: packet_ask_def serr_def libssh2_error_def libssh2_error_flags_def split: sum.split option.split unit.split)
qed

definition read_order :: "(session \<times> session) set" where
  "read_order = inv_image (less_than <*lex*> less_than) (\<lambda>s. (pending s, length (kex_rc s)))"

lemma wf_read_order: "wf read_order"
  unfolding read_order_def by (intro wf_inv_image wf_lex_prod wf_less_than)

lemma read_order_step:
  assumes "transport_read s = Some (rc, t)" "0 \<le> rc" "pending u = pending t" "kex_rc u = kex_rc t"
  shows "(u, s) \<in> read_order"
  using transport_read_consumes [OF assms(1,2)] assms(3,4) by (auto simp: read_order_def)

function requirev_loop ::
  "bytes \<Rightarrow> nat \<Rightarrow> bytes option \<Rightarrow> nat \<Rightarrow> session \<Rightarrow> ((int \<times> bytes option) \<times> session) option" where
  "requirev_loop types ofs mbuf mlen s =
     (if socket_state s = SOCKET_DISCONNECTED then Some ((E_SOCKET_DISCONNECT, None), s)
      else case transport_read s of
        None \<Rightarrow> None
      | Some (ret, s1) \<Rightarrow>
          if ret < 0 \<and> ret \<noteq> E_EAGAIN then Some ((ret, None), s1)
          else if ret \<le> 0 \<and> fst (timed_out s1) then Some ((E_TIMEOUT, None), snd (timed_out s1))
          else if ret = E_EAGAIN then Some ((ret, None), snd (timed_out s1))
          else if ret = 0 then Some (packet_askv types ofs mbuf mlen (snd (timed_out s1)))
          else if ret \<in> uint ` set types then Some (packet_askv types ofs mbuf mlen s1)
          else requirev_loop types ofs mbuf mlen s1)"
  by pat_completeness auto

termination
  by (relation "inv_image read_order (\<lambda>(types, ofs, mbuf, mlen, s). s)")
     (auto intro: wf_read_order read_order_step)

declare requirev_loop.simps [simp del]

definition packet_requirev ::
  "bytes \<Rightarrow> nat \<Rightarrow> bytes option \<Rightarrow> nat \<Rightarrow> session \<Rightarrow> ((int \<times> bytes option) \<times> session) option" where
  "packet_requirev types ofs mbuf mlen s =
     (case packet_askv types ofs mbuf mlen s of
        ((rc, d), s1) \<Rightarrow> if rc = 0 then Some ((0, d), s1) else requirev_loop types ofs mbuf mlen s1)"

lemma read_order_required:
  assumes "transport_read (s\<lparr>fullpacket_required_type := p\<rparr>) = Some (rc, t)" "0 \<le> rc"
  shows "(t\<lparr>fullpacket_required_type := 0\<rparr>, s) \<in> read_order"
proof -
  have "(t\<lparr>fullpacket_required_type := 0\<rparr>, s\<lparr>fullpacket_required_type := p\<rparr>) \<in> read_order"
    by (rule read_order_step [OF assms]) (simp_all add: pending_def)
  then show ?thesis by (simp add: read_order_def pending_def)
qed

function require_loop ::
  "byte \<Rightarrow> nat \<Rightarrow> bytes option \<Rightarrow> nat \<Rightarrow> session \<Rightarrow> ((int \<times> bytes option) \<times> bool \<times> session) option" where
  "require_loop ptype ofs mbuf mlen s =
     (if socket_state s \<noteq> SOCKET_CONNECTED then Some ((E_SOCKET_DISCONNECT, None), True, s)
      else case transport_read (s\<lparr>fullpacket_required_type := ptype\<rparr>) of
        None \<Rightarrow> None
      | Some (ret, s0) \<Rightarrow>
          let s1 = s0\<lparr>fullpacket_required_type := 0\<rparr> in
          if ret = E_EAGAIN then Some ((ret, None), True, s1)
          else if ret < 0 then Some ((ret, None), False, s1)
          else if ret = uint ptype then
            (let (res, s2) = packet_ask ptype ofs mbuf mlen s1 in Some (res, False, s2))
          else if ret = 0 then
            (let (late, s2) = timed_out s1 in
             if late then Some ((E_TIMEOUT, None), False, s2) else Some ((- 1, None), True, s2))
          else require_loop ptype ofs mbuf mlen s1)"
  by pat_completeness auto

termination
  by (relation "inv_image read_order (\<lambda>(ptype, ofs, mbuf, mlen, s). s)")
     (auto intro: wf_read_order read_order_required)

declare require_loop.simps [simp del]

definition packet_require ::
  "byte \<Rightarrow> nat \<Rightarrow> bytes option \<Rightarrow> nat \<Rightarrow> bool \<Rightarrow> session \<Rightarrow> ((int \<times> bytes option) \<times> bool \<times> session) option" where
  "packet_require ptype ofs mbuf mlen started s =
     (if \<not> started then
        (case packet_ask ptype ofs mbuf mlen s of
           ((rc, d), s1) \<Rightarrow> if rc = 0 then Some ((0, d), False, s1) else require_loop ptype ofs mbuf mlen s1)
      else require_loop ptype ofs mbuf mlen s)"

text \<open>Discarding the next packet, whatever it is; the state is returned.\<close>

function burn_loop :: "session \<Rightarrow> (int \<times> nb_state \<times> session) option" where
  "burn_loop s =
     (if socket_state s \<noteq> SOCKET_CONNECTED then Some (E_SOCKET_DISCONNECT, NB_created, s)
      else case transport_read s of
        None \<Rightarrow> None
      | Some (ret, s1) \<Rightarrow>
          if ret = E_EAGAIN then Some (ret, NB_created, s1)
          else if ret < 0 then Some (ret, NB_idle, s1)
          else if ret = 0 then burn_loop s1
          else if fst (fst (packet_ask (word_of_int ret) 0 None 0 s1)) = 0
          then Some (ret, NB_idle, snd (packet_ask (word_of_int ret) 0 None 0 s1))
          else burn_loop (snd (packet_ask (word_of_int ret) 0 None 0 s1)))"
  by pat_completeness auto

termination
  by (relation read_order)
     (auto intro: wf_read_order read_order_step simp: ask_frame)

declare burn_loop.simps [simp del]

definition all_packet_types :: bytes where
  "all_packet_types = map word_of_nat [1..<255]"

definition packet_burn :: "nb_state \<Rightarrow> session \<Rightarrow> (int \<times> nb_state \<times> session) option" where
  "packet_burn state s =
     (if state = NB_idle then
        (case packet_askv all_packet_types 0 None 0 s of
           ((rc, d), s1) \<Rightarrow>
             if rc = 0 then Some (uint (hd (the d)), NB_idle, s1) else burn_loop s1)
      else burn_loop s)"

section \<open>What a search returns\<close>

lemma ask_result:
  assumes "packet_ask t ofs mbuf mlen s = ((rc, d), s')"
  shows "rc = 0 \<and> (\<exists>p \<in> set (packets s). d = Some (pk_data p) \<and> pk_matches t ofs mbuf mlen p) \<or> rc < 0 \<and> d = None"
proof -
  have loop: "p \<in> set ps \<and> pk_matches t ofs mbuf mlen p"
    if "ask_loop t ofs mbuf mlen strict ps = Inl (Some (p, qs))" for strict ps p qs
    using that by (induction ps arbitrary: qs) (auto split: if_splits sum.splits option.splits)
  show ?thesis
    using assms by (auto simp: packet_ask_def split: sum.splits option.splits unit.splits dest!: loop)
qed

text \<open>What a caller that asked for some types, at an offset and for some bytes there, may rely on.\<close>

definition wanted :: "bytes \<Rightarrow> nat \<Rightarrow> bytes option \<Rightarrow> nat \<Rightarrow> bytes \<Rightarrow> bool" where
  "wanted types ofs mbuf mlen x \<longleftrightarrow> hd x \<in> set types \<and> ofs + mlen \<le> length x \<and>
     (\<forall>b. mbuf = Some b \<longrightarrow> take mlen (drop ofs x) = take mlen b)"

lemma matches_wanted: "pk_matches t ofs mbuf mlen p \<Longrightarrow> t \<in> set types \<Longrightarrow> wanted types ofs mbuf mlen (pk_data p)"
  by (auto simp: pk_matches_def wanted_def)

lemma askv_result:
  assumes "packet_askv types ofs mbuf mlen s = ((rc, d), s')"
  shows "rc = 0 \<and> (\<exists>x. d = Some x \<and> wanted types ofs mbuf mlen x) \<or> rc = - 1 \<and> d = None"
  using assms
proof (induction types arbitrary: s)
  case (Cons t ts)
  obtain c e u where ask: "packet_ask t ofs mbuf mlen s = ((c, e), u)" by (metis surj_pair)
  show ?case
  proof (cases "c = 0")
    case True
    then show ?thesis
      using Cons.prems ask ask_result [OF ask] matches_wanted [of t ofs mbuf mlen _ "t # ts"] by fastforce
  next
    case False
    then show ?thesis
      using Cons.prems ask Cons.IH [of u] by (auto simp: wanted_def)
  qed
qed simp

lemma requirev_loop_result:
  assumes "requirev_loop types ofs mbuf mlen s = Some ((rc, d), s')"
  shows "rc = 0 \<and> (\<exists>x. d = Some x \<and> wanted types ofs mbuf mlen x) \<or> rc < 0 \<and> d = None"
  using assms
proof (induction types ofs mbuf mlen s rule: requirev_loop.induct)
  case (1 types ofs mbuf mlen s)
  have ask: "rc = 0 \<and> (\<exists>x. d = Some x \<and> wanted types ofs mbuf mlen x) \<or> rc < 0 \<and> d = None"
    if "packet_askv types ofs mbuf mlen t = ((rc, d), s')" for t
    using askv_result [OF that] by auto
  note step = "1.prems" [unfolded requirev_loop.simps [of types ofs mbuf mlen s]]
  show ?case
  proof (cases "socket_state s = SOCKET_DISCONNECTED")
    case True
    then show ?thesis using step by auto
  next
    case False
    then obtain ret s1 where r: "transport_read s = Some (ret, s1)" using step by (auto split: option.splits)
    consider "ret < 0 \<and> ret \<noteq> E_EAGAIN" | "\<not> (ret < 0 \<and> ret \<noteq> E_EAGAIN)" "ret \<le> 0 \<and> fst (timed_out s1)"
      | "ret = E_EAGAIN" "\<not> fst (timed_out s1)" | "ret = 0" "\<not> fst (timed_out s1)"
      | "0 < ret" "ret \<in> uint ` set types" | "0 < ret" "ret \<notin> uint ` set types" by linarith
    then show ?thesis
    proof cases
      case 6
      then have "requirev_loop types ofs mbuf mlen s1 = Some ((rc, d), s')" using step False r by auto
      then show ?thesis using "1.IH" [OF False r refl] 6 by auto
    qed (use step False r ask in auto)
  qed
qed

text \<open>
  C37: \<open>_libssh2_packet_requirev\<close> keeps its promise to the caller: it returns zero exactly with a packet of one of the types
  asked for whose bytes at the offset are those asked for, and a negative code with no packet; it always returns.
\<close>

theorem requirev_returns_wanted:
  assumes "packet_requirev types ofs mbuf mlen s = Some ((rc, d), s')"
  shows "rc = 0 \<and> (\<exists>x. d = Some x \<and> wanted types ofs mbuf mlen x) \<or> rc < 0 \<and> d = None"
proof -
  obtain c e u where a: "packet_askv types ofs mbuf mlen s = ((c, e), u)" by (metis surj_pair)
  show ?thesis
    using assms a askv_result [OF a] requirev_loop_result [of types ofs mbuf mlen u rc d s']
    by (auto simp: packet_requirev_def split: if_splits)
qed

section \<open>Waiting for a reply\<close>

text \<open>Messages that \<open>_libssh2_packet_add\<close> does nothing with but queue them.\<close>

definition plain_types :: "byte set" where
  "plain_types = - {0, MSG_DISCONNECT, MSG_IGNORE, MSG_DEBUG, MSG_EXT_INFO, MSG_KEXINIT, MSG_GLOBAL_REQUEST, MSG_CHANNEL_OPEN,
     MSG_CHANNEL_WINDOW_ADJUST, MSG_CHANNEL_DATA, MSG_CHANNEL_EXTENDED_DATA, MSG_CHANNEL_EOF, MSG_CHANNEL_CLOSE,
     MSG_CHANNEL_REQUEST}"

text \<open>A session between two packets, outside any key exchange.\<close>

definition at_rest :: "session \<Rightarrow> bool" where
  "at_rest s \<longleftrightarrow> packAdd_state s = NB_idle \<and> readPack_state s = NB_idle \<and> fullpacket_state s = NB_idle \<and>
     sflags s AND STATE_INITIAL_KEX = 0 \<and> sflags s AND STATE_EXCHANGING_KEYS = 0 \<and> socket_state s = SOCKET_CONNECTED"

lemma dispatch_plain:
  assumes "hd data \<in> plain_types"
  shows "pa_dispatch data s = Some (pa_enqueue data (length data) 0 (s\<lparr>packAdd_state := NB_sent\<rparr>))"
  using assms by (simp add: pa_dispatch_def plain_types_def Let_def)

text \<open>One such message is read: it is at the end of the brigade, and the session is at rest again.\<close>

lemma transport_read_plain:
  assumes "at_rest s" "t \<in> plain_types" "mem s = True # m" "inbox s = In_packet t body True seq # rest"
  shows "\<exists>s'. transport_read s = Some (uint t, s') \<and> at_rest s' \<and> inbox s' = rest \<and> mem s' = m \<and>
    packets s' = packets s @ [\<lparr>pk_data = t # body, pk_head = 0\<rparr>] \<and> channels s' = channels s \<and> chan s' = chan s \<and>
    calls s' = calls s"
proof -
  let ?s = "s\<lparr>inbox := rest, cur_packet := (t # body, True, seq), fullpacket_packet_type := t, fullpacket_state := NB_created\<rparr>"
  have add: "packet_add (t # body) True seq ?s =
    Some ((0, Queued), ?s\<lparr>mem := m, packets := packets s @ [\<lparr>pk_data = t # body, pk_head = 0\<rparr>]\<rparr>)"
  proof -
    have idle: "packAdd_state ?s = NB_idle" "sflags ?s AND STATE_INITIAL_KEX = 0" using assms(1) by (auto simp: at_rest_def)
    have "t \<noteq> MSG_KEXINIT" using assms(2) by (auto simp: plain_types_def)
    then show ?thesis
      using assms(3) idle(1)
      by (simp add: packet_add_idle [OF idle] dispatch_plain assms(2) pa_enqueue_def alloc_def pa_rekey_def)
  qed
  have "uint t \<noteq> E_EAGAIN" using uint_ge_0 [of t] by linarith
  then show ?thesis
    using assms(1,4) add
    by (simp add: transport_read_def at_rest_def Let_def read_complete_def fullpacket_def)
qed

lemma ask_none:
  assumes "sflags s AND STATE_INITIAL_KEX = 0" "\<forall>p \<in> set (packets s). \<not> pk_matches t ofs mbuf mlen p"
  shows "packet_ask t ofs mbuf mlen s = ((- 1, None), s)"
proof -
  have "ask_loop t ofs mbuf mlen False ps = Inl None" if "\<forall>p \<in> set ps. \<not> pk_matches t ofs mbuf mlen p" for ps
    using that by (induction ps) auto
  then show ?thesis using assms by (simp add: packet_ask_def)
qed

lemma ask_last:
  assumes "sflags s AND STATE_INITIAL_KEX = 0" "packets s = ps @ [p]" "\<forall>q \<in> set ps. \<not> pk_matches t ofs mbuf mlen q"
    "pk_matches t ofs mbuf mlen p"
  shows "packet_ask t ofs mbuf mlen s = ((0, Some (pk_data p)), s\<lparr>packets := ps\<rparr>)"
proof -
  have "ask_loop t ofs mbuf mlen False (qs @ [p]) = Inl (Some (p, qs))" if "\<forall>q \<in> set qs. \<not> pk_matches t ofs mbuf mlen q" for qs
    using that assms(4) by (induction qs) auto
  then show ?thesis using assms by (simp add: packet_ask_def)
qed

lemma wanted_iff: "wanted types ofs mbuf mlen (pk_data p) \<longleftrightarrow> (\<exists>t \<in> set types. pk_matches t ofs mbuf mlen p)"
  by (auto simp: wanted_def pk_matches_def split: option.splits)

lemma askv_none:
  assumes "sflags s AND STATE_INITIAL_KEX = 0" "\<forall>p \<in> set (packets s). \<not> wanted types ofs mbuf mlen (pk_data p)"
  shows "packet_askv types ofs mbuf mlen s = ((- 1, None), s)"
  using assms
proof (induction types)
  case (Cons t ts)
  have "packet_ask t ofs mbuf mlen s = ((- 1, None), s)"
    using Cons.prems by (intro ask_none) (auto simp: wanted_iff)
  then show ?case using Cons by (simp add: wanted_iff)
qed simp

lemma askv_last:
  assumes "sflags s AND STATE_INITIAL_KEX = 0" "packets s = ps @ [p]" "\<forall>q \<in> set ps. \<not> wanted types ofs mbuf mlen (pk_data q)"
    "wanted types ofs mbuf mlen (pk_data p)"
  shows "packet_askv types ofs mbuf mlen s = ((0, Some (pk_data p)), s\<lparr>packets := ps\<rparr>)"
  using assms
proof (induction types)
  case (Cons t ts)
  show ?case
  proof (cases "pk_matches t ofs mbuf mlen p")
    case True
    have "packet_ask t ofs mbuf mlen s = ((0, Some (pk_data p)), s\<lparr>packets := ps\<rparr>)"
      using Cons.prems True by (intro ask_last) (auto simp: wanted_iff)
    then show ?thesis by simp
  next
    case False
    have "packet_ask t ofs mbuf mlen s = ((- 1, None), s)"
      using Cons.prems False by (intro ask_none) (auto simp: wanted_iff)
    moreover have "packet_askv ts ofs mbuf mlen s = ((0, Some (pk_data p)), s\<lparr>packets := ps\<rparr>)"
      using Cons.prems False by (intro Cons.IH) (auto simp: wanted_iff)
    ultimately show ?thesis by simp
  qed
qed (simp add: wanted_def)

lemma first_reply:
  assumes rest: "at_rest s" "inbox s = In_packet t body True seq # rest" "mem s = True # m"
    and t: "t \<in> plain_types" "t \<in> set types"
    and none: "\<forall>p \<in> set (packets s). \<not> wanted types ofs mbuf mlen (pk_data p)"
  shows "\<exists>s'. packet_requirev types ofs mbuf mlen s =
      Some (if wanted types ofs mbuf mlen (t # body) then (0, Some (t # body)) else (- 1, None), s') \<and>
    packets s' = packets s @ (if wanted types ofs mbuf mlen (t # body) then [] else [\<lparr>pk_data = t # body, pk_head = 0\<rparr>]) \<and>
    at_rest s' \<and> inbox s' = rest \<and> channels s' = channels s \<and> chan s' = chan s \<and> calls s' = calls s"
proof -
  let ?p = "\<lparr>pk_data = t # body, pk_head = 0\<rparr>"
  obtain u where u: "transport_read s = Some (uint t, u)" "at_rest u" "inbox u = rest" "mem u = m"
      "packets u = packets s @ [?p]" "channels u = channels s" "chan u = chan s" "calls u = calls s"
    using transport_read_plain [OF rest(1) t(1) rest(3,2)] by blast
  have "t \<noteq> 0" using t(1) by (auto simp: plain_types_def)
  then have pos: "0 < uint t" by (simp add: uint_0_iff order_less_le)
  have flags: "sflags u AND STATE_INITIAL_KEX = 0" "sflags s AND STATE_INITIAL_KEX = 0"
      "socket_state s \<noteq> SOCKET_DISCONNECTED"
    using u(2) rest(1) by (auto simp: at_rest_def)
  have "packet_requirev types ofs mbuf mlen s = Some (packet_askv types ofs mbuf mlen u)"
    using pos t(2) flags(3) u(1) by (simp add: packet_requirev_def askv_none [OF flags(2) none] requirev_loop.simps [of types ofs mbuf mlen s])
  moreover have "packet_askv types ofs mbuf mlen u = ((0, Some (t # body)), u\<lparr>packets := packets s\<rparr>)"
    if "wanted types ofs mbuf mlen (t # body)"
    using askv_last [OF flags(1) u(5), of types ofs mbuf mlen] none that by simp
  moreover have "packet_askv types ofs mbuf mlen u = ((- 1, None), u)"
    if "\<not> wanted types ofs mbuf mlen (t # body)"
    using askv_none [OF flags(1), of types ofs mbuf mlen] none that u(5) by auto
  ultimately show ?thesis using u by (auto simp: at_rest_def)
qed

text \<open>
  The wait for a reply ends with the first packet of a type asked for.  If it is the reply, it is returned and the brigade
  is as before; if it is meant for somebody else, say for another channel that is being opened, the wait
  fails at once although the reply may follow, and the packet stays in the brigade.
\<close>

theorem requirev_first_reply:
  assumes rest: "at_rest s" "inbox s = In_packet t body True seq # rest" "mem s = True # m"
    and t: "t \<in> plain_types" "t \<in> set types"
    and none: "\<forall>p \<in> set (packets s). \<not> wanted types ofs mbuf mlen (pk_data p)"
  shows "\<exists>s'. packet_requirev types ofs mbuf mlen s =
      Some (if wanted types ofs mbuf mlen (t # body) then (0, Some (t # body)) else (- 1, None), s') \<and>
    packets s' = packets s @ (if wanted types ofs mbuf mlen (t # body) then [] else [\<lparr>pk_data = t # body, pk_head = 0\<rparr>]) \<and>
    at_rest s' \<and> inbox s' = rest \<and> channels s' = channels s \<and> chan s' = chan s"
  using first_reply [OF assms] by blast

text \<open>Two channels are being opened; the answer that arrives first is for channel 5, the wait is for channel 4.\<close>

definition sample_waiting :: session where
  "sample_waiting = sample_session\<lparr>mem := [True],
     inbox := [In_packet MSG_CHANNEL_OPEN_CONFIRMATION (htonu32 5 @ replicate 12 0) True 0,
       In_packet MSG_CHANNEL_OPEN_CONFIRMATION (htonu32 4 @ replicate 12 0) True 1]\<rparr>"

lemma requirev_first_reply_witness:
  "\<exists>s'. packet_requirev [91, 92] 1 (Some (htonu32 4)) 4 sample_waiting = Some ((- 1, None), s') \<and> length (inbox s') = 1"
proof -
  have nw: "\<not> wanted [91, 92] 1 (Some (htonu32 4)) 4 (MSG_CHANNEL_OPEN_CONFIRMATION # htonu32 5 @ replicate 12 0)"
    by (simp add: wanted_def) code_simp
  have "\<exists>s'. packet_requirev [91, 92] 1 (Some (htonu32 4)) 4 sample_waiting =
      Some (if wanted [91, 92] 1 (Some (htonu32 4)) 4 (MSG_CHANNEL_OPEN_CONFIRMATION # htonu32 5 @ replicate 12 0)
        then (0, Some (MSG_CHANNEL_OPEN_CONFIRMATION # htonu32 5 @ replicate 12 0)) else (- 1, None), s') \<and>
    packets s' = packets sample_waiting @ (if wanted [91, 92] 1 (Some (htonu32 4)) 4 (MSG_CHANNEL_OPEN_CONFIRMATION # htonu32 5 @ replicate 12 0)
      then [] else [\<lparr>pk_data = MSG_CHANNEL_OPEN_CONFIRMATION # htonu32 5 @ replicate 12 0, pk_head = 0\<rparr>]) \<and>
    at_rest s' \<and> inbox s' = [In_packet MSG_CHANNEL_OPEN_CONFIRMATION (htonu32 4 @ replicate 12 0) True 1] \<and>
    channels s' = channels sample_waiting \<and> chan s' = chan sample_waiting"
    by (rule requirev_first_reply [where seq = 0 and m = "[]"])
       (simp_all add: at_rest_def sample_waiting_def sample_session_def plain_types_def)
  then show ?thesis using nw by auto
qed

lemma requirev_returns_wanted_witness:
  "\<exists>x s'. packet_requirev [91, 92] 1 (Some (htonu32 5)) 4 sample_waiting = Some ((0, Some x), s') \<and>
     wanted [91, 92] 1 (Some (htonu32 5)) 4 x"
proof -
  have "case packet_requirev [91, 92] 1 (Some (htonu32 5)) 4 sample_waiting of None \<Rightarrow> False
    | Some ((rc, d), s') \<Rightarrow> rc = 0" by code_simp
  then obtain d s' where r: "packet_requirev [91, 92] 1 (Some (htonu32 5)) 4 sample_waiting = Some ((0, d), s')"
    by (auto split: option.splits)
  then show ?thesis using requirev_returns_wanted [OF r] by auto
qed

end
