(* ===== verification/Channel_Write.thy ===== *)
theory Channel_Write
  imports Channel_Read Packet_Require
begin

text \<open>
  Writing to a channel, ending and closing it, discarding its input and releasing it, \<^verbatim>\<open>libssh2/src/channel.c\<close>.
\<close>

section \<open>Writing\<close>

text \<open>Nothing is sent before the input has been drained; \<open>Inl\<close> returns, \<open>Inr\<close> goes on to send the packet.\<close>

definition write_prepare :: "addr \<Rightarrow> int \<Rightarrow> nat \<Rightarrow> session \<Rightarrow> ((int \<times> session) + session) option" where
  "write_prepare a stream_id buflen s =
     (let c = chan s a in
      if cd_close (ch_local c) then
        Some (Inl (E_CHANNEL_CLOSED, serr E_CHANNEL_CLOSED ''We have already closed this channel'' s))
      else if cd_eof (ch_local c) then
        Some (Inl (E_CHANNEL_EOF_SENT, serr E_CHANNEL_EOF_SENT ''EOF has already been received, data might be ignored'' s))
      else
        case drain s of
          None \<Rightarrow> None
        | Some (rc, s1) \<Rightarrow>
            if rc < 0 \<and> rc \<noteq> E_EAGAIN then Some (Inl (rc, serr rc ''Failure while draining incoming flow'' s1))
            else
              let l = ch_local (chan s1 a); n = min (min buflen (unat (window_size l))) (unat (packet_size l)) in
              if window_size l = 0 then Some (Inl (if rc = E_EAGAIN then rc else 0, s1))
              else
                Some (Inr (upd_chan a (\<lambda>c. c\<lparr>write_bufwrite := n,
                  write_packet :=
                    (if stream_id \<noteq> 0 then [MSG_CHANNEL_EXTENDED_DATA] @ htonu32 (cd_id (ch_remote c)) @ htonu32 (word_of_int stream_id)
                     else [MSG_CHANNEL_DATA] @ htonu32 (cd_id (ch_remote c))) @ htonu32 (word_of_nat n),
                  write_state := NB_created\<rparr>) s1)))"

text \<open>A packet that is resumed with a shorter buffer than it was built for would be read beyond the buffer.\<close>

definition write_send :: "addr \<Rightarrow> bytes \<Rightarrow> session \<Rightarrow> (int \<times> session) option" where
  "write_send a buf s =
     (let c = chan s a; n = write_bufwrite c in
      if length buf < n then None
      else
        let (rc, s1) = transport_send (write_packet c @ take n buf) s in
        Some (if rc = E_EAGAIN then (rc, serr rc ''Unable to send channel data'' s1)
              else if rc \<noteq> 0 then
                (rc, serr rc ''Unable to send channel data'' (upd_chan a (write_state_update (\<lambda>_. NB_idle)) s1))
              else
                (int n, upd_chan a (\<lambda>c. (upd_local (window_size_update (\<lambda>w. w - word_of_nat n)) c)\<lparr>write_state := NB_idle\<rparr>) s1)))"

definition channel_write :: "addr \<Rightarrow> int \<Rightarrow> bytes \<Rightarrow> session \<Rightarrow> (int \<times> session) option" where
  "channel_write a stream_id buf s =
     (case (if write_state (chan s a) = NB_idle then write_prepare a stream_id (min (length buf) 32700) s else Some (Inr s)) of
        None \<Rightarrow> None
      | Some (Inl res) \<Rightarrow> Some res
      | Some (Inr s1) \<Rightarrow>
          if write_state (chan s1 a) = NB_created then write_send a buf s1 else Some (E_INVAL, s1))"

section \<open>End of file and close\<close>

definition channel_send_eof :: "addr \<Rightarrow> session \<Rightarrow> int \<times> session" where
  "channel_send_eof a s =
     (let (rc, s1) = transport_send ([MSG_CHANNEL_EOF] @ htonu32 (cd_id (ch_remote (chan s a)))) s in
      if rc = E_EAGAIN then (rc, serr rc ''Would block sending EOF'' s1)
      else if rc \<noteq> 0 then (E_SOCKET_SEND, serr E_SOCKET_SEND ''Unable to send EOF on channel'' s1)
      else (0, upd_chan a (upd_local (cd_eof_update (\<lambda>_. True))) s1))"

function wait_eof_loop :: "addr \<Rightarrow> session \<Rightarrow> (int \<times> session) option" where
  "wait_eof_loop a s =
     (let c = chan s a in
      if cd_eof (ch_remote c) then Some (0, upd_chan a (wait_eof_state_update (\<lambda>_. NB_idle)) s)
      else if unat (window_size (ch_remote c)) = read_avail c \<and> api_block_mode s then
        Some (E_CHANNEL_WINDOW_FULL, serr E_CHANNEL_WINDOW_FULL ''Receiving channel window has been exhausted'' s)
      else case transport_read s of
        None \<Rightarrow> None
      | Some (rc, s1) \<Rightarrow>
          if rc = E_EAGAIN then Some (rc, s1)
          else if rc < 0 then
            Some (rc, serr rc ''_libssh2_transport_read() bailed out'' (upd_chan a (wait_eof_state_update (\<lambda>_. NB_idle)) s1))
          else wait_eof_loop a s1)"
  by pat_completeness auto

termination
  by (relation "inv_image read_order snd") (auto intro: wf_read_order read_order_step)

declare wait_eof_loop.simps [simp del]

definition channel_wait_eof :: "addr \<Rightarrow> session \<Rightarrow> (int \<times> session) option" where
  "channel_wait_eof a s =
     wait_eof_loop a (if wait_eof_state (chan s a) = NB_idle then upd_chan a (wait_eof_state_update (\<lambda>_. NB_created)) s else s)"

text \<open>
  The wait for the peer's close: the loop goes on only while \<open>_libssh2_transport_read\<close> returns zero, so it also ends
  when a packet of any other kind has been read.
\<close>

function close_wait :: "addr \<Rightarrow> int \<Rightarrow> session \<Rightarrow> (int \<times> session) option" where
  "close_wait a rc s =
     (if \<not> cd_close (ch_remote (chan s a)) \<and> rc = 0 \<and> socket_state s \<noteq> SOCKET_DISCONNECTED then
        (case transport_read s of
           None \<Rightarrow> None
         | Some (rc1, s1) \<Rightarrow> if rc1 = 0 then close_wait a rc1 s1 else Some (rc1, s1))
      else Some (rc, s))"
  by pat_completeness auto

termination
  by (relation "inv_image read_order (\<lambda>(a, rc, s). s)") (auto intro: wf_read_order read_order_step)

declare close_wait.simps [simp del]

text \<open>EOF and CLOSE are sent: \<open>Inl\<close> is a return, \<open>Inr\<close> goes on with the last return code.\<close>

definition close_send :: "addr \<Rightarrow> int \<Rightarrow> session \<Rightarrow> (int \<times> session) + (int \<times> session)" where
  "close_send a rc s =
     (let s1 = (if close_state (chan s a) = NB_idle then
                  upd_chan a (\<lambda>c. c\<lparr>close_packet := [MSG_CHANNEL_CLOSE] @ htonu32 (cd_id (ch_remote c)), close_state := NB_created\<rparr>) s
                else s) in
      if close_state (chan s1 a) = NB_created then
        let (rc1, s2) = transport_send (close_packet (chan s1 a)) s1 in
        if rc1 = E_EAGAIN then Inl (rc1, serr rc1 ''Would block sending close-channel'' s2)
        else if rc1 \<noteq> 0 then Inr (rc1, serr rc1 ''Unable to send close-channel request, but closing anyway'' s2)
        else Inr (rc1, upd_chan a (close_state_update (\<lambda>_. NB_sent)) s2)
      else Inr (rc, s1))"

definition close_finish :: "addr \<Rightarrow> int \<Rightarrow> session \<Rightarrow> int \<times> session" where
  "close_finish a rc s =
     (let s1 = (if rc \<noteq> E_EAGAIN then
                  let t = upd_chan a (upd_local (cd_close_update (\<lambda>_. True))) s;
                      u = (if close_cb (chan t a) then t\<lparr>events := events t @ [Ev_close a]\<rparr> else t) in
                  upd_chan a (close_state_update (\<lambda>_. NB_idle)) u
                else s) in
      (if rc \<ge> 0 then 0 else rc, s1))"

definition channel_close :: "addr \<Rightarrow> session \<Rightarrow> (int \<times> session) option" where
  "channel_close a s =
     (if cd_close (ch_local (chan s a)) then Some (0, upd_chan a (close_state_update (\<lambda>_. NB_idle)) s)
      else
        let (rc, s1) = (if \<not> cd_eof (ch_local (chan s a)) then channel_send_eof a s else (0, s)) in
        if rc = E_EAGAIN then Some (rc, s1)
        else
          let s2 = (if rc \<noteq> 0 then serr rc ''Unable to send EOF, but closing channel anyway'' s1 else s1) in
          case close_send a rc s2 of
            Inl res \<Rightarrow> Some res
          | Inr (rc1, s3) \<Rightarrow>
              map_option (\<lambda>(rc2, s4). close_finish a rc2 s4)
                (if close_state (chan s3 a) = NB_sent then close_wait a rc1 s3 else Some (rc1, s3)))"

function wait_closed_loop :: "addr \<Rightarrow> session \<Rightarrow> (int \<times> session) option" where
  "wait_closed_loop a s =
     (case transport_read s of
        None \<Rightarrow> None
      | Some (rc, s1) \<Rightarrow>
          if cd_close (ch_remote (chan s1 a)) \<or> rc \<le> 0 then Some (rc, s1) else wait_closed_loop a s1)"
  by pat_completeness auto

termination
  by (relation "inv_image read_order snd") (auto intro: wf_read_order read_order_step)

declare wait_closed_loop.simps [simp del]

definition channel_wait_closed :: "addr \<Rightarrow> session \<Rightarrow> (int \<times> session) option" where
  "channel_wait_closed a s =
     (if \<not> cd_eof (ch_remote (chan s a)) then
        Some (E_INVAL, serr E_INVAL ''libssh2_channel_wait_closed() invoked when channel is not in EOF state'' s)
      else
        let s1 = (if wait_closed_state (chan s a) = NB_idle
                  then upd_chan a (wait_closed_state_update (\<lambda>_. NB_created)) s else s);
            fin = (\<lambda>t. (0, upd_chan a (wait_closed_state_update (\<lambda>_. NB_idle)) t)) in
        if \<not> cd_close (ch_remote (chan s1 a)) then
          map_option (\<lambda>(rc, s2). if rc < 0 then (rc, s2) else fin s2) (wait_closed_loop a s1)
        else Some (fin s1))"

section \<open>Discarding and releasing\<close>

abbreviation FLUSH_EXTENDED_DATA :: int where "FLUSH_EXTENDED_DATA \<equiv> - 1"
abbreviation FLUSH_ALL :: int where "FLUSH_ALL \<equiv> - 2"

text \<open>
  The walk of \<open>_libssh2_channel_flush\<close>: the packets that stay, the bytes to refund and the bytes discarded; \<open>False\<close>
  when an extended packet is too short for a stream number.  The refund is the length of the packet less
  the header of \<^emph>\<open>extended\<close> data, in the arithmetic of \<^verbatim>\<open>size_t\<close>.
\<close>

fun flush_walk :: "u32 \<Rightarrow> int \<Rightarrow> packet list \<Rightarrow> bool \<times> packet list \<times> nat \<times> nat" where
  "flush_walk cid streamid [] = (True, [], 0, 0)"
| "flush_walk cid streamid (p # ps) =
     (let data = pk_data p; ext = (hd data = MSG_CHANNEL_EXTENDED_DATA);
          keep = (\<lambda>(ok, qs, r, f). (ok, p # qs, r, f));
          discard = (\<lambda>(ok, qs, r, f).
            (ok, qs, (r + size_sub (length data) 13) mod 2 ^ 64, (f + size_sub (length data) (pk_head p)) mod 2 ^ 64)) in
      if for_channel cid p then
        if ext \<and> length data < 9 then (False, p # ps, 0, 0)
        else if streamid = FLUSH_ALL \<or>
          ext \<and> (streamid = FLUSH_EXTENDED_DATA \<or> streamid = sint (u32_at data 5)) \<or> \<not> ext \<and> streamid = 0
        then discard (flush_walk cid streamid ps)
        else keep (flush_walk cid streamid ps)
      else keep (flush_walk cid streamid ps))"

definition flush_finish :: "addr \<Rightarrow> session \<Rightarrow> int \<times> session" where
  "flush_finish a s =
     (let f = flush_flush_bytes (chan s a);
          s1 = upd_chan a (\<lambda>c. (upd_remote (window_size_update (\<lambda>w. w - word_of_nat f)) c)
                 \<lparr>read_avail := size_sub (read_avail c) f\<rparr>) s;
          refund = flush_refund_bytes (chan s1 a);
          (rc, s2) = (if refund \<noteq> 0 then channel_receive_window_adjust a (word_of_nat refund) True s1 else (0, s1)) in
      if rc = E_EAGAIN then (rc, s2)
      else (sint (word_of_nat f :: u32), upd_chan a (flush_state_update (\<lambda>_. NB_idle)) s2))"

definition channel_flush :: "addr \<Rightarrow> int \<Rightarrow> session \<Rightarrow> int \<times> session" where
  "channel_flush a streamid s =
     (if flush_state (chan s a) = NB_idle then
        (case flush_walk (cd_id (ch_local (chan s a))) streamid (packets s) of
           (ok, ps, refund, f) \<Rightarrow>
             (let s1 = upd_chan a (\<lambda>c. c\<lparr>flush_refund_bytes := refund, flush_flush_bytes := f\<rparr>) (s\<lparr>packets := ps\<rparr>) in
              if \<not> ok then (E_PROTO, serr E_PROTO ''Unexpected packet length'' s1)
              else flush_finish a (upd_chan a (flush_state_update (\<lambda>_. NB_created)) s1)))
      else flush_finish a s)"

definition channel_extended_data :: "addr \<Rightarrow> int \<Rightarrow> session \<Rightarrow> int \<times> session" where
  "channel_extended_data a ignore_mode s =
     (let s1 = (if extData2_state (chan s a) = NB_idle then
                  upd_chan a (\<lambda>c. (upd_remote (extended_data_ignore_mode_update (\<lambda>_. sint (word_of_int ignore_mode :: byte))) c)
                    \<lparr>extData2_state := NB_created\<rparr>) s
                else s);
          (rc, s2) = (if extData2_state (chan s1 a) = NB_idle \<and> ignore_mode = EXTENDED_DATA_IGNORE
                      then channel_flush a FLUSH_EXTENDED_DATA s1 else (0, s1)) in
      if rc = E_EAGAIN then (rc, s2) else (0, upd_chan a (extData2_state_update (\<lambda>_. NB_idle)) s2))"

text \<open>The packets of a channel that is being released are taken out one by one.\<close>

lemma ask_shrinks:
  assumes "fst (fst (packet_ask t ofs mbuf mlen s)) \<ge> 0"
  shows "length (packets (snd (packet_ask t ofs mbuf mlen s))) < length (packets s)"
proof -
  have loop: "length qs < length ps" if "ask_loop t ofs mbuf mlen strict ps = Inl (Some (p, qs))" for strict ps p qs
    using that by (induction ps arbitrary: qs) (auto split: if_splits sum.splits option.splits)
  show ?thesis
    using assms by (auto simp: packet_ask_def split: sum.splits option.splits unit.splits dest!: loop)
qed

lemma ask_shorter: "length (packets (snd (packet_ask t ofs mbuf mlen s))) \<le> length (packets s)"
proof -
  have loop: "length qs < length ps" if "ask_loop t ofs mbuf mlen strict ps = Inl (Some (p, qs))" for strict ps p qs
    using that by (induction ps arbitrary: qs) (auto split: if_splits sum.splits option.splits)
  have "packets (libssh2_session_disconnect m s) = packets s" for m by (rule packets_conn) simp
  then show ?thesis
    by (auto simp: packet_ask_def split: sum.splits option.splits unit.splits dest!: loop)
qed

function clear_packets :: "u32 \<Rightarrow> session \<Rightarrow> session" where
  "clear_packets cid s =
     (let r = packet_ask MSG_CHANNEL_DATA 1 (Some (htonu32 cid)) 4 s in
      if fst (fst r) \<ge> 0 then clear_packets cid (snd r)
      else
        let q = packet_ask MSG_CHANNEL_EXTENDED_DATA 1 (Some (htonu32 cid)) 4 (snd r) in
        if fst (fst q) \<ge> 0 then clear_packets cid (snd q) else snd q)"
  by pat_completeness auto

termination
  by (relation "measure (\<lambda>(cid, s). length (packets s))")
     (auto intro: ask_shrinks le_less_trans [OF _ ask_shrinks] less_le_trans [OF ask_shrinks ask_shorter])

declare clear_packets.simps [simp del]

definition unlink :: "addr \<Rightarrow> session \<Rightarrow> session" where
  "unlink a s = s\<lparr>channels := removeAll a (channels s),
     listeners := map (\<lambda>l. l\<lparr>ln_queue := removeAll a (ln_queue l)\<rparr>) (listeners s)\<rparr>"

definition channel_free :: "addr \<Rightarrow> session \<Rightarrow> (int \<times> session) option" where
  "channel_free a s =
     (let s1 = (if free_state (chan s a) = NB_idle then upd_chan a (free_state_update (\<lambda>_. NB_created)) s else s) in
      case (if \<not> cd_close (ch_local (chan s1 a)) \<and> socket_state s1 = SOCKET_CONNECTED then channel_close a s1 else Some (0, s1)) of
        None \<Rightarrow> None
      | Some (rc, s2) \<Rightarrow>
          if rc = E_EAGAIN then Some (rc, s2)
          else
            let s3 = upd_chan a (\<lambda>c. c\<lparr>free_state := NB_idle, exit_signal := No_signal\<rparr>) s2 in
            Some (0, unlink a (clear_packets (cd_id (ch_local (chan s3 a))) s3)))"

end
