(* ===== verification/Channel_Safety.thy ===== *)
theory Channel_Safety
  imports Channel_Write Packet_Safety
begin

text \<open>
  What the operations of \<open>Channel_Write\<close> guarantee: writes respect the peer's window and reach the peer's stream, a
  released channel leaves nothing behind, and where closing and discarding do not do what their comments say.
\<close>

section \<open>Writing\<close>

definition data_header :: "u32 \<Rightarrow> int \<Rightarrow> nat \<Rightarrow> bytes" where
  "data_header cid sid n =
     (if sid \<noteq> 0 then [MSG_CHANNEL_EXTENDED_DATA] @ htonu32 cid @ htonu32 (word_of_int sid) else [MSG_CHANNEL_DATA] @ htonu32 cid) @
     htonu32 (word_of_nat n)"

definition write_len :: "channel \<Rightarrow> bytes \<Rightarrow> nat" where
  "write_len c buf =
     min (min (min (length buf) 32700) (unat (window_size (ch_local c)))) (unat (packet_size (ch_local c)))"

lemma write_prepare_closed:
  "cd_close (ch_local (chan s a)) \<Longrightarrow> write_prepare a sid n s =
     Some (Inl (E_CHANNEL_CLOSED, serr E_CHANNEL_CLOSED ''We have already closed this channel'' s))"
  "\<not> cd_close (ch_local (chan s a)) \<Longrightarrow> cd_eof (ch_local (chan s a)) \<Longrightarrow> write_prepare a sid n s =
     Some (Inl (E_CHANNEL_EOF_SENT, serr E_CHANNEL_EOF_SENT ''EOF has already been received, data might be ignored'' s))"
  by (simp_all add: write_prepare_def)

lemma write_prepare_open:
  assumes "\<not> cd_close (ch_local (chan s a))" "\<not> cd_eof (ch_local (chan s a))" "drain s = Some (rc, s1)"
  shows "rc < 0 \<and> rc \<noteq> E_EAGAIN \<Longrightarrow> write_prepare a sid m s =
      Some (Inl (rc, serr rc ''Failure while draining incoming flow'' s1))"
    and "\<not> (rc < 0 \<and> rc \<noteq> E_EAGAIN) \<Longrightarrow> n = min (min m (unat (window_size (ch_local (chan s1 a))))) (unat (packet_size (ch_local (chan s1 a)))) \<Longrightarrow>
    write_prepare a sid m s =
      (if window_size (ch_local (chan s1 a)) = 0 then Some (Inl (if rc = E_EAGAIN then rc else 0, s1))
       else Some (Inr (upd_chan a (\<lambda>c. c\<lparr>write_bufwrite := n,
         write_packet := data_header (cd_id (ch_remote c)) sid n, write_state := NB_created\<rparr>) s1)))"
  unfolding write_prepare_def Let_def data_header_def
  by (simp_all only: assms if_False if_True option.case prod.case simp_thms)

lemma write_prepared:
  assumes "write_prepare a sid m s = Some (Inr t)"
  shows "\<exists>rc s1. drain s = Some (rc, s1) \<and> \<not> cd_close (ch_local (chan s a)) \<and> \<not> cd_eof (ch_local (chan s a)) \<and>
    t = upd_chan a (\<lambda>c. c\<lparr>write_bufwrite := min (min m (unat (window_size (ch_local (chan s1 a))))) (unat (packet_size (ch_local (chan s1 a)))),
      write_packet := data_header (cd_id (ch_remote c)) sid
        (min (min m (unat (window_size (ch_local (chan s1 a))))) (unat (packet_size (ch_local (chan s1 a))))),
      write_state := NB_created\<rparr>) s1"
proof -
  have open': "\<not> cd_close (ch_local (chan s a))" "\<not> cd_eof (ch_local (chan s a))"
    using assms write_prepare_closed [of s a sid m] by (cases "cd_close (ch_local (chan s a))"; force)+
  obtain rc s1 where d: "drain s = Some (rc, s1)"
    using assms open' by (cases "drain s") (auto simp: write_prepare_def)
  note eq = write_prepare_open [OF open' d]
  have go: "\<not> (rc < 0 \<and> rc \<noteq> E_EAGAIN)" using eq(1) [of sid m] assms by force
  show ?thesis using assms open' d eq(2) [OF go refl, of sid m] by (auto split: if_splits)
qed

lemma write_refused:
  assumes "write_prepare a sid m s = Some (Inl (rc, t))"
  shows "rc \<le> 0"
proof (cases "cd_close (ch_local (chan s a)) \<or> cd_eof (ch_local (chan s a))")
  case True
  then show ?thesis using assms write_prepare_closed [of s a sid m] by (cases "cd_close (ch_local (chan s a))") auto
next
  case False
  then obtain c s1 where d: "drain s = Some (c, s1)"
    using assms by (cases "drain s") (auto simp: write_prepare_def)
  have open': "\<not> cd_close (ch_local (chan s a))" "\<not> cd_eof (ch_local (chan s a))" using False by auto
  note eq = write_prepare_open [OF open' d]
  show ?thesis
    using assms eq(1) [of sid m] eq(2) [OF _ refl, of sid m]
    by (cases "c < 0 \<and> c \<noteq> E_EAGAIN") (auto split: if_splits)
qed

lemma send_le: "transport_send p s = (c, t) \<Longrightarrow> c \<le> 0"
  by (auto simp: transport_send_def Let_def split_beta)

lemma send_ok:
  assumes "transport_send p s = (0, t)"
  shows "sent t = sent s @ [p]" "chan t = chan s"
  using assms by (auto simp: transport_send_def Let_def split_beta)

lemma channel_write_sends:
  assumes idle: "write_state (chan s a) = NB_idle" and res: "channel_write a sid buf s = Some (rc, s')" and rc: "0 < rc"
  shows "\<exists>drc s1. drain s = Some (drc, s1) \<and> rc = int (write_len (chan s1 a) buf) \<and>
    sent s' = sent s1 @ [data_header (cd_id (ch_remote (chan s1 a))) sid (write_len (chan s1 a) buf) @
      take (write_len (chan s1 a) buf) buf] \<and>
    unat (window_size (ch_local (chan s' a))) = unat (window_size (ch_local (chan s1 a))) - write_len (chan s1 a) buf \<and>
    \<not> cd_close (ch_local (chan s a)) \<and> \<not> cd_eof (ch_local (chan s a))"
proof -
  obtain t where t: "write_prepare a sid (min (length buf) 32700) s = Some (Inr t)"
    using res idle rc write_refused by (fastforce simp: channel_write_def split: option.splits sum.splits)
  obtain drc s1 where d: "drain s = Some (drc, s1)" "\<not> cd_close (ch_local (chan s a))" "\<not> cd_eof (ch_local (chan s a))"
    and teq: "t = upd_chan a (\<lambda>c. c\<lparr>write_bufwrite := write_len (chan s1 a) buf,
      write_packet := data_header (cd_id (ch_remote c)) sid (write_len (chan s1 a) buf), write_state := NB_created\<rparr>) s1"
    using write_prepared [OF t] unfolding write_len_def by blast
  let ?n = "write_len (chan s1 a) buf"
  let ?p = "data_header (cd_id (ch_remote (chan s1 a))) sid ?n @ take ?n buf"
  have n: "?n \<le> length buf" "?n \<le> unat (window_size (ch_local (chan s1 a)))" by (auto simp: write_len_def)
  obtain c u where send: "transport_send ?p t = (c, u)" by fastforce
  have sends: "write_send a buf t = Some (rc, s')"
    using res idle t teq by (simp add: channel_write_def upd_chan_def)
  have tc: "write_packet (chan t a) = data_header (cd_id (ch_remote (chan s1 a))) sid ?n" "write_bufwrite (chan t a) = ?n"
    "ch_local (chan t a) = ch_local (chan s1 a)"
    by (simp_all add: teq upd_chan_def)
  have c: "c = 0"
    using sends n(1) send rc send_le [OF send] by (auto simp: write_send_def tc Let_def split: if_splits)
  have ok: "rc = int ?n" "s' = upd_chan a (\<lambda>c. (upd_local (window_size_update (\<lambda>w. w - word_of_nat ?n)) c)\<lparr>write_state := NB_idle\<rparr>) u"
    using sends n(1) send c by (auto simp: write_send_def tc Let_def)
  have small: "unat w < 2 ^ 32" for w :: u32 using unsigned_less [of w] by simp
  have w: "unat (window_size (ch_local (chan s1 a)) - word_of_nat ?n) = unat (window_size (ch_local (chan s1 a))) - ?n"
  proof -
    have "?n < 2 ^ 32" using n(2) small [of "window_size (ch_local (chan s1 a))"] by simp
    then show ?thesis
      using n(2) by (subst unat_sub) (auto simp: word_le_nat_alt unat_of_nat take_bit_nat_eq_self)
  qed
  have "sent u = sent s1 @ [?p]" "chan u = chan t" using send_ok [of ?p t u] send c by (simp_all add: teq upd_chan_def)
  then show ?thesis
    using d ok w tc(3) by (auto simp: upd_chan_def upd_local_def)
qed

text \<open>
  C24: A write respects what the peer has granted.  It goes out as one packet with the first bytes of the buffer, as many as fit
  into the window, the packet size and the limit of 32700 bytes, after the input has been drained for window
  adjustments; the window shrinks by exactly what was sent, and nothing is sent on a channel that is closed or at
  its end of file.
\<close>

theorem channel_write_within_window:
  assumes "write_state (chan s a) = NB_idle" "channel_write a sid buf s = Some (rc, s')" "0 < rc"
  shows "\<exists>drc s1. drain s = Some (drc, s1) \<and> rc = int (write_len (chan s1 a) buf) \<and>
    sent s' = sent s1 @ [data_header (cd_id (ch_remote (chan s1 a))) sid (write_len (chan s1 a) buf) @
      take (write_len (chan s1 a) buf) buf] \<and>
    unat (window_size (ch_local (chan s' a))) = unat (window_size (ch_local (chan s1 a))) - write_len (chan s1 a) buf \<and>
    \<not> cd_close (ch_local (chan s a)) \<and> \<not> cd_eof (ch_local (chan s a))"
  using assms by (rule channel_write_sends)

text \<open>
  C23: What one side writes is what the other side can read: the packet of a successful write, handed to the peer's session,
  is appended to the stream of the channel it names, provided the peer's window covers it, and the return value
  is the number of bytes delivered.
\<close>

theorem written_bytes_arrive:
  assumes wr: "write_state (chan s a) = NB_idle" "channel_write a 0 buf s = Some (rc, s')" "0 < rc"
    and peer: "reader_inv r" "at_rest r" "mem r = True # m"
    and chan: "channel_locate r (cd_id (ch_remote (chan (snd (the (drain s))) a))) = Some b"
    and room: "nat rc \<le> unat (packet_size (ch_remote (chan r b)))"
      "read_avail (chan r b) + nat rc \<le> unat (window_size (ch_remote (chan r b)))"
  shows "\<exists>r'. packet_add (last (sent s')) True seq r = Some ((0, Queued), r') \<and>
    channel_stream b 0 r' = channel_stream b 0 r @ take (nat rc) buf"
proof -
  obtain drc s1 where w: "drain s = Some (drc, s1)" "rc = int (write_len (chan s1 a) buf)"
      "sent s' = sent s1 @ [data_header (cd_id (ch_remote (chan s1 a))) 0 (write_len (chan s1 a) buf) @
        take (write_len (chan s1 a) buf) buf]"
    using channel_write_sends [OF wr] by blast
  let ?cid = "cd_id (ch_remote (chan s1 a))" and ?n = "write_len (chan s1 a) buf"
  let ?payload = "take ?n buf"
  define data where "data = [MSG_CHANNEL_DATA] @ htonu32 ?cid @ htonu32 (word_of_nat ?n) @ ?payload"
  have last: "last (sent s') = data" by (simp add: w(3) data_def data_header_def)
  have len: "length ?payload = ?n" by (simp add: write_len_def)
  have loc: "channel_locate r ?cid = Some b" using chan w(1) by simp
  have k: "accepted_len (chan r b) (length ?payload) = ?n"
    using room w(2) unfolding len by (simp add: accepted_len_def)
  have idle: "packAdd_state r = NB_idle" "sflags r AND STATE_INITIAL_KEX = 0"
    using peer(2) by (simp_all add: at_rest_def)
  have open': "read_avail (chan r b) < unat (window_size (ch_remote (chan r b)))"
    using room(2) wr(3) by linarith
  have "\<exists>r'. packet_add data True seq r = Some ((0, Queued), r') \<and>
      packets r' = packets r @ [\<lparr>pk_data = take (9 + ?n) data, pk_head = 9\<rparr>]"
    using channel_data_delivery [OF idle data_def loc peer(3), of seq] open' unfolding k Let_def by auto
  then obtain r' where r': "packet_add data True seq r = Some ((0, Queued), r')"
      "packets r' = packets r @ [\<lparr>pk_data = data, pk_head = 9\<rparr>]"
    using len by (auto simp: data_def)
  have inv: "brigade_inv r" "next_channel r \<noteq> - 1" "packAdd_state r \<in> insert NB_jump1 entry_states"
    using peer(1) by (auto simp: reader_inv_def unsigned_minus_1_eq_mask mask_eq_exp_minus_1)
  have b: "b \<in> set (all_channels r)" "local_id r b = ?cid" using located [OF loc] by auto
  have i: "ident r' b = ident r b"
    using packet_add_grows [OF r'(1) inv] linked_below [OF inv(1) b(1)] by (simp add: grows_def)
  have "in_stream 0 (chan r b) \<lparr>pk_data = data, pk_head = 9\<rparr>"
    using b(2) by (simp add: in_stream_def matches_stream_def data_def local_id_def u32_at_def)
  moreover have "unread \<lparr>pk_data = data, pk_head = 9\<rparr> = ?payload" by (simp add: unread_def data_def)
  ultimately have "channel_stream b 0 r' = channel_stream b 0 r @ ?payload"
    by (simp add: channel_stream_def stream_cong [OF i] r'(2) stream_Cons) (simp add: stream_of_def)
  then show ?thesis using r'(1) last w(2) by auto
qed

text \<open>A session whose peer has just enlarged the window by two bytes.\<close>

definition sample_writer :: session where
  "sample_writer = sample_session\<lparr>inbox := [In_packet MSG_CHANNEL_WINDOW_ADJUST (htonu32 3 @ htonu32 2) True 0]\<rparr>"

lemma sample_writer_drained:
  "case drain sample_writer of None \<Rightarrow> False
   | Some (rc, s') \<Rightarrow> rc = E_EAGAIN \<and> ch_local (chan s' 0) = (ch_local sample_channel)\<lparr>window_size := 66\<rparr> \<and>
       ch_remote (chan s' 0) = ch_remote sample_channel \<and> send_rc s' = []"
  by code_simp

lemma sample_written:
  "case channel_write 0 0 [1, 2, 3] sample_writer of None \<Rightarrow> False
   | Some (rc, s') \<Rightarrow> rc = 3 \<and> window_size (ch_local (chan s' 0)) = 63"
proof -
  obtain s1 where s1: "drain sample_writer = Some (E_EAGAIN, s1)" "ch_local (chan s1 0) = (ch_local sample_channel)\<lparr>window_size := 66\<rparr>"
      "send_rc s1 = []"
    using sample_writer_drained by (auto split: option.splits)
  have open': "\<not> cd_close (ch_local (chan sample_writer 0))" "\<not> cd_eof (ch_local (chan sample_writer 0))"
      "write_state (chan sample_writer 0) = NB_idle"
    by (simp_all add: sample_writer_def sample_session_def sample_channel_def zero_channel_def empty_data_def)
  have win: "ch_local (chan s1 0) = empty_data\<lparr>cd_id := 3, window_size_initial := 64, window_size := 66, packet_size := 32\<rparr>"
    by (simp add: s1(2) sample_channel_def)
  show ?thesis
    unfolding channel_write_def
    using write_prepare_open(2) [OF open'(1,2) s1(1) _ refl, of 0 "Suc (Suc (Suc 0))"]
    by (simp add: open' win write_send_def upd_chan_def upd_local_def transport_send_def s1(3) numeral_3_eq_3)
qed

lemma channel_write_within_window_witness:
  "\<exists>s' drc s1. channel_write 0 0 [1, 2, 3] sample_writer = Some (3, s') \<and> drain sample_writer = Some (drc, s1) \<and>
     write_len (chan s1 0) [1, 2, 3] = 3 \<and> window_size (ch_local (chan s' 0)) = 63"
proof -
  obtain s' where s': "channel_write 0 0 [1, 2, 3] sample_writer = Some (3, s')" "window_size (ch_local (chan s' 0)) = 63"
    using sample_written by (auto split: option.splits)
  have "write_state (chan sample_writer 0) = NB_idle"
    by (simp add: sample_writer_def sample_session_def sample_channel_def zero_channel_def)
  from channel_write_within_window [OF this s'(1)] show ?thesis using s' by auto
qed

text \<open>The peer of \<open>sample_writer\<close>: its channel has the number under which that session writes.\<close>

definition sample_peer :: session where
  "sample_peer = sample_session\<lparr>mem := [True], next_channel := 8,
     chan := (\<lambda>_. sample_channel\<lparr>ch_local := empty_data\<lparr>cd_id := 7\<rparr>\<rparr>)\<rparr>"

lemma written_bytes_arrive_witness:
  "\<exists>s' r'. channel_write 0 0 [1, 2, 3] sample_writer = Some (3, s') \<and>
     packet_add (last (sent s')) True 0 sample_peer = Some ((0, Queued), r') \<and> channel_stream 0 0 r' = [1, 2, 3]"
proof -
  obtain s' where s': "channel_write 0 0 [1, 2, 3] sample_writer = Some (3, s')"
    using sample_written by (auto split: option.splits)
  have idle: "write_state (chan sample_writer 0) = NB_idle"
    by (simp add: sample_writer_def sample_session_def sample_channel_def zero_channel_def)
  have "brigade_inv sample_peer"
    by (simp add: sample_peer_def sample_session_def brigade_inv_def chan_inv_def all_channels_def chan_ok_def local_id_def
        sample_channel_def window_ok_def zero_channel_def empty_data_def)
  then have inv: "reader_inv sample_peer"
    by (simp add: reader_inv_def pending_def sample_peer_def sample_session_def entry_states_def)
  have rest: "at_rest sample_peer" "mem sample_peer = [True]"
    by (simp_all add: at_rest_def sample_peer_def sample_session_def)
  have "channel_locate sample_peer (cd_id (ch_remote (chan (snd (the (drain sample_writer))) 0))) = Some 0"
    by code_simp
  moreover have "nat 3 \<le> unat (packet_size (ch_remote (chan sample_peer 0)))"
      "read_avail (chan sample_peer 0) + nat 3 \<le> unat (window_size (ch_remote (chan sample_peer 0)))"
    by (simp_all add: sample_peer_def sample_channel_def zero_channel_def empty_data_def)
  moreover have "channel_stream 0 0 sample_peer = []"
    by (simp add: channel_stream_def stream_of_def sample_peer_def sample_session_def)
  ultimately show ?thesis
    using written_bytes_arrive [OF idle s' _ inv rest, of 0 0] s' by auto
qed

section \<open>Releasing a channel\<close>

lemma matches_channel:
  "pk_matches t 1 (Some (htonu32 cid)) 4 p \<longleftrightarrow> hd (pk_data p) = t \<and> 5 \<le> length (pk_data p) \<and> u32_at (pk_data p) 1 = cid"
proof -
  have "take 4 (htonu32 cid) = htonu32 cid" by (simp add: take_all_iff)
  moreover have "take 4 (drop 1 (pk_data p)) = htonu32 cid \<longleftrightarrow> u32_at (pk_data p) 1 = cid" if "5 \<le> length (pk_data p)"
    using that htonu32_ntohu32 [of "take 4 (drop 1 (pk_data p))"] by (auto simp: u32_at_def)
  ultimately show ?thesis by (auto simp: pk_matches_def)
qed

lemma for_channel_iff:
  "for_channel cid p \<longleftrightarrow> pk_matches MSG_CHANNEL_DATA 1 (Some (htonu32 cid)) 4 p \<or>
     pk_matches MSG_CHANNEL_EXTENDED_DATA 1 (Some (htonu32 cid)) 4 p"
  unfolding matches_channel for_channel_def by blast

lemma ask_relaxed:
  assumes "sflags s AND STATE_INITIAL_KEX = 0" "packet_ask t ofs m n s = ((rc, d), s')"
  shows "rc \<ge> 0 \<Longrightarrow> \<exists>xs p ys. packets s = xs @ p # ys \<and> s' = s\<lparr>packets := xs @ ys\<rparr> \<and> pk_matches t ofs m n p"
    and "rc < 0 \<Longrightarrow> s' = s \<and> (\<forall>p \<in> set (packets s). \<not> pk_matches t ofs m n p)"
proof -
  have ask: "packet_ask t ofs m n s = (case List.extract (pk_matches t ofs m n) (packets s) of
      None \<Rightarrow> ((- 1, None), s) | Some (xs, p, ys) \<Rightarrow> ((0, Some (pk_data p)), s\<lparr>packets := xs @ ys\<rparr>))"
    using assms(1) by (simp add: packet_ask_def ask_loop_extract split: option.split)
  show "\<exists>xs p ys. packets s = xs @ p # ys \<and> s' = s\<lparr>packets := xs @ ys\<rparr> \<and> pk_matches t ofs m n p" if "rc \<ge> 0"
  proof (cases "List.extract (pk_matches t ofs m n) (packets s)")
    case None
    then show ?thesis using ask assms(2) that by simp
  next
    case (Some r)
    obtain xs p ys where "r = (xs, p, ys)" by (metis surj_pair)
    then show ?thesis using Some ask assms(2) extract_SomeE [of "pk_matches t ofs m n"] by fastforce
  qed
  show "s' = s \<and> (\<forall>p \<in> set (packets s). \<not> pk_matches t ofs m n p)" if "rc < 0"
    using ask assms(2) that
    by (cases "List.extract (pk_matches t ofs m n) (packets s)") (auto simp: extract_None_iff)
qed

lemma clear_result:
  "sflags s AND STATE_INITIAL_KEX = 0 \<Longrightarrow>
     clear_packets cid s = s\<lparr>packets := filter (\<lambda>p. \<not> for_channel cid p) (packets s)\<rparr>"
proof (induction cid s rule: clear_packets.induct)
  case (1 cid s)
  obtain c d t where r: "packet_ask MSG_CHANNEL_DATA 1 (Some (htonu32 cid)) 4 s = ((c, d), t)" by (metis surj_pair)
  obtain c2 d2 u where q: "packet_ask MSG_CHANNEL_EXTENDED_DATA 1 (Some (htonu32 cid)) 4 t = ((c2, d2), u)" by (metis surj_pair)
  note eq = clear_packets.simps [of cid s, unfolded r Let_def fst_conv snd_conv q]
  show ?case
  proof (cases "c \<ge> 0")
    case True
    obtain xs p ys where p: "packets s = xs @ p # ys" "t = s\<lparr>packets := xs @ ys\<rparr>" "for_channel cid p"
      using ask_relaxed(1) [OF 1(3) r True] for_channel_iff by blast
    have "clear_packets cid t = t\<lparr>packets := filter (\<lambda>p. \<not> for_channel cid p) (packets t)\<rparr>"
      using 1(1) [OF refl] 1(3) r True p(2) by simp
    then show ?thesis using eq True p by simp
  next
    case False
    then have t: "t = s" "\<forall>p \<in> set (packets s). \<not> pk_matches MSG_CHANNEL_DATA 1 (Some (htonu32 cid)) 4 p"
      using ask_relaxed(2) [OF 1(3) r] by auto
    note q' = q [unfolded t(1)]
    show ?thesis
    proof (cases "c2 \<ge> 0")
      case True
      obtain xs p ys where p: "packets s = xs @ p # ys" "u = s\<lparr>packets := xs @ ys\<rparr>" "for_channel cid p"
        using ask_relaxed(1) [OF 1(3) q' True] for_channel_iff by blast
      have "clear_packets cid u = u\<lparr>packets := filter (\<lambda>p. \<not> for_channel cid p) (packets u)\<rparr>"
        using 1(2) [OF refl _ refl] 1(3) r False q True p(2) by simp
      then show ?thesis using eq True False p by simp
    next
      case none: False
      then have "u = s" "\<forall>p \<in> set (packets s). \<not> for_channel cid p"
        using ask_relaxed(2) [OF 1(3) q'] t(2) for_channel_iff by auto
      then show ?thesis using eq none False by (simp cong: filter_cong)
    qed
  qed
qed

text \<open>Taking the packets of one channel away does not touch what the others have queued.\<close>

definition without :: "u32 \<Rightarrow> packet list \<Rightarrow> packet list \<Rightarrow> bool" where
  "without cid ps qs \<longleftrightarrow> set qs \<subseteq> set ps \<and>
     filter (\<lambda>p. \<not> for_channel cid p) qs = filter (\<lambda>p. \<not> for_channel cid p) ps"

lemma filter_other:
  assumes "without cid ps qs" "b \<noteq> cid"
  shows "queued b qs = queued b ps"
proof -
  have "filter (data_for b) xs = filter (data_for b) (filter (\<lambda>p. \<not> for_channel cid p) xs)" for xs
    using assms(2) by (induction xs) (auto simp: data_for_def for_channel_def)
  then show ?thesis using assms(1) unfolding without_def queued_def by metis
qed

lemma stream_other:
  assumes "cd_id (ch_local c) \<noteq> cid"
  shows "stream_of sid c (filter (\<lambda>p. \<not> for_channel cid p) ps) = stream_of sid c ps"
proof -
  have "in_stream sid c p \<Longrightarrow> \<not> for_channel cid p" for p
    using assms by (auto simp: in_stream_def matches_stream_def for_channel_def Let_def)
  then show ?thesis by (intro stream_disjoint [of "for_channel cid"]) auto
qed

lemma unlink_all: "all_channels (unlink a s) = removeAll a (all_channels s)"
proof -
  have "concat (map (removeAll a \<circ> ln_queue) ls) = removeAll a (concat (map ln_queue ls))" for ls
    by (induction ls) (simp_all add: removeAll_filter_not_eq)
  then show ?thesis by (simp add: unlink_def all_channels_def comp_def)
qed

text \<open>The invariant survives when a channel and its packets go together.\<close>

lemma release_inv:
  assumes inv: "brigade_inv s" and a: "a \<in> set (all_channels s)"
    and s': "all_channels s' = removeAll a (all_channels s)" "without (local_id s a) (packets s) (packets s')"
      "next_addr s' = next_addr s" "next_channel s' = next_channel s" "\<And>b. b \<noteq> a \<Longrightarrow> chan s' b = chan s b"
      "packAdd_state s' = packAdd_state s" "packAdd_x11open_state s' = packAdd_x11open_state s"
      "packAdd_authagent_state s' = packAdd_authagent_state s"
  shows "brigade_inv s'"
proof -
  have c: "chan_inv s" using inv by (simp add: brigade_inv_def)
  have id': "local_id s' b = local_id s b" if "b \<noteq> a" for b using s'(5) [OF that] by (simp add: local_id_def)
  have keep: "chan_ok s' b" if "chan_ok s b" "b \<noteq> a" "local_id s b \<noteq> local_id s a" for b
    using that id' [OF that(2)] s'(3-5) filter_other [OF s'(2) that(3)] by (simp add: chan_ok_def)
  have other: "local_id s b \<noteq> local_id s a" if "b \<in> set (all_channels s)" "b \<noteq> a" for b
    using c a that by (auto simp: chan_inv_def inj_on_def)
  have ok: "chan_ok s' b" if "b \<in> set (all_channels s')" for b
    using that c keep [of b] other [of b] s'(1) by (auto simp: chan_inv_def)
  moreover have "distinct (all_channels s')" using c s'(1) by (simp add: chan_inv_def distinct_removeAll)
  moreover have "inj_on (local_id s') (set (all_channels s'))"
    using c s'(1) id' by (auto simp: chan_inv_def inj_on_def)
  moreover have "\<forall>p \<in> set (packets s'). is_data p \<longrightarrow> u32_at (pk_data p) 1 < next_channel s'"
    using c s'(2,4) by (auto simp: chan_inv_def without_def)
  ultimately have c': "chan_inv s'" by (simp add: chan_inv_def)
  have "fresh b s \<Longrightarrow> fresh b s'" for b
    using a keep [of b] s'(1) id' by (cases "b = a") (auto simp: fresh_def image_iff)
  then show ?thesis
    using inv c' s'(6-8) by (auto simp: brigade_inv_def agent_pending_def)
qed

definition gone :: "session \<Rightarrow> addr \<Rightarrow> session \<Rightarrow> bool" where
  "gone s a s' \<longleftrightarrow> all_channels s' = removeAll a (all_channels s) \<and>
     packets s' = filter (\<lambda>p. \<not> for_channel (local_id s a) p) (packets s) \<and>
     (\<forall>b \<in> set (all_channels s'). \<forall>sid. channel_stream b sid s' = channel_stream b sid s)"


section \<open>Discarding\<close>

definition flushed :: "u32 \<Rightarrow> int \<Rightarrow> packet \<Rightarrow> bool" where
  "flushed cid sid p \<longleftrightarrow> for_channel cid p \<and>
     (sid = FLUSH_ALL \<or>
      (if hd (pk_data p) = MSG_CHANNEL_EXTENDED_DATA then sid = FLUSH_EXTENDED_DATA \<or> sid = sint (u32_at (pk_data p) 5) else sid = 0))"

definition numbered :: "packet \<Rightarrow> bool" where
  "numbered p \<longleftrightarrow> (hd (pk_data p) = MSG_CHANNEL_EXTENDED_DATA \<longrightarrow> 9 \<le> length (pk_data p))"

lemma flush_walk_result:
  "\<forall>p \<in> set ps. numbered p \<Longrightarrow> flush_walk cid sid ps =
     (True, filter (\<lambda>p. \<not> flushed cid sid p) ps,
      (\<Sum>p \<leftarrow> filter (flushed cid sid) ps. size_sub (length (pk_data p)) 13) mod 2 ^ 64,
      (\<Sum>p \<leftarrow> filter (flushed cid sid) ps. size_sub (length (pk_data p)) (pk_head p)) mod 2 ^ 64)"
proof (induction ps)
  case (Cons p ps)
  have ih: "flush_walk cid sid ps = (True, filter (\<lambda>p. \<not> flushed cid sid p) ps,
      (\<Sum>p \<leftarrow> filter (flushed cid sid) ps. size_sub (length (pk_data p)) 13) mod 2 ^ 64,
      (\<Sum>p \<leftarrow> filter (flushed cid sid) ps. size_sub (length (pk_data p)) (pk_head p)) mod 2 ^ 64)"
    by (rule Cons.IH) (use Cons.prems in simp)
  have short: "\<not> (hd (pk_data p) = MSG_CHANNEL_EXTENDED_DATA \<and> length (pk_data p) < 9)"
    using Cons.prems by (auto simp: numbered_def)
  have test: "(sid = FLUSH_ALL \<or>
      hd (pk_data p) = MSG_CHANNEL_EXTENDED_DATA \<and> (sid = FLUSH_EXTENDED_DATA \<or> sid = sint (u32_at (pk_data p) 5)) \<or>
      hd (pk_data p) \<noteq> MSG_CHANNEL_EXTENDED_DATA \<and> sid = 0) = flushed cid sid p" if "for_channel cid p"
    using that by (auto simp: flushed_def)
  have other: "\<not> flushed cid sid p" if "\<not> for_channel cid p" using that by (simp add: flushed_def)
  show ?case
  proof (cases "for_channel cid p")
    case True
    show ?thesis
      unfolding flush_walk.simps Let_def ih test [OF True]
      by (cases "flushed cid sid p")
         (simp_all only: short True if_False if_True filter.simps list.map sum_list.Cons prod.case simp_thms
           mod_add_left_eq mod_add_right_eq add.commute)
  next
    case False
    then show ?thesis
      unfolding flush_walk.simps Let_def ih
      by (simp only: other [OF False] if_False if_True filter.simps prod.case simp_thms)
  qed
qed simp

lemma word_mod64: "word_of_int (x mod 2 ^ 64) = (word_of_int x :: u32)"
proof -
  have "take_bit 32 (take_bit 64 x) = take_bit 32 x" by (simp only: take_bit_take_bit)
  then show ?thesis by (simp add: word_of_int_eq_iff take_bit_eq_mod)
qed

lemma word_mod64_nat: "word_of_nat (n mod 2 ^ 64) = (word_of_nat n :: u32)"
proof -
  have "word_of_int (int (n mod 2 ^ 64)) = (word_of_int (int n) :: u32)"
    by (simp only: zmod_int of_nat_power of_nat_numeral word_mod64)
  then show ?thesis by (simp only: of_int_of_nat_eq)
qed

lemma word_size_sub: "word_of_nat (size_sub n m) = (word_of_nat n - word_of_nat m :: u32)"
proof -
  have "word_of_nat (size_sub n m) = (word_of_int ((int n - int m) mod 2 ^ 64) :: u32)"
    by (simp add: size_sub_def)
  then show ?thesis by (simp only: word_mod64) simp
qed

lemma word_sum_sub:
  "(word_of_nat ((\<Sum>p \<leftarrow> ps. size_sub (f p) (g p)) mod 2 ^ 64) :: u32) = (\<Sum>p \<leftarrow> ps. word_of_nat (f p) - word_of_nat (g p))"
  unfolding word_mod64_nat by (induction ps) (simp_all add: word_size_sub)

lemma forced_adjust:
  assumes "adjust_state (chan s a) = NB_idle" "adjust_queue (chan s a) = 0" "fst (script_next (send_rc s)) \<ge> 0"
  shows "\<exists>s'. channel_receive_window_adjust a adj True s = (0, s') \<and> packets s' = packets s \<and>
    read_avail (chan s' a) = read_avail (chan s a) \<and>
    window_size (ch_remote (chan s' a)) = window_size (ch_remote (chan s a)) + adj"
  using assms
  by (cases "script_next (send_rc s)"; cases "adj = 0")
     (simp_all add: channel_receive_window_adjust_def transport_send_def upd_chan_def upd_remote_def Let_def)

text \<open>
  Discarding a stream removes exactly its packets and returns the bytes they still held; the receive window changes by
  the position of the read pointer of each packet less 13, the header of \<^emph>\<open>extended\<close> data.  So each packet of plain
  data that was not yet read, whose header has 9 bytes, costs the window 4 bytes for good.
\<close>

theorem channel_flush_accounts:
  assumes "flush_state (chan s a) = NB_idle" "adjust_state (chan s a) = NB_idle" "adjust_queue (chan s a) = 0"
    "fst (script_next (send_rc s)) \<ge> 0" "\<forall>p \<in> set (packets s). numbered p"
    "discarded = filter (flushed (local_id s a) sid) (packets s)"
    "n = (\<Sum>p \<leftarrow> discarded. size_sub (length (pk_data p)) (pk_head p)) mod 2 ^ 64"
  shows "\<exists>s'. channel_flush a sid s = (sint (word_of_nat n :: u32), s') \<and>
    packets s' = filter (\<lambda>p. \<not> flushed (local_id s a) sid p) (packets s) \<and>
    read_avail (chan s' a) = size_sub (read_avail (chan s a)) n \<and>
    window_size (ch_remote (chan s' a)) = window_size (ch_remote (chan s a)) + (\<Sum>p \<leftarrow> discarded. word_of_nat (pk_head p) - 13)"
proof -
  define r where "r = (\<Sum>p \<leftarrow> discarded. size_sub (length (pk_data p)) 13) mod 2 ^ 64"
  define t where "t = upd_chan a (flush_state_update (\<lambda>_. NB_created))
    (upd_chan a (\<lambda>c. c\<lparr>flush_refund_bytes := r, flush_flush_bytes := n\<rparr>)
      (s\<lparr>packets := filter (\<lambda>p. \<not> flushed (local_id s a) sid p) (packets s)\<rparr>))"
  define u where "u = upd_chan a (\<lambda>c. (upd_remote (window_size_update (\<lambda>w. w - word_of_nat n)) c)
      \<lparr>read_avail := size_sub (read_avail c) n\<rparr>) t"
  have "channel_flush a sid s = flush_finish a t"
    using assms(1) flush_walk_result [OF assms(5), of "local_id s a" sid]
    by (simp add: channel_flush_def local_id_def t_def r_def assms(6,7))
  moreover have "flush_finish a t =
      (let (rc, s2) = (if r \<noteq> 0 then channel_receive_window_adjust a (word_of_nat r) True u else (0, u)) in
       if rc = E_EAGAIN then (rc, s2) else (sint (word_of_nat n :: u32), upd_chan a (flush_state_update (\<lambda>_. NB_idle)) s2))"
    by (simp add: flush_finish_def t_def u_def upd_chan_def upd_remote_def Let_def)
  moreover have idle: "adjust_state (chan u a) = NB_idle" "adjust_queue (chan u a) = 0" "fst (script_next (send_rc u)) \<ge> 0"
    using assms(2-4) by (simp_all add: u_def t_def upd_chan_def upd_remote_def)
  have "\<exists>v. (if r \<noteq> 0 then channel_receive_window_adjust a (word_of_nat r) True u else (0, u)) = (0, v) \<and>
      packets v = packets u \<and> read_avail (chan v a) = read_avail (chan u a) \<and>
      window_size (ch_remote (chan v a)) = window_size (ch_remote (chan u a)) + word_of_nat r"
    using forced_adjust [OF idle] by (cases "r = 0") auto
  moreover have "packets u = filter (\<lambda>p. \<not> flushed (local_id s a) sid p) (packets s)"
      "read_avail (chan u a) = size_sub (read_avail (chan s a)) n"
      "window_size (ch_remote (chan u a)) = window_size (ch_remote (chan s a)) - word_of_nat n"
    by (simp_all add: u_def t_def upd_chan_def upd_remote_def)
  moreover have "word_of_nat r - word_of_nat n = (\<Sum>p \<leftarrow> discarded. word_of_nat (pk_head p) - 13 :: u32)"
    unfolding r_def assms(7) word_sum_sub by (induction discarded) (simp_all add: algebra_simps)
  ultimately show ?thesis by (fastforce simp: upd_chan_def algebra_simps)
qed

section \<open>Closing\<close>

text \<open>
  The wait for the peer's CLOSE ends with the first packet of any kind: when both messages have been sent and a packet
  arrives, closing returns success and marks the channel closed, whether or not that packet was the peer's CLOSE;
  the input behind it is not read.
\<close>

theorem channel_close_reads_one_packet:
  assumes "close_state (chan s a) = NB_sent" "cd_eof (ch_local (chan s a))" "\<not> cd_close (ch_local (chan s a))"
    "\<not> cd_close (ch_remote (chan s a))" "socket_state s \<noteq> SOCKET_DISCONNECTED" "transport_read s = Some (rc, s1)" "0 < rc"
  shows "\<exists>s'. channel_close a s = Some (0, s') \<and> cd_close (ch_local (chan s' a)) \<and> inbox s' = inbox s1 \<and>
    cd_close (ch_remote (chan s' a)) = cd_close (ch_remote (chan s1 a)) \<and> close_state (chan s' a) = NB_idle"
proof -
  have "close_send a 0 s = Inr (0, s)" using assms(1) by (simp add: close_send_def)
  moreover have "close_wait a 0 s = Some (rc, s1)"
    using assms(4-7) by (subst close_wait.simps) simp
  ultimately have "channel_close a s = Some (close_finish a rc s1)"
    using assms(1-3) by (simp add: channel_close_def Let_def)
  then show ?thesis
    using assms(7) by (simp add: close_finish_def upd_chan_def upd_local_def Let_def)
qed

text \<open>The peer still sends data, and its CLOSE follows.\<close>

definition sample_closing :: session where
  "sample_closing = sample_session\<lparr>chan := (\<lambda>_. sample_channel\<lparr>ch_local := empty_data\<lparr>cd_id := 3, cd_eof := True\<rparr>, close_state := NB_sent\<rparr>),
     inbox := [In_packet MSG_CHANNEL_DATA (tl (sample_data [1])) True 0, In_packet MSG_CHANNEL_CLOSE (htonu32 3) True 1]\<rparr>"

lemma channel_close_reads_one_packet_witness:
  "\<exists>s'. channel_close 0 sample_closing = Some (0, s') \<and> cd_close (ch_local (chan s' 0)) \<and>
     \<not> cd_close (ch_remote (chan s' 0)) \<and> length (inbox s') = 1"
proof -
  have "case transport_read sample_closing of None \<Rightarrow> False
     | Some (rc, s1) \<Rightarrow> rc = 94 \<and> length (inbox s1) = 1 \<and> \<not> cd_close (ch_remote (chan s1 0))"
    by code_simp
  then obtain s1 where s1: "transport_read sample_closing = Some (94, s1)" "length (inbox s1) = 1"
      "\<not> cd_close (ch_remote (chan s1 0))"
    by (auto split: option.splits)
  have "close_state (chan sample_closing 0) = NB_sent" "cd_eof (ch_local (chan sample_closing 0))"
      "\<not> cd_close (ch_local (chan sample_closing 0))" "\<not> cd_close (ch_remote (chan sample_closing 0))"
      "socket_state sample_closing \<noteq> SOCKET_DISCONNECTED"
    by (simp_all add: sample_closing_def sample_session_def sample_channel_def zero_channel_def empty_data_def)
  from channel_close_reads_one_packet [OF this s1(1)] show ?thesis using s1 by auto
qed


lemma channel_flush_accounts_witness:
  "\<exists>s'. channel_flush 0 0 (sample_session\<lparr>packets := [\<lparr>pk_data = sample_data [1, 2, 3], pk_head = 9\<rparr>]\<rparr>) = (3, s') \<and>
     packets s' = [] \<and> window_size (ch_remote (chan s' 0)) = 2"
proof -
  let ?p = "\<lparr>pk_data = sample_data [1, 2, 3], pk_head = 9\<rparr>"
  let ?s = "sample_session\<lparr>packets := [?p]\<rparr>"
  have p: "hd (sample_data [1, 2, 3]) = MSG_CHANNEL_DATA" "length (sample_data [1, 2, 3]) = 12"
      "u32_at (sample_data [1, 2, 3]) (Suc 0) = 3"
    by (simp_all add: sample_data_def wire_string_def u32_at_def)
  have discarded: "filter (flushed (local_id ?s 0) 0) (packets ?s) = [?p]"
    by (simp add: p flushed_def for_channel_def local_id_def sample_session_def sample_channel_def zero_channel_def empty_data_def)
  then have kept: "filter (\<lambda>p. \<not> flushed (local_id ?s 0) 0 p) (packets ?s) = []" by (simp split: if_splits)
  have n: "3 = (\<Sum>p \<leftarrow> [?p]. size_sub (length (pk_data p)) (pk_head p)) mod 2 ^ 64" by (simp add: p)
  have idle: "flush_state (chan ?s 0) = NB_idle" "adjust_state (chan ?s 0) = NB_idle" "adjust_queue (chan ?s 0) = 0"
      "fst (script_next (send_rc ?s)) \<ge> 0" "\<forall>p \<in> set (packets ?s). numbered p" "window_size (ch_remote (chan ?s 0)) = 6"
    by (simp_all add: p numbered_def sample_session_def sample_channel_def zero_channel_def empty_data_def)
  from channel_flush_accounts [OF idle(1-5) discarded [symmetric] n]
  show ?thesis using kept idle(6) by auto
qed

end
