(* ===== verification/Channel_Open.thy ===== *)
theory Channel_Open
  imports Channel_Safety
begin

text \<open>
  Opening channels, \<^verbatim>\<open>libssh2/src/channel.c\<close>: \<open>_libssh2_channel_open\<close> and the calls built on it, and the listeners for
  forwarded connections.  A call that would block leaves its progress in \<open>calls\<close> and is made again with the same
  arguments.  Strings are shorter than \<open>2 ^ 32 - 17\<close> bytes, so that the lengths of packets do not wrap.
\<close>

abbreviation OPEN_UNKNOWN_CHANNELTYPE :: u32 where "OPEN_UNKNOWN_CHANNELTYPE \<equiv> 3"
abbreviation MSG_REQUEST_SUCCESS :: byte where "MSG_REQUEST_SUCCESS \<equiv> 81"

definition upd_calls :: "(calls \<Rightarrow> calls) \<Rightarrow> session \<Rightarrow> session" where
  "upd_calls f s = s\<lparr>calls := f (calls s)\<rparr>"

section \<open>Opening a channel\<close>

text \<open>The exit \<open>channel_error\<close>: what was built is released, the packets for the channel included.\<close>

definition open_error :: "session \<Rightarrow> session" where
  "open_error s =
     upd_calls (\<lambda>c. c\<lparr>open_state := NB_idle, open_channel := None, open_packet := []\<rparr>)
       (case open_channel (calls s) of
          None \<Rightarrow> s
        | Some a \<Rightarrow> clear_packets (local_id s a) (unlink a s))"

text \<open>The three steps: \<open>Inl\<close> returns a null pointer, \<open>Inr\<close> goes on.\<close>

definition open_start :: "bytes \<Rightarrow> u32 \<Rightarrow> u32 \<Rightarrow> session \<Rightarrow> session + session" where
  "open_start ctype win pkt s =
     (let (cid, s1) = channel_nextid (upd_calls (\<lambda>c. c\<lparr>open_channel := None, open_packet := []\<rparr>) s);
          (ok, s2) = alloc (upd_calls (\<lambda>c. c\<lparr>open_local_channel := cid\<rparr>) s1) in
      if \<not> ok then Inl (serr E_ALLOC ''Unable to allocate space for channel data'' s2)
      else
        let (ok, s3) = alloc s2 in
        if \<not> ok then Inl (serr E_ALLOC ''Failed allocating memory for channel type name'' s3)
        else
          let a = next_addr s3;
              ch = zero_channel\<lparr>channel_type := ctype, ch_local := empty_data\<lparr>cd_id := cid\<rparr>,
                     ch_remote := empty_data\<lparr>window_size_initial := win, window_size := win, packet_size := pkt\<rparr>\<rparr>;
              (ok, s4) = alloc (upd_calls (\<lambda>c. c\<lparr>open_channel := Some a\<rparr>)
                (s3\<lparr>chan := (chan s3)(a := ch), next_addr := Suc a, channels := channels s3 @ [a]\<rparr>)) in
          if \<not> ok then Inl (open_error (serr E_ALLOC ''Unable to allocate temporary space for packet'' s4))
          else
            Inr (upd_calls (\<lambda>c. c\<lparr>open_packet := [MSG_CHANNEL_OPEN] @ wire_string ctype @ htonu32 cid @ htonu32 win @ htonu32 pkt,
              open_state := NB_created\<rparr>) s4))"

definition open_send :: "bytes \<Rightarrow> session \<Rightarrow> session + session" where
  "open_send message s =
     (let (rc, s1) = transport_send (open_packet (calls s) @ message) s in
      if rc = E_EAGAIN then Inl (serr rc ''Would block sending channel-open request'' s1)
      else if rc \<noteq> 0 then Inl (open_error (serr rc ''Unable to send channel-open request'' s1))
      else Inr (upd_calls (open_state_update (\<lambda>_. NB_sent)) s1))"

definition open_failure :: "u32 \<Rightarrow> string" where
  "open_failure reason =
     (if reason = OPEN_ADMINISTRATIVELY_PROHIBITED then ''Channel open failure (administratively prohibited)''
      else if reason = OPEN_CONNECT_FAILED then ''Channel open failure (connect failed)''
      else if reason = OPEN_UNKNOWN_CHANNELTYPE then ''Channel open failure (unknown channel type)''
      else if reason = OPEN_RESOURCE_SHORTAGE then ''Channel open failure (resource shortage)''
      else ''Channel open failure'')"

text \<open>
  The reply is looked for by the channel number, which is read back out of the packet that was sent.  A refusal shorter than
  its reason is read outside the packet.
\<close>

definition open_confirmed :: "bytes \<Rightarrow> channel \<Rightarrow> channel" where
  "open_confirmed data c =
     upd_local (\<lambda>d. d\<lparr>window_size := u32_at data 9, window_size_initial := u32_at data 9, packet_size := u32_at data 13\<rparr>)
       (upd_remote (cd_id_update (\<lambda>_. u32_at data 5)) c)"

definition open_reply :: "nat \<Rightarrow> session \<Rightarrow> (addr option \<times> session) option" where
  "open_reply type_len s =
     (if length (open_packet (calls s)) < type_len + 9 then None
      else case packet_requirev [MSG_CHANNEL_OPEN_CONFIRMATION, MSG_CHANNEL_OPEN_FAILURE] 1
             (Some (take 4 (drop (type_len + 5) (open_packet (calls s))))) 4 s of
        None \<Rightarrow> None
      | Some ((rc, d), s1) \<Rightarrow>
          if rc = E_EAGAIN then Some (None, serr E_EAGAIN ''Would block'' s1)
          else if rc \<noteq> 0 then Some (None, open_error (serr rc ''Unexpected error'' s1))
          else
            let data = the d in
            if data = [] then Some (None, open_error (serr E_PROTO ''Unexpected packet size'' s1))
            else if hd data = MSG_CHANNEL_OPEN_CONFIRMATION then
              if length data < 17 then Some (None, open_error (serr E_PROTO ''Unexpected packet size'' s1))
              else
                case open_channel (calls s1) of
                  None \<Rightarrow> None
                | Some a \<Rightarrow>
                    Some (Some a, upd_calls (\<lambda>c. c\<lparr>open_packet := [], open_state := NB_idle\<rparr>) (upd_chan a (open_confirmed data) s1))
            else if hd data = MSG_CHANNEL_OPEN_FAILURE then
              if length data < 9 then None
              else Some (None, open_error (serr E_CHANNEL_FAILURE (open_failure (u32_at data 5)) s1))
            else Some (None, open_error s1))"

definition channel_open :: "bytes \<Rightarrow> u32 \<Rightarrow> u32 \<Rightarrow> bytes \<Rightarrow> session \<Rightarrow> (addr option \<times> session) option" where
  "channel_open ctype win pkt message s =
     (case (if open_state (calls s) = NB_idle then open_start ctype win pkt s else Inr s) of
        Inl s1 \<Rightarrow> Some (None, s1)
      | Inr s1 \<Rightarrow>
          (case (if open_state (calls s1) = NB_created then open_send message s1 else Inr s1) of
             Inl s2 \<Rightarrow> Some (None, s2)
           | Inr s2 \<Rightarrow>
               if open_state (calls s2) = NB_sent then open_reply (length ctype) s2 else Some (None, open_error s2)))"

text \<open>The two kinds of direct connections differ in the message; \<open>direct_open\<close> is what they have in common.\<close>

definition direct_open :: "bytes \<Rightarrow> bytes \<Rightarrow> string \<Rightarrow> session \<Rightarrow> (addr option \<times> session) option" where
  "direct_open ctype message oom s =
     (case (if direct_state (calls s) = NB_idle then
              let (ok, s1) = alloc s in
              if \<not> ok then Inl (serr E_ALLOC oom s1) else Inr (upd_calls (direct_message_update (\<lambda>_. message)) s1)
            else Inr s) of
        Inl s1 \<Rightarrow> Some (None, s1)
      | Inr s1 \<Rightarrow>
          map_option (\<lambda>(r, s2).
              if r = None \<and> err_code s2 = E_EAGAIN then (None, upd_calls (direct_state_update (\<lambda>_. NB_created)) s2)
              else (r, upd_calls (\<lambda>c. c\<lparr>direct_state := NB_idle, direct_message := []\<rparr>) s2))
            (channel_open ctype CHANNEL_WINDOW_DEFAULT CHANNEL_PACKET_DEFAULT (direct_message (calls s1)) s1))"

definition channel_direct_tcpip :: "bytes \<Rightarrow> int \<Rightarrow> bytes \<Rightarrow> int \<Rightarrow> session \<Rightarrow> (addr option \<times> session) option" where
  "channel_direct_tcpip host port shost sport =
     direct_open (str ''direct-tcpip'')
       (wire_string host @ htonu32 (word_of_int port) @ wire_string shost @ htonu32 (word_of_int sport))
       ''Unable to allocate memory for direct-tcpip connection''"

definition channel_direct_streamlocal :: "bytes \<Rightarrow> bytes \<Rightarrow> int \<Rightarrow> session \<Rightarrow> (addr option \<times> session) option" where
  "channel_direct_streamlocal socket_path shost sport =
     direct_open (str ''direct-streamlocal@openssh.com'')
       (wire_string socket_path @ wire_string shost @ htonu32 (word_of_int sport))
       ''Unable to allocate memory for direct-streamlocal connection''"

section \<open>Listening\<close>

definition listen_start :: "bytes \<Rightarrow> int \<Rightarrow> session \<Rightarrow> session + session" where
  "listen_start host port s =
     (let (ok, s1) = alloc (upd_calls (fwdLstn_host_len_update (\<lambda>_. length host)) s) in
      if \<not> ok then Inl (serr E_ALLOC ''Unable to allocate memory for setenv packet'' s1)
      else
        Inr (upd_calls (\<lambda>c. c\<lparr>fwdLstn_packet := [MSG_GLOBAL_REQUEST] @ wire_string (str ''tcpip-forward'') @ [1] @ wire_string host @
            htonu32 (word_of_int port), fwdLstn_state := NB_created\<rparr>) s1))"

definition listen_send :: "session \<Rightarrow> session + session" where
  "listen_send s =
     (let (rc, s1) = transport_send (fwdLstn_packet (calls s)) s in
      if rc = E_EAGAIN then
        Inl (serr E_EAGAIN ''Would block sending global-request packet for forward listen request'' s1)
      else if rc \<noteq> 0 then
        Inl (upd_calls (\<lambda>c. c\<lparr>fwdLstn_packet := [], fwdLstn_state := NB_idle\<rparr>)
          (serr E_SOCKET_SEND ''Unable to send global-request packet for forward listen request'' s1))
      else Inr (upd_calls (\<lambda>c. c\<lparr>fwdLstn_packet := [], fwdLstn_state := NB_sent\<rparr>) s1))"

definition listen_create :: "bytes \<Rightarrow> int \<Rightarrow> int \<Rightarrow> bytes \<Rightarrow> session \<Rightarrow> nat option \<times> session" where
  "listen_create host port maxsize data s =
     (let (ok, s1) = alloc s in
      if \<not> ok then (None, serr E_ALLOC ''Unable to allocate memory for listener queue'' s1)
      else
        let (ok, s2) = alloc s1 in
        if \<not> ok then (None, serr E_ALLOC ''Unable to allocate memory for listener queue'' s2)
        else
          (Some (length (listeners s2)),
           s2\<lparr>listeners := listeners s2 @
             [\<lparr>ln_host = take (fwdLstn_host_len (calls s2)) host,
               ln_port = (if length data \<ge> 5 \<and> port = 0 then sint (u32_at data 1) else port),
               queue_size = 0, queue_maxsize = maxsize, ln_queue = [], chanFwdCncl_state = NB_idle, chanFwdCncl_data = []\<rparr>]\<rparr>))"

definition listen_reply :: "bytes \<Rightarrow> int \<Rightarrow> int \<Rightarrow> session \<Rightarrow> (nat option \<times> session) option" where
  "listen_reply host port maxsize s =
     (let idle = upd_calls (fwdLstn_state_update (\<lambda>_. NB_idle)) in
      case packet_requirev [MSG_REQUEST_SUCCESS, MSG_REQUEST_FAILURE] 0 None 0 s of
        None \<Rightarrow> None
      | Some ((rc, d), s1) \<Rightarrow>
          if rc = E_EAGAIN then Some (None, serr E_EAGAIN ''Would block'' s1)
          else if rc \<noteq> 0 \<or> the d = [] then Some (None, idle (serr E_PROTO ''Unknown'' s1))
          else if hd (the d) = MSG_REQUEST_SUCCESS then
            Some (apsnd idle (listen_create host port maxsize (the d) s1))
          else if hd (the d) = MSG_REQUEST_FAILURE then
            Some (None, idle (serr E_REQUEST_DENIED ''Unable to complete request for forward-listen'' s1))
          else Some (None, idle s1))"

text \<open>The listener that was created is the last one; its port is what \<open>bound_port\<close> receives.\<close>

definition channel_forward_listen :: "bytes option \<Rightarrow> int \<Rightarrow> int \<Rightarrow> session \<Rightarrow> (nat option \<times> session) option" where
  "channel_forward_listen host0 port maxsize s =
     (let host = (case host0 of None \<Rightarrow> str ''0.0.0.0'' | Some h \<Rightarrow> h) in
      case (if fwdLstn_state (calls s) = NB_idle then listen_start host port s else Inr s) of
        Inl s1 \<Rightarrow> Some (None, s1)
      | Inr s1 \<Rightarrow>
          (case (if fwdLstn_state (calls s1) = NB_created then listen_send s1 else Inr s1) of
             Inl s2 \<Rightarrow> Some (None, s2)
           | Inr s2 \<Rightarrow>
               if fwdLstn_state (calls s2) = NB_sent then listen_reply host port maxsize s2
               else Some (None, upd_calls (fwdLstn_state_update (\<lambda>_. NB_idle)) s2)))"

text \<open>The listener is the \<open>i\<close>-th; the channel moves from the front of its queue to the end of the session's list.\<close>

definition channel_forward_accept :: "nat \<Rightarrow> session \<Rightarrow> (addr option \<times> session) option" where
  "channel_forward_accept i s =
     (case drain s of
        None \<Rightarrow> None
      | Some (rc, s1) \<Rightarrow>
          if length (listeners s1) \<le> i then None
          else
            let l = listeners s1 ! i in
            (case ln_queue l of
               a # q \<Rightarrow>
                 Some (Some a, s1\<lparr>listeners := (listeners s1)[i := l\<lparr>ln_queue := q, queue_size := queue_size l - 1\<rparr>],
                   channels := channels s1 @ [a]\<rparr>)
             | [] \<Rightarrow>
                 Some (None,
                   if rc = E_EAGAIN then serr E_EAGAIN ''Would block waiting for packet'' s1
                   else serr E_CHANNEL_UNKNOWN ''Channel not found'' s1)))"

end
