(* ===== verification/Channel_Open_Inv.thy ===== *)
theory Channel_Open_Inv
  imports Channel_Open
begin

text \<open>
  Opening a channel keeps the accounts of the others: the channel that is being opened is linked while the call is under
  way, a failed call leaves no trace of it, and waiting for the reply does not disturb the call's progress.
\<close>

section \<open>Searching and waiting\<close>

text \<open>Everything about channels and pending calls except the brigade.\<close>

definition quiet :: "session \<Rightarrow> session \<Rightarrow> bool" where
  "quiet s t \<longleftrightarrow> conn (t\<lparr>packets := packets s\<rparr>) = conn s \<and> packAdd_state t = packAdd_state s \<and>
     packAdd_x11open_state t = packAdd_x11open_state s \<and> packAdd_authagent_state t = packAdd_authagent_state s \<and>
     calls t = calls s \<and> pending t = pending s"

lemma quiet_refl [simp]: "quiet s s"
  by (simp add: quiet_def)

lemma quiet_trans: "quiet s t \<Longrightarrow> quiet t u \<Longrightarrow> quiet s u"
  by (simp add: quiet_def conn_eq_iff)

lemma quiet_all: "quiet s t \<Longrightarrow> all_channels t = all_channels s \<and> local_id t = local_id s"
  by (simp add: quiet_def conn_eq_iff all_channels_def local_id_def fun_eq_iff)

lemma disconnect_quiet: "quiet s (libssh2_session_disconnect m s)"
proof -
  have "calls (libssh2_session_disconnect m s) = calls s" "pending (libssh2_session_disconnect m s) = pending s"
    using io_disconnect [of m s] by (auto simp: io_def pending_def)
  then show ?thesis
    using conn_disconnect [of m s]
    by (simp add: quiet_def conn_eq_iff)
      (simp add: libssh2_session_disconnect_def session_disconnect_ex_def session_disconnect_def transport_send_def
        serr_def libssh2_error_def libssh2_error_flags_def split_beta Let_def)
qed

lemma serr_quiet: "quiet s (serr c m s)"
  by (simp add: quiet_def conn_def pending_def serr_def libssh2_error_def libssh2_error_flags_def)

lemma serr_code [simp]: "err_code (serr c m s) = c"
  by (simp add: serr_def libssh2_error_def libssh2_error_flags_def)

lemma ask_quiet:
  assumes "packet_ask t ofs m n s = ((rc, d), s')"
  shows "quiet s s'"
    and "packets s' = packets s \<or> (\<exists>xs p ys. packets s = xs @ p # ys \<and> packets s' = xs @ ys \<and> pk_matches t ofs m n p)"
    and "err_code s' = err_code s \<or> err_code s' = E_SOCKET_DISCONNECT"
proof -
  have loop: "\<exists>xs ys. ps = xs @ p # ys \<and> qs = xs @ ys \<and> pk_matches t ofs m n p"
    if "ask_loop t ofs m n strict ps = Inl (Some (p, qs))" for strict ps p qs
    using that
  proof (induction ps arbitrary: qs)
    case (Cons x ps)
    show ?case
    proof (cases "pk_matches t ofs m n x")
      case True
      then have "p = x" "qs = ps" using Cons.prems by simp_all
      then show ?thesis using True by (metis append_Nil)
    next
      case False
      then obtain rs where rs: "ask_loop t ofs m n strict ps = Inl (Some (p, rs))" "qs = x # rs"
        using Cons.prems by (auto split: if_splits sum.splits option.splits)
      from Cons.IH [OF this(1)] obtain xs ys where "ps = xs @ p # ys" "rs = xs @ ys" "pk_matches t ofs m n p" by blast
      then show ?thesis using rs(2) by (metis append_Cons)
    qed
  qed simp
  let ?r = "ask_loop t ofs m n (kex_strict s \<and> sflags s AND STATE_INITIAL_KEX \<noteq> 0) (packets s)"
  consider p qs where "?r = Inl (Some (p, qs))" | "?r = Inl None" | "?r = Inr ()"
  proof (cases ?r)
    case (Inl x)
    then show thesis using that(1,2) by (cases x) auto
  qed (use that(3) in auto)
  then have "quiet s s' \<and>
    (packets s' = packets s \<or> (\<exists>xs p ys. packets s = xs @ p # ys \<and> packets s' = xs @ ys \<and> pk_matches t ofs m n p)) \<and>
    (err_code s' = err_code s \<or> err_code s' = E_SOCKET_DISCONNECT)"
  proof cases
    case 1
    then have "s' = s\<lparr>packets := qs\<rparr>" using assms by (simp add: packet_ask_def)
    then show ?thesis using loop [OF 1] by (auto simp: quiet_def conn_def pending_def)
  next
    case 2
    then show ?thesis using assms by (simp add: packet_ask_def)
  next
    case 3
    let ?m = "''strict KEX violation: unexpected packet type''"
    have s': "s' = serr E_SOCKET_DISCONNECT ?m (libssh2_session_disconnect ?m s)"
      using 3 assms by (simp add: packet_ask_def split: unit.splits)
    have "quiet s s'" using quiet_trans [OF disconnect_quiet serr_quiet] s' by blast
    moreover have "packets s' = packets s"
      using s' conn_disconnect [of ?m s] conn_serr [of E_SOCKET_DISCONNECT ?m "libssh2_session_disconnect ?m s"]
      by (simp only: conn_eq_iff)
    ultimately show ?thesis using s' by simp
  qed
  then show "quiet s s'"
    "packets s' = packets s \<or> (\<exists>xs p ys. packets s = xs @ p # ys \<and> packets s' = xs @ ys \<and> pk_matches t ofs m n p)"
    "err_code s' = err_code s \<or> err_code s' = E_SOCKET_DISCONNECT"
    by blast+
qed

text \<open>Taking the packets of a channel out of the brigade, also in a strict initial exchange.\<close>

lemma without_ask:
  assumes "packet_ask t 1 (Some (htonu32 cid)) 4 s = ((rc, d), s')" "t = MSG_CHANNEL_DATA \<or> t = MSG_CHANNEL_EXTENDED_DATA"
  shows "without cid (packets s) (packets s')"
  using ask_quiet(2) [OF assms(1)] assms(2) for_channel_iff by (fastforce simp: without_def)

lemma without_trans: "without cid ps qs \<Longrightarrow> without cid qs rs \<Longrightarrow> without cid ps rs"
  by (auto simp: without_def)

lemma clear_quiet:
  "quiet s (clear_packets cid s) \<and> without cid (packets s) (packets (clear_packets cid s)) \<and>
   (err_code (clear_packets cid s) = err_code s \<or> err_code (clear_packets cid s) = E_SOCKET_DISCONNECT)"
proof (induction cid s rule: clear_packets.induct)
  case (1 cid s)
  obtain c d t where r: "packet_ask MSG_CHANNEL_DATA 1 (Some (htonu32 cid)) 4 s = ((c, d), t)" by (metis surj_pair)
  obtain c2 d2 u where q: "packet_ask MSG_CHANNEL_EXTENDED_DATA 1 (Some (htonu32 cid)) 4 t = ((c2, d2), u)" by (metis surj_pair)
  note eq = clear_packets.simps [of cid s, unfolded r Let_def fst_conv snd_conv q]
  note step1 = ask_quiet(1,3) [OF r] without_ask [OF r]
  note step2 = ask_quiet(1,3) [OF q] without_ask [OF q]
  show ?case
  proof (cases "c \<ge> 0")
    case True
    then show ?thesis
      using 1(1) [OF refl] r eq step1 quiet_trans [of s t] without_trans [of cid "packets s" "packets t"] by auto
  next
    case False
    have su: "quiet s u" "without cid (packets s) (packets u)" "err_code u = err_code s \<or> err_code u = E_SOCKET_DISCONNECT"
      using step1 step2 quiet_trans [of s t u] without_trans [of cid "packets s" "packets t" "packets u"] by auto
    show ?thesis
    proof (cases "c2 \<ge> 0")
      case True
      have "quiet u (clear_packets cid u) \<and> without cid (packets u) (packets (clear_packets cid u)) \<and>
          (err_code (clear_packets cid u) = err_code u \<or> err_code (clear_packets cid u) = E_SOCKET_DISCONNECT)"
        using 1(2) [OF refl _ refl] r False q True by simp
      then show ?thesis
        using su True False eq quiet_trans [of s u] without_trans [of cid "packets s" "packets u"] by auto
    next
      case none: False
      then show ?thesis using su eq False by simp
    qed
  qed
qed

text \<open>Changes to the brigade that leave every channel's data alone.\<close>

lemma quiet_inv:
  assumes inv: "brigade_inv s" and q: "quiet s t"
    and p: "\<And>b. queued b (packets t) = queued b (packets s)" "set (packets t) \<subseteq> set (packets s)"
  shows "brigade_inv t \<and> grows 0 s t"
proof -
  have same: "channels t = channels s" "chan t = chan s" "next_addr t = next_addr s" "next_channel t = next_channel s"
      "listeners t = listeners s"
    using q by (simp_all add: quiet_def conn_eq_iff)
  have ok: "chan_ok t b = chan_ok s b" for b by (simp add: chan_ok_def local_id_def same p(1))
  have ids: "local_id t = local_id s" "all_channels t = all_channels s" using quiet_all [OF q] by auto
  have "chan_inv t"
    using inv p(2) by (auto simp: brigade_inv_def chan_inv_def ids ok same)
  moreover have "fresh b t = fresh b s" for b by (simp add: fresh_def ids ok)
  ultimately have "brigade_inv t"
    using inv q by (auto simp: brigade_inv_def agent_pending_def quiet_def)
  then show ?thesis by (simp add: grows_def ident_def local_id_def all_channels_def same)
qed

lemma ask_inv:
  assumes "packet_ask t ofs m n s = ((rc, d), s')" "brigade_inv s" "t \<noteq> MSG_CHANNEL_DATA" "t \<noteq> MSG_CHANNEL_EXTENDED_DATA"
  shows "brigade_inv s' \<and> grows 0 s s' \<and> quiet s s'"
proof -
  have "(\<forall>b. queued b (packets s') = queued b (packets s)) \<and> set (packets s') \<subseteq> set (packets s)"
    using ask_quiet(2) [OF assms(1)] assms(3,4)
    by (auto simp: queued_Cons pk_matches_def data_for_def is_data_def)
  then show ?thesis using quiet_inv [OF assms(2) ask_quiet(1) [OF assms(1)]] ask_quiet(1) [OF assms(1)] by blast
qed

definition no_data :: "bytes \<Rightarrow> bool" where
  "no_data types \<longleftrightarrow> MSG_CHANNEL_DATA \<notin> set types \<and> MSG_CHANNEL_EXTENDED_DATA \<notin> set types"

lemma askv_inv:
  assumes "packet_askv types ofs m n s = ((rc, d), s')" "brigade_inv s" "no_data types"
  shows "brigade_inv s' \<and> grows 0 s s' \<and> quiet s s'"
  using assms
proof (induction types arbitrary: s)
  case Nil
  then show ?case by (auto simp: grows_def)
next
  case (Cons t ts)
  obtain c e u where a: "packet_ask t ofs m n s = ((c, e), u)" by (metis surj_pair)
  have u: "brigade_inv u" "grows 0 s u" "quiet s u"
    using ask_inv [OF a Cons.prems(2)] Cons.prems(3) by (auto simp: no_data_def)
  show ?case
  proof (cases "c = 0")
    case True
    then show ?thesis using Cons.prems(1) a u by simp
  next
    case False
    then have "packet_askv ts ofs m n u = ((rc, d), s')" using Cons.prems(1) a by simp
    from Cons.IH [OF this u(1)] Cons.prems(3) have "brigade_inv s' \<and> grows 0 u s' \<and> quiet u s'" by (simp add: no_data_def)
    then show ?thesis using u grows_trans0(1) [OF u(2)] quiet_trans [OF u(3)] by blast
  qed
qed

lemma timed_out_quiet: "quiet s (snd (timed_out s)) \<and> packets (snd (timed_out s)) = packets s"
  by (simp add: timed_out_def quiet_def conn_def pending_def split: list.split)

lemma reader_next: "reader_inv s \<Longrightarrow> next_channel s \<noteq> - 1"
  by (auto simp: reader_inv_def unsigned_minus_1_eq_mask mask_eq_exp_minus_1)

text \<open>The wait for a reply: the accounts are kept, channels only grow, pending calls are not touched.\<close>

definition waited :: "session \<Rightarrow> session \<Rightarrow> bool" where
  "waited s s' \<longleftrightarrow> brigade_inv s' \<and> (\<exists>k. grows k s s') \<and> calls s' = calls s"

lemma requirev_loop_inv:
  assumes "requirev_loop types ofs m n s = Some ((rc, d), s')" "reader_inv s" "no_data types" "rc \<noteq> E_ALLOC"
  shows "waited s s'"
  using assms
proof (induction types ofs m n s rule: requirev_loop.induct)
  case (1 types ofs m n s)
  have inv: "brigade_inv s" "packAdd_state s \<in> entry_states" using "1.prems"(2) by (auto simp: reader_inv_def)
  note step = "1.prems"(1) [unfolded requirev_loop.simps [of types ofs m n s]]
  show ?case
  proof (cases "socket_state s = SOCKET_DISCONNECTED")
    case True
    then have "s' = s" using step by simp
    then show ?thesis using inv by (auto simp: waited_def grows_def)
  next
    case False
    then obtain ret s1 where r: "transport_read s = Some (ret, s1)" using step by (auto split: option.splits)
    let ?t = "snd (timed_out s1)"
    have cases': "ret \<noteq> E_ALLOC" using step False r "1.prems"(4) by (cases "ret = E_ALLOC") auto
    have s1: "brigade_inv s1" "grows (Suc 0) s s1" "ret \<noteq> E_EAGAIN \<longrightarrow> packAdd_state s1 \<in> entry_states"
        "0 \<le> ret \<longrightarrow> unat (next_channel s1) + pending s1 \<le> unat (next_channel s) + pending s"
      using transport_read_step [OF r inv(1) reader_next [OF "1.prems"(2)] inv(2) cases'] by auto
    have c1: "calls s1 = calls s" by (rule calls_transport_read [OF r])
    have t: "brigade_inv ?t" "grows 0 s1 ?t" "quiet s1 ?t"
      using quiet_inv [OF s1(1), of ?t] timed_out_quiet [of s1] by auto
    have ct: "calls ?t = calls s" using t(3) c1 by (simp add: quiet_def)
    have gt: "grows (Suc 0) s ?t" by (rule grows_trans0(2) [OF s1(2) t(2)])
    have at_t: "waited s ?t" using t(1) gt ct by (auto simp: waited_def)
    have at_s1: "waited s s1" using s1 c1 by (auto simp: waited_def)
    have found: "waited s s'" if a: "packet_askv types ofs m n u = ((rc, d), s')" and u: "waited s u" for u
    proof -
      obtain k where k: "brigade_inv u" "grows k s u" "calls u = calls s" using u by (auto simp: waited_def)
      have "brigade_inv s'" "grows 0 u s'" "quiet u s'" using askv_inv [OF a k(1) "1.prems"(3)] by auto
      then show ?thesis using grows_trans0(2) [OF k(2)] k(3) unfolding waited_def quiet_def by metis
    qed
    consider "ret < 0 \<and> ret \<noteq> E_EAGAIN" | "\<not> (ret < 0 \<and> ret \<noteq> E_EAGAIN)" "ret \<le> 0 \<and> fst (timed_out s1)"
      | "ret = E_EAGAIN" "\<not> fst (timed_out s1)" | "ret = 0" "\<not> fst (timed_out s1)"
      | "0 < ret" "ret \<in> uint ` set types" | "0 < ret" "ret \<notin> uint ` set types" by linarith
    then show ?thesis
    proof cases
      case 1
      then show ?thesis using step False r at_s1 by simp
    next
      case 2
      then have "s' = ?t" using step False r by auto
      then show ?thesis using at_t by simp
    next
      case 3
      then have "s' = ?t" using step False r by simp
      then show ?thesis using at_t by simp
    next
      case 4
      then show ?thesis using step False r found [OF _ at_t] by simp
    next
      case 5
      then show ?thesis using step False r found [OF _ at_s1] by simp
    next
      case 6
      then have rec: "requirev_loop types ofs m n s1 = Some ((rc, d), s')" using step False r by simp
      have "reader_inv s1" using s1 6 "1.prems"(2) by (auto simp: reader_inv_def)
      from "1.IH" [OF False r refl _ _ _ _ _ rec this "1.prems"(3,4)] 6
      have "waited s1 s'" by simp
      then show ?thesis using s1(2) c1 grows_trans [OF s1(2)] by (auto simp: waited_def)
    qed
  qed
qed

lemma requirev_inv:
  assumes "packet_requirev types ofs m n s = Some ((rc, d), s')" "reader_inv s" "no_data types" "rc \<noteq> E_ALLOC"
  shows "waited s s'"
proof -
  obtain c e u where a: "packet_askv types ofs m n s = ((c, e), u)" by (metis surj_pair)
  have b: "brigade_inv s" using assms(2) by (simp add: reader_inv_def)
  have u: "brigade_inv u" "grows 0 s u" "quiet s u" using askv_inv [OF a b assms(3)] by auto
  show ?thesis
  proof (cases "c = 0")
    case True
    then have "s' = u" using assms(1) a by (simp add: packet_requirev_def)
    then show ?thesis using u by (auto simp: waited_def quiet_def)
  next
    case False
    then have rec: "requirev_loop types ofs m n u = Some ((rc, d), s')" using assms(1) a by (simp add: packet_requirev_def)
    have "reader_inv u" using u assms(2) by (auto simp: reader_inv_def quiet_def conn_eq_iff)
    from requirev_loop_inv [OF rec this assms(3,4)]
    show ?thesis using u grows_trans0(1) [OF u(2)] by (auto simp: waited_def quiet_def)
  qed
qed

section \<open>The steps of opening a channel\<close>

lemma upd_calls_simps [simp]:
  "conn (upd_calls f s) = conn s" "packAdd_state (upd_calls f s) = packAdd_state s"
  "packAdd_x11open_state (upd_calls f s) = packAdd_x11open_state s"
  "packAdd_authagent_state (upd_calls f s) = packAdd_authagent_state s"
  "calls (upd_calls f s) = f (calls s)" "all_channels (upd_calls f s) = all_channels s" "chan (upd_calls f s) = chan s"
  "local_id (upd_calls f s) a = local_id s a" "err_code (upd_calls f s) = err_code s" "pending (upd_calls f s) = pending s"
  "next_channel (upd_calls f s) = next_channel s" "next_addr (upd_calls f s) = next_addr s"
  by (simp_all add: upd_calls_def conn_def all_channels_def local_id_def pending_def)

lemma upd_calls_inv [simp]: "brigade_inv s \<Longrightarrow> brigade_inv (upd_calls f s)"
  by (rule brigade_frame) simp_all

lemma open_error_code: "err_code (open_error s) = err_code s \<or> err_code (open_error s) = E_SOCKET_DISCONNECT"
proof (cases "open_channel (calls s)")
  case (Some a)
  have "err_code (unlink a s) = err_code s" by (simp add: unlink_def)
  then show ?thesis using clear_quiet [of "unlink a s" "local_id s a"] Some by (simp add: open_error_def)
qed (simp add: open_error_def)

lemma open_error_inv:
  assumes inv: "brigade_inv s" and a: "open_channel (calls s) = Some a" "a \<in> set (all_channels s)"
  shows "brigade_inv (open_error s)" "a \<notin> set (all_channels (open_error s))" "open_state (calls (open_error s)) = NB_idle"
    "err_code (open_error s) = err_code s \<or> err_code (open_error s) = E_SOCKET_DISCONNECT"
proof -
  define t where "t = clear_packets (local_id s a) (unlink a s)"
  have err: "open_error s = upd_calls (\<lambda>c. c\<lparr>open_state := NB_idle, open_channel := None, open_packet := []\<rparr>) t"
    by (simp add: open_error_def a(1) t_def)
  have q: "quiet (unlink a s) t" and w: "without (local_id s a) (packets (unlink a s)) (packets t)"
    and e: "err_code t = err_code (unlink a s) \<or> err_code t = E_SOCKET_DISCONNECT"
    using clear_quiet [of "unlink a s" "local_id s a"] by (auto simp: t_def)
  have all: "all_channels t = removeAll a (all_channels s)" using quiet_all [OF q] unlink_all [of a s] by simp
  have "brigade_inv t"
    by (rule release_inv [OF inv a(2) all]) (use q w in \<open>simp_all add: quiet_def conn_eq_iff unlink_def\<close>)
  then show "brigade_inv (open_error s)" "a \<notin> set (all_channels (open_error s))" "open_state (calls (open_error s)) = NB_idle"
    "err_code (open_error s) = err_code s \<or> err_code (open_error s) = E_SOCKET_DISCONNECT"
    using all e by (simp_all add: err) (simp_all add: unlink_def)
qed

text \<open>The channel that is being opened and the packet that asks for it.\<close>

definition under_way :: "bytes \<Rightarrow> addr \<Rightarrow> session \<Rightarrow> bool" where
  "under_way ctype a s \<longleftrightarrow> open_channel (calls s) = Some a \<and> a \<in> set (all_channels s) \<and>
     (\<exists>rest. open_packet (calls s) = [MSG_CHANNEL_OPEN] @ wire_string ctype @ htonu32 (local_id s a) @ rest)"

lemma under_way_conn:
  assumes "under_way ctype a s" "conn t = conn s" "open_channel (calls t) = open_channel (calls s)"
    "open_packet (calls t) = open_packet (calls s)"
  shows "under_way ctype a t"
  using assms by (simp add: under_way_def conn_eq_iff all_channels_def local_id_def)

lemma link_new:
  assumes inv: "brigade_inv s" "next_channel s \<noteq> - 1" and c: "cd_id (ch_local c) = next_channel s" "window_ok c" "read_avail c = 0"
    and s': "conn s' = (channels s @ [next_addr s], (chan s)(next_addr s := c), Suc (next_addr s), next_channel s + 1,
      listeners s, packets s)"
    "packAdd_state s' = packAdd_state s" "packAdd_x11open_state s' = packAdd_x11open_state s"
    "packAdd_authagent_state s' = packAdd_authagent_state s"
  shows "brigade_inv s' \<and> next_addr s \<in> set (all_channels s') \<and> local_id s' (next_addr s) = next_channel s"
proof -
  let ?a = "next_addr s" and ?u = "s'\<lparr>channels := channels s\<rparr>"
  have ci: "chan_inv s" using inv(1) by (simp add: brigade_inv_def)
  have f: "channels ?u = channels s" "listeners ?u = listeners s" "packets ?u = packets s" "next_addr ?u = Suc ?a"
      "next_channel ?u = next_channel s + 1" "chan ?u = (chan s)(?a := c)" "channels s' = channels s @ [?a]"
    using s'(1) by (simp_all add: conn_def)
  have u: "chan_inv ?u" "fresh ?a ?u" using add_channel_inv [OF ci inv(2) c f(1-6)] by auto
  have "?u\<lparr>channels := channels ?u @ [?a]\<rparr> = s'" using f(7) by simp
  then have chan': "chan_inv s'" using link_channel [OF u] by simp
  have ids: "local_id s' b = (if b = ?a then next_channel s else local_id s b)" for b
    using f(6) c(1) by (simp add: local_id_def)
  have all: "set (all_channels s') = insert ?a (set (all_channels s))"
    using f(2,7) by (auto simp: all_channels_def)
  have "fresh b s'" if "fresh b s" for b
  proof -
    have b: "b < ?a" "local_id s b < next_channel s" "window_ok (chan s b)" "read_avail (chan s b) = queued (local_id s b) (packets s)"
        "b \<notin> set (all_channels s)" "local_id s b \<notin> local_id s ` set (all_channels s)"
      using that by (auto simp: fresh_def chan_ok_def)
    have "?a \<notin> set (all_channels s)" using ci by (auto simp: chan_inv_def chan_ok_def)
    then have "local_id s' ` set (all_channels s') = insert (next_channel s) (local_id s ` set (all_channels s))"
      unfolding all by (auto simp: ids image_iff)
    moreover have "chan_ok s' b"
      using b f inv(2) by (auto simp: chan_ok_def ids less_succ_id)
    ultimately show ?thesis using b by (auto simp: fresh_def all ids)
  qed
  then have "brigade_inv s'"
    using inv(1) chan' s'(2-4) by (auto simp: brigade_inv_def agent_pending_def)
  then show ?thesis using all ids by simp
qed

lemma skip_number:
  assumes "brigade_inv s" "next_channel s \<noteq> - 1"
  shows "brigade_inv (s\<lparr>next_channel := next_channel s + 1\<rparr>)"
proof -
  let ?t = "s\<lparr>next_channel := next_channel s + 1\<rparr>"
  have same: "all_channels ?t = all_channels s" "local_id ?t = local_id s"
    by (simp_all add: all_channels_def local_id_def fun_eq_iff)
  have ok: "chan_ok s b \<Longrightarrow> chan_ok ?t b" for b
    using assms(2) by (auto simp: chan_ok_def local_id_def less_succ_id intro: less_imp_le)
  have "chan_inv ?t"
    using assms ok by (auto simp: brigade_inv_def chan_inv_def same less_succ_id intro: less_imp_le)
  moreover have "fresh b s \<Longrightarrow> fresh b ?t" for b using ok by (simp add: fresh_def same)
  ultimately show ?thesis using assms(1) by (auto simp: brigade_inv_def agent_pending_def)
qed

lemma alloc_same:
  assumes "alloc s = (ok, t)"
  shows "\<exists>m. t = s\<lparr>mem := m\<rparr>"
  using assms by (auto simp: alloc_def)

lemma open_start_inv:
  assumes inv: "brigade_inv s" "next_channel s \<noteq> - 1" and idle: "open_state (calls s) = NB_idle"
  shows "case open_start ctype win pkt s of
      Inl t \<Rightarrow> brigade_inv t \<and> next_addr s \<notin> set (all_channels t) \<and> open_state (calls t) = NB_idle
    | Inr t \<Rightarrow> brigade_inv t \<and> under_way ctype (next_addr s) t \<and> open_state (calls t) = NB_created \<and>
        unat (next_channel t) = Suc (unat (next_channel s)) \<and> pending t = pending s \<and> packAdd_state t = packAdd_state s"
proof -
  let ?a = "next_addr s" and ?n = "next_channel s"
  define s0 where "s0 = upd_calls (\<lambda>c. c\<lparr>open_channel := None, open_packet := []\<rparr>) s"
  define s1 where "s1 = upd_calls (\<lambda>c. c\<lparr>open_local_channel := ?n\<rparr>) (s0\<lparr>next_channel := ?n + 1\<rparr>)"
  have ci: "chan_inv s" using inv(1) by (simp add: brigade_inv_def)
  have "chan_inv s0" by (rule chan_inv_conn [OF ci]) (simp add: s0_def)
  then have next': "channel_nextid s0 = (?n, s0\<lparr>next_channel := ?n + 1\<rparr>)" by (simp add: nextid_fresh) (simp add: s0_def)
  obtain ok1 s2 where a1: "alloc s1 = (ok1, s2)" by (metis surj_pair)
  obtain ok2 s3 where a2: "alloc s2 = (ok2, s3)" by (metis surj_pair)
  define c where "c = zero_channel\<lparr>channel_type := ctype, ch_local := empty_data\<lparr>cd_id := ?n\<rparr>,
    ch_remote := empty_data\<lparr>window_size_initial := win, window_size := win, packet_size := pkt\<rparr>\<rparr>"
  define t where "t = upd_calls (\<lambda>c. c\<lparr>open_channel := Some (next_addr s3)\<rparr>)
    (s3\<lparr>chan := (chan s3)(next_addr s3 := c), next_addr := Suc (next_addr s3), channels := channels s3 @ [next_addr s3]\<rparr>)"
  obtain ok3 s4 where a3: "alloc t = (ok3, s4)" by (metis surj_pair)
  define s5 where "s5 = upd_calls (\<lambda>c. c\<lparr>open_packet := [MSG_CHANNEL_OPEN] @ wire_string ctype @ htonu32 ?n @ htonu32 win @ htonu32 pkt,
              open_state := NB_created\<rparr>) s4"
  have eq: "open_start ctype win pkt s = (if \<not> ok1 then Inl (serr E_ALLOC ''Unable to allocate space for channel data'' s2)
      else if \<not> ok2 then Inl (serr E_ALLOC ''Failed allocating memory for channel type name'' s3)
      else if \<not> ok3 then Inl (open_error (serr E_ALLOC ''Unable to allocate temporary space for packet'' s4))
      else Inr s5)"
    unfolding open_start_def s0_def [symmetric] next' Let_def prod.case s1_def [symmetric] a1 a2 c_def [symmetric] t_def [symmetric] a3 s5_def
    by (rule refl)
  obtain m2 where s2: "s2 = s1\<lparr>mem := m2\<rparr>" using alloc_same [OF a1] by blast
  obtain m3 where s3: "s3 = s1\<lparr>mem := m3\<rparr>" using alloc_same [OF a2] s2 by auto
  have s1: "channels s1 = channels s" "chan s1 = chan s" "next_addr s1 = ?a" "next_channel s1 = ?n + 1" "listeners s1 = listeners s"
      "packets s1 = packets s" "packAdd_state s1 = packAdd_state s" "packAdd_x11open_state s1 = packAdd_x11open_state s"
      "packAdd_authagent_state s1 = packAdd_authagent_state s" "pending s1 = pending s"
      "open_state (calls s1) = NB_idle"
    using idle by (simp_all add: s1_def s0_def upd_calls_def pending_def)
  have b1: "brigade_inv s1"
    by (rule brigade_frame [OF skip_number [OF inv]]) (simp_all add: conn_def s1)
  have early: "brigade_inv (serr E_ALLOC m (s1\<lparr>mem := x\<rparr>)) \<and> ?a \<notin> set (all_channels (serr E_ALLOC m (s1\<lparr>mem := x\<rparr>))) \<and>
      open_state (calls (serr E_ALLOC m (s1\<lparr>mem := x\<rparr>))) = NB_idle" for m x
  proof -
    let ?u = "s1\<lparr>mem := x\<rparr>"
    have "brigade_inv ?u" by (rule brigade_frame [OF b1]) (simp_all add: conn_def)
    then have "brigade_inv (serr E_ALLOC m ?u)"
      by (rule brigade_frame) (simp_all add: serr_def libssh2_error_def libssh2_error_flags_def conn_def)
    moreover have "calls (serr E_ALLOC m ?u) = calls s1" "all_channels (serr E_ALLOC m ?u) = all_channels s"
      by (simp_all add: serr_def libssh2_error_def libssh2_error_flags_def all_channels_def s1)
    ultimately show ?thesis using ci s1(11) by (auto simp: chan_inv_def chan_ok_def)
  qed
  obtain m4 where s4: "s4 = t\<lparr>mem := m4\<rparr>" using alloc_same [OF a3] by blast
  have t: "conn t = (channels s @ [?a], (chan s)(?a := c), Suc ?a, ?n + 1, listeners s, packets s)"
      "packAdd_state t = packAdd_state s" "packAdd_x11open_state t = packAdd_x11open_state s"
      "packAdd_authagent_state t = packAdd_authagent_state s" "pending t = pending s" "open_channel (calls t) = Some ?a"
    unfolding t_def s3 using s1 by (simp_all add: upd_calls_def conn_def pending_def)
  have "brigade_inv t \<and> ?a \<in> set (all_channels t) \<and> local_id t ?a = ?n"
    using unsigned_less [of win]
    by (intro link_new [OF inv _ _ _ t(1-4)]) (simp_all add: c_def window_ok_def zero_channel_def empty_data_def)
  then have linked: "brigade_inv s4" "?a \<in> set (all_channels s4)" "local_id s4 ?a = ?n" "open_channel (calls s4) = Some ?a"
    using brigade_frame [of t s4] t(6) unfolding s4 by (simp_all add: conn_def all_channels_def local_id_def)
  show ?thesis
  proof (cases "ok1 \<and> ok2")
    case False
    then show ?thesis using eq early [of _ m2] early [of _ m3] by (cases ok1) (simp_all add: s2 s3)
  next
    case True
    show ?thesis
    proof (cases ok3)
      case True
      have "under_way ctype ?a s5"
        using linked by (simp add: under_way_def s5_def)
      moreover have "pending s5 = pending s" "packAdd_state s5 = packAdd_state s" "next_channel s5 = ?n + 1"
        using t by (simp_all add: s5_def s4 pending_def conn_def upd_calls_def)
      ultimately show ?thesis
        using eq True \<open>ok1 \<and> ok2\<close> linked(1) inv(2) by (simp add: s5_def unat_succ_id)
    next
      case False
      let ?e = "serr E_ALLOC ''Unable to allocate temporary space for packet'' s4"
      have "brigade_inv ?e" "open_channel (calls ?e) = Some ?a" "?a \<in> set (all_channels ?e)"
        using linked brigade_frame [of s4 ?e]
        by (simp_all add: serr_def libssh2_error_def libssh2_error_flags_def conn_def all_channels_def)
      then show ?thesis using open_error_inv [of ?e ?a] eq False \<open>ok1 \<and> ok2\<close> by simp
    qed
  qed
qed

lemma upd_brigade:
  assumes inv: "brigade_inv s"
    and f: "cd_id (ch_local (f (chan s a))) = local_id s a" "window_ok (chan s a) \<Longrightarrow> window_ok (f (chan s a))"
      "read_avail (f (chan s a)) = read_avail (chan s a)"
  shows "brigade_inv (upd_chan a f s)"
proof -
  have ids: "local_id (upd_chan a f s) = local_id s" using f(1) by (auto simp: local_id_def upd_chan_def fun_eq_iff)
  have ok: "chan_ok s b \<Longrightarrow> chan_ok (upd_chan a f s) b" for b
    using f by (auto simp: chan_ok_def ids) (auto simp: upd_chan_def)
  have all: "all_channels (upd_chan a f s) = all_channels s" by (simp add: all_channels_def upd_chan_def)
  have "chan_inv (upd_chan a f s)"
    using inv f ids by (intro chan_inv_upd) (auto simp: brigade_inv_def)
  moreover have "fresh b s \<Longrightarrow> fresh b (upd_chan a f s)" for b using ok by (simp add: fresh_def ids all)
  ultimately show ?thesis
    using inv by (auto simp: brigade_inv_def agent_pending_def) (auto simp: upd_chan_def)
qed

text \<open>The answer, whatever it is.\<close>

lemma open_reply_inv:
  assumes res: "open_reply (length ctype) s = Some (r, s')" and inv: "reader_inv s"
    and u: "under_way ctype a s" "open_state (calls s) = NB_sent"
    and code: "r = None \<Longrightarrow> err_code s' \<noteq> E_ALLOC \<and> err_code s' \<noteq> E_SOCKET_DISCONNECT"
  shows "brigade_inv s' \<and> (case r of Some b \<Rightarrow> b = a \<and> a \<in> set (all_channels s') \<and> open_state (calls s') = NB_idle
      | None \<Rightarrow> (if open_state (calls s') = NB_idle then a \<notin> set (all_channels s') else under_way ctype a s' \<and> open_state (calls s') = NB_sent))"
proof -
  let ?buf = "take 4 (drop (length ctype + 5) (open_packet (calls s)))"
  obtain rc d s1 where w: "packet_requirev [MSG_CHANNEL_OPEN_CONFIRMATION, MSG_CHANNEL_OPEN_FAILURE] 1 (Some ?buf) 4 s = Some ((rc, d), s1)"
    using res by (auto simp: open_reply_def split: if_splits option.splits)
  have failed: ?thesis if "r = None" "s' = open_error (serr c m s1)" "brigade_inv s1" "open_channel (calls s1) = Some a"
      "a \<in> set (all_channels s1)" for c m
  proof -
    let ?e = "serr c m s1"
    have "brigade_inv ?e" "open_channel (calls ?e) = Some a" "a \<in> set (all_channels ?e)"
      using that(3-5) brigade_frame [of s1 ?e]
      by (simp_all add: serr_def libssh2_error_def libssh2_error_flags_def conn_def all_channels_def)
    then show ?thesis using open_error_inv [of ?e a] that(1,2) by simp
  qed
  have alloc': "rc \<noteq> E_ALLOC"
  proof
    assume rc: "rc = E_ALLOC"
    then have s': "r = None" "s' = open_error (serr E_ALLOC ''Unexpected error'' s1)"
      using res w by (auto simp: open_reply_def split: if_splits)
    then show False using code [OF s'(1)] open_error_code [of "serr E_ALLOC ''Unexpected error'' s1"] by auto
  qed
  have "waited s s1" using requirev_inv [OF w inv _ alloc'] by (simp add: no_data_def)
  then obtain k where k: "brigade_inv s1" "grows k s s1" "calls s1 = calls s" by (auto simp: waited_def)
  have b: "brigade_inv s" using inv by (simp add: reader_inv_def)
  have below: "a < next_addr s" using linked_below [OF b] u(1) by (simp add: under_way_def)
  have u1: "under_way ctype a s1"
    using u(1) k(2,3) below by (auto simp: under_way_def grows_def ident_def)
  then have a1: "open_channel (calls s1) = Some a" "a \<in> set (all_channels s1)" by (auto simp: under_way_def)
  have long: "\<not> length (open_packet (calls s)) < length ctype + 9" using res by (auto simp: open_reply_def)
  note step = res [unfolded open_reply_def w Let_def, simplified long if_False option.case prod.case]
  show ?thesis
  proof (cases "rc = E_EAGAIN")
    case True
    then have s': "r = None" "s' = serr E_EAGAIN ''Would block'' s1" using step by simp_all
    have q: "conn s' = conn s1" "calls s' = calls s"
      using s'(2) k(3) serr_quiet [of s1] by (simp_all only: conn_serr quiet_def)
    have "brigade_inv s'"
      using brigade_frame [OF k(1) q(1)] s'(2) by (simp add: serr_def libssh2_error_def libssh2_error_flags_def)
    then show ?thesis using under_way_conn [OF u1 q(1)] q(2) k(3) u(2) s'(1) by simp
  next
    case again: False
    show ?thesis
    proof (cases "(\<exists>c m. r = None \<and> s' = open_error (serr c m s1)) \<or> r = None \<and> s' = open_error s1")
      case True
      then show ?thesis using failed k(1) a1 open_error_inv [OF k(1) a1] by auto
    next
      case False
      have ok: "rc = 0" using step again False by (cases "rc = 0") auto
      let ?x = "the d"
      have "hd ?x = MSG_CHANNEL_OPEN_CONFIRMATION \<and> 17 \<le> length ?x"
        using step again ok False by (auto split: if_splits)
      then have "r = Some a" "s' = upd_calls (\<lambda>c. c\<lparr>open_packet := [], open_state := NB_idle\<rparr>) (upd_chan a (open_confirmed ?x) s1)"
        using step again ok a1(1) by (auto split: if_splits)
      moreover have "brigade_inv (upd_chan a (open_confirmed ?x) s1)"
        by (rule upd_brigade [OF k(1)]) (simp_all add: open_confirmed_def upd_local_def upd_remote_def window_ok_def local_id_def)
      moreover have "all_channels (upd_chan a (open_confirmed ?x) s1) = all_channels s1"
        by (simp add: all_channels_def upd_chan_def)
      ultimately show ?thesis using a1(2) by simp
    qed
  qed
qed

lemma serr_frame_inv:
  assumes "brigade_inv s"
  shows "brigade_inv (serr c m s)" "all_channels (serr c m s) = all_channels s" "calls (serr c m s) = calls s"
  using assms brigade_frame [OF assms conn_serr] serr_quiet [of s c m] quiet_all [OF serr_quiet [of s c m]]
  by (auto simp: quiet_def)

text \<open>The request is sent; nothing is read.\<close>

lemma open_send_inv:
  assumes inv: "brigade_inv s" and u: "under_way ctype a s" and created: "open_state (calls s) = NB_created"
  shows "case open_send msg s of
      Inl t \<Rightarrow> brigade_inv t \<and>
        (if open_state (calls t) = NB_idle then a \<notin> set (all_channels t) else under_way ctype a t)
    | Inr t \<Rightarrow> brigade_inv t \<and> under_way ctype a t \<and> open_state (calls t) = NB_sent \<and> next_channel t = next_channel s \<and>
        pending t = pending s \<and> packAdd_state t = packAdd_state s"
proof -
  let ?pkt = "open_packet (calls s) @ msg"
  obtain rc t where send: "transport_send ?pkt s = (rc, t)" by (metis surj_pair)
  have t: "conn t = conn s" "calls t = calls s" "pending t = pending s" "packAdd_state t = packAdd_state s"
      "packAdd_x11open_state t = packAdd_x11open_state s" "packAdd_authagent_state t = packAdd_authagent_state s"
    using send by (auto simp: transport_send_def Let_def split_beta conn_def pending_def)
  have b: "brigade_inv t" by (rule brigade_frame [OF inv t(1,4-6)])
  have ut: "under_way ctype a t" by (rule under_way_conn [OF u t(1)]) (simp_all add: t(2))
  note e = serr_frame_inv [OF b]
  have eq: "open_send msg s = (if rc = E_EAGAIN then Inl (serr rc ''Would block sending channel-open request'' t)
      else if rc \<noteq> 0 then Inl (open_error (serr rc ''Unable to send channel-open request'' t))
      else Inr (upd_calls (open_state_update (\<lambda>_. NB_sent)) t))"
    by (simp add: open_send_def send)
  consider "rc = E_EAGAIN" | "rc \<noteq> E_EAGAIN" "rc \<noteq> 0" | "rc = 0" by fastforce
  then show ?thesis
  proof cases
    case 1
    let ?e = "serr rc ''Would block sending channel-open request'' t"
    have "under_way ctype a ?e" by (rule under_way_conn [OF ut]) (simp_all add: e(3))
    then show ?thesis using eq 1 e(1,3) t(2) created by simp
  next
    case 2
    let ?e = "serr rc ''Unable to send channel-open request'' t"
    have "open_channel (calls ?e) = Some a" "a \<in> set (all_channels ?e)" using ut e(2,3) by (auto simp: under_way_def)
    then show ?thesis using eq 2 open_error_inv [OF e(1)] by simp
  next
    case 3
    have "under_way ctype a (upd_calls (open_state_update (\<lambda>_. NB_sent)) t)" by (rule under_way_conn [OF ut]) simp_all
    then show ?thesis using eq 3 b t by (simp add: conn_eq_iff)
  qed
qed


section \<open>What the server answers\<close>

text \<open>The first answer to the request that was sent, with \<open>payload\<close> behind the channel's number.\<close>

definition answered :: "bytes \<Rightarrow> addr \<Rightarrow> byte \<Rightarrow> bytes \<Rightarrow> session \<Rightarrow> bool" where
  "answered ctype a t payload s \<longleftrightarrow> at_rest s \<and> under_way ctype a s \<and> open_state (calls s) = NB_sent \<and>
     t \<in> {MSG_CHANNEL_OPEN_CONFIRMATION, MSG_CHANNEL_OPEN_FAILURE} \<and>
     (\<exists>seq rest m. inbox s = In_packet t (htonu32 (local_id s a) @ payload) True seq # rest \<and> mem s = True # m) \<and>
     (\<forall>p \<in> set (packets s). \<not> wanted [MSG_CHANNEL_OPEN_CONFIRMATION, MSG_CHANNEL_OPEN_FAILURE] 1
        (Some (htonu32 (local_id s a))) 4 (pk_data p))"

lemma answer_collected:
  assumes "answered ctype a t payload s"
  shows "\<exists>s1. packet_requirev [MSG_CHANNEL_OPEN_CONFIRMATION, MSG_CHANNEL_OPEN_FAILURE] 1
      (Some (take 4 (drop (length ctype + 5) (open_packet (calls s))))) 4 s =
        Some ((0, Some ([t] @ htonu32 (local_id s a) @ payload)), s1) \<and>
      calls s1 = calls s \<and> chan s1 = chan s \<and> length ctype + 9 \<le> length (open_packet (calls s))"
proof -
  let ?id = "htonu32 (local_id s a)" and ?types = "[MSG_CHANNEL_OPEN_CONFIRMATION, MSG_CHANNEL_OPEN_FAILURE]"
  obtain seq rest m where r: "at_rest s" "inbox s = In_packet t (?id @ payload) True seq # rest" "mem s = True # m"
      "t \<in> plain_types" "t \<in> set ?types" "\<forall>p \<in> set (packets s). \<not> wanted ?types 1 (Some ?id) 4 (pk_data p)"
    using assms by (auto simp: answered_def plain_types_def)
  obtain rest' where pkt: "open_packet (calls s) = [MSG_CHANNEL_OPEN] @ wire_string ctype @ ?id @ rest'"
    using assms by (auto simp: answered_def under_way_def)
  have buf: "take 4 (drop (length ctype + 5) (open_packet (calls s))) = ?id" "length ctype + 9 \<le> length (open_packet (calls s))"
  proof -
    let ?pre = "[MSG_CHANNEL_OPEN] @ wire_string ctype"
    have len: "length ?pre = length ctype + 5" by (simp add: wire_string_def)
    have "open_packet (calls s) = ?pre @ ?id @ rest'" by (simp add: pkt)
    then have "drop (length ctype + 5) (open_packet (calls s)) = ?id @ rest'" by (metis append_eq_conv_conj len)
    then show "take 4 (drop (length ctype + 5) (open_packet (calls s))) = ?id" by simp
    show "length ctype + 9 \<le> length (open_packet (calls s))" by (simp add: pkt wire_string_def)
  qed
  have "wanted ?types 1 (Some ?id) 4 (t # ?id @ payload)"
    using r(5) by (simp add: wanted_def)
  then show ?thesis using first_reply [OF r] buf by auto
qed

text \<open>
  A confirmation opens the channel: the call returns it with the number, the window and the packet size that the server
  announced, and is ready for the next channel.
\<close>

theorem channel_open_confirmed:
  assumes "answered ctype a MSG_CHANNEL_OPEN_CONFIRMATION (htonu32 rid @ htonu32 w @ htonu32 n @ extra) s"
  shows "\<exists>s'. channel_open ctype win pkt msg s = Some (Some a, s') \<and> open_state (calls s') = NB_idle \<and>
    cd_id (ch_remote (chan s' a)) = rid \<and> window_size (ch_local (chan s' a)) = w \<and> packet_size (ch_local (chan s' a)) = n \<and>
    ch_remote (chan s' a) = (ch_remote (chan s a))\<lparr>cd_id := rid\<rparr>"
proof -
  let ?d = "[MSG_CHANNEL_OPEN_CONFIRMATION] @ htonu32 (local_id s a) @ htonu32 rid @ htonu32 w @ htonu32 n @ extra"
  obtain s1 where s1: "packet_requirev [MSG_CHANNEL_OPEN_CONFIRMATION, MSG_CHANNEL_OPEN_FAILURE] 1
      (Some (take 4 (drop (length ctype + 5) (open_packet (calls s))))) 4 s = Some ((0, Some ?d), s1)"
      "calls s1 = calls s" "chan s1 = chan s" "length ctype + 9 \<le> length (open_packet (calls s))"
    using answer_collected [OF assms] by auto
  have st: "open_state (calls s) = NB_sent" "open_channel (calls s) = Some a"
    using assms by (auto simp: answered_def under_way_def)
  have "open_reply (length ctype) s = Some (Some a,
      upd_calls (\<lambda>c. c\<lparr>open_packet := [], open_state := NB_idle\<rparr>) (upd_chan a (open_confirmed ?d) s1))"
    using s1 st by (simp add: open_reply_def)
  moreover have "u32_at ?d 5 = rid" "u32_at ?d 9 = w" "u32_at ?d 13 = n"
    by (simp_all add: u32_at_def)
  ultimately show ?thesis
    using st s1(3) by (simp add: channel_open_def upd_chan_def open_confirmed_def upd_local_def upd_remote_def)
qed

text \<open>
  A refusal must bring its reason: when the server's CHANNEL_OPEN_FAILURE ends before the four bytes of the reason code, the
  code reads behind the end of the packet.
\<close>

theorem channel_open_short_refusal:
  assumes "answered ctype a MSG_CHANNEL_OPEN_FAILURE payload s" "length payload < 4"
  shows "channel_open ctype win pkt msg s = None"
proof -
  let ?d = "[MSG_CHANNEL_OPEN_FAILURE] @ htonu32 (local_id s a) @ payload"
  obtain s1 where "packet_requirev [MSG_CHANNEL_OPEN_CONFIRMATION, MSG_CHANNEL_OPEN_FAILURE] 1
      (Some (take 4 (drop (length ctype + 5) (open_packet (calls s))))) 4 s = Some ((0, Some ?d), s1)"
      "length ctype + 9 \<le> length (open_packet (calls s))"
    using answer_collected [OF assms(1)] by auto
  then have "open_reply (length ctype) s = None" using assms(2) by (simp add: open_reply_def)
  then show ?thesis using assms(1) by (simp add: channel_open_def answered_def)
qed

text \<open>A session that has sent the request for channel 4.\<close>

definition sample_opening :: "inbound list \<Rightarrow> session" where
  "sample_opening input = sample_session\<lparr>inbox := input, mem := [True], channels := [0, 1], next_addr := 2, next_channel := 5,
     chan := (\<lambda>_. sample_channel)(1 := zero_channel\<lparr>ch_local := empty_data\<lparr>cd_id := 4\<rparr>\<rparr>),
     calls := idle_calls\<lparr>open_state := NB_sent, open_channel := Some 1,
       open_packet := [MSG_CHANNEL_OPEN] @ wire_string [120] @ htonu32 4 @ htonu32 100 @ htonu32 50\<rparr>\<rparr>"

lemma sample_opening_answered:
  assumes "t \<in> {MSG_CHANNEL_OPEN_CONFIRMATION, MSG_CHANNEL_OPEN_FAILURE}"
  shows "answered [120] 1 t payload (sample_opening [In_packet t (htonu32 4 @ payload) True 0])"
  using assms by (simp add: answered_def sample_opening_def at_rest_def under_way_def sample_session_def all_channels_def
      local_id_def wire_string_def)

lemma channel_open_confirmed_witness:
  "\<exists>s'. channel_open [120] 100 50 [] (sample_opening [In_packet MSG_CHANNEL_OPEN_CONFIRMATION
       (htonu32 4 @ htonu32 9 @ htonu32 64 @ htonu32 32 @ []) True 0]) = Some (Some 1, s') \<and>
     window_size (ch_local (chan s' 1)) = 64"
  using channel_open_confirmed [OF sample_opening_answered [of MSG_CHANNEL_OPEN_CONFIRMATION "htonu32 9 @ htonu32 64 @ htonu32 32 @ []"], of 100 50 "[]"] by auto

lemma channel_open_short_refusal_witness:
  "channel_open [120] 100 50 [] (sample_opening [In_packet MSG_CHANNEL_OPEN_FAILURE (htonu32 4 @ [0, 0]) True 0]) = None"
  by (rule channel_open_short_refusal [OF sample_opening_answered]) simp_all


end
