(* ===== verification/Channel_Request.thy ===== *)
theory Channel_Request
  imports Channel_Open_Inv
begin

text \<open>
  The requests on an open channel, \<^verbatim>\<open>libssh2/src/channel.c\<close>: environment variables, terminals, agent and X11 forwarding,
  starting a program, signals.  They share one course: the packet is built in the state \<open>idle\<close>, sent in \<open>created\<close>, and in \<open>sent\<close>
  the reply for the channel is waited for.  \<open>request_course\<close>, \<open>request_send\<close> and \<open>request_reply\<close> are this course; what
  differs from one request to the other, the packet, the codes and the state at the end, are their arguments.  Lengths are
  \<^verbatim>\<open>unsigned int\<close> where the code computes with them as such; \<open>None\<close> is a write outside the packet's memory.

  A reply is found by the four bytes behind its type, so it has at least five bytes, and the tests for empty replies in the
  code never fire.
\<close>

abbreviation MSG_CHANNEL_SUCCESS :: byte where "MSG_CHANNEL_SUCCESS \<equiv> 99"

type_synonym step = "(int \<times> session) + session"
type_synonym field_update = "(request \<Rightarrow> request) \<Rightarrow> channel \<Rightarrow> channel"

section \<open>The common course\<close>

definition request_packet :: "channel \<Rightarrow> bytes \<Rightarrow> byte \<Rightarrow> bytes \<Rightarrow> bytes" where
  "request_packet c name want_reply rest =
     [MSG_CHANNEL_REQUEST] @ htonu32 (cd_id (ch_remote c)) @ wire_string name @ [want_reply] @ rest"

text \<open>The packet is written into a block of \<open>cap\<close> bytes.\<close>

definition request_built :: "field_update \<Rightarrow> nat \<Rightarrow> bytes \<Rightarrow> addr \<Rightarrow> session \<Rightarrow> step option" where
  "request_built upd cap pkt a s =
     (if cap < length pkt then None
      else Some (Inr (upd_chan a (upd (\<lambda>r. r\<lparr>rq_packet := pkt, rq_state := NB_created\<rparr>)) s)))"

definition request_send ::
  "(channel \<Rightarrow> request) \<Rightarrow> field_update \<Rightarrow> (bytes \<Rightarrow> bytes) \<Rightarrow> bytes \<Rightarrow> nb_state \<Rightarrow> (int \<Rightarrow> int) \<Rightarrow> string \<Rightarrow> string \<Rightarrow>
   addr \<Rightarrow> session \<Rightarrow> step" where
  "request_send get upd freed message final code blocked failed a s =
     (let (rc, s1) = transport_send (rq_packet (get (chan s a)) @ message) s in
      if rc = E_EAGAIN then Inl (rc, serr rc blocked s1)
      else if rc \<noteq> 0 then
        Inl (code rc, serr (code rc) failed (upd_chan a (upd (\<lambda>r. r\<lparr>rq_packet := freed (rq_packet r), rq_state := final\<rparr>)) s1))
      else
        Inr (upd_chan a (upd (\<lambda>r. r\<lparr>rq_packet := freed (rq_packet r), rq_local_channel := htonu32 (local_id s1 a),
          rq_state := NB_sent\<rparr>)) s1))"

definition request_reply ::
  "(channel \<Rightarrow> request) \<Rightarrow> field_update \<Rightarrow> nb_state \<Rightarrow> (int \<Rightarrow> int) \<Rightarrow> string \<Rightarrow> string \<Rightarrow> addr \<Rightarrow> session \<Rightarrow> (int \<times> session) option" where
  "request_reply get upd final code failed denied a s =
     (case packet_requirev [MSG_CHANNEL_SUCCESS, MSG_CHANNEL_FAILURE] 1 (Some (rq_local_channel (get (chan s a)))) 4 s of
        None \<Rightarrow> None
      | Some ((rc, d), s1) \<Rightarrow>
          let s2 = upd_chan a (upd (rq_state_update (\<lambda>_. final))) s1 in
          if rc = E_EAGAIN then Some (rc, s1)
          else if rc \<noteq> 0 then Some (code rc, serr (code rc) failed s2)
          else if hd (the d) = MSG_CHANNEL_SUCCESS then Some (0, s2)
          else Some (E_CHANNEL_REQUEST_DENIED, serr E_CHANNEL_REQUEST_DENIED denied s2))"

definition request_course ::
  "(channel \<Rightarrow> request) \<Rightarrow> (addr \<Rightarrow> session \<Rightarrow> step option) \<Rightarrow> (addr \<Rightarrow> session \<Rightarrow> step) \<Rightarrow>
   (addr \<Rightarrow> session \<Rightarrow> (int \<times> session) option) \<Rightarrow> (session \<Rightarrow> int \<times> session) \<Rightarrow> addr \<Rightarrow> session \<Rightarrow> (int \<times> session) option" where
  "request_course get start send reply other a s =
     (case (if rq_state (get (chan s a)) = NB_idle then start a s else Some (Inr s)) of
        None \<Rightarrow> None
      | Some (Inl res) \<Rightarrow> Some res
      | Some (Inr s1) \<Rightarrow>
          (case (if rq_state (get (chan s1 a)) = NB_created then send a s1 else Inr s1) of
             Inl res \<Rightarrow> Some res
           | Inr s2 \<Rightarrow> if rq_state (get (chan s2 a)) = NB_sent then reply a s2 else Some (other s2)))"

section \<open>Environment variables\<close>

definition setenv_start :: "bytes \<Rightarrow> bytes \<Rightarrow> addr \<Rightarrow> session \<Rightarrow> step option" where
  "setenv_start varname value a s =
     (let cap = unat (word_of_nat (length varname) + word_of_nat (length value) + 21 :: u32);
          (ok, s1) = alloc s in
      if \<not> ok then Some (Inl (E_ALLOC, serr E_ALLOC ''Unable to allocate memory for setenv packet'' s1))
      else request_built setenv_req_update cap
        (request_packet (chan s1 a) (str ''env'') 1 (wire_string varname @ wire_string value)) a s1)"

definition channel_setenv :: "addr \<Rightarrow> bytes \<Rightarrow> bytes \<Rightarrow> session \<Rightarrow> (int \<times> session) option" where
  "channel_setenv a varname value =
     (let denied = ''Unable to complete request for channel-setenv'' in
      request_course setenv_req (setenv_start varname value)
        (request_send setenv_req setenv_req_update (\<lambda>_. []) [] NB_idle (\<lambda>_. E_SOCKET_SEND) ''Would block sending setenv request''
          ''Unable to send channel-request packet for setenv request'')
        (request_reply setenv_req setenv_req_update NB_idle id ''Failed getting response for channel-setenv'' denied)
        (\<lambda>s. (E_CHANNEL_REQUEST_DENIED,
          serr E_CHANNEL_REQUEST_DENIED denied (upd_chan a (setenv_req_update (rq_state_update (\<lambda>_. NB_idle))) s))) a)"

section \<open>Terminals\<close>

text \<open>The packet is an array of \<open>41 + 256\<close> bytes inside the channel.\<close>

definition pty_start :: "bytes \<Rightarrow> bytes \<Rightarrow> int \<Rightarrow> int \<Rightarrow> int \<Rightarrow> int \<Rightarrow> addr \<Rightarrow> session \<Rightarrow> step option" where
  "pty_start term modes width height width_px height_px a s =
     (if (word_of_nat (length term) + word_of_nat (length modes) :: u32) > 256 then
        Some (Inl (E_INVAL, serr E_INVAL ''term + mode lengths too large'' s))
      else request_built reqPTY_update (41 + 256)
        (request_packet (chan s a) (str ''pty-req'') 1
          (wire_string term @ htonu32 (word_of_int width) @ htonu32 (word_of_int height) @
           htonu32 (word_of_int width_px) @ htonu32 (word_of_int height_px) @ wire_string modes)) a s)"

definition channel_request_pty ::
  "addr \<Rightarrow> bytes \<Rightarrow> bytes \<Rightarrow> int \<Rightarrow> int \<Rightarrow> int \<Rightarrow> int \<Rightarrow> session \<Rightarrow> (int \<times> session) option" where
  "channel_request_pty a term modes width height width_px height_px =
     (let denied = ''Unable to complete request for channel request-pty'' in
      request_course reqPTY (pty_start term modes width height width_px height_px)
        (request_send reqPTY reqPTY_update id [] NB_idle id ''Would block sending pty request'' ''Unable to send pty-request packet'')
        (request_reply reqPTY reqPTY_update NB_idle (\<lambda>_. E_PROTO) ''Failed to require the PTY package'' denied)
        (\<lambda>s. (E_CHANNEL_REQUEST_DENIED, serr E_CHANNEL_REQUEST_DENIED denied s)) a)"

text \<open>A change of the terminal's size uses the same state variables and has no reply.\<close>

definition channel_request_pty_size :: "addr \<Rightarrow> int \<Rightarrow> int \<Rightarrow> int \<Rightarrow> int \<Rightarrow> session \<Rightarrow> int \<times> session" where
  "channel_request_pty_size a width height width_px height_px s =
     (let idle = upd_chan a (reqPTY_update (rq_state_update (\<lambda>_. NB_idle)));
          pkt = request_packet (chan s a) (str ''window-change'') 0
            (htonu32 (word_of_int width) @ htonu32 (word_of_int height) @ htonu32 (word_of_int width_px) @ htonu32 (word_of_int height_px));
          s1 = (if rq_state (reqPTY (chan s a)) = NB_idle
                then upd_chan a (reqPTY_update (\<lambda>r. r\<lparr>rq_packet := pkt, rq_state := NB_created\<rparr>)) s else s) in
      if rq_state (reqPTY (chan s1 a)) = NB_created then
        let (rc, s2) = transport_send (rq_packet (reqPTY (chan s1 a))) s1 in
        if rc = E_EAGAIN then (rc, serr rc ''Would block sending window-change request'' s2)
        else if rc \<noteq> 0 then (rc, serr rc ''Unable to send window-change packet'' (idle s2))
        else (0, idle (upd_chan a (reqPTY_update (rq_local_channel_update (\<lambda>_. htonu32 (local_id s2 a)))) s2))
      else (E_PROTO, idle s1))"

section \<open>Agent forwarding\<close>

definition auth_agent_start :: "bytes \<Rightarrow> addr \<Rightarrow> session \<Rightarrow> step option" where
  "auth_agent_start request_str a s =
     (if length request_str > 26 then Some (Inl (E_INVAL, serr E_INVAL ''request_str length too large'' s))
      else request_built req_auth_agent_update 36 (request_packet (chan s a) request_str 1 []) a s)"

definition channel_request_auth_agent :: "addr \<Rightarrow> bytes \<Rightarrow> session \<Rightarrow> (int \<times> session) option" where
  "channel_request_auth_agent a request_str =
     (let denied = ''Unable to complete request for auth-agent'' in
      request_course req_auth_agent (auth_agent_start request_str)
        (request_send req_auth_agent req_auth_agent_update id [] NB_idle id ''Would block sending auth-agent request''
          ''Unable to send auth-agent request'')
        (request_reply req_auth_agent req_auth_agent_update NB_idle (\<lambda>_. E_PROTO) ''Failed to request auth-agent'' denied)
        (\<lambda>s. (E_CHANNEL_REQUEST_DENIED, serr E_CHANNEL_REQUEST_DENIED denied s)) a)"

text \<open>
  The public call in non-blocking mode: the name that most servers expect is tried first, then that of the draft; what
  has been tried is kept in a state of its own.
\<close>

definition agent_try :: "addr \<Rightarrow> bytes \<Rightarrow> nb_state \<Rightarrow> nb_state \<Rightarrow> int \<times> session \<Rightarrow> (int \<times> session) option" where
  "agent_try a name from next_state res =
     (if req_auth_agent_try_state (chan (snd res) a) = from then
        map_option (\<lambda>(rc, s1).
            (rc, if rc \<noteq> 0 \<and> rc \<noteq> E_EAGAIN then upd_chan a (req_auth_agent_try_state_update (\<lambda>_. next_state)) s1 else s1))
          (channel_request_auth_agent a name (snd res))
      else Some res)"

definition libssh2_channel_request_auth_agent :: "addr \<Rightarrow> session \<Rightarrow> (int \<times> session) option" where
  "libssh2_channel_request_auth_agent a s =
     (case agent_try a (str ''auth-agent-req@openssh.com'') NB_idle NB_sent (E_CHANNEL_UNKNOWN, s) of
        None \<Rightarrow> None
      | Some res \<Rightarrow>
          (case agent_try a (str ''auth-agent-req'') NB_sent NB_sent1 res of
             None \<Rightarrow> None
           | Some (rc, s2) \<Rightarrow>
               Some (rc, if rc = 0 then upd_chan a (req_auth_agent_try_state_update (\<lambda>_. NB_idle)) s2 else s2)))"

section \<open>X11 forwarding\<close>

definition hex_digit :: "nat \<Rightarrow> byte" where
  "hex_digit n = (if n < 10 then word_of_nat (48 + n) else word_of_nat (55 + n))"

definition hex_bytes :: "bytes \<Rightarrow> bytes" where
  "hex_bytes = concat \<circ> map (\<lambda>b. [hex_digit (unat b div 16), hex_digit (unat b mod 16)])"

text \<open>\<open>random\<close> is what \<open>_libssh2_random\<close> of the crypto backend yields: 16 bytes, or nothing when it fails.\<close>

definition x11_req_start :: "bool \<Rightarrow> bytes option \<Rightarrow> bytes option \<Rightarrow> int \<Rightarrow> bytes option \<Rightarrow> addr \<Rightarrow> session \<Rightarrow> step option" where
  "x11_req_start single auth_proto auth_cookie screen random a s =
     (let proto = (case auth_proto of Some p \<Rightarrow> p | None \<Rightarrow> str ''MIT-MAGIC-COOKIE-1'');
          cookie_len = (case auth_cookie of Some k \<Rightarrow> length k | None \<Rightarrow> 32);
          (ok, s1) = alloc s in
      if \<not> ok then Some (Inl (E_ALLOC, serr E_ALLOC ''Unable to allocate memory for pty-request'' s1))
      else
        case (case auth_cookie of Some k \<Rightarrow> Some k | None \<Rightarrow> map_option hex_bytes random) of
          None \<Rightarrow> Some (Inl (E_RANDGEN, serr E_RANDGEN ''Unable to get random bytes for x11-req cookie'' s1))
        | Some cookie \<Rightarrow>
            request_built reqX11_update (length proto + cookie_len + 30)
              (request_packet (chan s1 a) (str ''x11-req'') 1
                ([if single then 1 else 0] @ wire_string proto @ htonu32 (word_of_nat cookie_len) @ cookie @
                 htonu32 (word_of_int screen))) a s1)"

definition channel_x11_req ::
  "addr \<Rightarrow> bool \<Rightarrow> bytes option \<Rightarrow> bytes option \<Rightarrow> int \<Rightarrow> bytes option \<Rightarrow> session \<Rightarrow> (int \<times> session) option" where
  "channel_x11_req a single auth_proto auth_cookie screen random =
     (let denied = ''Unable to complete request for channel x11-req'' in
      request_course reqX11 (x11_req_start single auth_proto auth_cookie screen random)
        (request_send reqX11 reqX11_update (\<lambda>_. []) [] NB_idle id ''Would block sending X11-req packet'' ''Unable to send x11-req packet'')
        (request_reply reqX11 reqX11_update NB_idle id ''waiting for x11-req response packet'' denied)
        (\<lambda>s. (E_CHANNEL_REQUEST_DENIED, serr E_CHANNEL_REQUEST_DENIED denied s)) a)"

section \<open>Starting a program\<close>

text \<open>Shell, command or subsystem; a channel can be used for one of them only, so the state ends as \<open>NB_end\<close>.\<close>

definition process_start :: "bytes \<Rightarrow> bytes option \<Rightarrow> addr \<Rightarrow> session \<Rightarrow> step option" where
  "process_start request message a s =
     (let cap = length request + 10 + (if message = None then 0 else 4);
          (ok, s1) = alloc s in
      if \<not> ok then Some (Inl (E_ALLOC, serr E_ALLOC ''Unable to allocate memory for channel-process request'' s1))
      else request_built process_req_update cap
        (request_packet (chan s1 a) request 1
          (case message of None \<Rightarrow> [] | Some m \<Rightarrow> htonu32 (word_of_nat (length m)))) a s1)"

definition channel_process_startup :: "addr \<Rightarrow> bytes \<Rightarrow> bytes option \<Rightarrow> session \<Rightarrow> (int \<times> session) option" where
  "channel_process_startup a request message s =
     (let denied = ''Unable to complete request for channel-process-startup'' in
      if rq_state (process_req (chan s a)) = NB_end then
        Some (E_BAD_USE, serr E_BAD_USE ''Channel can not be reused'' s)
      else request_course process_req (process_start request message)
        (request_send process_req process_req_update (\<lambda>_. []) (case message of None \<Rightarrow> [] | Some m \<Rightarrow> m) NB_end id
          ''Would block sending channel request'' ''Unable to send channel request'')
        (request_reply process_req process_req_update NB_end id ''Failed waiting for channel success'' denied)
        (\<lambda>t. (E_CHANNEL_REQUEST_DENIED, serr E_CHANNEL_REQUEST_DENIED denied t)) a s)"

section \<open>Signals\<close>

definition channel_signal :: "addr \<Rightarrow> bytes \<Rightarrow> session \<Rightarrow> int \<times> session" where
  "channel_signal a signame s =
     (let idle = upd_chan a (sendsignal_state_update (\<lambda>_. NB_idle));
          pkt = request_packet (chan s a) (str ''signal'') 0 (wire_string signame);
          (ok, s1) = (if sendsignal_state (chan s a) = NB_idle then alloc s else (True, s));
          s2 = (if sendsignal_state (chan s a) = NB_idle
                then upd_chan a (\<lambda>c. c\<lparr>sendsignal_packet := pkt, sendsignal_state := NB_created\<rparr>) s1 else s1) in
      if \<not> ok then (E_ALLOC, serr E_ALLOC ''Unable to allocate memory for signal request'' s1)
      else if sendsignal_state (chan s2 a) = NB_created then
        let (rc, s3) = transport_send (sendsignal_packet (chan s2 a)) s2 in
        if rc = E_EAGAIN then (rc, serr rc ''Would block sending signal request'' s3)
        else if rc \<noteq> 0 then (rc, serr rc ''Unable to send signal packet'' (idle s3))
        else (0, idle s3)
      else (E_PROTO, idle s2))"

end
