(* ===== verification/Request_Safety.thy ===== *)
theory Request_Safety
  imports Channel_Request
begin

text \<open>
  What the requests guarantee.  The locale \<open>request_field\<close> is the interface between a request and its course: the state
  variables can be read back after they were written, and writing them does not touch the channel's number.  Each of the
  five requests that wait for a reply provides it.
\<close>

section \<open>The interface\<close>

text \<open>The first reply for the channel has arrived and nothing older is queued.\<close>

definition replied :: "(channel \<Rightarrow> request) \<Rightarrow> addr \<Rightarrow> byte \<Rightarrow> session \<Rightarrow> bool" where
  "replied get a t s \<longleftrightarrow> at_rest s \<and> rq_state (get (chan s a)) = NB_sent \<and>
     t \<in> {MSG_CHANNEL_SUCCESS, MSG_CHANNEL_FAILURE} \<and> rq_local_channel (get (chan s a)) = htonu32 (local_id s a) \<and>
     (\<exists>seq rest m. inbox s = In_packet t (htonu32 (local_id s a)) True seq # rest \<and> mem s = True # m) \<and>
     (\<forall>p \<in> set (packets s). \<not> wanted [MSG_CHANNEL_SUCCESS, MSG_CHANNEL_FAILURE] 1 (Some (htonu32 (local_id s a))) 4 (pk_data p))"

definition decided :: "(channel \<Rightarrow> request) \<Rightarrow> addr \<Rightarrow> byte \<Rightarrow> nb_state \<Rightarrow> session \<Rightarrow> (int \<times> session) option \<Rightarrow> bool" where
  "decided get a t final s res \<longleftrightarrow>
     (\<exists>s'. res = Some (if t = MSG_CHANNEL_SUCCESS then 0 else E_CHANNEL_REQUEST_DENIED, s') \<and>
        rq_state (get (chan s' a)) = final \<and> packets s' = packets s \<and> inbox s' = tl (inbox s) \<and> channels s' = channels s)"

locale request_field =
  fixes get :: "channel \<Rightarrow> request" and upd :: field_update
  assumes get_upd: "get (upd f c) = f (get c)"
    and upd_same: "ch_local (upd f c) = ch_local c"
begin

lemma course_sent:
  "rq_state (get (chan s a)) = NB_sent \<Longrightarrow> request_course get start send reply other a s = reply a s"
  by (simp add: request_course_def)

lemma reply_decides:
  assumes "replied get a t s"
  shows "decided get a t final s (request_reply get upd final code failed denied a s)"
proof -
  let ?types = "[MSG_CHANNEL_SUCCESS, MSG_CHANNEL_FAILURE]" and ?id = "htonu32 (local_id s a)"
  obtain seq rest m where r: "at_rest s" "inbox s = In_packet t ?id True seq # rest" "mem s = True # m"
      "t \<in> plain_types" "t \<in> set ?types" "\<forall>p \<in> set (packets s). \<not> wanted ?types 1 (Some ?id) 4 (pk_data p)"
    using assms by (auto simp: replied_def plain_types_def)
  have id: "rq_local_channel (get (chan s a)) = ?id" using assms by (simp add: replied_def)
  have "wanted ?types 1 (Some ?id) 4 (t # ?id)" using r(5) by (simp add: wanted_def)
  then obtain s1 where s1: "packet_requirev ?types 1 (Some ?id) 4 s = Some ((0, Some (t # ?id)), s1)"
      "packets s1 = packets s" "inbox s1 = rest" "channels s1 = channels s"
    using first_reply [OF r] by auto
  have serr: "packets (serr c x u) = packets u" "inbox (serr c x u) = inbox u" "chan (serr c x u) = chan u"
      "channels (serr c x u) = channels u" for c x and u :: session
    by (simp_all add: serr_def libssh2_error_def libssh2_error_flags_def)
  show ?thesis
    using s1 r(2) by (simp add: decided_def request_reply_def id Let_def upd_chan_def get_upd serr)
qed

text \<open>
  A request that is not in one of the states of its course does nothing; in every other case a call that does not end with
  \<open>EAGAIN\<close> leaves the state that the request ends with, unless nothing could be built.
\<close>

lemma course_ends:
  assumes res: "request_course get start (request_send get upd freed msg final code blocked failed)
      (request_reply get upd final code' failed' denied) other a s = Some (rc, s')"
    and state: "rq_state (get (chan s a)) \<in> {NB_idle, NB_created, NB_sent}" and rc: "rc \<noteq> E_EAGAIN"
    and start: "\<And>r. start a s = Some (Inl r) \<Longrightarrow> r \<noteq> (rc, s')"
      "\<And>t. start a s = Some (Inr t) \<Longrightarrow> rq_state (get (chan t a)) = NB_created"
  shows "rq_state (get (chan s' a)) = final"
proof -
  have serr: "chan (serr c x u) = chan u" for c x and u :: session
    by (simp add: serr_def libssh2_error_def libssh2_error_flags_def)
  have reply: "rq_state (get (chan s' a)) = final"
    if go: "request_reply get upd final code' failed' denied a t = Some (rc, s')" for t
  proof -
    obtain c d u where w: "packet_requirev [MSG_CHANNEL_SUCCESS, MSG_CHANNEL_FAILURE] 1
        (Some (rq_local_channel (get (chan t a)))) 4 t = Some ((c, d), u)"
      using go by (auto simp: request_reply_def split: option.splits)
    then show ?thesis
      using go rc by (auto simp: request_reply_def Let_def upd_chan_def get_upd serr split: if_splits)
  qed
  have send: "rq_state (get (chan s' a)) = final"
    if t: "rq_state (get (chan t a)) = NB_created"
      and go: "(case request_send get upd freed msg final code blocked failed a t of Inl r \<Rightarrow> Some r
         | Inr u \<Rightarrow> if rq_state (get (chan u a)) = NB_sent then request_reply get upd final code' failed' denied a u
             else Some (other u)) = Some (rc, s')" for t
  proof -
    obtain c u where w: "transport_send (rq_packet (get (chan t a)) @ msg) t = (c, u)" by (metis surj_pair)
    consider "c = E_EAGAIN" | "c \<noteq> E_EAGAIN" "c \<noteq> 0" | "c = 0" by fastforce
    then show ?thesis
    proof cases
      case 1
      then show ?thesis using go rc by (simp add: request_send_def w)
    next
      case 2
      then show ?thesis using go by (auto simp: request_send_def w upd_chan_def get_upd serr)
    next
      case 3
      then show ?thesis using go reply by (simp add: request_send_def w upd_chan_def get_upd)
    qed
  qed
  consider "rq_state (get (chan s a)) = NB_idle" | "rq_state (get (chan s a)) = NB_created" | "rq_state (get (chan s a)) = NB_sent"
    using state by auto
  then show ?thesis
  proof cases
    case 1
    show ?thesis
    proof (cases "start a s")
      case (Some x)
      then show ?thesis using res 1 start send by (cases x) (auto simp: request_course_def)
    qed (use res 1 in \<open>simp add: request_course_def\<close>)
  next
    case 2
    then show ?thesis using res send [of s] by (simp add: request_course_def)
  next
    case 3
    then show ?thesis using res reply [of s] by (simp add: request_course_def)
  qed
qed

end

interpretation setenv: request_field setenv_req setenv_req_update
  by unfold_locales simp_all

interpretation pty: request_field reqPTY reqPTY_update
  by unfold_locales simp_all

interpretation x11: request_field reqX11 reqX11_update
  by unfold_locales simp_all

interpretation process: request_field process_req process_req_update
  by unfold_locales simp_all

interpretation auth_agent: request_field req_auth_agent req_auth_agent_update
  by unfold_locales simp_all

section \<open>Properties\<close>


text \<open>
  C28: A channel runs one program: once a call to start one has ended, with success or not, the channel is marked as used, and
  every further call is refused without sending anything.  Only running out of memory before the request is built
  leaves the channel usable.
\<close>

theorem process_startup_single_use:
  assumes "channel_process_startup a request message s = Some (rc, s')" "rc \<noteq> E_EAGAIN" "rc \<noteq> E_ALLOC"
    "rq_state (process_req (chan s a)) \<in> {NB_idle, NB_created, NB_sent}"
  shows "rq_state (process_req (chan s' a)) = NB_end \<and>
    (\<exists>s2. channel_process_startup a request2 message2 s' = Some (E_BAD_USE, s2) \<and> sent s2 = sent s')"
proof -
  have serr: "sent (serr c x u) = sent u" for c x and u :: session
    by (simp add: serr_def libssh2_error_def libssh2_error_flags_def)
  obtain other where res: "request_course process_req (process_start request message)
      (request_send process_req process_req_update (\<lambda>_. []) (case message of None \<Rightarrow> [] | Some m \<Rightarrow> m) NB_end id
        ''Would block sending channel request'' ''Unable to send channel request'')
      (request_reply process_req process_req_update NB_end id ''Failed waiting for channel success''
        ''Unable to complete request for channel-process-startup'') other a s = Some (rc, s')"
    using assms(1,4) by (auto simp: channel_process_startup_def Let_def split: if_splits)
  have "rq_state (process_req (chan s' a)) = NB_end"
  proof (rule process.course_ends [OF res assms(4,2)])
    show "r \<noteq> (rc, s')" if "process_start request message a s = Some (Inl r)" for r
      using that assms(3) by (auto simp: process_start_def request_built_def Let_def split: prod.splits if_splits)
    show "rq_state (process_req (chan t a)) = NB_created" if "process_start request message a s = Some (Inr t)" for t
      using that by (auto simp: process_start_def request_built_def upd_chan_def Let_def split: prod.splits if_splits)
  qed
  then show ?thesis by (simp add: channel_process_startup_def serr)
qed

text \<open>
  The bound on a terminal's name and modes is computed modulo \<open>2 ^ 32\<close>: for lengths that are 32-bit numbers the packet is
  written past its array of 297 bytes exactly when the sum of the lengths wraps around to at most 256; any other
  lengths are refused or fit.
\<close>

theorem pty_packet_overflow_iff:
  assumes "length term < 2 ^ 32" "length modes < 2 ^ 32"
  shows "pty_start term modes w h wp hp a s = None \<longleftrightarrow>
    2 ^ 32 \<le> length term + length modes \<and> length term + length modes \<le> 2 ^ 32 + 256"
proof -
  let ?n = "length term + length modes"
  have "(word_of_nat (length term) + word_of_nat (length modes) :: u32) = word_of_nat ?n" by simp
  moreover have "unat (word_of_nat ?n :: u32) = ?n mod 2 ^ 32" by (simp only: unat_of_nat) (simp add: take_bit_eq_mod)
  ultimately have big: "(word_of_nat (length term) + word_of_nat (length modes) :: u32) > 256 \<longleftrightarrow> 256 < ?n mod 2 ^ 32"
    by (simp add: word_less_nat_alt)
  have "length (request_packet (chan s a) (str ''pty-req'') 1
      (wire_string term @ htonu32 (word_of_int w) @ htonu32 (word_of_int h) @ htonu32 (word_of_int wp) @
       htonu32 (word_of_int hp) @ wire_string modes)) = 41 + ?n"
    by (simp add: request_packet_def)
  then have eq: "pty_start term modes w h wp hp a s = None \<longleftrightarrow> \<not> 256 < ?n mod 2 ^ 32 \<and> 41 + 256 < 41 + ?n"
    unfolding pty_start_def big request_built_def by (simp only: if_split option.simps simp_thms) auto
  have "?n mod 2 ^ 32 = (if ?n < 2 ^ 32 then ?n else ?n - 2 ^ 32)"
    using assms by (auto simp: mod_if)
  then show ?thesis unfolding eq using assms by (auto split: if_splits)
qed

text \<open>The change of a terminal's size forgets a request for a terminal whose reply is still awaited.\<close>

lemma pty_size_forgets_request:
  "rq_state (reqPTY (chan s a)) = NB_sent \<Longrightarrow> channel_request_pty_size a w h wp hp s =
     (E_PROTO, upd_chan a (reqPTY_update (rq_state_update (\<lambda>_. NB_idle))) s)"
  by (simp add: channel_request_pty_size_def Let_def)

section \<open>Witnesses\<close>

text \<open>All five requests of channel 3 have been sent, and a reply is there.\<close>

definition sample_request :: request where
  "sample_request = \<lparr>rq_state = NB_sent, rq_packet = [], rq_local_channel = htonu32 3\<rparr>"

definition sample_requests :: "byte \<Rightarrow> session" where
  "sample_requests t = sample_session\<lparr>mem := [True], inbox := [In_packet t (htonu32 3) True 0],
     chan := (\<lambda>_. sample_channel\<lparr>setenv_req := sample_request, reqPTY := sample_request, reqX11 := sample_request,
       process_req := sample_request, req_auth_agent := sample_request\<rparr>)\<rparr>"

lemma sample_replied:
  assumes "t \<in> {MSG_CHANNEL_SUCCESS, MSG_CHANNEL_FAILURE}"
    "get \<in> {setenv_req, reqPTY, reqX11, process_req, req_auth_agent}"
  shows "replied get 0 t (sample_requests t)"
  using assms by (auto simp: replied_def sample_requests_def sample_request_def sample_session_def sample_channel_def
      at_rest_def local_id_def empty_data_def)


lemma process_startup_single_use_witness:
  "\<exists>s' s2. channel_process_startup 0 (str ''shell'') None (sample_requests MSG_CHANNEL_SUCCESS) = Some (0, s') \<and>
     channel_process_startup 0 (str ''exec'') (Some [108, 115]) s' = Some (E_BAD_USE, s2)"
proof -
  let ?s = "sample_requests MSG_CHANNEL_SUCCESS"
  have rep: "replied process_req 0 MSG_CHANNEL_SUCCESS ?s" by (rule sample_replied) simp_all
  then have sent: "rq_state (process_req (chan ?s 0)) = NB_sent" by (simp add: replied_def)
  have "decided process_req 0 MSG_CHANNEL_SUCCESS NB_end ?s (channel_process_startup 0 (str ''shell'') None ?s)"
    using process.reply_decides [OF rep] sent
    by (simp add: channel_process_startup_def Let_def process.course_sent)
  then obtain s' where s': "channel_process_startup 0 (str ''shell'') None ?s = Some (0, s')"
    by (auto simp: decided_def)
  then show ?thesis using process_startup_single_use [OF s'] sent by auto
qed

lemma pty_packet_overflow_iff_witness:
  "pty_start (replicate (2 ^ 32 - 1) 120) [120, 120] 80 24 0 0 0 sample_session = None"
  by (subst pty_packet_overflow_iff) (simp_all only: length_replicate, simp_all)

end
