(* ===== verification/Scp.thy ===== *)
theory Scp
  imports Scp_Quote Request_Safety
begin

text \<open>
  Transferring a file with \<open>scp\<close>, \<^verbatim>\<open>libssh2/src/scp.c\<close>: \<open>scp_recv\<close> and \<open>scp_send\<close> open a channel, start the remote
  program on it and exchange header lines, one byte at a time where they read.  A call that would block returns a null
  pointer with the error code \<open>EAGAIN\<close> and is made again with the same arguments; its progress is in the record
  \<open>transfer\<close>, the fields \<open>scpRecv_*\<close> and \<open>scpSend_*\<close> of the session.  \<open>None\<close> is an access outside a block of memory, or a
  call that does not return.
\<close>

abbreviation SCP_RESPONSE_BUFLEN :: nat where "SCP_RESPONSE_BUFLEN \<equiv> 256"

record transfer =
  tr_state :: nb_state
  tr_command :: "bytes option"
  tr_channel :: "addr option"
  tr_response :: bytes
  tr_response_len :: nat

record receive = transfer +
  rv_mode :: int
  rv_size :: int
  rv_mtime :: int
  rv_atime :: int

record file_stat =
  st_mtime :: int
  st_atime :: int
  st_size :: int
  st_mode :: int

section \<open>Strings of the C library\<close>

text \<open>\<open>strtol\<close> and \<open>strtoll\<close> in a base up to ten: the value, which stays in the range of 64 bits, and the unread rest.\<close>

definition c_space :: "byte \<Rightarrow> bool" where
  "c_space c \<longleftrightarrow> c = SPACE \<or> (9 \<le> c \<and> c \<le> 13)"

definition c_digit :: "nat \<Rightarrow> byte \<Rightarrow> bool" where
  "c_digit base c \<longleftrightarrow> 48 \<le> unat c \<and> unat c < 48 + base"

definition digits_value :: "nat \<Rightarrow> bytes \<Rightarrow> nat" where
  "digits_value base ds = foldl (\<lambda>n c. n * base + (unat c - 48)) 0 ds"

definition clamp64 :: "int \<Rightarrow> int" where
  "clamp64 v = max (- (2 ^ 63)) (min (2 ^ 63 - 1) v)"

definition strtol :: "nat \<Rightarrow> bytes \<Rightarrow> int \<times> bytes" where
  "strtol base s =
     (let t = dropWhile c_space s;
          (sign, u) = (case t of [] \<Rightarrow> (1, []) | c # cs \<Rightarrow> if c = 45 then (- 1, cs) else if c = 43 then (1, cs) else (1, t));
          ds = takeWhile (c_digit base) u in
      if ds = [] then (0, s) else (clamp64 (sign * int (digits_value base ds)), drop (length ds) u))"

text \<open>\<open>strchr\<close> from an offset of a block: the offset of the first occurrence before the terminator.\<close>

definition strchr :: "bytes \<Rightarrow> nat \<Rightarrow> byte \<Rightarrow> nat option" where
  "strchr m s c =
     (let i = s + length (takeWhile (\<lambda>b. b \<noteq> 0 \<and> b \<noteq> c) (drop s m)) in
      if i < length m \<and> m ! i = c then Some i else None)"

section \<open>The lines that the remote side sends\<close>

text \<open>What the checks on the byte just read decide, given the number of bytes read so far.\<close>

datatype verdict = More | Bad string | Complete

definition line_end :: "nat \<Rightarrow> bytes \<Rightarrow> nat \<Rightarrow> verdict" where
  "line_end least r len =
     (if len < least \<or> r ! (len - 1) \<noteq> 10 then
        if len = SCP_RESPONSE_BUFLEN then Bad ''Unterminated response from SCP server'' else More
      else Complete)"

definition times_verdict :: "bytes \<Rightarrow> nat \<Rightarrow> verdict" where
  "times_verdict r len =
     (let last = r ! (len - 1) in
      if len > 1 \<and> (last < 48 \<or> last > 57) \<and> last \<noteq> SPACE \<and> last \<noteq> 13 \<and> last \<noteq> 10 then Bad ''Invalid data in SCP response''
      else line_end 9 r len)"

definition header_verdict :: "bytes \<Rightarrow> nat \<Rightarrow> verdict" where
  "header_verdict r len =
     (let last = r ! (len - 1) in
      if r ! 0 \<noteq> 67 then Bad ''Invalid response from SCP server''
      else if len > 1 \<and> last \<noteq> 13 \<and> last \<noteq> 10 \<and> last < 32 then Bad ''Invalid data in SCP response''
      else line_end 7 r len)"

text \<open>The end of the line is cut off; the first byte stops the loop.\<close>

fun strip_eol :: "bytes \<Rightarrow> nat \<Rightarrow> nat" where
  "strip_eol r 0 = 0"
| "strip_eol r (Suc n) = (if r ! n = 13 \<or> r ! n = 10 then strip_eol r n else Suc n)"

definition end_line :: "receive \<Rightarrow> receive" where
  "end_line rv =
     (let n = strip_eol (tr_response rv) (tr_response_len rv) in
      rv\<lparr>tr_response_len := n, tr_response := (tr_response rv)[n := 0]\<rparr>)"

text \<open>The two parsers: an error message, or nothing; what they have stored so far stays.\<close>

definition parse_times :: "receive \<Rightarrow> string option \<times> receive" where
  "parse_times rv =
     (let bad = (\<lambda>m. Some (''Invalid response from SCP server, '' @ m)); r = tr_response rv in
      case strchr r 1 SPACE of
        None \<Rightarrow> (bad ''malformed mtime'', rv)
      | Some p \<Rightarrow>
          if p \<le> 1 then (bad ''malformed mtime'', rv)
          else
            let r1 = r[p := 0];
                rv1 = rv\<lparr>tr_response := r1, rv_mtime := fst (strtol 10 (c_str (drop 1 r1)))\<rparr> in
            (case strchr r1 (p + 1) SPACE of
               None \<Rightarrow> (bad ''malformed mtime.usec'', rv1)
             | Some s \<Rightarrow>
                 if s \<le> p + 1 then (bad ''malformed mtime.usec'', rv1)
                 else
                   (case strchr r1 (s + 1) SPACE of
                      None \<Rightarrow> (bad ''too short or malformed'', rv1)
                    | Some q \<Rightarrow>
                        if q \<le> s + 1 then (bad ''too short or malformed'', rv1)
                        else
                          let r2 = r1[q := 0] in
                          (None, rv1\<lparr>tr_response := r2, rv_atime := fst (strtol 10 (c_str (drop (s + 1) r2)))\<rparr>))))"

definition parse_header :: "receive \<Rightarrow> string option \<times> receive" where
  "parse_header rv =
     (let bad = (\<lambda>m. Some (''Invalid response from SCP server, '' @ m)); r = tr_response rv in
      case strchr r 1 SPACE of
        None \<Rightarrow> (bad ''malformed mode'', rv)
      | Some p \<Rightarrow>
          if p \<le> 1 then (bad ''malformed mode'', rv)
          else
            let r1 = r[p := 0]; (mode, e) = strtol 8 (c_str (drop 1 r1));
                rv1 = rv\<lparr>tr_response := r1, rv_mode := mode\<rparr> in
            if e \<noteq> [] then (bad ''invalid mode'', rv1)
            else
              (case strchr r1 (p + 1) SPACE of
                 None \<Rightarrow> (bad ''too short or malformed'', rv1)
               | Some s \<Rightarrow>
                   if s \<le> p + 1 then (bad ''too short or malformed'', rv1)
                   else
                     let r2 = r1[s := 0]; (fsize, e) = strtol 10 (c_str (drop (p + 1) r2));
                         rv2 = rv1\<lparr>tr_response := r2, rv_size := fsize\<rparr> in
                     if e \<noteq> [] then (bad ''invalid size'', rv2) else (None, rv2)))"

section \<open>How a call ends\<close>

text \<open>
  A step goes on (\<open>None\<close>) or leaves the function: with a return value, at the label \<open>scp_recv_error\<close> or
  \<open>scp_send_error\<close>, or at the label for an empty channel.
\<close>

datatype exit = Return "addr option" | Failed | Empty_channel

type_synonym 'r outcome = "(exit option \<times> 'r \<times> session) option"

definition blocked :: "string \<Rightarrow> 'r \<Rightarrow> session \<Rightarrow> 'r outcome" where
  "blocked m rv s = Some (Some (Return None), rv, serr E_EAGAIN m s)"

definition failed :: "int \<Rightarrow> string \<Rightarrow> 'r \<Rightarrow> session \<Rightarrow> 'r outcome" where
  "failed code m rv s = Some (Some Failed, rv, serr code m s)"

definition proceed :: "'r outcome \<Rightarrow> ('r \<Rightarrow> session \<Rightarrow> 'r outcome) \<Rightarrow> 'r outcome" where
  "proceed x f = (case x of Some (None, rv, s) \<Rightarrow> f rv s | _ \<Rightarrow> x)"

definition in_state :: "nb_state set \<Rightarrow> ('a transfer_scheme \<Rightarrow> session \<Rightarrow> 'a transfer_scheme outcome) \<Rightarrow>
    'a transfer_scheme \<Rightarrow> session \<Rightarrow> 'a transfer_scheme outcome" where
  "in_state st f rv s = (if tr_state rv \<in> st then f rv s else Some (None, rv, s))"

text \<open>The loop around \<open>libssh2_channel_free\<close> on a non-blocking session, which may go on as long as the socket blocks.\<close>

partial_function (option) free_wait :: "addr \<Rightarrow> session \<Rightarrow> session option" where
  "free_wait a s =
     (case channel_free a s of
        None \<Rightarrow> None
      | Some (rc, s1) \<Rightarrow> if rc = E_EAGAIN then free_wait a s1 else Some s1)"

text \<open>The two labels: the error that was reported survives the release of the channel.\<close>

definition leave :: "'a transfer_scheme outcome \<Rightarrow> (addr option \<times> 'a transfer_scheme \<times> session) option" where
  "leave x =
     (let give_up = (\<lambda>rv s.
            case free_wait (the (tr_channel rv)) s of
              None \<Rightarrow> None
            | Some s1 \<Rightarrow>
                Some (None, rv\<lparr>tr_channel := None, tr_state := NB_idle\<rparr>, s1\<lparr>err_code := err_code s, err_msg := err_msg s\<rparr>)) in
      case x of
        None \<Rightarrow> None
      | Some (None, rv, s) \<Rightarrow> Some (tr_channel rv, rv\<lparr>tr_state := NB_idle\<rparr>, s)
      | Some (Some (Return r), rv, s) \<Rightarrow> Some (r, rv, s)
      | Some (Some Failed, rv, s) \<Rightarrow> give_up rv s
      | Some (Some Empty_channel, rv, s) \<Rightarrow>
          if channel_eof (the (tr_channel rv)) s \<noteq> 0 then give_up rv (serr E_SCP_PROTOCOL ''Unexpected channel close'' s)
          else Some (tr_channel rv, rv, s))"

section \<open>Steps that both directions share\<close>

definition start_command :: "char \<Rightarrow> bool \<Rightarrow> bool \<Rightarrow> bytes \<Rightarrow> 'a transfer_scheme \<Rightarrow> session \<Rightarrow> 'a transfer_scheme outcome" where
  "start_command opt p quote_paths path rv s =
     (let (ok, s1) = alloc s in
      if \<not> ok then
        Some (Some (Return None), rv\<lparr>tr_command := None\<rparr>,
          serr E_ALLOC ''Unable to allocate a command buffer for SCP session'' s1)
      else case scp_command opt p quote_paths path (replicate (scp_command_size p path) 0) of
        None \<Rightarrow> None
      | Some cmd \<Rightarrow> Some (None, rv\<lparr>tr_command := Some cmd, tr_state := NB_created\<rparr>, s1))"

definition open_session :: "'a transfer_scheme \<Rightarrow> session \<Rightarrow> 'a transfer_scheme outcome" where
  "open_session rv s =
     (case channel_open (str ''session'') CHANNEL_WINDOW_DEFAULT CHANNEL_PACKET_DEFAULT [] s of
        None \<Rightarrow> None
      | Some (None, s1) \<Rightarrow>
          if err_code s1 \<noteq> E_EAGAIN then
            Some (Some (Return None), rv\<lparr>tr_channel := None, tr_command := None, tr_state := NB_idle\<rparr>, s1)
          else blocked ''Would block starting up channel'' (rv\<lparr>tr_channel := None\<rparr>) s1
      | Some (Some a, s1) \<Rightarrow> Some (None, rv\<lparr>tr_channel := Some a, tr_state := NB_sent\<rparr>, s1))"

text \<open>A failure of the program's start is reported as it is (receiving) or under another code (sending).\<close>

definition exec_command :: "(session \<Rightarrow> session) \<Rightarrow> 'a transfer_scheme \<Rightarrow> session \<Rightarrow> 'a transfer_scheme outcome" where
  "exec_command report rv s =
     (case channel_process_startup (the (tr_channel rv)) (str ''exec'') (tr_command rv) s of
        None \<Rightarrow> None
      | Some (rc, s1) \<Rightarrow>
          if rc = E_EAGAIN then blocked ''Would block requesting SCP startup'' rv s1
          else if rc \<noteq> 0 then Some (Some Failed, rv\<lparr>tr_command := None\<rparr>, report s1)
          else Some (None, rv\<lparr>tr_command := None, tr_state := NB_sent1\<rparr>, s1))"

text \<open>Writing the first \<open>len\<close> bytes of the response buffer; \<open>None\<close> when they are not all in the buffer.\<close>

definition write_response :: "nat \<Rightarrow> string \<Rightarrow> (session \<Rightarrow> session) \<Rightarrow> nb_state \<Rightarrow> 'a transfer_scheme \<Rightarrow> session \<Rightarrow>
    'a transfer_scheme outcome" where
  "write_response len busy report final rv s =
     (if length (tr_response rv) < len then None
      else case channel_write (the (tr_channel rv)) 0 (take len (tr_response rv)) s of
        None \<Rightarrow> None
      | Some (rc, s1) \<Rightarrow>
          if rc = E_EAGAIN then blocked busy rv s1
          else if rc \<noteq> int len then Some (Some Failed, rv, report s1)
          else Some (None, rv\<lparr>tr_state := final\<rparr>, s1))"

text \<open>Reading one byte into the response buffer at \<open>off\<close>.\<close>

definition read_response :: "nat \<Rightarrow> string \<Rightarrow> (int \<Rightarrow> int) \<Rightarrow> string \<Rightarrow> 'a transfer_scheme \<Rightarrow> session \<Rightarrow> 'a transfer_scheme outcome" where
  "read_response off busy code m rv s =
     (case channel_read (the (tr_channel rv)) 0 1 s of
        None \<Rightarrow> None
      | Some ((rc, bs), s1) \<Rightarrow>
          if rc = E_EAGAIN then blocked busy rv s1
          else if rc < 0 then failed (code rc) m rv s1
          else if rc = 0 then Some (Some Empty_channel, rv, s1)
          else case poke off bs (tr_response rv) of
            None \<Rightarrow> None
          | Some r \<Rightarrow> Some (None, rv\<lparr>tr_response := r\<rparr>, s1))"

text \<open>The message of the remote side is read into fresh memory and dropped.\<close>

definition remote_error :: "string \<Rightarrow> string \<Rightarrow> 'a transfer_scheme \<Rightarrow> session \<Rightarrow> 'a transfer_scheme outcome" where
  "remote_error oom m rv s =
     (let err_len = channel_packet_data_len (the (tr_channel rv)) 0 s; (ok, s1) = alloc s in
      if \<not> ok then failed E_ALLOC oom rv s1
      else case channel_read (the (tr_channel rv)) 0 err_len s1 of
        None \<Rightarrow> None
      | Some (_, s2) \<Rightarrow> failed E_SCP_PROTOCOL m rv s2)"

section \<open>Receiving\<close>

text \<open>
  The two loops that read a line: the bytes are collected until \<open>verdict\<close> says that the line is complete or wrong, then
  the line is parsed.  The loop is entered in its reading state; after the parser it waits in the state \<open>parsed\<close> until
  the acknowledgement is out, and then is left.
\<close>

function read_line ::
  "(receive \<Rightarrow> session \<Rightarrow> receive outcome) \<Rightarrow> (bytes \<Rightarrow> nat \<Rightarrow> verdict) \<Rightarrow> nat \<Rightarrow> (receive \<Rightarrow> string option \<times> receive) \<Rightarrow> nb_state \<Rightarrow>
   receive \<Rightarrow> session \<Rightarrow> receive outcome" where
  "read_line check verdict least parse parsed rv s =
     (if \<not> tr_response_len rv < SCP_RESPONSE_BUFLEN then Some (None, rv, s)
      else case read_response (tr_response_len rv) ''Would block waiting for SCP response'' id ''Failed reading SCP response'' rv s of
        Some (None, rv1, s1) \<Rightarrow>
          let rv2 = rv1\<lparr>tr_response_len := tr_response_len rv + 1\<rparr> in
          proceed (check rv2 s1) (\<lambda>_ _.
            case verdict (tr_response rv2) (tr_response_len rv2) of
              Bad m \<Rightarrow> failed E_SCP_PROTOCOL m rv2 s1
            | More \<Rightarrow> read_line check verdict least parse parsed rv2 s1
            | Complete \<Rightarrow>
                let rv3 = end_line rv2 in
                if tr_response_len rv3 < least then
                  failed E_SCP_PROTOCOL ''Invalid response from SCP server, too short'' rv3 s1
                else (case parse rv3 of
                    (Some m, rv4) \<Rightarrow> failed E_SCP_PROTOCOL m rv4 s1
                  | (None, rv4) \<Rightarrow> Some (None, rv4\<lparr>tr_response := (tr_response rv4)[0 := 0], tr_state := parsed\<rparr>, s1)))
      | x \<Rightarrow> x)"
  by pat_completeness auto

termination
  by (relation "measure (\<lambda>(_, _, _, _, _, rv, _). SCP_RESPONSE_BUFLEN - tr_response_len rv)") auto

declare read_line.simps [simp del]

definition check_times :: "receive \<Rightarrow> session \<Rightarrow> receive outcome" where
  "check_times rv s =
     (if tr_response rv ! 0 \<noteq> 84 then remote_error ''Failed to get memory '' ''Failed to recv file'' rv s else Some (None, rv, s))"

definition recv_times :: "bool \<Rightarrow> receive \<Rightarrow> session \<Rightarrow> receive outcome" where
  "recv_times sb rv s =
     (if sb \<and> tr_response_len rv < SCP_RESPONSE_BUFLEN then
        proceed (in_state {NB_sent2} (read_line check_times times_verdict 8 parse_times NB_sent3) rv s)
          (in_state {NB_sent3} (write_response 1 ''Would block waiting to send SCP ACK'' id NB_sent4))
      else Some (None, rv, s))"

definition recv_header :: "receive \<Rightarrow> session \<Rightarrow> receive outcome" where
  "recv_header rv s =
     (if tr_response_len rv < SCP_RESPONSE_BUFLEN then
        proceed (in_state {NB_sent5} (read_line (\<lambda>rv s. Some (None, rv, s)) header_verdict 6 parse_header NB_sent6) rv s)
          (in_state {NB_sent6} (write_response 1 ''Would block sending SCP ACK'' id NB_sent7))
      else Some (None, rv, s))"

definition recv_start :: "bool \<Rightarrow> bool \<Rightarrow> bytes \<Rightarrow> receive \<Rightarrow> session \<Rightarrow> receive outcome" where
  "recv_start sb quote_paths path rv s =
     start_command CHR ''f'' sb quote_paths path (rv\<lparr>rv_mode := 0, rv_size := 0, rv_mtime := 0, rv_atime := 0\<rparr>) s"

definition to_state :: "nb_state \<Rightarrow> 'a transfer_scheme \<Rightarrow> session \<Rightarrow> 'a transfer_scheme outcome" where
  "to_state st rv s = Some (None, rv\<lparr>tr_state := st\<rparr>, s)"

text \<open>The chain of states, which a call enters where the last one left it.\<close>

definition recv_steps :: "bytes \<Rightarrow> bool \<Rightarrow> bool \<Rightarrow> (receive \<Rightarrow> session \<Rightarrow> receive outcome) list" where
  "recv_steps path sb quote_paths =
     [in_state {NB_idle} (recv_start sb quote_paths path),
      in_state {NB_created} open_session,
      in_state {NB_sent} (\<lambda>rv s. map_option (\<lambda>(e, rv', s').
        (e, (if e = None then rv'\<lparr>tr_response := (tr_response rv')[0 := 0]\<rparr> else rv'), s')) (exec_command id rv s)),
      in_state {NB_sent1} (\<lambda>rv s. map_option (\<lambda>(e, rv', s').
        (e, (if e = None then rv'\<lparr>tr_response_len := 0\<rparr> else rv'), s'))
        (write_response 1 ''Would block sending initial wakeup'' id NB_sent2 rv s)),
      in_state {NB_sent2, NB_sent3} (\<lambda>rv s. proceed (recv_times sb rv s) (to_state NB_sent4)),
      in_state {NB_sent4} (\<lambda>rv s. Some (None, rv\<lparr>tr_response_len := 0, tr_state := NB_sent5\<rparr>, s)),
      in_state {NB_sent5, NB_sent6} (\<lambda>rv s. proceed (recv_header rv s) (to_state NB_sent7))]"

definition run_steps :: "('r \<Rightarrow> session \<Rightarrow> 'r outcome) list \<Rightarrow> 'r \<Rightarrow> session \<Rightarrow> 'r outcome" where
  "run_steps fs rv s = foldl proceed (Some (None, rv, s)) fs"

text \<open>\<open>sb\<close> says whether the caller wants the file's attributes, which are the second result on success.\<close>

definition recv_stat :: "receive \<Rightarrow> file_stat" where
  "recv_stat rv = \<lparr>st_mtime = rv_mtime rv, st_atime = rv_atime rv, st_size = rv_size rv, st_mode = rv_mode rv mod 2 ^ 16\<rparr>"

definition scp_recv :: "bytes \<Rightarrow> bool \<Rightarrow> bool \<Rightarrow> receive \<Rightarrow> session \<Rightarrow> ((addr option \<times> file_stat option) \<times> receive \<times> session) option" where
  "scp_recv path sb quote_paths rv s =
     (let x = run_steps (recv_steps path sb quote_paths) rv s in
      map_option (\<lambda>(r, rv', s').
          ((r, case x of Some (None, rv1, _) \<Rightarrow> if sb then Some (recv_stat rv1) else None | _ \<Rightarrow> None), rv', s'))
        (leave x))"

section \<open>Sending\<close>

fun num_digits :: "nat \<Rightarrow> nat \<Rightarrow> bytes" where
  "num_digits base n =
     (if n < base \<or> base \<le> 1 then [word_of_nat (48 + n)] else num_digits base (n div base) @ [word_of_nat (48 + n mod base)])"

declare num_digits.simps [simp del]

text \<open>\<open>%ld\<close> and \<open>%o\<close>; \<open>snprintf\<close> into the response buffer returns the length that the text would have.\<close>

definition print_long :: "int \<Rightarrow> bytes" where
  "print_long v = (if v < 0 then 45 # num_digits 10 (nat (- v)) else num_digits 10 (nat v))"

definition print_octal :: "int \<Rightarrow> bytes" where
  "print_octal v = num_digits 8 (nat (v mod 2 ^ 32))"

definition print_response :: "bytes \<Rightarrow> 'a transfer_scheme \<Rightarrow> 'a transfer_scheme option" where
  "print_response line tr =
     map_option (\<lambda>r. tr\<lparr>tr_response := r, tr_response_len := length line\<rparr>)
       (poke 0 (take (SCP_RESPONSE_BUFLEN - 1) line @ [0]) (tr_response tr))"

definition times_line :: "int \<Rightarrow> int \<Rightarrow> bytes" where
  "times_line mtime atime = str ''T'' @ print_long mtime @ str '' 0 '' @ print_long atime @ str '' 0'' @ [10]"

text \<open>\<open>strrchr\<close>: what follows the last slash.\<close>

definition base_name :: "bytes \<Rightarrow> bytes" where
  "base_name path = rev (takeWhile (\<lambda>c. c \<noteq> 47) (rev path))"

definition header_line :: "int \<Rightarrow> int \<Rightarrow> bytes \<Rightarrow> bytes" where
  "header_line mode filesize path = str ''C0'' @ print_octal mode @ [SPACE] @ print_long filesize @ [SPACE] @ base_name path @ [10]"

definition wait_ack :: "string \<Rightarrow> (int \<Rightarrow> int) \<Rightarrow> string \<Rightarrow> ('a transfer_scheme \<Rightarrow> session \<Rightarrow> 'a transfer_scheme outcome) \<Rightarrow>
    'a transfer_scheme \<Rightarrow> session \<Rightarrow> 'a transfer_scheme outcome" where
  "wait_ack busy code m refused rv s =
     proceed (read_response 0 busy code m rv s)
       (\<lambda>rv s. if tr_response rv ! 0 \<noteq> 0 then refused rv s else Some (None, rv, s))"

definition send_times :: "bool \<Rightarrow> int \<Rightarrow> int \<Rightarrow> transfer \<Rightarrow> session \<Rightarrow> transfer outcome" where
  "send_times timed mtime atime tr s =
     (if timed then
        (case print_response (times_line mtime atime) tr of
           None \<Rightarrow> None
         | Some tr1 \<Rightarrow> to_state NB_sent2 tr1 s)
      else to_state NB_sent2 tr s)"

definition send_header :: "int \<Rightarrow> int \<Rightarrow> bytes \<Rightarrow> transfer \<Rightarrow> session \<Rightarrow> transfer outcome" where
  "send_header mode filesize path tr s =
     (case print_response (header_line mode filesize path) tr of
        None \<Rightarrow> None
      | Some tr1 \<Rightarrow> to_state NB_sent5 tr1 s)"

definition send_steps :: "bytes \<Rightarrow> int \<Rightarrow> int \<Rightarrow> int \<Rightarrow> int \<Rightarrow> bool \<Rightarrow> (transfer \<Rightarrow> session \<Rightarrow> transfer outcome) list" where
  "send_steps path mode filesize mtime atime quote_paths =
     (let timed = (mtime \<noteq> 0 \<or> atime \<noteq> 0); busy = ''Would block waiting for response'';
          unsent = (\<lambda>m. serr E_SOCKET_SEND m) in
      [in_state {NB_idle} (start_command CHR ''t'' timed quote_paths path),
       in_state {NB_created} open_session,
       in_state {NB_sent} (exec_command (serr E_SCP_PROTOCOL ''Unknown error while getting error string'')),
       in_state {NB_sent1} (\<lambda>tr s. proceed
         (wait_ack ''Would block waiting for response from remote'' id ''SCP failure''
            (failed E_SCP_PROTOCOL ''Invalid ACK response from remote'') tr s)
         (send_times timed mtime atime)),
       in_state {NB_sent2} (\<lambda>tr s.
         if timed then
           write_response (tr_response_len tr) ''Would block sending time data for SCP file''
             (unsent ''Unable to send time data for SCP file'') NB_sent3 tr s
         else to_state NB_sent4 tr s),
       in_state {NB_sent3} (\<lambda>tr s.
         if timed then
           proceed (wait_ack busy id ''SCP failure'' (failed E_SCP_PROTOCOL ''Invalid SCP ACK response'') tr s) (to_state NB_sent4)
         else Some (None, tr, s)),
       in_state {NB_sent4} (send_header mode filesize path),
       in_state {NB_sent5} (\<lambda>tr s. write_response (tr_response_len tr) ''Would block send core file data for SCP file''
         (unsent ''Unable to send core file data for SCP file'') NB_sent6 tr s),
       in_state {NB_sent6} (wait_ack busy (\<lambda>_. E_SCP_PROTOCOL) ''Invalid ACK response from remote''
         (remote_error ''failed to get memory'' ''failed to send file''))])"

definition scp_send :: "bytes \<Rightarrow> int \<Rightarrow> int \<Rightarrow> int \<Rightarrow> int \<Rightarrow> bool \<Rightarrow> transfer \<Rightarrow> session \<Rightarrow> (addr option \<times> transfer \<times> session) option" where
  "scp_send path mode filesize mtime atime quote_paths tr s =
     leave (run_steps (send_steps path mode filesize mtime atime quote_paths) tr s)"

end
