(* ===== verification/Scp_Lines.thy ===== *)
theory Scp_Lines
  imports Scp
begin

text \<open>
  The header lines of \<open>scp\<close>: what \<open>scp_send\<close> prints is what \<open>scp_recv\<close> reads, whatever the cuts between the calls, as
  long as it fits the response buffer.
\<close>

section \<open>Numbers\<close>

lemma digits_value_snoc [simp]: "digits_value base (ds @ [c]) = digits_value base ds * base + (unat c - 48)"
  by (simp add: digits_value_def)

lemma unat_digit: "n < 10 \<Longrightarrow> unat (word_of_nat (48 + n) :: byte) = 48 + n"
  by (subst unat_of_nat) simp

lemma num_digits_value:
  "2 \<le> base \<Longrightarrow> base \<le> 10 \<Longrightarrow> digits_value base (num_digits base n) = n \<and> list_all (c_digit base) (num_digits base n) \<and>
     num_digits base n \<noteq> []"
proof (induction base n rule: num_digits.induct)
  case (1 base n)
  show ?case
  proof (cases "n < base")
    case True
    then show ?thesis using 1(2,3) unat_digit [of n]
      by (subst (1 2 3) num_digits.simps) (simp add: digits_value_def c_digit_def)
  next
    case False
    have m: "n mod base < base" using 1(2) by simp
    then have m10: "n mod base < 10" using 1(3) by linarith
    have ih: "digits_value base (num_digits base (n div base)) = n div base"
        "list_all (c_digit base) (num_digits base (n div base))"
      using 1 False by auto
    show ?thesis using False 1(2) ih m unat_digit [OF m10]
      by (subst (1 2 3) num_digits.simps) (simp add: c_digit_def)
  qed
qed

lemma num_digits_length: "2 \<le> base \<Longrightarrow> n < base ^ k \<Longrightarrow> 0 < k \<Longrightarrow> length (num_digits base n) \<le> k"
proof (induction k arbitrary: n)
  case (Suc k)
  show ?case
  proof (cases "n < base")
    case True
    then show ?thesis by (subst num_digits.simps) simp
  next
    case False
    have "n div base < base ^ k" using Suc.prems(1,2) by (simp add: less_mult_imp_div_less mult.commute)
    moreover have "0 < k" using False Suc.prems(2) by (cases k) auto
    ultimately show ?thesis using Suc.IH Suc.prems(1) False by (subst num_digits.simps) simp
  qed
qed simp

text \<open>A digit is above the blanks and the signs.\<close>

lemma digit_range: "c_digit base c \<Longrightarrow> base \<le> 10 \<Longrightarrow> 48 \<le> c \<and> c \<le> 57"
  by (auto simp: c_digit_def word_le_nat_alt)

lemma strtol_digits:
  assumes "ds \<noteq> []" "list_all (c_digit base) ds" "base \<le> 10" "digits_value base ds < 2 ^ 63"
  shows "strtol base ds = (int (digits_value base ds), [])"
proof -
  obtain c cs where ds: "ds = c # cs" using assms(1) by (cases ds) auto
  have c: "48 \<le> unat c" "unat c \<le> 57" using assms(2,3) ds by (auto simp: c_digit_def)
  have "\<not> c_space c" "c \<noteq> 45" "c \<noteq> 43"
    using c by (auto simp: c_space_def word_le_nat_alt word_less_nat_alt)
  moreover have "takeWhile (c_digit base) ds = ds" using assms(2) by (simp add: list_all_iff)
  moreover have "int (digits_value base ds) \<le> 2 ^ 63 - 1"
    using assms(4) of_nat_less_iff [of "digits_value base ds" "2 ^ 63", where ?'a = int] by simp
  ultimately show ?thesis by (simp add: strtol_def ds Let_def clamp64_def)
qed

lemma strtol_negative:
  assumes "ds \<noteq> []" "list_all (c_digit base) ds" "digits_value base ds \<le> 2 ^ 63"
  shows "strtol base (45 # ds) = (- int (digits_value base ds), [])"
proof -
  have "\<not> c_space 45" by (simp add: c_space_def)
  moreover have "takeWhile (c_digit base) ds = ds" using assms(2) by (simp add: list_all_iff)
  moreover have "int (digits_value base ds) \<le> 2 ^ 63"
    using assms(3) of_nat_le_iff [of "digits_value base ds" "2 ^ 63", where ?'a = int] by simp
  ultimately show ?thesis using assms(1) by (simp add: strtol_def Let_def clamp64_def del: takeWhile_eq_all_conv)
qed

lemma strtol_print_long: "- (2 ^ 63) \<le> v \<Longrightarrow> v < 2 ^ 63 \<Longrightarrow> strtol 10 (print_long v) = (v, [])"
  using num_digits_value [of 10 "nat (- v)"] num_digits_value [of 10 "nat v"]
    strtol_digits [of "num_digits 10 (nat v)" 10] strtol_negative [of "num_digits 10 (nat (- v))" 10]
  by (auto simp: print_long_def)

lemma strtol_octal: "strtol 8 (48 # print_octal v) = (v mod 2 ^ 32, [])"
proof -
  let ?n = "nat (v mod 2 ^ 32)"
  have n: "digits_value 8 (num_digits 8 ?n) = ?n" "list_all (c_digit 8) (num_digits 8 ?n)"
    using num_digits_value [of 8 ?n] by simp_all
  have "digits_value 8 (48 # num_digits 8 ?n) = ?n" using n(1) by (simp add: digits_value_def)
  moreover have "list_all (c_digit 8) (48 # num_digits 8 ?n)" using n(2) by (simp add: c_digit_def)
  moreover have "?n < 2 ^ 63" by (rule less_trans [of _ "2 ^ 32"]) (simp_all add: nat_less_iff)
  ultimately show ?thesis
    using strtol_digits [of "48 # num_digits 8 ?n" 8] by (simp add: print_octal_def)
qed

section \<open>Parsing a line in the buffer\<close>

lemma strchr_found:
  assumes "m = u @ w @ c # r" "s = length u" "0 \<notin> set w" "c \<notin> set w"
  shows "strchr m s c = Some (s + length w)"
proof -
  have "takeWhile (\<lambda>b. b \<noteq> 0 \<and> b \<noteq> c) (w @ c # r) = w"
    using assms(3,4) by (intro takeWhile_append_stop) auto
  then show ?thesis by (simp add: strchr_def assms(1,2) nth_append)
qed

text \<open>A field of a line: not empty, without blanks and zero bytes.\<close>

definition field :: "bytes \<Rightarrow> bool" where
  "field w \<longleftrightarrow> w \<noteq> [] \<and> 0 \<notin> set w \<and> SPACE \<notin> set w"

lemma digits_field: "list_all (c_digit base) ds \<Longrightarrow> base \<le> 10 \<Longrightarrow> ds \<noteq> [] \<Longrightarrow> field ds"
  using digit_range by (fastforce simp: field_def list_all_iff)

lemma field_minus: "field ds \<Longrightarrow> field (45 # ds)"
  by (simp add: field_def)

lemma print_long_field: "field (print_long v)"
  using num_digits_value [of 10] by (auto simp: print_long_def intro!: field_minus digits_field [of 10])

lemma print_octal_field: "field (48 # print_octal v)"
  using num_digits_value [of 8 "nat (v mod 2 ^ 32)"]
  by (intro digits_field [of 8]) (auto simp: print_octal_def c_digit_def)

lemma parse_header_fields:
  assumes r: "tr_response rv = 67 # w @ SPACE # v @ SPACE # t" and f: "field w" "field v"
    and m: "strtol 8 w = (mode, [])" and n: "strtol 10 v = (n, [])"
  shows "parse_header rv = (None, rv\<lparr>tr_response := 67 # w @ 0 # v @ 0 # t, rv_mode := mode, rv_size := n\<rparr>)"
proof -
  have p: "strchr (67 # w @ SPACE # v @ SPACE # t) 1 SPACE = Some (1 + length w)"
    by (rule strchr_found [where u = "[67]"]) (use f in \<open>auto simp: field_def\<close>)
  have s: "strchr (67 # w @ 0 # v @ SPACE # t) (1 + length w + 1) SPACE = Some (1 + length w + 1 + length v)"
    by (rule strchr_found [where u = "67 # w @ [0]"]) (use f in \<open>auto simp: field_def\<close>)
  have u1: "(67 # w @ SPACE # v @ SPACE # t)[1 + length w := 0] = 67 # w @ 0 # v @ SPACE # t" by simp
  have u2: "(67 # w @ 0 # v @ SPACE # t)[1 + length w + 1 + length v := 0] = 67 # w @ 0 # v @ 0 # t"
    by (simp add: list_update_append)
  have c1: "c_str (drop 1 (67 # w @ 0 # v @ SPACE # t)) = w" using f by (simp add: field_def)
  have c2: "c_str (drop (1 + length w + 1) (67 # w @ 0 # v @ 0 # t)) = v" using f by (simp add: field_def)
  have "w \<noteq> []" "v \<noteq> []" using f by (simp_all add: field_def)
  then show ?thesis
    unfolding parse_header_def r Let_def p option.case u1 c1 m prod.case s
    by (simp add: u2 [simplified] c2 [simplified] n)
qed

lemma parse_times_fields:
  assumes r: "tr_response rv = 84 # w @ SPACE # v @ SPACE # x @ SPACE # t" and f: "field w" "field v" "field x"
  shows "parse_times rv = (None, rv\<lparr>tr_response := 84 # w @ 0 # v @ SPACE # x @ 0 # t,
    rv_mtime := fst (strtol 10 w), rv_atime := fst (strtol 10 x)\<rparr>)"
proof -
  let ?q = "1 + length w + 1 + length v + 1"
  have p: "strchr (84 # w @ SPACE # v @ SPACE # x @ SPACE # t) 1 SPACE = Some (1 + length w)"
    by (rule strchr_found [where u = "[84]"]) (use f in \<open>auto simp: field_def\<close>)
  have s: "strchr (84 # w @ 0 # v @ SPACE # x @ SPACE # t) (1 + length w + 1) SPACE = Some (1 + length w + 1 + length v)"
    by (rule strchr_found [where u = "84 # w @ [0]"]) (use f in \<open>auto simp: field_def\<close>)
  have q: "strchr (84 # w @ 0 # v @ SPACE # x @ SPACE # t) ?q SPACE = Some (?q + length x)"
    by (rule strchr_found [where u = "84 # w @ 0 # v @ [SPACE]"]) (use f in \<open>auto simp: field_def\<close>)
  have u1: "(84 # w @ SPACE # v @ SPACE # x @ SPACE # t)[1 + length w := 0] = 84 # w @ 0 # v @ SPACE # x @ SPACE # t" by simp
  have u2: "(84 # w @ 0 # v @ SPACE # x @ SPACE # t)[?q + length x := 0] = 84 # w @ 0 # v @ SPACE # x @ 0 # t"
    by (simp add: list_update_append)
  have c1: "c_str (drop 1 (84 # w @ 0 # v @ SPACE # x @ SPACE # t)) = w" using f by (simp add: field_def)
  have c2: "c_str (drop ?q (84 # w @ 0 # v @ SPACE # x @ 0 # t)) = x" using f by (simp add: field_def)
  have "w \<noteq> []" "v \<noteq> []" "x \<noteq> []" using f by (simp_all add: field_def)
  then show ?thesis
    unfolding parse_times_def r Let_def p option.case u1 c1 s
    by (simp add: q [simplified] u2 [simplified] c2 [simplified])
qed


section \<open>Reading a line from the channel\<close>

text \<open>A channel from which single bytes can be read, one after the other, none of the reads blocking.\<close>

inductive delivers :: "addr \<Rightarrow> session \<Rightarrow> bytes \<Rightarrow> session \<Rightarrow> bool" for a where
  delivers_Nil: "delivers a s [] s"
| delivers_Cons: "channel_read a 0 1 s = Some ((1, [b]), s1) \<Longrightarrow> delivers a s1 bs s' \<Longrightarrow> delivers a s (b # bs) s'"

inductive_cases delivers_NilE: "delivers a s [] s'"
inductive_simps delivers_Cons_iff: "delivers a s (b # bs) s'"

text \<open>The buffer of a transfer holds the front of a line.\<close>

definition holds :: "'a transfer_scheme \<Rightarrow> bytes \<Rightarrow> bool" where
  "holds rv line \<longleftrightarrow> length (tr_response rv) = SCP_RESPONSE_BUFLEN \<and> tr_response_len rv \<le> length line \<and>
     take (tr_response_len rv) (tr_response rv) = take (tr_response_len rv) line"

text \<open>What the loop needs to know of a line: the checks let it pass, and find its end where it ends.\<close>

definition accepted :: "(receive \<Rightarrow> session \<Rightarrow> receive outcome) \<Rightarrow> (bytes \<Rightarrow> nat \<Rightarrow> verdict) \<Rightarrow> bytes \<Rightarrow> bool" where
  "accepted check verdict line \<longleftrightarrow> length line \<le> SCP_RESPONSE_BUFLEN \<and>
     (\<forall>rv s. tr_response rv ! 0 = line ! 0 \<longrightarrow> check rv s = Some (None, rv, s)) \<and>
     (\<forall>r n. 0 < n \<longrightarrow> n \<le> length line \<longrightarrow> take n r = take n line \<longrightarrow> length r = SCP_RESPONSE_BUFLEN \<longrightarrow>
        verdict r n = (if n = length line then Complete else More))"

definition took :: "receive \<Rightarrow> byte \<Rightarrow> receive" where
  "took rv b = rv\<lparr>tr_response := take (tr_response_len rv) (tr_response rv) @ b # drop (tr_response_len rv + 1) (tr_response rv),
     tr_response_len := tr_response_len rv + 1\<rparr>"

lemma took_holds:
  assumes "holds rv line" "drop (tr_response_len rv) line = b # bs" "length line \<le> SCP_RESPONSE_BUFLEN"
  shows "holds (took rv b) line" "drop (tr_response_len (took rv b)) line = bs"
    "tr_response (took rv b) ! 0 = line ! 0"
proof -
  let ?k = "tr_response_len rv"
  have k: "?k < length line" using assms(2) by (cases "?k < length line") auto
  have b: "line ! ?k = b" "drop (Suc ?k) line = bs"
    using assms(2) Cons_nth_drop_Suc [OF k] by simp_all
  have t: "take ?k line @ [b] = take (Suc ?k) line" using take_Suc_conv_app_nth [OF k] b(1) by simp
  show h: "holds (took rv b) line"
    using assms(1,3) k t by (simp add: holds_def took_def)
  show "drop (tr_response_len (took rv b)) line = bs" using b(2) by (simp add: took_def)
  have "take (Suc ?k) (tr_response (took rv b)) ! 0 = take (Suc ?k) line ! 0"
    using h by (simp add: holds_def took_def)
  then show "tr_response (took rv b) ! 0 = line ! 0" by simp
qed

lemma read_line_takes:
  assumes "channel_read a 0 1 s = Some ((1, [b]), s1)" "tr_channel rv = Some a" "holds rv line"
    "drop (tr_response_len rv) line = b # bs" "accepted check verdict line"
  shows "read_line check verdict least parse parsed rv s =
    (if bs \<noteq> [] then read_line check verdict least parse parsed (took rv b) s1
     else let rv3 = end_line (took rv b) in
       if tr_response_len rv3 < least then failed E_SCP_PROTOCOL ''Invalid response from SCP server, too short'' rv3 s1
       else (case parse rv3 of
           (Some m, rv4) \<Rightarrow> failed E_SCP_PROTOCOL m rv4 s1
         | (None, rv4) \<Rightarrow> Some (None, rv4\<lparr>tr_response := (tr_response rv4)[0 := 0], tr_state := parsed\<rparr>, s1)))"
proof -
  let ?k = "tr_response_len rv"
  have len: "length line \<le> SCP_RESPONSE_BUFLEN" using assms(5) by (simp add: accepted_def)
  note t = took_holds [OF assms(3,4) len]
  have k: "?k < length line" using assms(4) by (cases "?k < length line") auto
  have room: "?k < SCP_RESPONSE_BUFLEN" using k len by simp
  have m: "length (tr_response rv) = SCP_RESPONSE_BUFLEN" using assms(3) by (simp add: holds_def)
  have r: "read_response ?k m' id m'' rv s = Some (None, rv\<lparr>tr_response := tr_response (took rv b)\<rparr>, s1)" for m' m''
    using assms(1,2) room m by (simp add: read_response_def poke_def took_def)
  have up: "rv\<lparr>tr_response := tr_response (took rv b), tr_response_len := Suc ?k\<rparr> = took rv b"
    by (simp add: took_def)
  have c: "check (took rv b) s1 = Some (None, took rv b, s1)"
    using assms(5) t(3) by (simp add: accepted_def)
  have n: "tr_response_len (took rv b) = ?k + 1" by (simp add: took_def)
  have "bs = [] \<longleftrightarrow> ?k + 1 = length line" using t(2) k n by auto
  then have v: "verdict (tr_response (took rv b)) (tr_response_len (took rv b)) = (if bs = [] then Complete else More)"
    using assms(5) t(1) k unfolding accepted_def holds_def n by auto
  show ?thesis
    by (subst read_line.simps) (use room in \<open>simp add: r up c v proceed_def Let_def\<close>)
qed

lemma read_line_front:
  assumes "delivers a s xs s1" "tr_channel rv = Some a" "holds rv line" "drop (tr_response_len rv) line = xs @ ys" "ys \<noteq> []"
    "accepted check verdict line"
  shows "\<exists>rv1. read_line check verdict least parse parsed rv s = read_line check verdict least parse parsed rv1 s1 \<and>
    holds rv1 line \<and> drop (tr_response_len rv1) line = ys \<and> (\<exists>r n. rv1 = rv\<lparr>tr_response := r, tr_response_len := n\<rparr>)"
  using assms(1-4)
proof (induction arbitrary: rv rule: delivers.induct)
  case (delivers_Nil s)
  then show ?case by (intro exI [of _ rv]) (auto intro!: exI [of _ "tr_response rv"] exI [of _ "tr_response_len rv"])
next
  case (delivers_Cons s b s1 bs s')
  have len: "length line \<le> SCP_RESPONSE_BUFLEN" using assms(6) by (simp add: accepted_def)
  have d: "drop (tr_response_len rv) line = b # (bs @ ys)" using delivers_Cons.prems(3) by simp
  note t = took_holds [OF delivers_Cons.prems(2) d len]
  have "tr_channel (took rv b) = Some a" using delivers_Cons.prems(1) by (simp add: took_def)
  from delivers_Cons.IH [OF this t(1,2)] obtain rv1 where rv1:
    "read_line check verdict least parse parsed (took rv b) s1 = read_line check verdict least parse parsed rv1 s'"
    "holds rv1 line" "drop (tr_response_len rv1) line = ys" "\<exists>r n. rv1 = (took rv b)\<lparr>tr_response := r, tr_response_len := n\<rparr>"
    by blast
  have "read_line check verdict least parse parsed rv s = read_line check verdict least parse parsed (took rv b) s1"
    using read_line_takes [OF delivers_Cons.hyps(1) delivers_Cons.prems(1,2) d assms(6)] assms(5) by simp
  moreover have "\<exists>r n. rv1 = rv\<lparr>tr_response := r, tr_response_len := n\<rparr>" using rv1(4) by (auto simp: took_def)
  ultimately show ?case using rv1(1-3) by auto
qed

lemma delivers_append: "delivers a s (xs @ ys) s2 \<longleftrightarrow> (\<exists>s1. delivers a s xs s1 \<and> delivers a s1 ys s2)"
proof (induction xs arbitrary: s)
  case Nil
  then show ?case by (auto intro: delivers_Nil elim: delivers_NilE)
next
  case (Cons b xs)
  show ?case using Cons.IH by (simp add: delivers_Cons_iff) blast
qed

text \<open>A complete line reaches the parser without its end; a line that is cut short is kept for the next call.\<close>

lemma end_of_line:
  assumes "holds rv (u @ [10])" "tr_response_len rv = length u + 1" "u \<noteq> []" "last u \<noteq> 13" "last u \<noteq> 10"
  obtains t where "end_line rv = rv\<lparr>tr_response := u @ 0 # t, tr_response_len := length u\<rparr>"
    "length (u @ 0 # t) = SCP_RESPONSE_BUFLEN"
proof
  let ?t = "drop (length u + 1) (tr_response rv)"
  have r: "tr_response rv = u @ 10 # ?t"
    using assms(1,2) append_take_drop_id [of "length u + 1" "tr_response rv"] by (simp add: holds_def)
  have "strip_eol (u @ 10 # t) (length u + 1) = length u" for t
    using assms(3-5) by (cases u rule: rev_cases) (simp_all add: nth_append)
  then show "end_line rv = rv\<lparr>tr_response := u @ 0 # ?t, tr_response_len := length u\<rparr>"
    unfolding end_line_def assms(2) by (subst (1 2) r) (simp add: Let_def list_update_append)
  show "length (u @ 0 # ?t) = SCP_RESPONSE_BUFLEN"
    using assms(1) by (subst (asm) holds_def, subst (asm) r) simp
qed

lemma read_line_complete:
  assumes d: "delivers a s (drop (tr_response_len rv) line) s1" and a: "tr_channel rv = Some a" and h: "holds rv line"
    and k: "tr_response_len rv < length line" and acc: "accepted check verdict line"
    and line: "line = u @ [10]" "u \<noteq> []" "last u \<noteq> 13" "last u \<noteq> 10" "least \<le> length u"
    and parse: "\<And>t. parse (rv\<lparr>tr_response := u @ 0 # t, tr_response_len := length u\<rparr>) = (None, g t)"
  shows "\<exists>t. length (u @ 0 # t) = SCP_RESPONSE_BUFLEN \<and> read_line check verdict least parse parsed rv s =
    Some (None, (g t)\<lparr>tr_response := (tr_response (g t))[0 := 0], tr_state := parsed\<rparr>, s1)"
proof -
  have split: "drop (tr_response_len rv) line = drop (tr_response_len rv) u @ [10]" using k line(1) by simp
  obtain s0 where s0: "delivers a s (drop (tr_response_len rv) u) s0" "delivers a s0 [10] s1"
    using d unfolding split delivers_append by blast
  obtain rv1 r n where rv1: "read_line check verdict least parse parsed rv s = read_line check verdict least parse parsed rv1 s0"
      "holds rv1 line" "drop (tr_response_len rv1) line = [10]" "rv1 = rv\<lparr>tr_response := r, tr_response_len := n\<rparr>"
    using read_line_front [OF s0(1) a h split _ acc] by blast
  have read: "channel_read a 0 1 s0 = Some ((1, [10]), s1)"
    using s0(2) by (auto simp: delivers_Cons_iff elim: delivers_NilE)
  have n: "n = length u"
  proof -
    have "length (drop n line) = 1" using rv1(3,4) by simp
    then show ?thesis using line(1) by simp
  qed
  have len: "length line \<le> SCP_RESPONSE_BUFLEN" using acc by (simp add: accepted_def)
  have "holds (took rv1 10) (u @ [10])" using took_holds(1) [OF rv1(2,3) len] line(1) by simp
  moreover have "tr_response_len (took rv1 10) = length u + 1" using rv1(4) n by (simp add: took_def)
  ultimately obtain t where t: "end_line (took rv1 10) = (took rv1 10)\<lparr>tr_response := u @ 0 # t, tr_response_len := length u\<rparr>"
      "length (u @ 0 # t) = SCP_RESPONSE_BUFLEN"
    using end_of_line line(2-4) by blast
  have e: "end_line (took rv1 10) = rv\<lparr>tr_response := u @ 0 # t, tr_response_len := length u\<rparr>"
    unfolding t(1) using rv1(4) by (simp add: took_def)
  have "tr_channel rv1 = Some a" using a rv1(4) by simp
  from read_line_takes [OF read this rv1(2,3) acc] show ?thesis
    using t(2) line(5) by (intro exI [of _ t]) (simp add: rv1(1) e parse)
qed

lemma read_line_blocks:
  assumes d: "delivers a s xs s1" and a: "tr_channel rv = Some a" and h: "holds rv line"
    and k: "drop (tr_response_len rv) line = xs @ ys" "ys \<noteq> []" and acc: "accepted check verdict line"
    and block: "channel_read a 0 1 s1 = Some ((E_EAGAIN, bs), s2)"
  shows "\<exists>rv1. read_line check verdict least parse parsed rv s = blocked ''Would block waiting for SCP response'' rv1 s2 \<and>
    holds rv1 line \<and> drop (tr_response_len rv1) line = ys \<and> (\<exists>r n. rv1 = rv\<lparr>tr_response := r, tr_response_len := n\<rparr>)"
proof -
  obtain rv1 where rv1: "read_line check verdict least parse parsed rv s = read_line check verdict least parse parsed rv1 s1"
      "holds rv1 line" "drop (tr_response_len rv1) line = ys" "\<exists>r n. rv1 = rv\<lparr>tr_response := r, tr_response_len := n\<rparr>"
    using read_line_front [OF d a h k acc] by blast
  have "tr_response_len rv1 < length line" using rv1(3) k(2) by (cases "tr_response_len rv1 < length line") auto
  then have room: "tr_response_len rv1 < SCP_RESPONSE_BUFLEN" using acc by (simp add: accepted_def)
  have "tr_channel rv1 = Some a" using rv1(4) a by auto
  then have "read_line check verdict least parse parsed rv1 s1 = blocked ''Would block waiting for SCP response'' rv1 s2"
    using block by (subst read_line.simps) (use room in \<open>simp add: read_response_def blocked_def\<close>)
  then show ?thesis using rv1 by auto
qed

section \<open>The two lines\<close>

lemma header_accepted:
  assumes "list_all (\<lambda>c. 32 \<le> c) u" "6 \<le> length u" "length u < SCP_RESPONSE_BUFLEN" "u ! 0 = 67"
  shows "accepted (\<lambda>rv s. Some (None, rv, s)) header_verdict (u @ [10])"
  unfolding accepted_def
proof (intro conjI allI impI)
  fix r :: bytes and n
  assume n: "0 < n" "n \<le> length (u @ [10])" "take n r = take n (u @ [10])" "length r = SCP_RESPONSE_BUFLEN"
  have nth: "r ! i = (u @ [10]) ! i" if "i < n" for i
    using n(3) that by (metis nth_take)
  have r0: "r ! 0 = 67" using nth [of 0] n(1) assms(2,4) by (simp add: nth_append split: if_splits)
  show "header_verdict r n = (if n = length (u @ [10]) then Complete else More)"
  proof (cases "n = length (u @ [10])")
    case True
    then have "r ! (n - 1) = 10" using nth [of "n - 1"] by simp
    then show ?thesis using r0 True assms(2,3) by (simp add: header_verdict_def line_end_def Let_def)
  next
    case False
    then have "n - 1 < length u" using n(1,2) by simp
    then have "r ! (n - 1) = u ! (n - 1)" "u ! (n - 1) \<in> set u"
      using nth [of "n - 1"] n(1) by (simp_all add: nth_append)
    moreover have "32 \<le> u ! (n - 1)" using calculation(2) assms(1) by (simp add: list_all_iff)
    ultimately have "32 \<le> r ! (n - 1)" by simp
    then have "\<not> r ! (n - 1) < 32" "r ! (n - 1) \<noteq> 10" by auto
    then show ?thesis using r0 False n(2) assms(3) by (simp add: header_verdict_def line_end_def Let_def)
  qed
qed (use assms in auto)


lemma times_accepted:
  assumes "list_all (\<lambda>c. c = SPACE \<or> 48 \<le> c \<and> c \<le> 57) (tl u)" "8 \<le> length u" "length u < SCP_RESPONSE_BUFLEN" "u ! 0 = 84"
  shows "accepted check_times times_verdict (u @ [10])"
  unfolding accepted_def
proof (intro conjI allI impI)
  fix r :: bytes and n
  assume n: "0 < n" "n \<le> length (u @ [10])" "take n r = take n (u @ [10])" "length r = SCP_RESPONSE_BUFLEN"
  have nth: "r ! i = (u @ [10]) ! i" if "i < n" for i
    using n(3) that by (metis nth_take)
  show "times_verdict r n = (if n = length (u @ [10]) then Complete else More)"
  proof (cases "n = length (u @ [10])")
    case True
    then have "r ! (n - 1) = 10" using nth [of "n - 1"] by simp
    then show ?thesis using True assms(2,3) by (simp add: times_verdict_def line_end_def Let_def)
  next
    case False
    then have k: "n - 1 < length u" using n(1,2) by simp
    then have r: "r ! (n - 1) = u ! (n - 1)" using nth [of "n - 1"] n(1) by (simp add: nth_append)
    consider "n = 1" | "1 < n" using n(1) by linarith
    then show ?thesis
    proof cases
      case 1
      then show ?thesis using r assms(2,4) by (auto simp: times_verdict_def line_end_def Let_def)
    next
      case 2
      then have "u ! (n - 1) \<in> set (tl u)"
        using k nth_tl [of "n - 2" u] nth_mem [of "n - 2" "tl u"] by (simp add: Suc_diff_Suc numeral_2_eq_2)
      then have "r ! (n - 1) = SPACE \<or> 48 \<le> r ! (n - 1) \<and> r ! (n - 1) \<le> 57"
        using assms(1) r by (simp add: list_all_iff)
      then have "r ! (n - 1) = SPACE \<or> \<not> (r ! (n - 1) < 48 \<or> r ! (n - 1) > 57)" "r ! (n - 1) \<noteq> 10" by auto
      then show ?thesis using False n(2) assms(3) by (auto simp: times_verdict_def line_end_def Let_def)
    qed
  qed
qed (use assms in \<open>auto simp: check_times_def nth_append split: if_splits\<close>)

lemma print_long_digits: "0 \<le> v \<Longrightarrow> list_all (\<lambda>c. 48 \<le> c \<and> c \<le> 57) (print_long v)"
  using num_digits_value [of 10 "nat v"] digit_range [of 10] by (auto simp: print_long_def list_all_iff)

lemma print_long_length: "\<bar>v\<bar> < 10 ^ 19 \<Longrightarrow> length (print_long v) \<le> 20"
  using num_digits_length [of 10 "nat (- v)" 19] num_digits_length [of 10 "nat v" 19]
  by (auto simp: print_long_def nat_less_iff)

lemma field_length: "field w \<Longrightarrow> 1 \<le> length w"
  by (cases w) (simp_all add: field_def)

definition times_body :: "int \<Rightarrow> int \<Rightarrow> bytes" where
  "times_body mtime atime = 84 # print_long mtime @ SPACE # [48] @ SPACE # print_long atime @ SPACE # [48]"

definition header_body :: "int \<Rightarrow> int \<Rightarrow> bytes \<Rightarrow> bytes" where
  "header_body mode filesize path = 67 # (48 # print_octal mode) @ SPACE # print_long filesize @ SPACE # base_name path"

lemma times_line_body: "times_line mtime atime = times_body mtime atime @ [10]"
  by (simp add: times_line_def times_body_def str_def)

lemma header_line_body: "header_line mode filesize path = header_body mode filesize path @ [10]"
  by (simp add: header_line_def header_body_def str_def)

lemma times_line_accepted:
  assumes "0 \<le> mtime" "mtime < 2 ^ 63" "0 \<le> atime" "atime < 2 ^ 63"
  shows "accepted check_times times_verdict (times_line mtime atime)" "8 \<le> length (times_body mtime atime)"
proof -
  have l: "length (print_long mtime) \<le> 20" "length (print_long atime) \<le> 20"
    by (rule print_long_length, use assms in simp)+
  show n: "8 \<le> length (times_body mtime atime)"
    using field_length [OF print_long_field, of mtime] field_length [OF print_long_field, of atime]
    by (simp add: times_body_def)
  have "list_all (\<lambda>c. c = SPACE \<or> 48 \<le> c \<and> c \<le> 57) (tl (times_body mtime atime))"
    using print_long_digits [OF assms(1)] print_long_digits [OF assms(3)] by (auto simp: times_body_def list_all_iff)
  then show "accepted check_times times_verdict (times_line mtime atime)"
    unfolding times_line_body by (rule times_accepted) (use n l in \<open>simp_all add: times_body_def\<close>)
qed

lemma field_visible: "list_all (c_digit base) w \<Longrightarrow> base \<le> 10 \<Longrightarrow> list_all (\<lambda>c. 32 \<le> c) w"
  unfolding list_all_iff
proof (intro impI ballI)
  fix c assume "\<forall>c \<in> set w. c_digit base c" "base \<le> 10" "c \<in> set w"
  then have "48 \<le> c" using digit_range by blast
  then show "32 \<le> c" by (rule order_trans [rotated]) simp
qed

lemma header_line_accepted:
  assumes "length (header_line mode filesize path) \<le> SCP_RESPONSE_BUFLEN" "list_all (\<lambda>c. 32 \<le> c) (base_name path)"
    "base_name path \<noteq> []"
  shows "accepted (\<lambda>rv s. Some (None, rv, s)) header_verdict (header_line mode filesize path)"
    "6 \<le> length (header_body mode filesize path)"
proof -
  have "1 \<le> length (print_octal mode)"
    using num_digits_value [of 8 "nat (mode mod 2 ^ 32)"] by (cases "print_octal mode") (auto simp: print_octal_def)
  moreover have "1 \<le> length (base_name path)" using assms(3) by (cases "base_name path") auto
  ultimately show n: "6 \<le> length (header_body mode filesize path)"
    using field_length [OF print_long_field, of filesize] by (simp add: header_body_def)
  have "list_all (\<lambda>c. 32 \<le> c) (print_octal mode)"
    using num_digits_value [of 8 "nat (mode mod 2 ^ 32)"] by (intro field_visible [of 8]) (auto simp: print_octal_def)
  moreover have "list_all (\<lambda>c. 32 \<le> c) (print_long filesize)"
    using num_digits_value [of 10 "nat filesize"] num_digits_value [of 10 "nat (- filesize)"]
    by (auto simp: print_long_def intro!: field_visible [of 10])
  ultimately have "list_all (\<lambda>c. 32 \<le> c) (header_body mode filesize path)"
    using assms(2) by (simp add: header_body_def)
  then show "accepted (\<lambda>rv s. Some (None, rv, s)) header_verdict (header_line mode filesize path)"
    unfolding header_line_body
    by (rule header_accepted) (use n assms(1) in \<open>simp_all add: header_body_def header_line_body\<close>)
qed

end
