(* ===== verification/Scp_Safety.thy ===== *)
theory Scp_Safety
  imports Scp_Lines
begin

text \<open>
  Properties of \<open>scp_recv\<close> and \<open>scp_send\<close>: the two sides understand each other, interruptions lose nothing, the buffer of
  the sender is read outside for long names, and in which states the calls can end.
\<close>

section \<open>Steps of a chain\<close>

lemma in_state_skip [simp]: "tr_state rv \<notin> st \<Longrightarrow> in_state st f rv s = Some (None, rv, s)"
  by (simp add: in_state_def)

lemma in_state_do: "tr_state rv \<in> st \<Longrightarrow> in_state st f rv s = f rv s"
  by (simp add: in_state_def)

lemma proceed_simps [simp]:
  "proceed None f = None"
  "proceed (Some (None, rv, s)) f = f rv s"
  "proceed (Some (Some e, rv, s)) f = Some (Some e, rv, s)"
  by (simp_all add: proceed_def)

lemma run_steps_Nil [simp]: "run_steps [] rv s = Some (None, rv, s)"
  by (simp add: run_steps_def)

lemma foldl_proceed_exit [simp]: "foldl proceed (Some (Some e, rv, s)) fs = Some (Some e, rv, s)" "foldl proceed None fs = None"
  by (induction fs) simp_all

lemma run_steps_Cons: "run_steps (f # fs) rv s = proceed (f rv s) (run_steps fs)"
  by (cases "f rv s") (auto simp: run_steps_def proceed_def split: option.splits)

lemma write_ack:
  assumes "tr_channel rv = Some a" "length (tr_response rv) = SCP_RESPONSE_BUFLEN" "tr_response rv ! 0 = 0"
    "channel_write a 0 [0] s = Some (1, s')"
  shows "write_response 1 m report final rv s = Some (None, rv\<lparr>tr_state := final\<rparr>, s')"
proof -
  have "take 1 (tr_response rv) = [0]" using assms(2,3) by (cases "tr_response rv") auto
  then show ?thesis using assms by (simp add: write_response_def)
qed

section \<open>The receiver understands the sender\<close>

lemma length_update0: "length (u @ 0 # t) = n \<Longrightarrow> length ((u @ 0 # t)[0 := 0]) = n" by simp

lemma recv_header_line:
  assumes line: "length (header_line mode filesize path) \<le> SCP_RESPONSE_BUFLEN" "list_all (\<lambda>c. 32 \<le> c) (base_name path)"
      "base_name path \<noteq> []" "- (2 ^ 63) \<le> filesize" "filesize < 2 ^ 63"
    and rv: "tr_state rv = NB_sent5" "tr_channel rv = Some a" "holds rv (header_line mode filesize path)"
      "tr_response_len rv < length (header_line mode filesize path)"
    and d: "delivers a s (drop (tr_response_len rv) (header_line mode filesize path)) s1"
    and w: "channel_write a 0 [0] s1 = Some (1, s2)"
  shows "\<exists>r n. recv_header rv s = Some (None, rv\<lparr>tr_response := r, tr_response_len := n, rv_mode := mode mod 2 ^ 32,
    rv_size := filesize, tr_state := NB_sent7\<rparr>, s2)"
proof -
  let ?u = "header_body mode filesize path"
  let ?w = "48 # print_octal mode" let ?v = "print_long filesize" let ?b = "base_name path"
  let ?g = "\<lambda>t. rv\<lparr>tr_response := 67 # ?w @ 0 # ?v @ 0 # (?b @ 0 # t), tr_response_len := length ?u,
    rv_mode := mode mod 2 ^ 32, rv_size := filesize\<rparr>"
  note acc = header_line_accepted [OF line(1-3)]
  have u: "?u @ 0 # t = 67 # ?w @ SPACE # ?v @ SPACE # (?b @ 0 # t)" for t by (simp add: header_body_def)
  have parse: "parse_header (rv\<lparr>tr_response := ?u @ 0 # t, tr_response_len := length ?u\<rparr>) = (None, ?g t)" for t
    using parse_header_fields [of "rv\<lparr>tr_response := ?u @ 0 # t, tr_response_len := length ?u\<rparr>" ?w ?v "?b @ 0 # t"
        "mode mod 2 ^ 32" filesize]
      u print_octal_field print_long_field strtol_octal strtol_print_long [OF line(4,5)] by simp
  have ne: "?u \<noteq> []" and la: "last ?u = last ?b" using line(3) by (simp_all add: header_body_def)
  have "last ?b \<in> set ?b" using line(3) by simp
  then have "32 \<le> last ?u" using line(2) la by (simp add: list_all_iff)
  then have la: "last ?u \<noteq> 13" "last ?u \<noteq> 10" by auto
  obtain t where t: "length (?u @ 0 # t) = SCP_RESPONSE_BUFLEN"
    "read_line (\<lambda>rv s. Some (None, rv, s)) header_verdict 6 parse_header NB_sent6 rv s =
      Some (None, (?g t)\<lparr>tr_response := (tr_response (?g t))[0 := 0], tr_state := NB_sent6\<rparr>, s1)"
    using read_line_complete [OF d rv(2,3,4) acc(1) header_line_body ne la acc(2), where g = ?g and parse = parse_header
        and parsed = NB_sent6] parse by blast
  let ?rv = "(?g t)\<lparr>tr_response := (tr_response (?g t))[0 := 0], tr_state := NB_sent6\<rparr>"
  have "write_response 1 m id NB_sent7 ?rv s1 = Some (None, ?rv\<lparr>tr_state := NB_sent7\<rparr>, s2)" for m
    by (rule write_ack) (use rv(2) w t(1) in \<open>simp_all add: header_body_def\<close>)
  moreover have "tr_response_len rv < SCP_RESPONSE_BUFLEN" using rv(4) line(1) by simp
  ultimately have "recv_header rv s = Some (None, ?rv\<lparr>tr_state := NB_sent7\<rparr>, s2)"
    using rv(1) t(2) by (simp add: recv_header_def in_state_do)
  then show ?thesis
    by (intro exI [of _ "(tr_response (?g t))[0 := 0]"] exI [of _ "length ?u"]) simp
qed

lemma recv_times_line:
  assumes line: "0 \<le> mtime" "mtime < 2 ^ 63" "0 \<le> atime" "atime < 2 ^ 63"
    and rv: "tr_state rv = NB_sent2" "tr_channel rv = Some a" "holds rv (times_line mtime atime)"
      "tr_response_len rv < length (times_line mtime atime)"
    and d: "delivers a s (drop (tr_response_len rv) (times_line mtime atime)) s1"
    and w: "channel_write a 0 [0] s1 = Some (1, s2)"
  shows "\<exists>r n. length r = SCP_RESPONSE_BUFLEN \<and> recv_times True rv s = Some (None, rv\<lparr>tr_response := r, tr_response_len := n,
    rv_mtime := mtime, rv_atime := atime, tr_state := NB_sent4\<rparr>, s2)"
proof -
  let ?u = "times_body mtime atime" let ?w = "print_long mtime" let ?x = "print_long atime"
  let ?g = "\<lambda>t. rv\<lparr>tr_response := 84 # ?w @ 0 # [48] @ SPACE # ?x @ 0 # (48 # 0 # t), tr_response_len := length ?u,
    rv_mtime := mtime, rv_atime := atime\<rparr>"
  note acc = times_line_accepted [OF line]
  have u: "?u @ 0 # t = 84 # ?w @ SPACE # [48] @ SPACE # ?x @ SPACE # (48 # 0 # t)" for t by (simp add: times_body_def)
  have zero: "field [48]" by (simp add: field_def)
  have parse: "parse_times (rv\<lparr>tr_response := ?u @ 0 # t, tr_response_len := length ?u\<rparr>) = (None, ?g t)" for t
    using parse_times_fields [of "rv\<lparr>tr_response := ?u @ 0 # t, tr_response_len := length ?u\<rparr>" ?w "[48]" ?x "48 # 0 # t"]
      u print_long_field zero strtol_print_long [of mtime] strtol_print_long [of atime] line by simp
  have ne: "?u \<noteq> []" "last ?u \<noteq> 13" "last ?u \<noteq> 10" by (simp_all add: times_body_def)
  obtain t where t: "length (?u @ 0 # t) = SCP_RESPONSE_BUFLEN"
    "read_line check_times times_verdict 8 parse_times NB_sent3 rv s =
      Some (None, (?g t)\<lparr>tr_response := (tr_response (?g t))[0 := 0], tr_state := NB_sent3\<rparr>, s1)"
    using read_line_complete [OF d rv(2,3,4) acc(1) times_line_body ne acc(2), where g = ?g and parse = parse_times
        and parsed = NB_sent3] parse by blast
  let ?rv = "(?g t)\<lparr>tr_response := (tr_response (?g t))[0 := 0], tr_state := NB_sent3\<rparr>"
  have len: "length (tr_response ?rv) = SCP_RESPONSE_BUFLEN" using t(1) by (simp add: times_body_def)
  have "write_response 1 m id NB_sent4 ?rv s1 = Some (None, ?rv\<lparr>tr_state := NB_sent4\<rparr>, s2)" for m
    by (rule write_ack) (use rv(2) w len in simp_all)
  moreover have "tr_response_len rv < SCP_RESPONSE_BUFLEN" using rv(4) acc(1) by (simp add: accepted_def)
  ultimately have "recv_times True rv s = Some (None, ?rv\<lparr>tr_state := NB_sent4\<rparr>, s2)"
    using rv(1) t(2) by (simp add: recv_times_def in_state_do)
  then show ?thesis using len
    by (intro exI [of _ "(tr_response (?g t))[0 := 0]"] exI [of _ "length ?u"]) simp
qed


text \<open>
  An interrupted call keeps what it has read.  When the bytes stop in the middle of the header line, \<open>scp_recv\<close>
  reports that it would block, holds the front of the line, and stays in the state in which the next call reads on.
\<close>

theorem scp_recv_resumes:
  assumes header: "length (header_line mode filesize path) \<le> SCP_RESPONSE_BUFLEN" "list_all (\<lambda>c. 32 \<le> c) (base_name path)"
      "base_name path \<noteq> []"
    and rv: "tr_state rv = NB_sent5" "tr_channel rv = Some a" "holds rv (header_line mode filesize path)"
    and d: "drop (tr_response_len rv) (header_line mode filesize path) = xs @ ys" "ys \<noteq> []" "delivers a s xs s1"
      "channel_read a 0 1 s1 = Some ((E_EAGAIN, bs), s2)"
  shows "\<exists>rv' s'. scp_recv p sb q rv s = Some ((None, None), rv', s') \<and> err_code s' = E_EAGAIN \<and> tr_state rv' = NB_sent5 \<and>
    tr_channel rv' = Some a \<and> holds rv' (header_line mode filesize path) \<and>
    drop (tr_response_len rv') (header_line mode filesize path) = ys"
proof -
  note acc = header_line_accepted [OF header]
  obtain rv1 r n where rv1: "read_line (\<lambda>rv s. Some (None, rv, s)) header_verdict 6 parse_header NB_sent6 rv s =
      blocked ''Would block waiting for SCP response'' rv1 s2" "holds rv1 (header_line mode filesize path)"
      "drop (tr_response_len rv1) (header_line mode filesize path) = ys" "rv1 = rv\<lparr>tr_response := r, tr_response_len := n\<rparr>"
    using read_line_blocks [OF d(3) rv(2,3) d(1,2) acc(1) d(4)] by blast
  have "tr_response_len rv < length (header_line mode filesize path)"
    using d(1,2) by (cases "tr_response_len rv < length (header_line mode filesize path)") auto
  then have "tr_response_len rv < SCP_RESPONSE_BUFLEN" using header(1) by simp
  then have "recv_header rv s = blocked ''Would block waiting for SCP response'' rv1 s2"
    using rv(1) rv1(1) by (simp add: recv_header_def in_state_do blocked_def)
  then have "scp_recv p sb q rv s = Some ((None, None), rv1, serr E_EAGAIN ''Would block waiting for SCP response'' s2)"
    using rv(1) by (simp add: scp_recv_def recv_steps_def run_steps_Cons in_state_do to_state_def leave_def blocked_def)
  then show ?thesis using rv1(2-4) rv(1,2) by simp
qed


section \<open>Long names\<close>

text \<open>
  C32: \<open>scp_send\<close> sends as many bytes as the header line would have, not as many as \<open>snprintf\<close> wrote.  When the line is longer
  than the response buffer, the call reads outside it; when it is as long as the buffer, a zero byte goes out in place of
  the end of the line; only when it is shorter the line is sent as it is.
\<close>

theorem scp_send_overread:
  assumes "tr_state tr = NB_sent4" "length (tr_response tr) = SCP_RESPONSE_BUFLEN"
  shows "if SCP_RESPONSE_BUFLEN < length (header_line mode filesize path) then scp_send path mode filesize mtime atime q tr s = None
    else \<exists>tr1. send_header mode filesize path tr s = Some (None, tr1, s) \<and>
      take (tr_response_len tr1) (tr_response tr1) =
        (if length (header_line mode filesize path) = SCP_RESPONSE_BUFLEN
         then butlast (header_line mode filesize path) @ [0] else header_line mode filesize path)"
proof -
  let ?l = "header_line mode filesize path"
  let ?r = "take 255 ?l @ 0 # drop (length (take 255 ?l) + 1) (tr_response tr)"
  let ?tr = "tr\<lparr>tr_response := ?r, tr_response_len := length ?l, tr_state := NB_sent5\<rparr>"
  have h: "send_header mode filesize path tr s = Some (None, ?tr, s)"
    using assms(2) by (simp add: send_header_def print_response_def poke_def to_state_def)
  have n: "length ?r = SCP_RESPONSE_BUFLEN" using assms(2) by simp
  show ?thesis
  proof (cases "SCP_RESPONSE_BUFLEN < length ?l")
    case True
    then have "write_response (length ?l) m f st ?tr s = None" for m f st
      using n by (simp add: write_response_def)
    then have "scp_send path mode filesize mtime atime q tr s = None"
      using assms(1) h by (simp add: scp_send_def send_steps_def run_steps_Cons in_state_do leave_def Let_def)
    then show ?thesis using True by simp
  next
    case False
    have "take 255 ?l @ [0] = butlast ?l @ [0]" if "length ?l = SCP_RESPONSE_BUFLEN"
      using that by (simp add: butlast_conv_take)
    then have "take (length ?l) ?r = (if length ?l = SCP_RESPONSE_BUFLEN then butlast ?l @ [0] else ?l)"
      using False by (auto simp: butlast_conv_take)
    then show ?thesis using False h by auto
  qed
qed

section \<open>How the calls end\<close>

text \<open>
  The state variables of a transfer between two calls: the command is owned exactly while it has not been sent, and there is
  a channel from the moment it is open.
\<close>

definition transfer_ok :: "'a transfer_scheme \<Rightarrow> bool" where
  "transfer_ok tr \<longleftrightarrow> length (tr_response tr) = SCP_RESPONSE_BUFLEN \<and>
     tr_state tr \<in> {NB_idle, NB_created, NB_sent, NB_sent1, NB_sent2, NB_sent3, NB_sent4, NB_sent5, NB_sent6, NB_sent7} \<and>
     (tr_command tr \<noteq> None \<longleftrightarrow> tr_state tr \<in> {NB_created, NB_sent}) \<and>
     (tr_state tr \<notin> {NB_idle, NB_created} \<longrightarrow> tr_channel tr \<noteq> None)"

text \<open>How a step ends: it goes on outside the states \<open>E\<close>, or leaves the function in one of the ways of \<open>leave\<close>.\<close>

fun ends_ok :: "nb_state set \<Rightarrow> exit option \<Rightarrow> 'a transfer_scheme \<Rightarrow> session \<Rightarrow> bool" where
  "ends_ok E None tr s \<longleftrightarrow> transfer_ok tr \<and> tr_state tr \<notin> E"
| "ends_ok E (Some (Return r)) tr s \<longleftrightarrow> r = None \<and> transfer_ok tr \<and> (err_code s = E_EAGAIN \<or> tr_state tr = NB_idle)"
| "ends_ok E (Some Failed) tr s \<longleftrightarrow> length (tr_response tr) = SCP_RESPONSE_BUFLEN \<and> tr_command tr = None"
| "ends_ok E (Some Empty_channel) tr s \<longleftrightarrow> transfer_ok tr \<and> tr_channel tr \<noteq> None \<and> tr_command tr = None"

definition step_ok :: "nb_state set \<Rightarrow> ('a transfer_scheme \<Rightarrow> session \<Rightarrow> 'a transfer_scheme outcome) \<Rightarrow> nb_state set \<Rightarrow> bool" where
  "step_ok D f E \<longleftrightarrow> (\<forall>tr s e tr' s'. transfer_ok tr \<longrightarrow> tr_state tr \<notin> D \<longrightarrow> f tr s = Some (e, tr', s') \<longrightarrow> ends_ok E e tr' s')"

lemma step_okI:
  "(\<And>tr s e tr' s'. transfer_ok tr \<Longrightarrow> tr_state tr \<notin> D \<Longrightarrow> f tr s = Some (e, tr', s') \<Longrightarrow> ends_ok E e tr' s') \<Longrightarrow> step_ok D f E"
  unfolding step_ok_def by blast

lemma step_okD: "step_ok D f E \<Longrightarrow> transfer_ok tr \<Longrightarrow> tr_state tr \<notin> D \<Longrightarrow> f tr s = Some (e, tr', s') \<Longrightarrow> ends_ok E e tr' s'"
  unfolding step_ok_def by blast

lemma ends_exit: "ends_ok E (Some x) tr s \<Longrightarrow> ends_ok F (Some x) tr s"
  by (cases x) simp_all

lemma step_proceed:
  assumes "step_ok D f E" "step_ok E g F"
  shows "step_ok D (\<lambda>tr s. proceed (f tr s) g) F"
proof (rule step_okI)
  fix tr s e tr' s'
  assume ok: "transfer_ok tr" "tr_state tr \<notin> D" and res: "proceed (f tr s) g = Some (e, tr', s')"
  obtain e1 tr1 s1 where f: "f tr s = Some (e1, tr1, s1)" using res by (cases "f tr s") auto
  have e1: "ends_ok E e1 tr1 s1" using step_okD [OF assms(1) ok f] .
  show "ends_ok F e tr' s'"
  proof (cases e1)
    case None
    then show ?thesis using step_okD [OF assms(2), of tr1 s1] res f e1 by simp
  next
    case (Some x)
    then show ?thesis using ends_exit res f e1 by auto
  qed
qed

lemma step_in_state:
  assumes "step_ok (- A) f E"
  shows "step_ok D (in_state A f) (E \<inter> (D \<union> A))"
proof (rule step_okI)
  fix tr s e tr' s'
  assume ok: "transfer_ok tr" "tr_state tr \<notin> D" and res: "in_state A f tr s = Some (e, tr', s')"
  show "ends_ok (E \<inter> (D \<union> A)) e tr' s'"
  proof (cases "tr_state tr \<in> A")
    case True
    then have "ends_ok E e tr' s'" using step_okD [OF assms ok(1)] res by (simp add: in_state_do)
    then show ?thesis by (cases e) (auto intro: ends_exit)
  next
    case False
    then show ?thesis using res ok by auto
  qed
qed

lemma step_mono: "step_ok D f E \<Longrightarrow> D \<subseteq> D' \<Longrightarrow> E' \<subseteq> E \<Longrightarrow> step_ok D' f E'"
proof (rule step_okI)
  fix tr s e tr' s'
  assume a: "step_ok D f E" "D \<subseteq> D'" "E' \<subseteq> E" "transfer_ok tr" "tr_state tr \<notin> D'" "f tr s = Some (e, tr', s')"
  then have "ends_ok E e tr' s'" by (blast intro: step_okD)
  then show "ends_ok E' e tr' s'" using a(3) by (cases e) (auto intro: ends_exit)
qed

lemma steps_Nil: "step_ok D (run_steps []) D"
  by (rule step_okI) auto

lemma steps_Cons: "step_ok D f E \<Longrightarrow> step_ok E (run_steps fs) F \<Longrightarrow> step_ok D (run_steps (f # fs)) F"
  using step_proceed [of D f E "run_steps fs" F] by (simp add: step_ok_def run_steps_Cons)

text \<open>The states in which a channel is open and the command is gone.\<close>

abbreviation talking :: "nb_state set" where
  "talking \<equiv> {NB_sent1, NB_sent2, NB_sent3, NB_sent4, NB_sent5, NB_sent6, NB_sent7}"

definition talks :: "'a transfer_scheme \<Rightarrow> bool" where
  "talks tr \<longleftrightarrow> length (tr_response tr) = SCP_RESPONSE_BUFLEN \<and> tr_command tr = None \<and> tr_channel tr \<noteq> None"

lemma talks_ok: "talks tr \<Longrightarrow> tr_state tr \<in> insert NB_idle talking \<Longrightarrow> transfer_ok tr"
  by (auto simp: talks_def transfer_ok_def)

lemma ok_talks: "transfer_ok tr \<Longrightarrow> tr_state tr \<in> talking \<Longrightarrow> talks tr"
  by (auto simp: talks_def transfer_ok_def)

lemma talks_state [simp]: "talks (tr\<lparr>tr_state := st\<rparr>) = talks tr" "talks (tr\<lparr>tr_response_len := n\<rparr>) = talks tr"
  by (simp_all add: talks_def)

lemma talks_response: "talks tr \<Longrightarrow> length r = SCP_RESPONSE_BUFLEN \<Longrightarrow> talks (tr\<lparr>tr_response := r\<rparr>)"
  by (simp add: talks_def)

text \<open>A step between states that talk on the channel.\<close>

lemma talk_okI:
  assumes "A \<subseteq> talking"
    and "\<And>tr s e tr' s'. talks tr \<Longrightarrow> tr_state tr \<in> A \<Longrightarrow> f tr s = Some (e, tr', s') \<Longrightarrow>
      talks tr' \<and> (case e of None \<Rightarrow> tr_state tr' \<in> B | Some (Return r) \<Rightarrow> r = None \<and> err_code s' = E_EAGAIN \<and> tr_state tr' \<in> talking
        | Some Failed \<Rightarrow> True | Some Empty_channel \<Rightarrow> tr_state tr' \<in> talking)"
    and "B \<subseteq> talking"
  shows "step_ok (- A) f (- B)"
proof (rule step_okI)
  fix tr s e tr' s'
  assume a: "transfer_ok tr" "tr_state tr \<notin> - A" "f tr s = Some (e, tr', s')"
  then have t: "tr_state tr \<in> A" "talks tr" using assms(1) ok_talks [OF a(1)] by auto
  note r = assms(2) [OF t(2,1) a(3)]
  then have "talks tr'" by simp
  note ok = talks_ok [OF this]
  show "ends_ok (- B) e tr' s'"
  proof (cases e)
    case None
    then show ?thesis using r ok assms(3) by auto
  next
    case (Some x)
    then show ?thesis using r ok by (cases x) (auto simp: talks_def)
  qed
qed

lemma start_ok: "opt \<in> {CHR ''f'', CHR ''t''} \<Longrightarrow> step_ok (- {NB_idle}) (start_command opt p q path) (- {NB_created})"
  by (rule step_okI) (auto simp: start_command_def transfer_ok_def alloc_def split: if_splits option.splits)

lemma open_ok: "step_ok (- {NB_created}) open_session (- {NB_sent})"
  by (rule step_okI) (auto simp: open_session_def transfer_ok_def blocked_def split: option.splits if_splits)

lemma exec_ok: "step_ok (- {NB_sent}) (exec_command report) (- {NB_sent1})"
  by (rule step_okI) (auto simp: exec_command_def transfer_ok_def blocked_def split: option.splits if_splits)

lemma write_response_ok:
  "st \<in> talking \<Longrightarrow> A \<subseteq> talking \<Longrightarrow> step_ok (- A) (write_response len busy report st) (- {st})"
  by (rule talk_okI) (auto simp: write_response_def blocked_def split: option.splits if_splits)

lemma to_state_ok: "st \<in> talking \<Longrightarrow> A \<subseteq> talking \<Longrightarrow> step_ok (- A) (to_state st) (- {st})"
  by (rule talk_okI) (auto simp: to_state_def)

lemma read_response_talks:
  assumes "read_response off busy code m tr s = Some (e, tr', s')" "talks tr"
  shows "talks tr' \<and> tr_state tr' = tr_state tr \<and> (e = None \<or> e = Some Failed \<or> e = Some Empty_channel \<or>
    e = Some (Return None) \<and> err_code s' = E_EAGAIN)"
  using assms
  by (auto simp: read_response_def blocked_def failed_def poke_length talks_def split: option.splits if_splits prod.splits)

lemma remote_error_talks:
  "remote_error oom m tr s = Some (e, tr', s') \<Longrightarrow> tr' = tr \<and> e = Some Failed"
  by (auto simp: remote_error_def failed_def split: option.splits if_splits prod.splits)


definition line_step :: "nb_state set \<Rightarrow> exit option \<Rightarrow> 'a transfer_scheme \<Rightarrow> session \<Rightarrow> bool" where
  "line_step B e tr s \<longleftrightarrow> talks tr \<and>
     (case e of None \<Rightarrow> tr_state tr \<in> B | Some (Return r) \<Rightarrow> r = None \<and> err_code s = E_EAGAIN \<and> tr_state tr \<in> talking
        | Some Failed \<Rightarrow> True | Some Empty_channel \<Rightarrow> tr_state tr \<in> talking)"

lemma talk_stepI:
  "A \<subseteq> talking \<Longrightarrow> B \<subseteq> talking \<Longrightarrow>
    (\<And>tr s e tr' s'. talks tr \<Longrightarrow> tr_state tr \<in> A \<Longrightarrow> f tr s = Some (e, tr', s') \<Longrightarrow> line_step B e tr' s') \<Longrightarrow> step_ok (- A) f (- B)"
  by (rule talk_okI) (auto simp: line_step_def)

lemma end_line_talks: "talks rv \<Longrightarrow> talks (end_line rv) \<and> tr_state (end_line rv) = tr_state rv"
  by (simp add: end_line_def Let_def talks_def)

lemma read_line_talks:
  assumes "read_line check verdict least parse parsed rv s = Some (e, rv', s')" "talks rv" "tr_state rv \<in> talking"
    and check: "\<And>rv s e rv' s'. check rv s = Some (e, rv', s') \<Longrightarrow> rv' = rv \<and> (e = None \<or> e = Some Failed)"
    and parse: "\<And>rv m rv'. parse rv = (m, rv') \<Longrightarrow> talks rv \<Longrightarrow> talks rv' \<and> tr_state rv' = tr_state rv"
  shows "line_step {tr_state rv, parsed} e rv' s'"
  using assms
proof (induction check verdict least parse parsed rv s rule: read_line.induct)
  case (1 check verdict least parse parsed rv s)
  show ?case
  proof (cases "tr_response_len rv < SCP_RESPONSE_BUFLEN")
    case False
    then show ?thesis using 1(2,3) by (subst (asm) read_line.simps) (simp add: line_step_def)
  next
    case room: True
    let ?read = "read_response (tr_response_len rv) ''Would block waiting for SCP response'' id ''Failed reading SCP response'' rv s"
    obtain e1 rv1 s1 where r: "?read = Some (e1, rv1, s1)"
      using 1(2) room by (subst (asm) read_line.simps) (cases ?read; auto)
    note t1 = read_response_talks [OF r 1(3)]
    show ?thesis
    proof (cases e1)
      case (Some x)
      then have "e = e1" "rv' = rv1" "s' = s1" using 1(2) room r by (subst (asm) read_line.simps, simp)+
      then show ?thesis using t1 1(4) Some by (auto simp: line_step_def split: exit.splits)
    next
      case None
      let ?rv2 = "rv1\<lparr>tr_response_len := tr_response_len rv + 1\<rparr>"
      have t2: "talks ?rv2" "tr_state ?rv2 = tr_state rv" using t1 by simp_all
      have eq: "proceed (check ?rv2 s1) (\<lambda>_ _.
            case verdict (tr_response ?rv2) (tr_response_len ?rv2) of
              Bad m \<Rightarrow> failed E_SCP_PROTOCOL m ?rv2 s1
            | More \<Rightarrow> read_line check verdict least parse parsed ?rv2 s1
            | Complete \<Rightarrow>
                let rv3 = end_line ?rv2 in
                if tr_response_len rv3 < least then
                  failed E_SCP_PROTOCOL ''Invalid response from SCP server, too short'' rv3 s1
                else (case parse rv3 of
                    (Some m, rv4) \<Rightarrow> failed E_SCP_PROTOCOL m rv4 s1
                  | (None, rv4) \<Rightarrow> Some (None, rv4\<lparr>tr_response := (tr_response rv4)[0 := 0], tr_state := parsed\<rparr>, s1)))
          = Some (e, rv', s')"
        using 1(2) unfolding read_line.simps [of check verdict least parse parsed rv s] r None
        by (simp only: room not_True_eq_False if_False option.case prod.case Let_def)
      obtain c rv3 s3 where c: "check ?rv2 s1 = Some (c, rv3, s3)" using eq by (cases "check ?rv2 s1") auto
      have c': "rv3 = ?rv2" "c = None \<or> c = Some Failed" using 1(5) [OF c] by auto
      show ?thesis
      proof (cases "c = None")
        case False
        then show ?thesis using eq c c' t2(1) by (auto simp: line_step_def)
      next
        case True
        show ?thesis
        proof (cases "verdict (tr_response ?rv2) (tr_response_len ?rv2)")
          case More
          then have "read_line check verdict least parse parsed ?rv2 s1 = Some (e, rv', s')" using eq c True by simp
          moreover have "tr_state ?rv2 \<in> talking" using t2(2) 1(4) by simp
          ultimately have "line_step {tr_state ?rv2, parsed} e rv' s'"
            using 1(1) [of "(None, rv1, s1)" None "(rv1, s1)" rv1 s1 ?rv2] 1(5,6) room r None More t2(1) by blast
          then show ?thesis using t2(2) by simp
        next
          case (Bad m)
          then show ?thesis using eq c True t2(1) by (auto simp: failed_def line_step_def)
        next
          case Complete
          obtain m rv4 where p: "parse (end_line ?rv2) = (m, rv4)" by fastforce
          have "talks rv4" using 1(6) [OF p] end_line_talks [OF t2(1)] by simp
          then have "talks (rv4\<lparr>tr_response := (tr_response rv4)[0 := 0], tr_state := parsed\<rparr>)"
            by (simp add: talks_def)
          then show ?thesis using eq c True Complete p \<open>talks rv4\<close> end_line_talks [OF t2(1)]
            by (auto simp: failed_def line_step_def Let_def split: if_splits option.splits)
        qed
      qed
    qed
  qed
qed


lemma step_map:
  assumes "step_ok D f E" and g: "\<And>tr. transfer_ok tr \<Longrightarrow> transfer_ok (g tr) \<and> tr_state (g tr) = tr_state tr"
  shows "step_ok D (\<lambda>tr s. map_option (\<lambda>(e, tr', s'). (e, (if e = None then g tr' else tr'), s')) (f tr s)) E"
proof (rule step_okI)
  fix tr s e tr' s'
  assume a: "transfer_ok tr" "tr_state tr \<notin> D"
    and "map_option (\<lambda>(e, tr', s'). (e, (if e = None then g tr' else tr'), s')) (f tr s) = Some (e, tr', s')"
  then obtain t where "f tr s = Some (e, t, s')" "tr' = (if e = None then g t else t)" by auto
  moreover have "ends_ok E e t s'" using step_okD [OF assms(1) a] calculation(1) by blast
  ultimately show "ends_ok E e tr' s'" using g [of t] by (cases e) simp_all
qed

lemma transfer_ok_response: "transfer_ok tr \<Longrightarrow> length r = SCP_RESPONSE_BUFLEN \<Longrightarrow> transfer_ok (tr\<lparr>tr_response := r\<rparr>)"
  by (simp add: transfer_ok_def)

lemma transfer_ok_len [simp]: "transfer_ok (tr\<lparr>tr_response_len := n\<rparr>) = transfer_ok tr"
  by (simp add: transfer_ok_def)

lemma transfer_ok_length: "transfer_ok tr \<Longrightarrow> length (tr_response tr) = SCP_RESPONSE_BUFLEN"
  by (simp add: transfer_ok_def)

lemma parse_times_talks: "parse_times rv = (m, rv') \<Longrightarrow> talks rv \<Longrightarrow> talks rv' \<and> tr_state rv' = tr_state rv"
  by (auto simp: parse_times_def Let_def talks_def split: option.splits if_splits)

lemma parse_header_talks: "parse_header rv = (m, rv') \<Longrightarrow> talks rv \<Longrightarrow> talks rv' \<and> tr_state rv' = tr_state rv"
  by (auto simp: parse_header_def Let_def talks_def split_beta split: option.splits if_splits)

lemma check_times_talks: "check_times rv s = Some (e, rv', s') \<Longrightarrow> rv' = rv \<and> (e = None \<or> e = Some Failed)"
  by (auto simp: check_times_def dest: remote_error_talks split: if_splits)

lemma line_loop_ok:
  assumes "st \<in> talking" "parsed \<in> talking"
    and check: "\<And>rv s e rv' s'. check rv s = Some (e, rv', s') \<Longrightarrow> rv' = rv \<and> (e = None \<or> e = Some Failed)"
    and parse: "\<And>rv m rv'. parse rv = (m, rv') \<Longrightarrow> talks rv \<Longrightarrow> talks rv' \<and> tr_state rv' = tr_state rv"
  shows "step_ok (- {st}) (read_line check verdict least parse parsed) (- {st, parsed})"
proof (rule talk_stepI)
  fix tr s e tr' s'
  assume a: "talks tr" "tr_state tr \<in> {st}" "read_line check verdict least parse parsed tr s = Some (e, tr', s')"
  then have st: "tr_state tr = st" "tr_state tr \<in> talking" using assms(1) by auto
  show "line_step {st, parsed} e tr' s'"
    using read_line_talks [OF a(3,1) st(2) check parse] st(1) by simp
qed (use assms in auto)

lemma step_guard:
  assumes "step_ok D f E" "E \<subseteq> D"
  shows "step_ok D (\<lambda>tr s. if b tr then f tr s else Some (None, tr, s)) E"
proof (rule step_okI)
  fix tr s e tr' s'
  assume a: "transfer_ok tr" "tr_state tr \<notin> D" and r: "(if b tr then f tr s else Some (None, tr, s)) = Some (e, tr', s')"
  show "ends_ok E e tr' s'"
  proof (cases "b tr")
    case True
    then show ?thesis using step_okD [OF assms(1) a] r by simp
  next
    case False
    then show ?thesis using r a assms(2) by auto
  qed
qed

lemma recv_times_ok: "step_ok (- {NB_sent2, NB_sent3}) (recv_times sb) (- {NB_sent2, NB_sent3, NB_sent4})"
proof -
  have l: "step_ok (- {NB_sent2}) (read_line check_times times_verdict 8 parse_times NB_sent3) (- {NB_sent2, NB_sent3})"
    by (rule line_loop_ok) (use check_times_talks parse_times_talks in auto)
  have "step_ok (- {NB_sent2, NB_sent3}) (in_state {NB_sent2} (read_line check_times times_verdict 8 parse_times NB_sent3))
      (- {NB_sent2, NB_sent3})"
    by (rule step_mono [OF step_in_state [OF l, where D = "- {NB_sent2, NB_sent3}"]]) auto
  moreover have "step_ok (- {NB_sent2, NB_sent3}) (in_state {NB_sent3} (write_response 1 m id NB_sent4)) (- {NB_sent2, NB_sent3, NB_sent4})" for m
    by (rule step_mono [OF step_in_state [OF write_response_ok, where D = "- {NB_sent2, NB_sent3}"]]) auto
  ultimately have "step_ok (- {NB_sent2, NB_sent3}) (\<lambda>rv s.
        proceed (in_state {NB_sent2} (read_line check_times times_verdict 8 parse_times NB_sent3) rv s)
          (in_state {NB_sent3} (write_response 1 ''Would block waiting to send SCP ACK'' id NB_sent4))) (- {NB_sent2, NB_sent3, NB_sent4})"
    by (rule step_proceed)
  from step_guard [OF this] show ?thesis unfolding recv_times_def [abs_def] by simp
qed

lemma recv_header_ok: "step_ok (- {NB_sent5, NB_sent6}) recv_header (- {NB_sent5, NB_sent6, NB_sent7})"
proof -
  let ?loop = "read_line (\<lambda>rv s. Some (None, rv, s)) header_verdict 6 parse_header NB_sent6"
  have l: "step_ok (- {NB_sent5}) ?loop (- {NB_sent5, NB_sent6})"
    by (rule line_loop_ok) (use parse_header_talks in auto)
  have "step_ok (- {NB_sent5, NB_sent6}) (in_state {NB_sent5} ?loop) (- {NB_sent5, NB_sent6})"
    by (rule step_mono [OF step_in_state [OF l, where D = "- {NB_sent5, NB_sent6}"]]) auto
  moreover have "step_ok (- {NB_sent5, NB_sent6}) (in_state {NB_sent6} (write_response 1 m id NB_sent7)) (- {NB_sent5, NB_sent6, NB_sent7})" for m
    by (rule step_mono [OF step_in_state [OF write_response_ok, where D = "- {NB_sent5, NB_sent6}"]]) auto
  ultimately have "step_ok (- {NB_sent5, NB_sent6}) (\<lambda>rv s. proceed (in_state {NB_sent5} ?loop rv s)
          (in_state {NB_sent6} (write_response 1 ''Would block sending SCP ACK'' id NB_sent7))) (- {NB_sent5, NB_sent6, NB_sent7})"
    by (rule step_proceed)
  from step_guard [OF this] show ?thesis unfolding recv_header_def [abs_def] by simp
qed

text \<open>The states that a call passes through on its way are behind it.\<close>

abbreviation unsent :: "nb_state set" where
  "unsent \<equiv> {NB_idle, NB_created, NB_sent}"

lemma talk_step: "step_ok (- A) f (- B) \<Longrightarrow> B \<inter> unsent = {} \<Longrightarrow> step_ok unsent (in_state A f) unsent"
  by (rule step_mono [OF step_in_state [where D = unsent]]) auto

lemma opening_steps:
  assumes rest: "step_ok unsent (run_steps fs) unsent"
    and start: "step_ok (- {NB_idle}) start (- {NB_created})" and exec: "step_ok (- {NB_sent}) exec (- {NB_sent1})"
  shows "step_ok {} (run_steps (in_state {NB_idle} start # in_state {NB_created} open_session # in_state {NB_sent} exec # fs)) unsent"
proof -
  have "step_ok {} (in_state {NB_idle} start) {NB_idle}"
    by (rule step_mono [OF step_in_state [OF start, where D = "{}"]]) auto
  moreover have "step_ok {NB_idle} (in_state {NB_created} open_session) {NB_idle, NB_created}"
    by (rule step_mono [OF step_in_state [OF open_ok, where D = "{NB_idle}"]]) auto
  moreover have "step_ok {NB_idle, NB_created} (in_state {NB_sent} exec) unsent"
    by (rule step_mono [OF step_in_state [OF exec, where D = "{NB_idle, NB_created}"]]) auto
  ultimately show ?thesis using rest by (blast intro: steps_Cons)
qed


lemma recv_steps_ok: "step_ok {} (run_steps (recv_steps path sb quote_paths)) unsent"
proof -
  have start: "step_ok (- {NB_idle}) (recv_start sb quote_paths path) (- {NB_created})"
  proof (rule step_okI)
    fix tr :: receive and s e tr' s'
    assume "transfer_ok tr" "tr_state tr \<notin> - {NB_idle}" "recv_start sb quote_paths path tr s = Some (e, tr', s')"
    then show "ends_ok (- {NB_created}) e tr' s'"
      unfolding recv_start_def by (intro step_okD [OF start_ok [of "CHR ''f''"]]) (auto simp: transfer_ok_def)
  qed
  have exec: "step_ok (- {NB_sent}) (\<lambda>rv s. map_option (\<lambda>(e, rv', s').
      (e, (if e = None then rv'\<lparr>tr_response := (tr_response rv')[0 := 0]\<rparr> else rv'), s')) (exec_command id rv s)) (- {NB_sent1})"
    by (rule step_map [OF exec_ok]) (simp add: transfer_ok_response transfer_ok_length)
  have wake: "step_ok (- {NB_sent1}) (\<lambda>rv s. map_option (\<lambda>(e, rv', s').
      (e, (if e = None then rv'\<lparr>tr_response_len := 0\<rparr> else rv'), s')) (write_response 1 m id NB_sent2 rv s)) (- {NB_sent2})" for m
    by (rule step_map [OF write_response_ok]) simp_all
  have times: "step_ok (- {NB_sent2, NB_sent3}) (\<lambda>rv s. proceed (recv_times sb rv s) (to_state NB_sent4)) (- {NB_sent4})"
    by (rule step_proceed [OF recv_times_ok to_state_ok]) simp_all
  have reset: "step_ok (- {NB_sent4}) (\<lambda>rv s. Some (None, rv\<lparr>tr_response_len := 0, tr_state := NB_sent5\<rparr>, s)) (- {NB_sent5})"
    by (rule talk_okI) auto
  have header: "step_ok (- {NB_sent5, NB_sent6}) (\<lambda>rv s. proceed (recv_header rv s) (to_state NB_sent7)) (- {NB_sent7})"
    by (rule step_proceed [OF recv_header_ok to_state_ok]) simp_all
  show ?thesis
    unfolding recv_steps_def
    by (intro opening_steps start exec steps_Cons [where D = unsent and E = unsent] steps_Nil
      talk_step [OF wake] talk_step [OF times] talk_step [OF reset] talk_step [OF header]) auto
qed

lemma idle_again: "length (tr_response tr) = SCP_RESPONSE_BUFLEN \<Longrightarrow> tr_command tr = None \<Longrightarrow>
    transfer_ok (tr\<lparr>tr_channel := None, tr_state := NB_idle\<rparr>)"
  by (simp add: transfer_ok_def)

text \<open>What the two labels make of the end of the chain.\<close>

lemma leave_ok:
  assumes x: "leave x = Some (r, tr', s')" and ok: "x = Some (e, tr, s)" "ends_ok unsent e tr s"
  shows "transfer_ok tr' \<and> (r = None \<longrightarrow> err_code s' = E_EAGAIN \<or> tr_state tr' = NB_idle) \<and>
    (r \<noteq> None \<longrightarrow> r = tr_channel tr' \<and>
      (if e = None then tr_state tr' = NB_idle else e = Some Empty_channel \<and> tr' = tr \<and> s' = s \<and> channel_eof (the r) s = 0))"
proof (cases e)
  case None
  then have "talks tr" "tr_state tr \<in> talking"
    using ok(2) by (auto simp: transfer_ok_def talks_def)
  then show ?thesis using x ok(1) None talks_ok [of "tr\<lparr>tr_state := NB_idle\<rparr>"] by (auto simp: leave_def talks_def)
next
  case (Some y)
  show ?thesis
  proof (cases y)
    case (Return v)
    then show ?thesis using x ok Some by (simp add: leave_def)
  next
    case Failed
    then show ?thesis using x ok Some idle_again [of tr] by (auto simp: leave_def split: option.splits)
  next
    case Empty_channel
    then show ?thesis using x ok Some idle_again [of tr] transfer_ok_length [of tr]
      by (auto simp: leave_def split: option.splits if_splits)
  qed
qed

text \<open>
  C31: How \<open>scp_recv\<close> ends.  The state variables stay consistent: the command is owned exactly while it is needed, and released
  on every failure.  A null pointer means that the call would block, or that it is over and the transfer is back in its idle state.
  A channel with attributes, or with none when none were asked for, is a complete start; any other channel is one that
  the remote side has left with unread output.
\<close>

theorem scp_recv_outcomes:
  assumes "scp_recv path sb q rv s = Some ((r, st), rv', s')" "transfer_ok rv"
  shows "transfer_ok rv' \<and> (r = None \<longrightarrow> err_code s' = E_EAGAIN \<or> tr_state rv' = NB_idle) \<and>
    (r \<noteq> None \<longrightarrow> r = tr_channel rv' \<and> (tr_state rv' = NB_idle \<and> (st \<noteq> None \<longleftrightarrow> sb) \<or> st = None \<and> channel_eof (the r) s' = 0))"
proof -
  let ?x = "run_steps (recv_steps path sb q) rv s"
  obtain l: "leave ?x = Some (r, rv', s')" and st: "st = (case ?x of Some (None, rv1, _) \<Rightarrow> if sb then Some (recv_stat rv1) else None | _ \<Rightarrow> None)"
    using assms(1) by (auto simp: scp_recv_def Let_def)
  then obtain e tr t where x: "?x = Some (e, tr, t)" by (cases ?x) (auto simp: leave_def)
  have "ends_ok unsent e tr t"
    using step_okD [OF recv_steps_ok assms(2) _ x] by simp
  from leave_ok [OF l x this] show ?thesis
    using st x by (cases e) auto
qed


section \<open>Sending\<close>

lemma wait_ack_ok:
  assumes A: "A \<subseteq> talking" and refused: "\<And>tr s e tr' s'. refused tr s = Some (e, tr', s') \<Longrightarrow> tr' = tr \<and> e = Some Failed"
  shows "step_ok (- A) (wait_ack busy code m refused) (- A)"
proof (rule talk_stepI [OF A A])
  fix tr s e tr' s'
  assume a: "talks tr" "tr_state tr \<in> A" and w: "wait_ack busy code m refused tr s = Some (e, tr', s')"
  obtain e1 tr1 s1 where r: "read_response 0 busy code m tr s = Some (e1, tr1, s1)"
    using w by (cases "read_response 0 busy code m tr s") (auto simp: wait_ack_def)
  note t = read_response_talks [OF r a(1)]
  have st: "tr_state tr1 \<in> A" "tr_state tr1 \<in> talking" using t a(2) A by auto
  show "line_step A e tr' s'"
  proof (cases e1)
    case None
    then show ?thesis
      using w r t st refused [of tr1 s1] by (auto simp: wait_ack_def line_step_def split: if_splits)
  next
    case (Some x)
    then have "e = e1" "tr' = tr1" "s' = s1" using w r by (simp_all add: wait_ack_def)
    then show ?thesis using t st Some by (auto simp: line_step_def split: exit.splits)
  qed
qed

lemma refusals:
  "failed c m tr s = Some (e, tr', s') \<Longrightarrow> tr' = tr \<and> e = Some Failed"
  "remote_error oom m tr s = Some (e, tr', s') \<Longrightarrow> tr' = tr \<and> e = Some Failed"
  by (auto simp: failed_def dest: remote_error_talks)

lemma print_talks: "print_response line tr = Some tr' \<Longrightarrow> talks tr \<Longrightarrow> talks tr' \<and> tr_state tr' = tr_state tr"
  by (auto simp: print_response_def poke_length talks_def)

lemma send_steps_ok: "step_ok {} (run_steps (send_steps path mode filesize mtime atime q)) unsent"
proof -
  have start: "step_ok (- {NB_idle}) (start_command CHR ''t'' p q path) (- {NB_created})" for p
    by (rule start_ok) simp
  have first: "step_ok (- {NB_sent1}) (\<lambda>tr s. proceed (wait_ack b code m (failed c m') tr s) (send_times t mtime atime)) (- {NB_sent2})"
    for b code m c m' t
  proof -
    have "step_ok (- {NB_sent1}) (send_times t mtime atime) (- {NB_sent2})"
      by (rule talk_okI) (auto simp: send_times_def to_state_def dest: print_talks split: if_splits option.splits)
    moreover have "step_ok (- {NB_sent1}) (wait_ack b code m (failed c m')) (- {NB_sent1})"
      by (rule wait_ack_ok) (auto dest: refusals)
    ultimately show ?thesis by (rule step_proceed [rotated])
  qed
  have second: "step_ok (- {NB_sent2}) (\<lambda>tr s. if t then write_response (tr_response_len tr) b r NB_sent3 tr s
      else to_state NB_sent4 tr s) (- {NB_sent3, NB_sent4})" for t b r
  proof (rule step_okI)
    fix tr s e tr' s'
    assume "transfer_ok tr" "tr_state tr \<notin> - {NB_sent2}"
      "(if t then write_response (tr_response_len tr) b r NB_sent3 tr s else to_state NB_sent4 tr s) = Some (e, tr', s')"
    then have "ends_ok (- {NB_sent3}) e tr' s' \<or> ends_ok (- {NB_sent4}) e tr' s'"
      using step_okD [OF write_response_ok [of NB_sent3 "{NB_sent2}"], of tr] step_okD [OF to_state_ok [of NB_sent4 "{NB_sent2}"], of tr]
      by (auto split: if_splits)
    then show "ends_ok (- {NB_sent3, NB_sent4}) e tr' s'" by (cases e) (auto intro: ends_exit)
  qed
  have third: "step_ok (- {NB_sent3}) (\<lambda>tr s. if t then proceed (wait_ack b code m (failed c m') tr s) (to_state NB_sent4)
      else Some (None, tr, s)) (- {NB_sent3, NB_sent4})" for t b code m c m'
  proof -
    have "step_ok (- {NB_sent3}) (wait_ack b code m (failed c m')) (- {NB_sent3})"
      by (rule wait_ack_ok) (auto dest: refusals)
    moreover have "step_ok (- {NB_sent3}) (to_state NB_sent4) (- {NB_sent3, NB_sent4})"
      by (rule step_mono [OF to_state_ok [of NB_sent4 "{NB_sent3}"]]) auto
    ultimately show ?thesis by (intro step_guard step_proceed [where E = "- {NB_sent3}"]) auto
  qed
  have header: "step_ok (- {NB_sent4}) (send_header mode filesize path) (- {NB_sent5})"
    by (rule talk_okI) (auto simp: send_header_def to_state_def dest: print_talks split: option.splits)
  have put: "step_ok (- {NB_sent5}) (\<lambda>tr s. write_response (tr_response_len tr) b r NB_sent6 tr s) (- {NB_sent6})" for b r
  proof (rule step_okI)
    fix tr s e tr' s'
    assume "transfer_ok tr" "tr_state tr \<notin> - {NB_sent5}" "write_response (tr_response_len tr) b r NB_sent6 tr s = Some (e, tr', s')"
    then show "ends_ok (- {NB_sent6}) e tr' s'"
      using step_okD [OF write_response_ok [of NB_sent6 "{NB_sent5}"], of tr] by auto
  qed
  have ack: "step_ok (- {NB_sent6}) (wait_ack b code m (remote_error o1 o2)) (- {NB_sent6})" for b code m o1 o2
    by (rule wait_ack_ok) (auto dest: refusals)
  show ?thesis
    unfolding send_steps_def Let_def
    by (intro opening_steps start exec_ok steps_Cons [where D = unsent and E = unsent] steps_Nil
      talk_step [OF first] talk_step [OF second] talk_step [OF third] talk_step [OF header] talk_step [OF put] talk_step [OF ack]) auto
qed

text \<open>
  How \<open>scp_send\<close> ends, in the same three ways; \<open>None\<close>, an access outside the buffer, is not among them.
\<close>

theorem scp_send_outcomes:
  assumes "scp_send path mode filesize mtime atime q tr s = Some (r, tr', s')" "transfer_ok tr"
  shows "transfer_ok tr' \<and> (r = None \<longrightarrow> err_code s' = E_EAGAIN \<or> tr_state tr' = NB_idle) \<and>
    (r \<noteq> None \<longrightarrow> r = tr_channel tr' \<and> (tr_state tr' = NB_idle \<or> channel_eof (the r) s' = 0))"
proof -
  let ?x = "run_steps (send_steps path mode filesize mtime atime q) tr s"
  have l: "leave ?x = Some (r, tr', s')" using assms(1) by (simp add: scp_send_def)
  then obtain e t u where x: "?x = Some (e, t, u)" by (cases ?x) (auto simp: leave_def)
  have "ends_ok unsent e t u" using step_okD [OF send_steps_ok assms(2) _ x] by simp
  from leave_ok [OF l x this] show ?thesis by (cases e) auto
qed

section \<open>A channel that is not ready\<close>

text \<open>
  C33: The test against an endless loop lets failures through.  When the remote program has written to its error stream and
  closed the channel, the read of the header line returns zero bytes while \<open>libssh2_channel_eof\<close> says no because
  of the unread message: \<open>scp_recv\<close> returns the channel as if the transfer had started.  The state does not change: the
  next call, for whatever file, goes on reading from the same channel.
\<close>

theorem scp_recv_returns_failed_channel:
  assumes "tr_state rv = NB_sent5" "tr_channel rv = Some a" "tr_response_len rv < SCP_RESPONSE_BUFLEN"
    and "channel_read a 0 1 s = Some ((0, bs), s1)" "channel_eof a s1 = 0"
  shows "scp_recv path sb q rv s = Some ((Some a, None), rv, s1)"
proof -
  have "recv_header rv s = Some (Some Empty_channel, rv, s1)"
    using assms(1-4) by (subst recv_header_def) (simp add: in_state_do read_line.simps [of _ _ _ _ _ rv] read_response_def)
  then show ?thesis
    using assms(1,2,5) by (simp add: scp_recv_def recv_steps_def run_steps_Cons in_state_do leave_def)
qed

section \<open>Instances\<close>

text \<open>
  A session on which nothing arrives any more and nothing fails: \<open>k\<close> bytes can be read and \<open>m\<close> written before a window
  has to be adjusted.
\<close>

definition quiet_talk :: "addr \<Rightarrow> nat \<Rightarrow> nat \<Rightarrow> session \<Rightarrow> bool" where
  "quiet_talk a k m s \<longleftrightarrow> inbox s = [] \<and> send_rc s = [] \<and> sflags s = 0 \<and> readPack_state s = NB_idle \<and>
     socket_state s = SOCKET_CONNECTED \<and> read_state (chan s a) = NB_idle \<and> write_state (chan s a) = NB_idle \<and>
     \<not> cd_close (ch_local (chan s a)) \<and> \<not> cd_eof (ch_local (chan s a)) \<and>
     \<not> cd_close (ch_remote (chan s a)) \<and> \<not> cd_eof (ch_remote (chan s a)) \<and>
     unat (window_size_initial (ch_remote (chan s a)) div 4 * 3) + k \<le> unat (window_size (ch_remote (chan s a))) \<and>
     m \<le> unat (window_size (ch_local (chan s a))) \<and> packet_size (ch_local (chan s a)) \<noteq> 0"

lemma quiet_drain: "quiet_talk a k m s \<Longrightarrow> drain s = Some (E_EAGAIN, s)"
  by (subst drain.simps) (simp add: quiet_talk_def transport_read_def)

lemma quiet_read_loop:
  assumes "in_stream 0 c \<lparr>pk_data = d, pk_head = h\<rparr>" "h < length d"
  shows "read_loop 0 c 1 (\<lparr>pk_data = d, pk_head = h\<rparr> # ps) =
    Some ([d ! h], if Suc h = length d then ps else \<lparr>pk_data = d, pk_head = Suc h\<rparr> # ps)"
proof -
  have "drop h d = d ! h # drop (Suc h) d" using Cons_nth_drop_Suc [OF assms(2)] by simp
  moreover have "read_loop 0 c 0 ps = Some ([], ps)" by (cases ps) simp_all
  ultimately show ?thesis using assms by (auto simp: in_stream_def Let_def not_less less_Suc_eq_le)
qed

lemma quiet_read:
  assumes q: "quiet_talk a (Suc k) m s" and p: "packets s = \<lparr>pk_data = d, pk_head = h\<rparr> # ps"
    and st: "in_stream 0 (chan s a) \<lparr>pk_data = d, pk_head = h\<rparr>" "h < length d"
  shows "\<exists>s'. channel_read a 0 1 s = Some ((1, [d ! h]), s') \<and> quiet_talk a k m s' \<and>
    packets s' = (if Suc h = length d then ps else \<lparr>pk_data = d, pk_head = Suc h\<rparr> # ps) \<and> ident s' a = ident s a"
proof -
  let ?w = "window_size (ch_remote (chan s a))"
  have adj: "read_adjust a 1 s = (None, s)"
    using q by (simp add: quiet_talk_def read_adjust_def Let_def)
  have w: "unat (?w - 1) = unat ?w - 1"
  proof -
    have "?w \<noteq> 0" using q by (auto simp: quiet_talk_def)
    then show ?thesis by (simp add: unat_minus_one)
  qed
  let ?s = "upd_chan a (\<lambda>c. (upd_remote (window_size_update (\<lambda>w. w - word_of_nat 1)) c)\<lparr>read_avail := size_sub (read_avail c) 1\<rparr>)
    (s\<lparr>packets := if Suc h = length d then ps else \<lparr>pk_data = d, pk_head = Suc h\<rparr> # ps\<rparr>)"
  have "channel_read a 0 1 s = Some ((1, [d ! h]), ?s)"
    unfolding channel_read_def adj using quiet_drain [OF q] quiet_read_loop [OF st]
    by (simp add: read_brigade_def p Let_def)
  moreover have "quiet_talk a k m ?s"
    using q w by (auto simp: quiet_talk_def upd_chan_def upd_remote_def)
  moreover have "ident ?s a = ident s a"
    by (simp add: ident_def requests_def upd_chan_def upd_remote_def local_id_def)
  ultimately show ?thesis by (intro exI [of _ ?s]) (simp add: upd_chan_def)
qed

lemma quiet_delivers:
  assumes "quiet_talk a (length bs + k) m s" "packets s = \<lparr>pk_data = u @ bs, pk_head = length u\<rparr> # ps"
    "in_stream 0 (chan s a) \<lparr>pk_data = u @ bs, pk_head = length u\<rparr>" "bs \<noteq> []"
  shows "\<exists>s'. delivers a s bs s' \<and> quiet_talk a k m s' \<and> packets s' = ps \<and> ident s' a = ident s a"
  using assms
proof (induction bs arbitrary: u s)
  case (Cons b bs)
  obtain s1 where s1: "channel_read a 0 1 s = Some ((1, [b]), s1)" "quiet_talk a (length bs + k) m s1" "ident s1 a = ident s a"
      "packets s1 = (if bs = [] then ps else \<lparr>pk_data = (u @ [b]) @ bs, pk_head = length (u @ [b])\<rparr> # ps)"
    using quiet_read [of a "length bs + k" m s "u @ b # bs" "length u" ps] Cons.prems by auto
  show ?case
  proof (cases "bs = []")
    case True
    then show ?thesis using s1 delivers_Cons [OF s1(1) delivers_Nil] by auto
  next
    case False
    have "in_stream 0 (chan s1 a) = in_stream 0 (chan s a)" by (rule in_stream_cong [OF s1(3)])
    moreover have "in_stream 0 (chan s a) \<lparr>pk_data = (u @ [b]) @ bs, pk_head = length (u @ [b])\<rparr>"
      using Cons.prems(3) by (simp add: in_stream_def matches_stream_def)
    ultimately have "in_stream 0 (chan s1 a) \<lparr>pk_data = (u @ [b]) @ bs, pk_head = length (u @ [b])\<rparr>" by simp
    from Cons.IH [OF s1(2) _ this False] obtain s' where
      "delivers a s1 bs s'" "quiet_talk a k m s'" "packets s' = ps" "ident s' a = ident s1 a"
      using s1(4) False by auto
    then show ?thesis using delivers_Cons [OF s1(1)] s1(3) by auto
  qed
qed simp

lemma quiet_write:
  assumes "quiet_talk a k (Suc m) s"
  shows "\<exists>s'. channel_write a 0 [0] s = Some (1, s') \<and> quiet_talk a k m s' \<and> packets s' = packets s \<and> ident s' a = ident s a"
proof -
  let ?w = "window_size (ch_local (chan s a))" and ?p = "packet_size (ch_local (chan s a))"
  have w: "?w \<noteq> 0" using assms by (auto simp: quiet_talk_def)
  have "unat ?p \<noteq> 0" using assms by (simp add: quiet_talk_def unat_eq_0)
  then have n: "min (min (min (length [0 :: byte]) 32700) (unat ?w)) (unat ?p) = 1"
    using assms by (auto simp: quiet_talk_def)
  have open': "\<not> cd_close (ch_local (chan s a))" "\<not> cd_eof (ch_local (chan s a))" "write_state (chan s a) = NB_idle" "send_rc s = []"
    using assms by (simp_all add: quiet_talk_def)
  note prep = write_prepare_open(2) [OF open'(1,2) quiet_drain [OF assms] _ n [symmetric], of 0]
  let ?pkt = "data_header (cd_id (ch_remote (chan s a))) 0 1"
  let ?s = "upd_chan a (\<lambda>c. (upd_local (window_size_update (\<lambda>w. w - word_of_nat 1)) c)\<lparr>write_state := NB_idle\<rparr>)
    ((upd_chan a (\<lambda>c. c\<lparr>write_bufwrite := 1, write_packet := data_header (cd_id (ch_remote c)) 0 1, write_state := NB_created\<rparr>) s)
      \<lparr>send_rc := [], sent := sent s @ [?pkt @ [0]]\<rparr>)"
  have "channel_write a 0 [0] s = Some (1, ?s)"
    using prep w open' by (simp add: channel_write_def write_send_def transport_send_def upd_chan_def Let_def)
  moreover have "quiet_talk a k m ?s"
    using assms w by (auto simp: quiet_talk_def upd_chan_def upd_local_def unat_minus_one)
  moreover have "ident ?s a = ident s a" by (simp add: ident_def requests_def upd_chan_def upd_local_def local_id_def)
  ultimately show ?thesis by (intro exI [of _ ?s]) (simp add: upd_chan_def)
qed


lemma quiet_empty:
  assumes "quiet_talk a (Suc k) m s" "packets s = []"
  shows "\<exists>s'. channel_read a 0 1 s = Some ((E_EAGAIN, []), s')"
proof -
  have "read_adjust a 1 s = (None, s)" "\<not> cd_eof (ch_remote (chan s a))" "\<not> cd_close (ch_remote (chan s a))"
    using assms(1) by (simp_all add: quiet_talk_def read_adjust_def Let_def)
  then show ?thesis
    using quiet_drain [OF assms(1)] assms(2) by (simp add: channel_read_def read_brigade_def Let_def)
qed

text \<open>The last byte of the line with the times and the whole header line wait in the brigade.\<close>

definition sample_talk :: "packet list \<Rightarrow> session" where
  "sample_talk ps = sample_session\<lparr>packets := ps,
     chan := (\<lambda>_. sample_channel\<lparr>ch_remote := empty_data\<lparr>cd_id := 7, window_size_initial := 64, window_size := 64, packet_size := 4\<rparr>\<rparr>)\<rparr>"

definition sample_recv :: "nb_state \<Rightarrow> bytes \<Rightarrow> receive" where
  "sample_recv st front = \<lparr>tr_state = st, tr_command = None, tr_channel = Some 0, tr_response = front @ replicate (256 - length front) 0,
     tr_response_len = length front, rv_mode = 0, rv_size = 0, rv_mtime = 0, rv_atime = 0\<rparr>"

lemma sample_lines:
  "times_line 5 7 = [84, 53, 32, 48, 32, 55, 32, 48, 10]" "header_line 420 2 [97] = [67, 48, 54, 52, 52, 32, 50, 32, 97, 10]"
  by (simp_all add: times_line_def header_line_def print_long_def print_octal_def num_digits.simps base_name_def str_def)

lemma sample_quiet: "quiet_talk 0 16 2 (sample_talk ps)"
  by (simp add: quiet_talk_def sample_talk_def sample_session_def sample_channel_def zero_channel_def empty_data_def)

lemma sample_in_stream: "in_stream 0 (chan (sample_talk ps) 0) \<lparr>pk_data = MSG_CHANNEL_DATA # htonu32 3 @ d, pk_head = h\<rparr>"
  by (simp add: in_stream_def matches_stream_def sample_talk_def sample_channel_def empty_data_def u32_at_def)


lemma scp_recv_resumes_witness:
  "\<exists>s rv' s'. scp_recv (str ''f'') True True (sample_recv NB_sent5 [67]) s = Some ((None, None), rv', s') \<and>
     tr_response_len rv' = 3 \<and> take 3 (tr_response rv') = [67, 48, 54]"
proof -
  let ?u = "MSG_CHANNEL_DATA # htonu32 3 @ htonu32 3 @ [67]" and ?rv = "sample_recv NB_sent5 [67]"
  let ?s = "sample_talk [\<lparr>pk_data = ?u @ [48, 54], pk_head = length ?u\<rparr>]"
  obtain s1 where s1: "delivers 0 ?s [48, 54] s1" "quiet_talk 0 14 2 s1" "packets s1 = []"
    using quiet_delivers [of 0 "[48, 54]" 14 2 ?s ?u "[]"] sample_quiet sample_in_stream by (auto simp: sample_talk_def)
  obtain s2 where s2: "channel_read 0 0 1 s1 = Some ((E_EAGAIN, []), s2)"
    using quiet_empty [of 0 13 2 s1] s1(2,3) by auto
  have l: "header_line 420 2 [97] = [67, 48, 54, 52, 52, 32, 50, 32, 97, 10]" by (rule sample_lines)
  have rv: "tr_state ?rv = NB_sent5" "tr_channel ?rv = Some 0" "holds ?rv (header_line 420 2 [97])"
      "drop (tr_response_len ?rv) (header_line 420 2 [97]) = [48, 54] @ [52, 52, 32, 50, 32, 97, 10]"
    by (simp_all add: holds_def sample_recv_def l)
  have "length (header_line 420 2 [97]) \<le> SCP_RESPONSE_BUFLEN" "list_all (\<lambda>c. 32 \<le> c) (base_name [97])" "base_name [97] \<noteq> []"
    by (simp_all add: l base_name_def)
  from scp_recv_resumes [OF this rv(1-4) _ s1(1) s2, of "str ''f''" True True] obtain rv' s' where r:
    "scp_recv (str ''f'') True True ?rv ?s = Some ((None, None), rv', s')" "holds rv' (header_line 420 2 [97])"
    "drop (tr_response_len rv') (header_line 420 2 [97]) = [52, 52, 32, 50, 32, 97, 10]"
    by auto
  have "tr_response_len rv' = 3" using arg_cong [OF r(3), of length] by (simp add: l)
  moreover have "take 3 (tr_response rv') = [67, 48, 54]" using r(2) calculation by (simp add: holds_def l)
  ultimately show ?thesis using r(1) by blast
qed

definition sample_idle_recv :: receive where
  "sample_idle_recv = (sample_recv NB_idle [])\<lparr>tr_channel := None\<rparr>"

lemma scp_recv_outcomes_witness:
  "\<exists>rv' s'. scp_recv (str ''f'') True True sample_idle_recv (sample_session\<lparr>mem := [False]\<rparr>) = Some ((None, None), rv', s') \<and>
     transfer_ok rv' \<and> tr_state rv' = NB_idle"
proof -
  let ?s = "sample_session\<lparr>mem := [False]\<rparr>"
  obtain rv' s' where r: "scp_recv (str ''f'') True True sample_idle_recv ?s = Some ((None, None), rv', s')" "err_code s' = E_ALLOC"
    by (simp add: scp_recv_def recv_steps_def run_steps_Cons in_state_do recv_start_def start_command_def alloc_def leave_def
        sample_idle_recv_def sample_recv_def sample_session_def)
  have "transfer_ok sample_idle_recv" by (simp add: transfer_ok_def sample_idle_recv_def sample_recv_def)
  from scp_recv_outcomes [OF r(1) this] show ?thesis using r by auto
qed

definition sample_send :: "nb_state \<Rightarrow> transfer" where
  "sample_send st = \<lparr>tr_state = st, tr_command = None, tr_channel = Some 0, tr_response = replicate 256 0, tr_response_len = 0\<rparr>"

lemma scp_send_outcomes_witness:
  "\<exists>tr' s'. scp_send (str ''f'') 420 2 0 0 True (sample_send NB_idle) (sample_session\<lparr>mem := [False]\<rparr>) = Some (None, tr', s') \<and>
     transfer_ok tr' \<and> tr_state tr' = NB_idle"
proof -
  let ?s = "sample_session\<lparr>mem := [False]\<rparr>"
  obtain tr' s' where r: "scp_send (str ''f'') 420 2 0 0 True (sample_send NB_idle) ?s = Some (None, tr', s')" "err_code s' = E_ALLOC"
    by (simp add: scp_send_def send_steps_def run_steps_Cons in_state_do start_command_def alloc_def leave_def
        sample_send_def sample_session_def)
  have "transfer_ok (sample_send NB_idle)" by (simp add: transfer_ok_def sample_send_def)
  from scp_send_outcomes [OF r(1) this] show ?thesis using r by auto
qed

lemma scp_send_overread_witness:
  "scp_send (replicate 250 97) 420 2 0 0 True (sample_send NB_sent4) sample_session = None"
proof -
  have "takeWhile (\<lambda>c. c \<noteq> 47) (replicate 250 (97 :: byte)) = replicate 250 97"
    by (rule takeWhile_eq_all_conv [THEN iffD2]) auto
  then have "length (header_line 420 2 (replicate 250 97)) = 259"
    by (simp add: header_line_def print_long_def print_octal_def num_digits.simps base_name_def)
  then show ?thesis
    using scp_send_overread [of "sample_send NB_sent4" 420 2 "replicate 250 97" 0 0 True sample_session] by (simp add: sample_send_def)
qed

text \<open>The remote side has written two bytes to its error stream and ended its output.\<close>

definition sample_refused :: session where
  "sample_refused = upd_chan 0 (upd_remote (cd_eof_update (\<lambda>_. True))) sample_idle"

lemma scp_recv_returns_failed_channel_witness:
  "\<exists>s1. scp_recv (str ''f'') True True (sample_recv NB_sent5 []) sample_refused = Some ((Some 0, None), sample_recv NB_sent5 [], s1) \<and>
     channel_stream 0 1 s1 = [8, 9]"
proof -
  have "case channel_read 0 0 1 sample_refused of None \<Rightarrow> False
    | Some ((rc, b), s1) \<Rightarrow> rc = 0 \<and> b = [] \<and> channel_eof 0 s1 = 0 \<and> channel_stream 0 1 s1 = [8, 9]"
    by code_simp
  then obtain s1 where s1: "channel_read 0 0 1 sample_refused = Some ((0, []), s1)" "channel_eof 0 s1 = 0" "channel_stream 0 1 s1 = [8, 9]"
    by (auto split: option.splits)
  then show ?thesis
    using scp_recv_returns_failed_channel [OF _ _ _ s1(1,2), of "sample_recv NB_sent5 []"] by (simp add: sample_recv_def)
qed

end
