(* ===== verification/Sftp_Attrs.thy ===== *)
theory Sftp_Attrs
  imports Wire Errors
begin

text \<open>
  The attributes of a file in SFTP packets, \<^verbatim>\<open>libssh2/src/sftp.c\<close>: their size, \<open>sftp_attr2bin\<close> and \<open>sftp_bin2attr\<close>.  The
  C type \<^verbatim>\<open>unsigned long\<close> has 64 bits; on the wire everything but the file's size has 32.
\<close>

section \<open>The structure\<close>

record sftp_attrs =
  at_flags :: u64
  filesize :: u64
  uid :: u64
  gid :: u64
  permissions :: u64
  atime :: u64
  mtime :: u64

abbreviation ATTR_SIZE :: u64 where "ATTR_SIZE \<equiv> 0x00000001"
abbreviation ATTR_UIDGID :: u64 where "ATTR_UIDGID \<equiv> 0x00000002"
abbreviation ATTR_PERMISSIONS :: u64 where "ATTR_PERMISSIONS \<equiv> 0x00000004"
abbreviation ATTR_ACMODTIME :: u64 where "ATTR_ACMODTIME \<equiv> 0x00000008"
abbreviation ATTR_EXTENDED :: u64 where "ATTR_EXTENDED \<equiv> 0x80000000"

definition has :: "u64 \<Rightarrow> u64 \<Rightarrow> bool" where
  "has flags m \<longleftrightarrow> flags AND m \<noteq> 0"

definition sftp_attrsize :: "u64 \<Rightarrow> nat" where
  "sftp_attrsize flags =
     4 + (if has flags ATTR_SIZE then 8 else 0) + (if has flags ATTR_UIDGID then 8 else 0) +
     (if has flags ATTR_PERMISSIONS then 4 else 0) + (if has flags ATTR_ACMODTIME then 8 else 0)"

section \<open>Writing\<close>

text \<open>The stores behind a test of the flags; \<open>None\<close> is a store outside the packet.\<close>

definition store_if :: "bool \<Rightarrow> (wbuf \<Rightarrow> wbuf option) \<Rightarrow> wbuf \<Rightarrow> wbuf option" where
  "store_if c f w = (if c then f w else Some w)"

definition store_u32s :: "u64 \<Rightarrow> u64 \<Rightarrow> wbuf \<Rightarrow> wbuf option" where
  "store_u32s a b w = Option.bind (store_u32 (ucast a) w) (store_u32 (ucast b))"

text \<open>
  Without attributes an empty set of flags is written.  The returned number of bytes is the distance that the position has moved.
\<close>

definition sftp_attr2bin :: "sftp_attrs option \<Rightarrow> wbuf \<Rightarrow> wbuf option" where
  "sftp_attr2bin attrs w =
     (case attrs of
        None \<Rightarrow> put_bytes (htonu32 0) w
      | Some a \<Rightarrow>
          let flag_mask = ATTR_SIZE OR ATTR_UIDGID OR ATTR_PERMISSIONS OR ATTR_ACMODTIME; f = at_flags a in
          Option.bind (store_u32 (ucast (f AND flag_mask)) w)
            (\<lambda>w. Option.bind (store_if (has f ATTR_SIZE) (store_u64 (filesize a)) w)
              (\<lambda>w. Option.bind (store_if (has f ATTR_UIDGID) (store_u32s (uid a) (gid a)) w)
                (\<lambda>w. Option.bind (store_if (has f ATTR_PERMISSIONS) (store_u32 (ucast (permissions a))) w)
                  (store_if (has f ATTR_ACMODTIME) (store_u32s (atime a) (mtime a)))))))"

section \<open>Reading\<close>

text \<open>A field that is read when its flag is set; \<open>Inl\<close> keeps the attributes as they are when the packet is too short.\<close>

type_synonym attr_step = "sftp_attrs \<times> string_buf \<Rightarrow> sftp_attrs + sftp_attrs \<times> string_buf"

definition read_if :: "u64 \<Rightarrow> 'a reader \<Rightarrow> ('a \<Rightarrow> sftp_attrs \<Rightarrow> sftp_attrs) \<Rightarrow> attr_step" where
  "read_if flag get upd = (\<lambda>(a, b).
     if has (at_flags a) flag then
       (case get b of (None, _) \<Rightarrow> Inl a | (Some v, b1) \<Rightarrow> Inr (upd v a, b1))
     else Inr (a, b))"

definition get_pair :: "'a reader \<Rightarrow> ('a \<times> 'a) reader" where
  "get_pair get b =
     (case get b of
        (None, b1) \<Rightarrow> (None, b1)
      | (Some x, b1) \<Rightarrow> (case get b1 of (None, b2) \<Rightarrow> (None, b2) | (Some y, b2) \<Rightarrow> (Some (x, y), b2)))"

text \<open>The extensions are read to find the end of the attributes, and dropped.\<close>

definition get_extended :: "(bytes \<times> bytes) list reader" where
  "get_extended b =
     (case get_u32 b of
        (None, b1) \<Rightarrow> (None, b1)
      | (Some extended_count, b1) \<Rightarrow> read_many (unat extended_count) (get_pair get_string) b1)"

definition and_then :: "sftp_attrs + sftp_attrs \<times> string_buf \<Rightarrow> attr_step \<Rightarrow> sftp_attrs + sftp_attrs \<times> string_buf" where
  "and_then x f = (case x of Inl a \<Rightarrow> Inl a | Inr y \<Rightarrow> f y)"

lemma and_then_simps [simp]: "and_then (Inl a) f = Inl a" "and_then (Inr y) f = f y"
  by (simp_all add: and_then_def)

definition sftp_bin2attr :: "sftp_attrs \<Rightarrow> bytes \<Rightarrow> int \<times> sftp_attrs" where
  "sftp_bin2attr attrs p =
     (case get_u32 (sb_start p) of
        (None, _) \<Rightarrow> (E_BUFFER_TOO_SMALL, attrs)
      | (Some flags, b) \<Rightarrow>
          (case foldl and_then (Inr (attrs\<lparr>at_flags := ucast flags\<rparr>, b))
             [read_if ATTR_SIZE get_u64 (\<lambda>v. filesize_update (\<lambda>_. v)),
              read_if ATTR_UIDGID (get_pair get_u32) (\<lambda>(u, g) a. a\<lparr>uid := ucast u, gid := ucast g\<rparr>),
              read_if ATTR_PERMISSIONS get_u32 (\<lambda>v. permissions_update (\<lambda>_. ucast v)),
              read_if ATTR_ACMODTIME (get_pair get_u32) (\<lambda>(t, m) a. a\<lparr>atime := ucast t, mtime := ucast m\<rparr>),
              read_if ATTR_EXTENDED get_extended (\<lambda>_ a. a)] of
             Inl a \<Rightarrow> (E_BUFFER_TOO_SMALL, a)
           | Inr (a, b) \<Rightarrow> (int (sb_off b), a)))"

section \<open>Readers of pairs and extensions\<close>

lemma get_pair_fail: "get b = (None, b1) \<Longrightarrow> get_pair get b = (None, b1)"
  by (simp add: get_pair_def)

lemma get_pair_ok: "get b = (Some x, b1) \<Longrightarrow> get_pair get b = (map_option (Pair x) (fst (get b1)), snd (get b1))"
  by (auto simp: get_pair_def split: prod.splits option.splits)

context safe_reader
begin

lemma pair_safe: "sb_wf b \<Longrightarrow> get_pair dec b = (r, b') \<Longrightarrow> \<exists>n \<le> length (ahead b). b' = advance n b"
proof -
  assume b: "sb_wf b" "get_pair dec b = (r, b')"
  obtain x b1 where x: "dec b = (x, b1)" by fastforce
  obtain n where n: "n \<le> length (ahead b)" "b1 = advance n b" using safe [OF b(1) x] by blast
  show "\<exists>n \<le> length (ahead b). b' = advance n b"
  proof (cases x)
    case None
    then show ?thesis using b(2) x n get_pair_fail [of dec b b1] by auto
  next
    case (Some y)
    obtain z b2 where z: "dec b1 = (z, b2)" by fastforce
    obtain k where k: "k \<le> length (ahead b1)" "b2 = advance k b1" using safe [OF wf_after [OF b(1) x] z] by blast
    have "b' = b2" using b(2) get_pair_ok [of dec b y b1] x z Some by simp
    then show ?thesis using n k by (intro exI [of _ "n + k"]) auto
  qed
qed

end

context wire_codec
begin

lemma pair_codec:
  "sb_wf b \<Longrightarrow> (case p of (x, y) \<Rightarrow> ok x \<and> ok y) \<Longrightarrow> ahead b = (case p of (x, y) \<Rightarrow> enc x @ enc y) @ r \<Longrightarrow>
    get_pair dec b = (Some p, advance (length (case p of (x, y) \<Rightarrow> enc x @ enc y)) b)"
proof (cases p)
  case (Pair x y)
  assume a: "sb_wf b" "case p of (x, y) \<Rightarrow> ok x \<and> ok y" "ahead b = (case p of (x, y) \<Rightarrow> enc x @ enc y) @ r"
  have x: "dec b = (Some x, advance (length (enc x)) b)"
    by (rule dec_enc [where r = "enc y @ r"]) (use a Pair in simp_all)
  have y: "dec (advance (length (enc x)) b) = (Some y, advance (length (enc y)) (advance (length (enc x)) b))"
    by (rule dec_enc [where r = r]) (use a Pair in \<open>auto intro!: sb_wf_advance\<close>)
  show ?thesis using get_pair_ok [of dec b, OF x] y Pair by simp
qed

end

interpretation rd_u32_pair: wire_codec "get_pair get_u32" "\<lambda>(x, y). htonu32 x @ htonu32 y" "\<lambda>(x, y). True \<and> True"
  by unfold_locales (rule rd_u32.pair_safe, assumption+, rule rd_u32.pair_codec)

interpretation rd_string_pair: wire_codec "get_pair get_string" "\<lambda>(x, y). wire_string x @ wire_string y" "\<lambda>(x, y). short x \<and> short y"
  by unfold_locales (rule rd_string.pair_safe, assumption+, rule rd_string.pair_codec)

interpretation rd_extended: safe_reader get_extended
proof
  fix b r b' assume b: "sb_wf b" "get_extended b = (r, b')"
  obtain x b1 where x: "get_u32 b = (x, b1)" by fastforce
  obtain n where n: "n \<le> length (ahead b)" "b1 = advance n b" using rd_u32.safe [OF b(1) x] by blast
  show "\<exists>n \<le> length (ahead b). b' = advance n b"
  proof (cases x)
    case None
    then show ?thesis using b(2) x n by (auto simp: get_extended_def)
  next
    case (Some c)
    then have "read_many (unat c) (get_pair get_string) b1 = (r, b')" using b(2) x by (simp add: get_extended_def)
    then obtain k where "k \<le> length (ahead b1)" "b' = advance k b1"
      using rd_string_pair.read_many_safe [OF rd_u32.wf_after [OF b(1) x]] by blast
    then show ?thesis using n by (intro exI [of _ "n + k"]) auto
  qed
qed

section \<open>The packet stays in its bounds\<close>

context safe_reader
begin

lemma read_if_safe:
  assumes "read_if flag dec upd (a, b) = Inr (a', b')" "sb_wf b"
  shows "\<exists>n \<le> length (ahead b). b' = advance n b"
proof (cases "has (at_flags a) flag")
  case False
  then show ?thesis using assms(1) by (auto simp: read_if_def intro: exI [of _ 0])
next
  case True
  then show ?thesis using assms(1) safe [OF assms(2)] by (auto simp: read_if_def split: prod.splits option.splits)
qed

end

definition keeps_bounds :: "attr_step \<Rightarrow> bool" where
  "keeps_bounds f \<longleftrightarrow> (\<forall>a b a' b'. f (a, b) = Inr (a', b') \<longrightarrow> sb_wf b \<longrightarrow> (\<exists>n \<le> length (ahead b). b' = advance n b))"

lemma steps_safe:
  "\<forall>f \<in> set fs. keeps_bounds f \<Longrightarrow> foldl and_then (Inr (a, b)) fs = Inr (a', b') \<Longrightarrow> sb_wf b \<Longrightarrow>
    \<exists>n \<le> length (ahead b). b' = advance n b"
proof (induction fs arbitrary: a b)
  case Nil
  then show ?case by (auto intro: exI [of _ 0])
next
  case (Cons f fs)
  have stop: "foldl and_then (Inl e) fs = Inl e" for e by (induction fs) simp_all
  obtain a1 b1 where f: "f (a, b) = Inr (a1, b1)"
    using Cons.prems(2) stop by (cases "f (a, b)") auto
  then obtain n where n: "n \<le> length (ahead b)" "b1 = advance n b"
    using Cons.prems(1,3) unfolding keeps_bounds_def by (meson list.set_intros(1))
  have "foldl and_then (Inr (a1, b1)) fs = Inr (a', b')" using Cons.prems(2) f by simp
  then obtain k where "k \<le> length (ahead b1)" "b' = advance k b1"
    using Cons.IH [of a1 b1] Cons.prems(1,3) n sb_wf_advance by auto
  then show ?case using n by (intro exI [of _ "n + k"]) auto
qed

text \<open>
  C7: \<open>sftp_bin2attr\<close> never reads outside the packet, whatever its bytes: it reports that the packet is too short, or the
  number of bytes of the attributes with their extensions, which is at least four and at most what was given.
\<close>

theorem sftp_bin2attr_safe:
  assumes "length p < 2 ^ 64" "sftp_bin2attr attrs p = (rc, attrs')"
  shows "rc = E_BUFFER_TOO_SMALL \<or> 4 \<le> rc \<and> rc \<le> int (length p)"
proof (cases "4 \<le> length p")
  case False
  then show ?thesis using assms by (simp add: sftp_bin2attr_def get_u32_def check_length_iff)
next
  case True
  let ?b = "advance 4 (sb_start p)"
  have g: "get_u32 (sb_start p) = (Some (ntohu32 (slice 4 (sb_start p))), ?b)"
    using True assms(1) by (simp add: get_u32_def check_length_iff)
  let ?fs = "[read_if ATTR_SIZE get_u64 (\<lambda>v. filesize_update (\<lambda>_. v)),
              read_if ATTR_UIDGID (get_pair get_u32) (\<lambda>(u, g) a. a\<lparr>uid := ucast u, gid := ucast g\<rparr>),
              read_if ATTR_PERMISSIONS get_u32 (\<lambda>v. permissions_update (\<lambda>_. ucast v)),
              read_if ATTR_ACMODTIME (get_pair get_u32) (\<lambda>(t, m) a. a\<lparr>atime := ucast t, mtime := ucast m\<rparr>),
              read_if ATTR_EXTENDED get_extended (\<lambda>_ a. a)]"
  let ?x = "foldl and_then (Inr (attrs\<lparr>at_flags := ucast (ntohu32 (slice 4 (sb_start p)))\<rparr>, ?b)) ?fs"
  have res: "(rc, attrs') = (case ?x of Inl a \<Rightarrow> (E_BUFFER_TOO_SMALL, a) | Inr (a, b) \<Rightarrow> (int (sb_off b), a))"
    using assms(2) unfolding sftp_bin2attr_def g by simp
  have ok: "\<forall>f \<in> set ?fs. keeps_bounds f"
    unfolding keeps_bounds_def
    using rd_u64.read_if_safe rd_u32.read_if_safe rd_u32_pair.read_if_safe rd_extended.read_if_safe by simp
  have wf: "sb_wf ?b" using True assms(1) by (intro sb_wf_advance) simp_all
  show ?thesis
  proof (cases ?x)
    case (Inl a)
    then show ?thesis using res by simp
  next
    case (Inr y)
    obtain a b where y: "y = (a, b)" by fastforce
    then obtain n where "n \<le> length (ahead ?b)" "b = advance n ?b" using steps_safe [OF ok _ wf] Inr by blast
    moreover have "rc = int (sb_off b)" using res Inr y by simp
    ultimately show ?thesis using True by (simp add: advance_def sb_start_def ahead_def)
  qed
qed


section \<open>What is written is read\<close>

definition attr_bytes :: "sftp_attrs \<Rightarrow> bytes" where
  "attr_bytes a =
     (let f = at_flags a in
      htonu32 (ucast (f AND 15)) @ (if has f ATTR_SIZE then htonu64 (filesize a) else []) @
      (if has f ATTR_UIDGID then htonu32 (ucast (uid a)) @ htonu32 (ucast (gid a)) else []) @
      (if has f ATTR_PERMISSIONS then htonu32 (ucast (permissions a)) else []) @
      (if has f ATTR_ACMODTIME then htonu32 (ucast (atime a)) @ htonu32 (ucast (mtime a)) else []))"

lemma length_attr_bytes [simp]: "length (attr_bytes a) = sftp_attrsize (at_flags a)"
  by (simp add: attr_bytes_def sftp_attrsize_def Let_def)

lemma appends_store_if: "appends f bs \<Longrightarrow> appends (store_if c f) (if c then bs else [])"
  using appends_Some by (cases c) (simp_all add: store_if_def [abs_def])

lemma appends_u32s: "appends (store_u32s a b) (htonu32 (ucast a) @ htonu32 (ucast b))"
  unfolding store_u32s_def [abs_def] by (intro appends_bind appends_store_u32)

lemma appends_attr2bin: "appends (sftp_attr2bin (Some a)) (attr_bytes a)"
proof -
  have m: "ATTR_SIZE OR ATTR_UIDGID OR ATTR_PERMISSIONS OR ATTR_ACMODTIME = 15" by simp
  show ?thesis
    unfolding sftp_attr2bin_def [abs_def] attr_bytes_def Let_def option.case m
    by (intro appends_bind appends_store_if appends_u32s appends_store_u32 appends_store_u64)
qed

lemma has_bits:
  "has f ATTR_SIZE \<longleftrightarrow> bit f 0" "has f ATTR_UIDGID \<longleftrightarrow> bit f 1" "has f ATTR_PERMISSIONS \<longleftrightarrow> bit f 2"
  "has f ATTR_ACMODTIME \<longleftrightarrow> bit f 3" "has f ATTR_EXTENDED \<longleftrightarrow> bit f 31"
  using and_exp_eq_0_iff_not_bit [of f 0] and_exp_eq_0_iff_not_bit [of f 1] and_exp_eq_0_iff_not_bit [of f 2]
    and_exp_eq_0_iff_not_bit [of f 3] and_exp_eq_0_iff_not_bit [of f 31]
  by (simp_all add: has_def)

lemma bit_15: "bit (15 :: 'a::len word) n \<longleftrightarrow> n < 4 \<and> n < LENGTH('a)"
proof -
  have "(15 :: 'a word) = mask 4" by (simp add: mask_eq_exp_minus_1)
  then show ?thesis by (simp only: bit_mask_iff) auto
qed

lemma wire_flags:
  fixes f :: u64
  defines "g \<equiv> ucast (ucast (f AND 15) :: u32) :: u64"
  shows "has g ATTR_SIZE = has f ATTR_SIZE" "has g ATTR_UIDGID = has f ATTR_UIDGID" "has g ATTR_PERMISSIONS = has f ATTR_PERMISSIONS"
    "has g ATTR_ACMODTIME = has f ATTR_ACMODTIME" "\<not> has g ATTR_EXTENDED" "g = f AND 15"
proof -
  show g: "g = f AND 15"
    unfolding g_def by (rule bit_word_eqI) (auto simp: bit_unsigned_iff bit_and_iff bit_15 simp del: bit_numeral_word_iff)
  show "has g ATTR_SIZE = has f ATTR_SIZE" "has g ATTR_UIDGID = has f ATTR_UIDGID" "has g ATTR_PERMISSIONS = has f ATTR_PERMISSIONS"
    "has g ATTR_ACMODTIME = has f ATTR_ACMODTIME" "\<not> has g ATTR_EXTENDED"
    unfolding g has_bits by (simp_all add: bit_and_iff bit_15)
qed

text \<open>What the reader makes of the attributes \<open>a\<close>: the flagged fields, cut to 32 bits; the others stay as they were.\<close>

definition received :: "sftp_attrs \<Rightarrow> sftp_attrs \<Rightarrow> sftp_attrs" where
  "received old a =
     (let f = at_flags a; cut = (\<lambda>c new prev. if has f c then ucast (ucast new :: u32) else prev :: u64) in
      \<lparr>at_flags = f AND 15, filesize = (if has f ATTR_SIZE then filesize a else filesize old),
       uid = cut ATTR_UIDGID (uid a) (uid old), gid = cut ATTR_UIDGID (gid a) (gid old),
       permissions = cut ATTR_PERMISSIONS (permissions a) (permissions old),
       atime = cut ATTR_ACMODTIME (atime a) (atime old), mtime = cut ATTR_ACMODTIME (mtime a) (mtime old)\<rparr>)"

context wire_codec
begin

lemma read_if_codec:
  assumes "sb_wf b" "ok v" "ahead b = (if c then enc v else []) @ r" "has (at_flags a) flag = c"
  shows "read_if flag dec upd (a, b) = Inr (if c then upd v a else a, advance (length (if c then enc v else [])) b)"
    "ahead (advance (length (if c then enc v else [])) b) = r" "sb_wf (advance (length (if c then enc v else [])) b)"
  using assms dec_enc [of b v r] by (auto simp: read_if_def intro: sb_wf_advance)

end

lemma bin2attr_bytes:
  assumes len: "length p < 2 ^ 64" and p: "p = attr_bytes a @ r"
  shows "sftp_bin2attr old p = (int (sftp_attrsize (at_flags a)), received old a)"
proof -
  let ?f = "at_flags a" let ?g = "ucast (ucast (?f AND 15) :: u32) :: u64"
  let ?s = "if has ?f ATTR_SIZE then htonu64 (filesize a) else []"
  let ?u = "if has ?f ATTR_UIDGID then htonu32 (ucast (uid a)) @ htonu32 (ucast (gid a)) else []"
  let ?m = "if has ?f ATTR_PERMISSIONS then htonu32 (ucast (permissions a)) else []"
  let ?t = "if has ?f ATTR_ACMODTIME then htonu32 (ucast (atime a)) @ htonu32 (ucast (mtime a)) else []"
  define b0 where "b0 = advance 4 (sb_start p)"
  define b1 where "b1 = advance (length ?s) b0"
  define b2 where "b2 = advance (length ?u) b1"
  define b3 where "b3 = advance (length ?m) b2"
  have p': "p = htonu32 (ucast (?f AND 15)) @ ?s @ ?u @ ?m @ ?t @ r" by (simp add: p attr_bytes_def Let_def)
  have g0: "get_u32 (sb_start p) = (Some (ucast (?f AND 15)), b0)"
    using rd_u32.dec_enc [of "sb_start p" "ucast (?f AND 15)" "?s @ ?u @ ?m @ ?t @ r"] len p' by (simp add: b0_def)
  have "4 \<le> length p" using p' by simp
  then have wf0: "sb_wf b0" unfolding b0_def using len by (intro sb_wf_advance) simp_all
  have a0: "ahead b0 = ?s @ ?u @ ?m @ ?t @ r" by (simp add: b0_def p')
  define o0 where "o0 = old\<lparr>at_flags := ?g\<rparr>"
  define o1 where "o1 = (if has ?f ATTR_SIZE then o0\<lparr>filesize := filesize a\<rparr> else o0)"
  define o2 where "o2 = (if has ?f ATTR_UIDGID then o1\<lparr>uid := ucast (ucast (uid a) :: u32), gid := ucast (ucast (gid a) :: u32)\<rparr> else o1)"
  define o3 where "o3 = (if has ?f ATTR_PERMISSIONS then o2\<lparr>permissions := ucast (ucast (permissions a) :: u32)\<rparr> else o2)"
  define o4 where "o4 = (if has ?f ATTR_ACMODTIME then o3\<lparr>atime := ucast (ucast (atime a) :: u32), mtime := ucast (ucast (mtime a) :: u32)\<rparr> else o3)"
  have fl: "at_flags o0 = ?g" "at_flags o1 = ?g" "at_flags o2 = ?g" "at_flags o3 = ?g" "at_flags o4 = ?g"
    by (simp_all add: o0_def o1_def o2_def o3_def o4_def)
  have s1: "read_if ATTR_SIZE get_u64 (\<lambda>v. filesize_update (\<lambda>_. v)) (o0, b0) = Inr (o1, b1)" "ahead b1 = ?u @ ?m @ ?t @ r" "sb_wf b1"
    using rd_u64.read_if_codec [OF wf0 TrueI a0 wire_flags(1) [of ?f, folded fl(1)]] by (simp_all add: b1_def o1_def split: if_splits)
  have a1: "ahead b1 = (if has ?f ATTR_UIDGID then (case (ucast (uid a) :: u32, ucast (gid a) :: u32) of (x, y) \<Rightarrow> htonu32 x @ htonu32 y) else []) @
      (?m @ ?t @ r)" using s1(2) by simp
  have s2: "read_if ATTR_UIDGID (get_pair get_u32) (\<lambda>(u, g) a. a\<lparr>uid := ucast u, gid := ucast g\<rparr>) (o1, b1) = Inr (o2, b2)"
      "ahead b2 = ?m @ ?t @ r" "sb_wf b2"
    using rd_u32_pair.read_if_codec [OF s1(3) _ a1 wire_flags(2) [of ?f, folded fl(2)]]
    by (simp_all add: b2_def o2_def split: if_splits)
  have s3: "read_if ATTR_PERMISSIONS get_u32 (\<lambda>v. permissions_update (\<lambda>_. ucast v)) (o2, b2) = Inr (o3, b3)" "ahead b3 = ?t @ r" "sb_wf b3"
    using rd_u32.read_if_codec [OF s2(3) TrueI s2(2) wire_flags(3) [of ?f, folded fl(3)]] by (simp_all add: b3_def o3_def split: if_splits)
  have a3: "ahead b3 = (if has ?f ATTR_ACMODTIME then (case (ucast (atime a) :: u32, ucast (mtime a) :: u32) of (x, y) \<Rightarrow> htonu32 x @ htonu32 y) else []) @ r"
    using s3(2) by simp
  have s4: "read_if ATTR_ACMODTIME (get_pair get_u32) (\<lambda>(t, m) a. a\<lparr>atime := ucast t, mtime := ucast m\<rparr>) (o3, b3) = Inr (o4, advance (length ?t) b3)"
    using rd_u32_pair.read_if_codec [OF s3(3) _ a3 wire_flags(4) [of ?f, folded fl(4)]]
    by (simp add: o4_def split: if_splits)
  have s5: "read_if ATTR_EXTENDED get_extended (\<lambda>_ a. a) (o4, b) = Inr (o4, b)" for b
    using wire_flags(5) [of ?f] by (simp add: read_if_def fl)
  have o4: "o4 = received old a"
    unfolding o4_def o3_def o2_def o1_def o0_def received_def wire_flags(6) Let_def by simp
  have off: "sb_off (advance (length ?t) b3) = sftp_attrsize ?f"
    by (simp add: b3_def b2_def b1_def b0_def advance_def sb_start_def sftp_attrsize_def)
  show ?thesis
    unfolding sftp_bin2attr_def g0
    by (simp only: prod.case option.case foldl.simps and_then_simps o0_def [symmetric] s1(1) s2(1) s3(1) s4 s5 [unfolded o4] sum.case off o4)
qed

text \<open>
  C6: Attributes survive the wire.  \<open>sftp_attr2bin\<close> writes exactly \<open>sftp_attrsize\<close> bytes, or outside the packet when these are
  not left; reading them, whatever follows, takes the same number of bytes and gives the flagged fields, cut to 32 bits
  except for the size, and leaves the other fields of the structure as they were.
\<close>

theorem sftp_attrs_roundtrip:
  assumes "wb_wf w" "length (wb_mem w) < 2 ^ 64"
  shows "if room w < sftp_attrsize (at_flags a) then sftp_attr2bin (Some a) w = None
    else \<exists>w'. sftp_attr2bin (Some a) w = Some w' \<and> wb_pos w' = wb_pos w + sftp_attrsize (at_flags a) \<and>
      sftp_bin2attr old (drop (wb_pos w) (wb_mem w')) = (int (sftp_attrsize (at_flags a)), received old a)"
proof (cases "room w < sftp_attrsize (at_flags a)")
  case True
  then show ?thesis using appends_attr2bin [of a] assms(1) by (auto simp: appends_def)
next
  case False
  then obtain w' where w': "sftp_attr2bin (Some a) w = Some w'" "wb_wf w'" "written w' = written w @ attr_bytes a"
      "room w' = room w - sftp_attrsize (at_flags a)" "length (wb_mem w') = length (wb_mem w)"
    using appendsD [OF appends_attr2bin [of a] assms(1)] by auto
  have pos: "wb_pos w' = wb_pos w + sftp_attrsize (at_flags a)"
    using w'(2,4,5) assms(1) False by (simp add: room_def wb_wf_def)
  have "wb_mem w' = written w @ attr_bytes a @ drop (wb_pos w') (wb_mem w')"
    using w'(3) append_take_drop_id [of "wb_pos w'" "wb_mem w'"] by (simp add: written_def)
  then have "drop (wb_pos w) (wb_mem w') = attr_bytes a @ drop (wb_pos w') (wb_mem w')"
    using assms(1) by (metis append_eq_conv_conj length_take min.absorb2 wb_wf_def written_def)
  from bin2attr_bytes [OF _ this, of old]
  have "sftp_bin2attr old (drop (wb_pos w) (wb_mem w')) = (int (sftp_attrsize (at_flags a)), received old a)"
    using assms(2) w'(5) by simp
  then show ?thesis using False w'(1) pos by auto
qed

definition sample_attrs :: sftp_attrs where
  "sample_attrs = \<lparr>at_flags = 5, filesize = 2 ^ 40, uid = 1, gid = 2, permissions = 420, atime = 3, mtime = 4\<rparr>"

definition no_attrs :: sftp_attrs where
  "no_attrs = \<lparr>at_flags = 0, filesize = 0, uid = 0, gid = 0, permissions = 0, atime = 0, mtime = 0\<rparr>"

lemma sftp_attrs_roundtrip_witness:
  "\<exists>w'. sftp_attr2bin (Some sample_attrs) (wb_new 20) = Some w' \<and>
     sftp_bin2attr no_attrs (wb_mem w') = (16, no_attrs\<lparr>at_flags := 5, filesize := 2 ^ 40, permissions := 420\<rparr>)"
proof -
  have n: "sftp_attrsize 5 = 16" by code_simp
  have "received no_attrs sample_attrs = no_attrs\<lparr>at_flags := 5, filesize := 2 ^ 40, permissions := 420\<rparr>"
    by code_simp
  then show ?thesis
    using sftp_attrs_roundtrip [of "wb_new 20" sample_attrs no_attrs] n by (auto simp: sample_attrs_def) (auto simp: wb_new_def)
qed

lemma sftp_bin2attr_safe_witness:
  "sftp_bin2attr no_attrs [0, 0, 0, 4, 0, 0, 1, 164, 9] = (8, no_attrs\<lparr>at_flags := 4, permissions := 420\<rparr>) \<and> (4 :: int) \<le> 8 \<and>
     (8 :: int) \<le> 9"
proof -
  have e: "sftp_bin2attr no_attrs [0, 0, 0, 4, 0, 0, 1, 164, 9] = (8, no_attrs\<lparr>at_flags := 4, permissions := 420\<rparr>)"
    by code_simp
  then show ?thesis using sftp_bin2attr_safe [OF _ e] by simp
qed

end
