(* ===== verification/Keepalive.thy ===== *)
theory Keepalive
  imports Packet_Inv
begin

text \<open>
  Keeping a connection alive, \<^verbatim>\<open>libssh2/src/keepalive.c\<close>.  The three fields of the session are a record of their own; \<open>now\<close>
  is the result of \<^verbatim>\<open>time(NULL)\<close>.  An \<^verbatim>\<open>int\<close> has 32 bits, a \<^verbatim>\<open>time_t\<close> 64: the conversions between them are written out.
\<close>

section \<open>Configuration and sending\<close>

record keepalive =
  keepalive_interval :: int
  keepalive_want_reply :: int
  keepalive_last_sent :: int

text \<open>An \<^verbatim>\<open>unsigned int\<close> is stored in an \<^verbatim>\<open>int\<close>; the sum of the last line but one is computed as an \<^verbatim>\<open>int\<close>.\<close>

definition int32 :: "int \<Rightarrow> int" where
  "int32 v = sint (word_of_int v :: u32)"

definition keepalive_config :: "bool \<Rightarrow> u32 \<Rightarrow> keepalive \<Rightarrow> keepalive" where
  "keepalive_config want_reply interval k =
     k\<lparr>keepalive_interval := (if interval = 1 then 2 else sint interval),
       keepalive_want_reply := (if want_reply then 1 else 0)\<rparr>"

text \<open>The message is a string literal whose last byte is overwritten.\<close>

definition keepalive_data :: "int \<Rightarrow> bytes" where
  "keepalive_data want_reply =
     (let lit = [0x50, 0, 0, 0, 0x15] @ str ''keepalive@libssh2.orgW'' in lit[length lit - 1 := word_of_int want_reply])"

text \<open>The results are the return code, the new value of \<open>*seconds_to_next\<close> if it is written, and the state.\<close>

definition keepalive_send :: "int \<Rightarrow> keepalive \<Rightarrow> session \<Rightarrow> (int \<times> int option) \<times> keepalive \<times> session" where
  "keepalive_send now k s =
     (if keepalive_interval k = 0 then ((0, Some 0), k, s)
      else if keepalive_last_sent k + keepalive_interval k \<le> now then
        let (rc, s1) = transport_send (keepalive_data (keepalive_want_reply k)) s in
        if rc \<noteq> 0 \<and> rc \<noteq> E_EAGAIN then
          ((rc, None), k, serr E_SOCKET_SEND ''Unable to send keepalive message'' s1)
        else ((0, Some (keepalive_interval k)), k\<lparr>keepalive_last_sent := now\<rparr>, s1)
      else
        ((0, Some (int32 (int32 (keepalive_last_sent k - now) + keepalive_interval k))), k, s))"

section \<open>The message\<close>

text \<open>The literal is a global request in the encoding of the wire: name and wish for a reply.\<close>

lemma keepalive_message:
  "keepalive_data want = [MSG_GLOBAL_REQUEST] @ wire_string (str ''keepalive@libssh2.org'') @ [word_of_int want]"
  by (simp add: keepalive_data_def wire_string_def str_def htonu32_def)

section \<open>The timer\<close>

lemma int32_id: "- (2 ^ 31) \<le> v \<Longrightarrow> v < 2 ^ 31 \<Longrightarrow> int32 v = v"
  by (simp add: int32_def int_word_sint)

lemma int32_bounds: "- (2 ^ 31) \<le> int32 v" "int32 v < 2 ^ 31"
  using sint_greater_eq [of "word_of_int v :: u32"] sint_lt [of "word_of_int v :: u32"] by (simp_all add: int32_def)

lemma keepalive_config_interval:
  "keepalive_interval (keepalive_config w i k) = (if i = 1 then 2 else int32 (uint i))"
  by (simp add: keepalive_config_def int32_def)

text \<open>The three outcomes of a call with a positive interval.\<close>

lemma keepalive_sends:
  assumes "keepalive_interval k \<noteq> 0" and "keepalive_last_sent k + keepalive_interval k \<le> now"
    and "transport_send (keepalive_data (keepalive_want_reply k)) s = (rc, s1)" and "rc = 0 \<or> rc = E_EAGAIN"
  shows "keepalive_send now k s = ((0, Some (keepalive_interval k)), k\<lparr>keepalive_last_sent := now\<rparr>, s1)"
  using assms by (simp add: keepalive_send_def)

lemma keepalive_waits:
  assumes "0 < keepalive_interval k" "keepalive_interval k < 2 ^ 31"
    and "keepalive_last_sent k \<le> now" "now < keepalive_last_sent k + keepalive_interval k"
  shows "keepalive_send now k s = ((0, Some (keepalive_last_sent k + keepalive_interval k - now)), k, s)"
proof -
  have "int32 (keepalive_last_sent k - now) = keepalive_last_sent k - now" using assms by (intro int32_id) auto
  moreover have "int32 (keepalive_last_sent k - now + keepalive_interval k) = keepalive_last_sent k - now + keepalive_interval k"
    using assms by (intro int32_id) auto
  ultimately show ?thesis using assms by (simp add: keepalive_send_def)
qed

lemma transport_sent:
  "fst (transport_send d s) = 0 \<Longrightarrow> sent (snd (transport_send d s)) = sent s @ [d]"
  by (simp add: transport_send_def split_beta Let_def)

section \<open>What a caller may rely on\<close>

text \<open>
  C35: A keepalive call that succeeds with an interval of 1 to 2^31 - 1 seconds answers with a number of seconds, at least one and at
  most the interval.  A call made earlier than that many seconds later sends nothing and changes nothing; a call made then or later, whatever became
  of the session in between, hands exactly the keepalive request to the transport, and starts the interval anew.  (A message that would have blocked counts
  as sent.)
\<close>

theorem keepalive_next_call:
  assumes "keepalive_send now k s = ((0, Some n), k', s')"
    and "0 < keepalive_interval k" and "keepalive_interval k < 2 ^ 31" and "keepalive_last_sent k \<le> now"
  shows "1 \<le> n \<and> n \<le> keepalive_interval k
       \<and> (\<forall>t s1. now \<le> t \<and> t < now + n \<longrightarrow> keepalive_send t k' s1 = ((0, Some (now + n - t)), k', s1))
       \<and> (\<forall>t s1. now + n \<le> t \<and> fst (transport_send (keepalive_data (keepalive_want_reply k)) s1) = 0 \<longrightarrow>
            (\<exists>s2. keepalive_send t k' s1 = ((0, Some (keepalive_interval k)), k'\<lparr>keepalive_last_sent := t\<rparr>, s2)
                \<and> sent s2 = sent s1 @ [[MSG_GLOBAL_REQUEST] @ wire_string (str ''keepalive@libssh2.org'') @ [word_of_int (keepalive_want_reply k)]]))"
    (is "_ \<and> _ \<and> ?early \<and> ?late")
proof -
  have same: "keepalive_interval k' = keepalive_interval k" "keepalive_want_reply k' = keepalive_want_reply k"
    and last: "keepalive_last_sent k' \<le> now" and n: "n = keepalive_last_sent k' + keepalive_interval k - now" "1 \<le> n"
  proof -
    have *: "k' = k\<lparr>keepalive_last_sent := now\<rparr> \<and> n = keepalive_interval k \<or>
        k' = k \<and> n = keepalive_last_sent k + keepalive_interval k - now \<and> now < keepalive_last_sent k + keepalive_interval k"
    proof (cases "keepalive_last_sent k + keepalive_interval k \<le> now")
      case True
      then show ?thesis using assms(1,2) by (auto simp: keepalive_send_def Let_def split: prod.splits if_splits)
    next
      case False
      then show ?thesis using keepalive_waits [OF assms(2,3,4), of s] assms(1) by auto
    qed
    then show "keepalive_interval k' = keepalive_interval k" "keepalive_want_reply k' = keepalive_want_reply k"
      "keepalive_last_sent k' \<le> now" "n = keepalive_last_sent k' + keepalive_interval k - now" "1 \<le> n"
      using assms(2,4) by auto
  qed
  have early: ?early
    using keepalive_waits [of k'] assms(2,3) same last n by fastforce
  have late: ?late
  proof (intro allI impI)
    fix t s1 assume t: "now + n \<le> t \<and> fst (transport_send (keepalive_data (keepalive_want_reply k)) s1) = 0"
    obtain rc s2 where r: "transport_send (keepalive_data (keepalive_want_reply k)) s1 = (rc, s2)" by fastforce
    then have "keepalive_send t k' s1 = ((0, Some (keepalive_interval k)), k'\<lparr>keepalive_last_sent := t\<rparr>, s2)"
      using keepalive_sends [of k' t s1 rc s2] t same n assms(2) by simp
    moreover have "sent s2 = sent s1 @ [keepalive_data (keepalive_want_reply k)]"
      using transport_sent [of "keepalive_data (keepalive_want_reply k)" s1] t r by simp
    ultimately show "\<exists>s2. keepalive_send t k' s1 = ((0, Some (keepalive_interval k)), k'\<lparr>keepalive_last_sent := t\<rparr>, s2)
        \<and> sent s2 = sent s1 @ [[MSG_GLOBAL_REQUEST] @ wire_string (str ''keepalive@libssh2.org'') @ [word_of_int (keepalive_want_reply k)]]"
      by (metis keepalive_message)
  qed
  show ?thesis using early late n last by simp
qed

definition idle_keepalive :: keepalive where
  "idle_keepalive = \<lparr>keepalive_interval = 0, keepalive_want_reply = 0, keepalive_last_sent = 0\<rparr>"

definition every_minute :: keepalive where
  "every_minute = (keepalive_config True 60 idle_keepalive)\<lparr>keepalive_last_sent := 990\<rparr>"

lemma every_minute_config: "keepalive_interval every_minute = 60" "keepalive_want_reply every_minute = 1"
  "keepalive_last_sent every_minute = 990"
  by (simp_all add: every_minute_def idle_keepalive_def keepalive_config_def)

theorem keepalive_next_call_witness:
  "keepalive_send 1000 every_minute sample_session = ((0, Some 50), every_minute, sample_session)
   \<and> (\<exists>s2. keepalive_send 1050 every_minute sample_session = ((0, Some 60), every_minute\<lparr>keepalive_last_sent := 1050\<rparr>, s2))"
proof -
  have a: "keepalive_send 1000 every_minute sample_session = ((0, Some 50), every_minute, sample_session)"
    using keepalive_waits [of every_minute 1000 sample_session] by (simp add: every_minute_config)
  have "fst (transport_send (keepalive_data 1) sample_session) = 0" by (simp add: transport_send_def sample_session_def)
  moreover have "\<forall>t s1. 1050 \<le> t \<and> fst (transport_send (keepalive_data 1) s1) = 0 \<longrightarrow>
      (\<exists>s2. keepalive_send t every_minute s1 = ((0, Some 60), every_minute\<lparr>keepalive_last_sent := t\<rparr>, s2)
         \<and> sent s2 = sent s1 @ [[MSG_GLOBAL_REQUEST] @ wire_string (str ''keepalive@libssh2.org'') @ [word_of_int 1]])"
    using keepalive_next_call [OF a] by (simp add: every_minute_config)
  ultimately show ?thesis using a by (metis order_refl)
qed

text \<open>An interval of 2^31 seconds or more is negative as an \<^verbatim>\<open>int\<close>: every call sends, and the time it answers is negative.\<close>

lemma keepalive_interval_wraps:
  assumes "2 ^ 31 \<le> uint i" and "k' = keepalive_config w i k" and "keepalive_last_sent k \<le> now"
    and "transport_send (keepalive_data (keepalive_want_reply k')) s = (0, s1)"
  shows "\<exists>n < 0. keepalive_send now k' s = ((0, Some n), k'\<lparr>keepalive_last_sent := now\<rparr>, s1)"
proof -
  have u: "uint i < 2 ^ 32" "2 ^ 31 \<le> uint i"
    using uint_lt2p [of i] assms(1) by simp_all
  have "sint i = (uint i + 2 ^ 31) mod 2 ^ 32 - 2 ^ 31" using int_word_sint [of "uint i", where ?'a = 32] by simp
  also have "(uint i + 2 ^ 31) mod 2 ^ 32 = (uint i - 2 ^ 31 + 2 ^ 32) mod 2 ^ 32" by (rule arg_cong [where f = "\<lambda>v. v mod 2 ^ 32"]) simp
  also have "\<dots> = uint i - 2 ^ 31" by (subst mod_add_self2, rule mod_pos_pos_trivial) (use u in simp_all)
  finally have i: "sint i = uint i - 2 ^ 32" by simp
  have neg: "sint i < 0" using i u by simp
  moreover have "i \<noteq> 1" using neg by auto
  ultimately have "keepalive_interval k' < 0" by (simp add: assms(2) keepalive_config_def)
  moreover have "keepalive_last_sent k' = keepalive_last_sent k" by (simp add: assms(2) keepalive_config_def)
  ultimately show ?thesis
    using keepalive_sends [of k' now s 0 s1] assms(3,4) by auto
qed

end
