(* ===== verification/Transport_Send.thy ===== *)
theory Transport_Send
  imports Session_State Wire
begin

text \<open>
  The sending half of \<^verbatim>\<open>libssh2/src/transport.c\<close>: \<open>_libssh2_transport_send\<close> puts a payload into a frame, encrypts and
  authenticates it, and hands it to the socket; \<open>send_existing\<close> goes on with a frame of which the socket took only a part.
  The methods of the crypto backend and of the compression are fields of the state, as in the code; what the socket
  takes and what the random number generator returns are scripts.
\<close>

section \<open>Methods and state\<close>

abbreviation MAX_SSH_PACKET_LEN :: nat where "MAX_SSH_PACKET_LEN \<equiv> 35000"
abbreviation STATE_NEWKEYS :: u32 where "STATE_NEWKEYS \<equiv> 4"
abbreviation STATE_AUTHENTICATED :: u32 where "STATE_AUTHENTICATED \<equiv> 8"
abbreviation MSG_NEWKEYS :: byte where "MSG_NEWKEYS \<equiv> 21"
abbreviation ERRNO_EAGAIN :: int where "ERRNO_EAGAIN \<equiv> 11"

text \<open>
  The callbacks of the methods get the bytes that they work on and the state behind their \<^verbatim>\<open>abstract\<close> pointer, of type
  \<^typ>\<open>'a\<close>.  A cipher returns the bytes that it writes over its block, with an authentication tag where it makes one;
  \<open>None\<close> is its failure.
\<close>

datatype block_pos = FIRST_BLOCK | MIDDLE_BLOCK | LAST_BLOCK

record 'a crypt_method =
  blocksize :: nat
  auth_len :: nat
  integrated_mac :: bool
  pktlen_aad :: bool
  requires_full_packet :: bool
  crypt :: "u32 \<Rightarrow> bytes \<Rightarrow> 'a \<Rightarrow> block_pos \<Rightarrow> (bytes \<times> 'a) option"

record 'a mac_method =
  mac_len :: nat
  etm :: bool
  mac_hash :: "u32 \<Rightarrow> bytes \<Rightarrow> 'a \<Rightarrow> (bytes \<times> 'a) option"

record 'a comp_method =
  compress :: bool
  use_in_auth :: bool
  comp :: "bytes \<Rightarrow> nat \<Rightarrow> 'a \<Rightarrow> (int + bytes) \<times> 'a"

record 'a endpoint_data =
  ep_crypt :: "'a crypt_method option"
  crypt_abstract :: 'a
  ep_mac :: "'a mac_method option"
  seqno :: u32
  mac_abstract :: 'a
  ep_comp_method :: "'a comp_method option"
  comp_abstract :: "'a option"

text \<open>
  The fields of the session that sending uses.  \<open>odata\<close> is the address of the data of the frame under way, \<open>wire\<close> the log of the
  bytes that the socket took.
\<close>

record 'a sender = err_session +
  tp_state :: u32
  tp_kex_strict :: bool
  local_end :: "'a endpoint_data"
  remote_crypt :: "'a crypt_method option"
  outbuf :: bytes
  ototal_num :: nat
  odata :: "addr option"
  olen :: nat
  osent :: nat
  block_outbound :: bool
  rnd :: "(nat \<Rightarrow> byte) option list"
  sock :: "int list"
  wire :: bytes

section \<open>The environment\<close>

text \<open>
  One call of \<open>LIBSSH2_SEND\<close>: a negative result is an error number, any other the number of bytes taken.  An exhausted
  script takes everything.
\<close>

definition sock_send :: "bytes \<Rightarrow> 'a sender \<Rightarrow> int \<times> 'a sender" where
  "sock_send bs t =
     (case sock t of
        [] \<Rightarrow> (int (length bs), t\<lparr>wire := wire t @ bs\<rparr>)
      | r # rs \<Rightarrow>
          if r < 0 then (r, t\<lparr>sock := rs\<rparr>)
          else let n = min (nat r) (length bs) in (int n, t\<lparr>sock := rs, wire := wire t @ take n bs\<rparr>))"

definition random_bytes :: "nat \<Rightarrow> 'a sender \<Rightarrow> bytes option \<times> 'a sender" where
  "random_bytes n t =
     (case rnd t of
        [] \<Rightarrow> (Some (replicate n 0), t)
      | f # fs \<Rightarrow> (map_option (\<lambda>f. map f [0..<n]) f, t\<lparr>rnd := fs\<rparr>))"

text \<open>A part of a buffer, \<open>None\<close> when it is not inside; a write into the buffer for outgoing data.\<close>

definition peek :: "nat \<Rightarrow> nat \<Rightarrow> bytes \<Rightarrow> bytes option" where
  "peek off n m = (if off + n \<le> length m then Some (take n (drop off m)) else None)"

definition put_out :: "nat \<Rightarrow> bytes \<Rightarrow> 'a sender \<Rightarrow> 'a sender option" where
  "put_out off bs t = map_option (\<lambda>m. t\<lparr>outbuf := m\<rparr>) (poke off bs (outbuf t))"

section \<open>A frame under way\<close>

text \<open>The return code, and whether the caller has to return.\<close>

definition send_existing :: "addr \<Rightarrow> bytes \<Rightarrow> 'a sender \<Rightarrow> ((int \<times> bool) \<times> 'a sender) option" where
  "send_existing ptr data t =
     (if olen t = 0 then Some ((0, False), t)
      else if Some ptr \<noteq> odata t \<or> length data \<noteq> olen t then Some ((E_EAGAIN, False), t)
      else case peek (osent t) (ototal_num t - osent t) (outbuf t) of
        None \<Rightarrow> None
      | Some rest \<Rightarrow>
          let (rc, t1) = sock_send rest t in
          if rc = int (length rest) then Some ((0, True), t1\<lparr>ototal_num := 0, olen := 0\<rparr>)
          else if rc < 0 then
            (if rc \<noteq> - ERRNO_EAGAIN then Some ((E_SOCKET_SEND, True), t1)
             else Some ((E_EAGAIN, True), t1\<lparr>block_outbound := True\<rparr>))
          else
            Some ((if rc < int (length rest) then E_EAGAIN else 0, True), t1\<lparr>osent := osent t1 + nat rc\<rparr>))"

section \<open>The payload\<close>

definition encrypted :: "'a sender \<Rightarrow> bool" where
  "encrypted t \<longleftrightarrow> tp_state t AND STATE_NEWKEYS \<noteq> 0"

definition crypt_flag :: "('a crypt_method \<Rightarrow> bool) \<Rightarrow> 'a crypt_method option \<Rightarrow> bool" where
  "crypt_flag f c = (case c of None \<Rightarrow> False | Some c \<Rightarrow> f c)"

definition compressed :: "'a sender \<Rightarrow> bool" where
  "compressed t \<longleftrightarrow>
     (case ep_comp_method (local_end t) of
        None \<Rightarrow> False
      | Some c \<Rightarrow> compress c \<and> (tp_state t AND STATE_AUTHENTICATED \<noteq> 0 \<or> use_in_auth c))"

definition upd_end :: "('a endpoint_data \<Rightarrow> 'a endpoint_data) \<Rightarrow> 'a sender \<Rightarrow> 'a sender" where
  "upd_end f t = t\<lparr>local_end := f (local_end t)\<rparr>"

text \<open>Compression of one part straight into the buffer; \<open>None\<close> as the method is a null pointer, or when it writes outside.\<close>

definition comp_into :: "nat \<Rightarrow> nat \<Rightarrow> bytes \<Rightarrow> 'a sender \<Rightarrow> ((int + nat) \<times> 'a sender) option" where
  "comp_into off space data t =
     (case (ep_comp_method (local_end t), comp_abstract (local_end t)) of
        (Some c, Some a) \<Rightarrow>
          (case comp c data space a of
             (Inl rc, a') \<Rightarrow> Some (Inl rc, upd_end (comp_abstract_update (\<lambda>_. Some a')) t)
           | (Inr z, a') \<Rightarrow>
               map_option (\<lambda>t. (Inr (length z), t)) (put_out off z (upd_end (comp_abstract_update (\<lambda>_. Some a')) t)))
      | _ \<Rightarrow> None)"

text \<open>The result is the length of the payload, which lies in the buffer from index 5 on, or a return code.\<close>

definition fill_payload :: "bytes \<Rightarrow> bytes \<Rightarrow> 'a sender \<Rightarrow> ((int + nat) \<times> 'a sender) option" where
  "fill_payload data data2 t =
     (if encrypted t \<and> compressed t \<and> comp_abstract (local_end t) \<noteq> None then
        let dest_len = MAX_SSH_PACKET_LEN - 5 - 256 in
        (case comp_into 5 dest_len data t of
           Some (Inr n, t1) \<Rightarrow>
             if data2 \<noteq> [] then
               (case comp_into (5 + n) (dest_len - n) data2 t1 of
                  Some (Inr n2, t2) \<Rightarrow> Some (Inr (n + n2), t2)
                | x \<Rightarrow> x)
             else Some (Inr n, t1)
         | x \<Rightarrow> x)
      else if length data + length data2 \<ge> MAX_SSH_PACKET_LEN - 0x100 then Some (Inl E_INVAL, t)
      else
        map_option (\<lambda>t. (Inr (length data + length data2), t))
          (Option.bind (put_out 5 data t) (put_out (5 + length data) data2)))"

section \<open>Padding\<close>

definition pad_length :: "nat \<Rightarrow> nat \<Rightarrow> nat \<Rightarrow> nat" where
  "pad_length bs packet_length crypt_offset =
     (let p = bs - (packet_length - crypt_offset) mod bs in if p < 4 then p + bs else p)"

section \<open>Encryption\<close>

text \<open>
  The loop over the blocks: a last block that would be too short is joined to the one before.  The result is false when the
  cipher has failed.
\<close>

function crypt_blocks :: "'a crypt_method \<Rightarrow> nat \<Rightarrow> nat \<Rightarrow> bytes \<Rightarrow> 'a \<Rightarrow> (bool \<times> bytes \<times> 'a) option" where
  "crypt_blocks c packet_length i buf a =
     (if blocksize c = 0 then None
      else if i < packet_length then
        let bsize = min (blocksize c) (packet_length - i);
            pos = (if i = 0 then FIRST_BLOCK
                   else if \<not> integrated_mac c \<and> i = size_sub packet_length (blocksize c) then LAST_BLOCK else MIDDLE_BLOCK);
            join = (\<not> integrated_mac c \<and> i > size_sub packet_length (2 * bsize));
            n = (if join then packet_length - i else bsize) in
        (case peek i n buf of
           None \<Rightarrow> None
         | Some block \<Rightarrow>
             (case crypt c 0 block a pos of
                None \<Rightarrow> Some (False, buf, a)
              | Some (out, a1) \<Rightarrow>
                  (case poke i out buf of
                     None \<Rightarrow> None
                   | Some buf1 \<Rightarrow> crypt_blocks c packet_length (if join then i + n else i + blocksize c) buf1 a1)))
      else Some (True, buf, a))"
  by pat_completeness auto

termination
  by (relation "measure (\<lambda>(c, packet_length, i, _). packet_length - i)") auto

declare crypt_blocks.simps [simp del]

text \<open>The steps return zero to go on, or the return code of the call.\<close>

definition next_step :: "(int \<times> 's) option \<Rightarrow> ('s \<Rightarrow> (int \<times> 's) option) \<Rightarrow> (int \<times> 's) option" where
  "next_step x f = (case x of Some (rc, t) \<Rightarrow> if rc = 0 then f t else x | None \<Rightarrow> None)"

definition append_mac :: "'a mac_method \<Rightarrow> nat \<Rightarrow> 'a sender \<Rightarrow> (int \<times> 'a sender) option" where
  "append_mac m packet_length t =
     (case peek 0 packet_length (outbuf t) of
        None \<Rightarrow> None
      | Some text \<Rightarrow>
          (case mac_hash m (seqno (local_end t)) text (mac_abstract (local_end t)) of
             None \<Rightarrow> Some (libssh2_error t E_MAC_FAILURE ''Failed to calculate MAC'')
           | Some (tag, a) \<Rightarrow>
               map_option (Pair 0) (put_out packet_length tag (upd_end (mac_abstract_update (\<lambda>_. a)) t))))"

definition crypt_range :: "'a crypt_method \<Rightarrow> u32 \<Rightarrow> nat \<Rightarrow> nat \<Rightarrow> block_pos \<Rightarrow> 'a sender \<Rightarrow> (int \<times> 'a sender) option" where
  "crypt_range c seq off n pos t =
     (case peek off n (outbuf t) of
        None \<Rightarrow> None
      | Some block \<Rightarrow>
          (case crypt c seq block (crypt_abstract (local_end t)) pos of
             None \<Rightarrow> Some (E_ENCRYPT, t)
           | Some (out, a) \<Rightarrow> map_option (Pair 0) (put_out off out (upd_end (crypt_abstract_update (\<lambda>_. a)) t))))"

definition encrypt_blocks :: "'a crypt_method \<Rightarrow> nat \<Rightarrow> nat \<Rightarrow> 'a sender \<Rightarrow> (int \<times> 'a sender) option" where
  "encrypt_blocks c start packet_length t =
     (case crypt_blocks c packet_length start (outbuf t) (crypt_abstract (local_end t)) of
        None \<Rightarrow> None
      | Some (ok, buf, a) \<Rightarrow>
          Some (if ok then 0 else E_ENCRYPT, upd_end (crypt_abstract_update (\<lambda>_. a)) (t\<lparr>outbuf := buf\<rparr>)))"

definition encrypt_frame :: "'a mac_method option \<Rightarrow> bool \<Rightarrow> nat \<Rightarrow> nat \<Rightarrow> 'a sender \<Rightarrow> (int \<times> 'a sender) option" where
  "encrypt_frame local_mac is_etm packet_length total_length t =
     (case ep_crypt (local_end t) of
        None \<Rightarrow> None
      | Some c \<Rightarrow>
          next_step
            (next_step
              (case local_mac of
                 Some m \<Rightarrow> if \<not> is_etm \<and> \<not> integrated_mac c then append_mac m packet_length t else Some (0, t)
               | None \<Rightarrow> Some (0, t))
              (\<lambda>t.
                 if requires_full_packet c then crypt_range c (seqno (local_end t)) 0 packet_length MIDDLE_BLOCK t
                 else
                   next_step (encrypt_blocks c (if is_etm then 4 else 0) packet_length t)
                     (\<lambda>t. if integrated_mac c then
                            (case local_mac of
                               None \<Rightarrow> None
                             | Some m \<Rightarrow>
                                 if total_length \<le> packet_length + blocksize c
                                 then crypt_range c 0 packet_length (mac_len m) LAST_BLOCK t else None)
                          else Some (0, t))))
            (\<lambda>t. if is_etm then (case local_mac of None \<Rightarrow> None | Some m \<Rightarrow> append_mac m packet_length t) else Some (0, t)))"

section \<open>Building and sending a frame\<close>

text \<open>
  The local variables of the function: the flags of the \<^emph>\<open>remote\<close> cipher decide on the tag and on the clear length, as in the code.
\<close>

definition block_size :: "'a sender \<Rightarrow> nat option" where
  "block_size t = (if encrypted t then map_option blocksize (ep_crypt (local_end t)) else Some 8)"

definition full_packets :: "'a sender \<Rightarrow> bool" where
  "full_packets t \<longleftrightarrow> encrypted t \<and> ep_crypt (local_end t) \<noteq> None \<and> crypt_flag requires_full_packet (remote_crypt t)"

definition tag_len :: "'a sender \<Rightarrow> nat" where
  "tag_len t = (case ep_crypt (local_end t) of Some c \<Rightarrow> if full_packets t then auth_len c else 0 | None \<Rightarrow> 0)"

definition local_mac :: "'a sender \<Rightarrow> 'a mac_method option" where
  "local_mac t = (if full_packets t then None else ep_mac (local_end t))"

definition is_etm :: "'a sender \<Rightarrow> bool" where
  "is_etm t \<longleftrightarrow> encrypted t \<and> (case local_mac t of None \<Rightarrow> False | Some m \<Rightarrow> etm m)"

definition crypt_offset :: "'a sender \<Rightarrow> nat" where
  "crypt_offset t = (if is_etm t \<or> tag_len t \<noteq> 0 \<or> encrypted t \<and> crypt_flag pktlen_aad (remote_crypt t) then 4 else 0)"

definition mac_length :: "'a sender \<Rightarrow> nat" where
  "mac_length t = (if encrypted t then (case local_mac t of None \<Rightarrow> 0 | Some m \<Rightarrow> mac_len m) else 0)"

text \<open>The two length fields before, and the padding after, a payload of \<open>n\<close> bytes.\<close>

definition wrap_payload :: "nat \<Rightarrow> nat \<Rightarrow> 'a sender \<Rightarrow> (int \<times> 'a sender) option" where
  "wrap_payload n pad t =
     (case put_out 0 (htonu32 (word_of_nat (n + 5 + pad - 4)) @ [word_of_nat pad]) t of
        None \<Rightarrow> None
      | Some t1 \<Rightarrow>
          (case random_bytes pad t1 of
             (None, t2) \<Rightarrow> Some (libssh2_error t2 E_RANDGEN ''Unable to get random bytes for packet padding'')
           | (Some junk, t2) \<Rightarrow> map_option (Pair 0) (put_out (5 + n) junk t2)))"

text \<open>The frame is built in the buffer; on success the result is the number of its bytes.\<close>

definition build_frame :: "bytes \<Rightarrow> bytes \<Rightarrow> 'a sender \<Rightarrow> ((int + nat) \<times> 'a sender) option" where
  "build_frame data data2 t =
     (case block_size t of
        None \<Rightarrow> None
      | Some bs \<Rightarrow>
          (case fill_payload data data2 t of
             None \<Rightarrow> None
           | Some (Inl rc, t1) \<Rightarrow> Some (Inl rc, t1)
           | Some (Inr n, t1) \<Rightarrow>
               if bs = 0 then None
               else
                 let pad = pad_length bs (n + 5) (crypt_offset t);
                     packet_length = n + 5 + pad; total_length = packet_length + mac_length t + tag_len t in
                 (case next_step (wrap_payload n pad t1)
                     (\<lambda>t2. if encrypted t then encrypt_frame (local_mac t) (is_etm t) packet_length total_length t2 else Some (0, t2)) of
                    None \<Rightarrow> None
                  | Some (rc, t3) \<Rightarrow> Some (if rc = 0 then Inr total_length else Inl rc, t3))))"

definition send_frame :: "addr \<Rightarrow> bytes \<Rightarrow> nat \<Rightarrow> 'a sender \<Rightarrow> (int \<times> 'a sender) option" where
  "send_frame ptr data total_length t =
     (if tp_kex_strict t \<and> data = [] then None
      else
        let t1 = upd_end (seqno_update (\<lambda>q. if tp_kex_strict t \<and> data ! 0 = MSG_NEWKEYS then 0 else q + 1)) t in
        (case peek 0 total_length (outbuf t1) of
           None \<Rightarrow> None
         | Some frame \<Rightarrow>
             let (r, t2) = sock_send frame t1 in
             if r \<noteq> int total_length then
               if r \<ge> 0 \<or> r = - ERRNO_EAGAIN then
                 Some (E_EAGAIN, t2\<lparr>block_outbound := True, odata := Some ptr, olen := length data, osent := nat (max 0 r),
                   ototal_num := total_length\<rparr>)
               else Some (E_SOCKET_SEND, t2)
             else Some (0, t2\<lparr>odata := None, olen := 0\<rparr>)))"

text \<open>\<open>kex\<close> is \<open>_libssh2_kex_exchange\<close>, which is called when an earlier call left it in the middle.\<close>

definition transport_output ::
  "('a sender \<Rightarrow> (int \<times> 'a sender) option) \<Rightarrow> addr \<Rightarrow> bytes \<Rightarrow> bytes \<Rightarrow> 'a sender \<Rightarrow> (int \<times> 'a sender) option" where
  "transport_output kex ptr data data2 t =
     next_step
       (if tp_state t AND STATE_EXCHANGING_KEYS \<noteq> 0 \<and> tp_state t AND STATE_KEX_ACTIVE = 0 then kex t else Some (0, t))
       (\<lambda>t.
          case send_existing ptr data t of
            None \<Rightarrow> None
          | Some ((rc, ret), t1) \<Rightarrow>
              if rc \<noteq> 0 then Some (rc, t1)
              else
                let t2 = t1\<lparr>block_outbound := False\<rparr> in
                if ret then Some (0, t2)
                else
                  (case build_frame data data2 t2 of
                     None \<Rightarrow> None
                   | Some (Inl rc, t3) \<Rightarrow> Some (rc, t3)
                   | Some (Inr total_length, t3) \<Rightarrow> send_frame ptr data total_length t3))"

end
