(* ===== verification/Transport_Collect.thy ===== *)
theory Transport_Collect
  imports Transport_Send
begin

text \<open>
  The receiving half of \<^verbatim>\<open>libssh2/src/transport.c\<close>: the loop of \<open>_libssh2_transport_read\<close> that collects the bytes of a
  packet from the socket and decrypts them, \<open>decrypt\<close>, and the first part of \<open>fullpacket\<close>, which checks the MAC and strips the
  padding.  A complete packet is what \<open>Transport_Read\<close> finds in its \<open>inbox\<close>.  As in \<open>Transport_Send\<close> the methods of the
  backend are fields of the state.
\<close>

section \<open>State\<close>

abbreviation PACKETBUFSIZE :: nat where "PACKETBUFSIZE \<equiv> MAX_SSH_PACKET_LEN"
abbreviation PACKET_MAXPAYLOAD :: nat where "PACKET_MAXPAYLOAD \<equiv> 40000"
abbreviation MAX_BLOCKSIZE :: nat where "MAX_BLOCKSIZE \<equiv> 32"

text \<open>A pointer to a block of memory: null, owned, or left over from a block that was freed or handed over.\<close>

datatype area = Null | Live bytes | Dangling

text \<open>
  \<open>remote_len\<close> is the callback \<^verbatim>\<open>get_len\<close> of the remote cipher, \<open>crypt_rc\<close> the code with which that cipher fails,
  \<open>decomp\<close> the decompression.  What the socket returns is a script of errors and of chunks; an exhausted script would block.
\<close>

record 'a receiver =
  rx_state :: u32
  rx_down :: bool
  remote_end :: "'a endpoint_data"
  remote_len :: "(u32 \<Rightarrow> bytes \<Rightarrow> 'a \<Rightarrow> int \<times> u32 \<times> 'a) option"
  crypt_rc :: int
  decomp :: "bytes \<Rightarrow> 'a \<Rightarrow> (int + bytes) \<times> 'a"
  rx_local_crypt :: "'a crypt_method option"
  rx_local_comp :: "'a comp_method option"
  inbuf :: bytes
  writeidx :: nat
  readidx :: nat
  init_bytes :: bytes
  packet_length :: u32
  padding_length :: byte
  data_num :: nat
  total_num :: nat
  payload :: area
  wptr :: nat
  block_inbound :: bool
  net :: "(int + bytes) list"
  rx_mem :: allocs

text \<open>A stage ends the call with a return code, or goes on; \<open>None\<close> is an access outside a block or a failed assertion.\<close>

type_synonym ('x, 'a) stage = "((int + 'x) \<times> 'a receiver) option"

definition stage_then :: "('x, 'a) stage \<Rightarrow> ('x \<Rightarrow> 'a receiver \<Rightarrow> ('y, 'a) stage) \<Rightarrow> ('y, 'a) stage" where
  "stage_then x f = (case x of None \<Rightarrow> None | Some (Inl rc, r) \<Rightarrow> Some (Inl rc, r) | Some (Inr y, r) \<Rightarrow> f y r)"

definition free_payload :: "'a receiver \<Rightarrow> 'a receiver option" where
  "free_payload r = (case payload r of Null \<Rightarrow> Some r | Live _ \<Rightarrow> Some (r\<lparr>payload := Dangling\<rparr>) | Dangling \<Rightarrow> None)"

text \<open>A copy to the write pointer.\<close>

definition put_payload :: "bytes \<Rightarrow> 'a receiver \<Rightarrow> 'a receiver option" where
  "put_payload bs r =
     (case payload r of
        Live m \<Rightarrow> map_option (\<lambda>m. r\<lparr>payload := Live m\<rparr>) (poke (wptr r) bs m)
      | _ \<Rightarrow> None)"

definition upd_far :: "('a endpoint_data \<Rightarrow> 'a endpoint_data) \<Rightarrow> 'a receiver \<Rightarrow> 'a receiver" where
  "upd_far f r = r\<lparr>remote_end := f (remote_end r)\<rparr>"

section \<open>Local variables of the function\<close>

definition rx_encrypted :: "'a receiver \<Rightarrow> bool" where
  "rx_encrypted r \<longleftrightarrow> rx_state r AND STATE_NEWKEYS \<noteq> 0"

definition remote_flag :: "('a crypt_method \<Rightarrow> bool) \<Rightarrow> 'a receiver \<Rightarrow> bool" where
  "remote_flag f r = crypt_flag f (ep_crypt (remote_end r))"

definition rx_full :: "'a receiver \<Rightarrow> bool" where
  "rx_full r \<longleftrightarrow> rx_encrypted r \<and> remote_flag requires_full_packet r"

definition rx_tag_len :: "'a receiver \<Rightarrow> nat" where
  "rx_tag_len r = (if rx_full r then (case ep_crypt (remote_end r) of None \<Rightarrow> 0 | Some c \<Rightarrow> auth_len c) else 0)"

definition rx_mac :: "'a receiver \<Rightarrow> 'a mac_method option" where
  "rx_mac r = (if rx_encrypted r \<and> \<not> rx_full r then ep_mac (remote_end r) else None)"

definition rx_etm :: "'a receiver \<Rightarrow> bool" where
  "rx_etm r = (case rx_mac r of None \<Rightarrow> False | Some m \<Rightarrow> etm m)"

definition rx_mac_len :: "'a receiver \<Rightarrow> nat" where
  "rx_mac_len r = (case rx_mac r of None \<Rightarrow> 0 | Some m \<Rightarrow> mac_len m)"

definition rx_block :: "'a receiver \<Rightarrow> nat option" where
  "rx_block r = (if rx_encrypted r then map_option blocksize (ep_crypt (remote_end r)) else Some 5)"

section \<open>Decryption\<close>

text \<open>
  The loop of \<open>decrypt\<close> over the bytes at \<open>source\<close>: success, the plain text, and the state of the cipher.
\<close>

function decrypt_loop :: "'a crypt_method \<Rightarrow> bool \<Rightarrow> bytes \<Rightarrow> block_pos \<Rightarrow> 'a \<Rightarrow> (bool \<times> bytes \<times> 'a) option" where
  "decrypt_loop c aad src firstlast a =
     (if blocksize c = 0 then None
      else if src = [] then Some (True, [], a)
      else
        let len = length src; join = (aad \<and> firstlast = LAST_BLOCK \<and> len < blocksize c * 2);
            n = (if join then len else min (blocksize c) len);
            pos = (if join then LAST_BLOCK else if firstlast = FIRST_BLOCK then FIRST_BLOCK
                   else if len \<le> blocksize c then firstlast else MIDDLE_BLOCK) in
        (case crypt c 0 (take n src) a pos of
           None \<Rightarrow> Some (False, [], a)
         | Some (out, a1) \<Rightarrow>
             if length out \<noteq> n then None
             else map_option (\<lambda>(ok, plain, a2). (ok, out @ plain, a2)) (decrypt_loop c aad (drop n src) firstlast a1)))"
  by pat_completeness auto

termination
  by (relation "measure (\<lambda>(c, aad, src, _). length src)") (auto simp: min_def)

declare decrypt_loop.simps [simp del]

text \<open>
  A failure frees the payload.  The plain text also replaces the bytes at the source, which are not read again.
\<close>

definition decrypt :: "bytes \<Rightarrow> block_pos \<Rightarrow> 'a receiver \<Rightarrow> (bytes, 'a) stage" where
  "decrypt src firstlast r =
     (case ep_crypt (remote_end r) of
        None \<Rightarrow> None
      | Some c \<Rightarrow>
          if \<not> crypt_flag pktlen_aad (rx_local_crypt r) \<and> length src mod blocksize c \<noteq> 0 then None
          else
            (case decrypt_loop c (crypt_flag pktlen_aad (rx_local_crypt r)) src firstlast (crypt_abstract (remote_end r)) of
               None \<Rightarrow> None
             | Some (ok, plain, a) \<Rightarrow>
                 let r1 = upd_far (crypt_abstract_update (\<lambda>_. a)) r in
                 if ok then Some (Inr plain, r1) else map_option (Pair (Inl E_DECRYPT)) (free_payload r1)))"

section \<open>Reading from the socket\<close>

text \<open>A call of \<open>LIBSSH2_RECV\<close> with room for \<open>n\<close> bytes: what does not fit comes with the next call.\<close>

definition recv_chunk :: "nat \<Rightarrow> 'a receiver \<Rightarrow> (int + bytes) \<times> 'a receiver" where
  "recv_chunk n r =
     (case net r of
        [] \<Rightarrow> (Inl (- ERRNO_EAGAIN), r)
      | Inl e # rest \<Rightarrow> (Inl e, r\<lparr>net := rest\<rparr>)
      | Inr bs # rest \<Rightarrow> (Inr (take n bs), r\<lparr>net := (if length bs \<le> n then rest else Inr (drop n bs) # rest)\<rparr>))"

definition would_block :: "'a receiver \<Rightarrow> ('x, 'a) stage" where
  "would_block r = Some (Inl E_EAGAIN, r\<lparr>block_inbound := True\<rparr>)"

definition refill :: "nat \<Rightarrow> 'a receiver \<Rightarrow> (unit, 'a) stage" where
  "refill bs r =
     (if writeidx r < readidx r then None
      else
        let remainbuf = writeidx r - readidx r in
        if remainbuf < bs \<or> remote_flag requires_full_packet r \<and> total_num r > remainbuf then
          (case poke 0 (take remainbuf (drop (readidx r) (inbuf r))) (inbuf r) of
             None \<Rightarrow> None
           | Some buf \<Rightarrow>
               let r1 = r\<lparr>inbuf := buf, readidx := 0, writeidx := remainbuf\<rparr> in
               (case recv_chunk (PACKETBUFSIZE - remainbuf) r1 of
                  (Inl e, r2) \<Rightarrow> if e = - ERRNO_EAGAIN then would_block r2 else Some (Inl E_SOCKET_RECV, r2)
                | (Inr [], r2) \<Rightarrow> Some (Inl E_SOCKET_RECV, r2)
                | (Inr bytes, r2) \<Rightarrow>
                    map_option (\<lambda>buf. (Inr (), r2\<lparr>inbuf := buf, writeidx := remainbuf + length bytes\<rparr>))
                      (poke remainbuf bytes (inbuf r2))))
        else Some (Inr (), r))"

section \<open>The start of a packet\<close>

text \<open>
  The first block, with the length fields in clear.  \<open>numbytes\<close> is what the buffer holds.
\<close>

definition first_block :: "nat \<Rightarrow> nat \<Rightarrow> 'a receiver \<Rightarrow> (bytes, 'a) stage" where
  "first_block bs numbytes r =
     (if rx_etm r then
        (case peek (readidx r) 4 (inbuf r) of
           None \<Rightarrow> None
         | Some block \<Rightarrow> Some (Inr block, r\<lparr>init_bytes := block @ drop 4 (init_bytes r)\<rparr>))
      else
        (case (if rx_encrypted r then remote_len r else None) of
           Some get_len \<Rightarrow>
             (case peek (readidx r) numbytes (inbuf r) of
                None \<Rightarrow> None
              | Some bs \<Rightarrow>
                  let (rc, len, a) = get_len (seqno (remote_end r)) bs (crypt_abstract (remote_end r));
                      r1 = upd_far (crypt_abstract_update (\<lambda>_. a)) r in
                  if rc \<noteq> 0 then
                    map_option (\<lambda>r. (Inl rc, r\<lparr>payload := Null\<rparr>)) (free_payload (r1\<lparr>total_num := 0\<rparr>))
                  else Some (Inr (htonu32 len), r1\<lparr>init_bytes := htonu32 len @ drop 4 (init_bytes r1)\<rparr>))
         | None \<Rightarrow>
             (case peek (readidx r) bs (inbuf r) of
                None \<Rightarrow> None
              | Some src \<Rightarrow>
                  if bs < 5 \<or> MAX_BLOCKSIZE < bs then None
                  else
                    stage_then
                      (if rx_encrypted r then
                         stage_then (decrypt src FIRST_BLOCK r) (\<lambda>block r. Some (Inr block, r\<lparr>init_bytes := take 5 block\<rparr>))
                       else Some (Inr src, r))
                      (\<lambda>block r. Some (Inr block, r\<lparr>readidx := readidx r + bs, packet_length := ntohu32 (take 4 block)\<rparr>)))))"

text \<open>
  The number of bytes to collect, computed in 32 bits.  In the mode that encrypts before the MAC the length that is tested first is the
  one of the packet before.
\<close>

definition packet_size :: "bytes \<Rightarrow> 'a receiver \<Rightarrow> (nat, 'a) stage" where
  "packet_size block r =
     (if \<not> rx_full r then
        if packet_length r < 1 then Some (Inl E_DECRYPT, r)
        else if unat (packet_length r) > PACKET_MAXPAYLOAD then Some (Inl E_OUT_OF_BOUNDARY, r)
        else if rx_etm r then
          let r1 = r\<lparr>packet_length := ntohu32 (take 4 block)\<rparr> in
          Some (Inr (unat (4 + packet_length r1 + word_of_nat (rx_mac_len r))), r1)
        else if length block \<le> 4 then None
        else
          let r1 = r\<lparr>padding_length := block ! 4\<rparr> in
          if ucast (padding_length r1) > packet_length r1 - 1 then Some (Inl E_DECRYPT, r1)
          else if rx_encrypted r \<and> rx_mac r = None then None
          else Some (Inr (unat (packet_length r1 - 1 + word_of_nat (rx_mac_len r))), r1)
      else
        let r1 = r\<lparr>packet_length := ntohu32 (take 4 block)\<rparr> in
        if packet_length r1 < 1 then Some (Inl E_DECRYPT, r1)
        else
          Some (Inr (4 + unat (packet_length r1 + word_of_nat (rx_mac_len r) + word_of_nat (rx_tag_len r))),
            r1\<lparr>padding_length := 0\<rparr>))"

definition rx_alloc :: "'a receiver \<Rightarrow> bool \<times> 'a receiver" where
  "rx_alloc r = (fst (alloc_next (rx_mem r)), r\<lparr>rx_mem := snd (alloc_next (rx_mem r))\<rparr>)"

text \<open>Memory for the packet, and the bytes of the first block behind the length fields; the result is what is left of \<open>numbytes\<close>.\<close>

definition open_packet :: "nat \<Rightarrow> int \<Rightarrow> bytes \<Rightarrow> nat \<Rightarrow> 'a receiver \<Rightarrow> (int, 'a) stage" where
  "open_packet bs numbytes block len r =
     (if len > PACKET_MAXPAYLOAD \<or> len = 0 then Some (Inl E_OUT_OF_BOUNDARY, r)
      else
        let (ok, r1) = rx_alloc r in
        if \<not> ok then Some (Inl E_ALLOC, r1\<lparr>payload := Null\<rparr>)
        else
          let r2 = r1\<lparr>payload := Live (replicate len 0), total_num := len, wptr := 0\<rparr> in
          if rx_full r then Some (Inr numbytes, r2\<lparr>data_num := 0\<rparr>)
          else if \<not> rx_etm r \<and> bs > 5 then
            if bs - 5 \<le> len then
              map_option (\<lambda>r. (Inr (numbytes - int bs), r\<lparr>wptr := bs - 5, data_num := bs - 5\<rparr>)) (put_payload (take (bs - 5) (drop 5 block)) r2)
            else map_option (Pair (Inl E_OUT_OF_BOUNDARY)) (free_payload r2)
          else Some (Inr (if rx_etm r then numbytes else numbytes - int bs), r2\<lparr>data_num := 0\<rparr>))"

definition start_packet :: "nat \<Rightarrow> nat \<Rightarrow> 'a receiver \<Rightarrow> (int, 'a) stage" where
  "start_packet bs numbytes r =
     (if numbytes < (if rx_etm r then 4 else bs) then would_block r
      else
        stage_then (first_block bs numbytes r) (\<lambda>block r.
          stage_then (packet_size block r) (open_packet bs (int numbytes) block)))"

section \<open>Collecting the rest\<close>

text \<open>
  How many of the \<open>numbytes\<close> bytes at hand to decrypt, in which position, and how many to take in all.  Numbers are \<^verbatim>\<open>ssize_t\<close>
  or \<^verbatim>\<open>int\<close>, the comparison with the size less the MAC is one of \<^verbatim>\<open>size_t\<close>.
\<close>

definition decrypt_plan :: "nat \<Rightarrow> int \<Rightarrow> 'a receiver \<Rightarrow> int \<times> block_pos \<times> int" where
  "decrypt_plan bs numbytes r =
     (if rx_encrypted r \<and> \<not> rx_etm r then
        let skip = (if remote_flag integrated_mac r then 0 else rx_mac_len r + rx_tag_len r) in
        if data_num r + nat numbytes \<ge> size_sub (total_num r) skip then
          (max 0 (int (total_num r) - int skip - int (data_num r)), LAST_BLOCK, numbytes)
        else
          let frac = numbytes mod int bs; numdecrypt = numbytes - frac; taken = (if frac \<noteq> 0 then 0 else numbytes) in
          if remote_flag integrated_mac r then
            (min numdecrypt (int (total_num r) - int skip - int bs - int (data_num r)), MIDDLE_BLOCK, 0)
          else (numdecrypt, MIDDLE_BLOCK, taken)
      else (0, FIRST_BLOCK, numbytes))"

definition advance_by :: "nat \<Rightarrow> 'a receiver \<Rightarrow> 'a receiver" where
  "advance_by n r = r\<lparr>readidx := readidx r + n, wptr := wptr r + n, data_num := data_num r + n\<rparr>"

text \<open>A cipher that needs the whole packet is handed it with its tag; it leaves padding length, payload and padding at the read index.\<close>

definition decrypt_whole :: "nat \<Rightarrow> nat \<Rightarrow> 'a receiver \<Rightarrow> (unit, 'a) stage" where
  "decrypt_whole numdecrypt numbytes r =
     (case (ep_crypt (remote_end r), peek (readidx r) (4 + numdecrypt + rx_tag_len r) (inbuf r)) of
        (Some c, Some src) \<Rightarrow>
          (case crypt c (seqno (remote_end r)) src (crypt_abstract (remote_end r)) MIDDLE_BLOCK of
             None \<Rightarrow> Some (Inl (crypt_rc r), r\<lparr>total_num := 0\<rparr>)
           | Some (out, a) \<Rightarrow>
               (case poke (readidx r) out (inbuf r) of
                  None \<Rightarrow> None
                | Some buf \<Rightarrow>
                    let r1 = upd_far (crypt_abstract_update (\<lambda>_. a)) (r\<lparr>inbuf := buf\<rparr>) in
                    (case peek (readidx r) numbytes buf of
                       None \<Rightarrow> None
                     | Some [] \<Rightarrow> None
                     | Some (b # bs) \<Rightarrow>
                         (case put_payload (b # bs) r1 of
                            None \<Rightarrow> None
                          | Some r2 \<Rightarrow>
                              let r3 = r2\<lparr>readidx := readidx r2 + 4, padding_length := b\<rparr> in
                              if ucast b > packet_length r3 - 1 then Some (Inl E_DECRYPT, r3)
                              else Some (Inr (), advance_by (numdecrypt + rx_tag_len r) r3)))))
      | _ \<Rightarrow> None)"

definition decrypt_part :: "nat \<Rightarrow> block_pos \<Rightarrow> 'a receiver \<Rightarrow> (unit, 'a) stage" where
  "decrypt_part numdecrypt pos r =
     (case peek (readidx r) numdecrypt (inbuf r) of
        None \<Rightarrow> None
      | Some src \<Rightarrow>
          (case decrypt src pos r of
             None \<Rightarrow> None
           | Some (Inl rc, r1) \<Rightarrow> Some (Inl rc, r1\<lparr>total_num := 0\<rparr>)
           | Some (Inr plain, r1) \<Rightarrow> map_option (\<lambda>r. (Inr (), advance_by numdecrypt r)) (put_payload plain r1)))"

definition copy_plain :: "nat \<Rightarrow> 'a receiver \<Rightarrow> (unit, 'a) stage" where
  "copy_plain n r =
     (if n \<le> size_sub (total_num r) (wptr r) then
        (case peek (readidx r) n (inbuf r) of
           None \<Rightarrow> None
         | Some bs \<Rightarrow> map_option (\<lambda>r. (Inr (), advance_by n r)) (put_payload bs r))
      else map_option (Pair (Inl E_OUT_OF_BOUNDARY)) (free_payload r))"

text \<open>One round behind the start of the packet; the result says whether the packet is complete.\<close>

definition collect_part :: "nat \<Rightarrow> int \<Rightarrow> 'a receiver \<Rightarrow> (bool, 'a) stage" where
  "collect_part bs numbytes0 r0 =
     (let remainpack = int (total_num r0) - int (data_num r0); numbytes1 = min numbytes0 remainpack in
      if rx_full r0 \<and> numbytes1 < remainpack then would_block r0
      else
        let (numbytes2, r1) = (if rx_full r0 then (numbytes1 - 4, r0\<lparr>total_num := total_num r0 - 4\<rparr>) else (numbytes1, r0));
            (numdecrypt, pos, numbytes) = decrypt_plan bs numbytes2 r1 in
        if numdecrypt < 0 then None
        else
          stage_then
            (if numdecrypt > 0 then
               (if rx_full r1 then decrypt_whole (nat numdecrypt) (nat numbytes) r1 else decrypt_part (nat numdecrypt) pos r1)
             else Some (Inr (), r1))
            (\<lambda>_ r2.
              let rest = numbytes - (if numdecrypt > 0 then numdecrypt + (if rx_full r1 then int (rx_tag_len r1) else 0) else 0) in
              stage_then (if rest > 0 then copy_plain (nat rest) r2 else Some (Inr (), r2))
                (\<lambda>_ r3. Some (Inr (total_num r3 = data_num r3), r3))))"

section \<open>A complete packet\<close>

text \<open>
  The first part of \<open>fullpacket\<close>: the MAC, with decryption behind it where the packet was encrypted first.  The result is whether
  the MAC was right.
\<close>

definition etm_decrypt :: "nat \<Rightarrow> nat \<Rightarrow> 'a receiver \<Rightarrow> (unit, 'a) stage" where
  "etm_decrypt bs n r =
     (case payload r of
        Live m \<Rightarrow>
          (case peek 4 bs m of
             None \<Rightarrow> None
           | Some src \<Rightarrow>
               if MAX_BLOCKSIZE < bs \<or> bs = 0 then None
               else
                 stage_then (decrypt src FIRST_BLOCK r)
                   (\<lambda>first r1.
                     let (ok, r2) = rx_alloc r1; decrypt_size = int (total_num r) - int n - 4 in
                     if \<not> ok \<or> decrypt_size < 0 then Some (Inl E_ALLOC, r2)
                     else
                       let r3 = r2\<lparr>padding_length := hd first\<rparr> in
                       (case poke 0 (tl first) (replicate (nat decrypt_size) 0) of
                          None \<Rightarrow> None
                        | Some buf \<Rightarrow>
                            if int bs < decrypt_size then
                              (case peek (bs + 4) (nat decrypt_size - bs) m of
                                 None \<Rightarrow> None
                               | Some src2 \<Rightarrow>
                                   stage_then (decrypt src2 LAST_BLOCK r3)
                                     (\<lambda>rest r4. map_option (\<lambda>b. (Inr (), r4\<lparr>payload := Live b\<rparr>)) (poke (bs - 1) rest buf)))
                            else Some (Inr (), r3\<lparr>payload := Live buf\<rparr>))))
      | _ \<Rightarrow> None)"

definition check_mac :: "'a receiver \<Rightarrow> (bool, 'a) stage" where
  "check_mac r =
     (let mac = (if rx_encrypted r \<and> \<not> remote_flag requires_full_packet r \<and> \<not> remote_flag integrated_mac r
                 then ep_mac (remote_end r) else None) in
      case mac of
        Some m \<Rightarrow>
          (case (payload r, ep_crypt (remote_end r)) of
             (Live p, Some c) \<Rightarrow>
               let covered = (if etm m then peek 0 (total_num r - mac_len m) p
                              else map_option ((@) (init_bytes r)) (peek 0 (unat (packet_length r - 1)) p)) in
               (case (covered, peek (total_num r - mac_len m) (mac_len m) p) of
                  (Some bytes, Some received) \<Rightarrow>
                    (case mac_hash m (seqno (remote_end r)) bytes (mac_abstract (remote_end r)) of
                       None \<Rightarrow> None
                     | Some (tag, a) \<Rightarrow>
                         let r1 = upd_far (mac_abstract_update (\<lambda>_. a)) r in
                         if take (mac_len m) tag \<noteq> received then Some (Inr False, r1)
                         else if etm m then stage_then (etm_decrypt (blocksize c) (mac_len m) r1) (\<lambda>_ r. Some (Inr True, r))
                         else Some (Inr True, r1))
                | _ \<Rightarrow> None)
           | _ \<Rightarrow> None)
      | None \<Rightarrow>
          if rx_full r then
            (case payload r of
               Live p \<Rightarrow>
                 (case peek 1 (unat (packet_length r - 1)) p of
                    None \<Rightarrow> None
                  | Some bytes \<Rightarrow> map_option (\<lambda>p. (Inr True, r\<lparr>payload := Live p\<rparr>)) (poke 0 bytes p))
             | _ \<Rightarrow> None)
          else Some (Inr True, r))"

text \<open>The local compression method decides whether the payload is decompressed, as in the code.\<close>

definition rx_compressed :: "'a receiver \<Rightarrow> bool" where
  "rx_compressed r \<longleftrightarrow>
     (case rx_local_comp r of
        None \<Rightarrow> False
      | Some c \<Rightarrow> compress c \<and> (rx_state r AND STATE_AUTHENTICATED \<noteq> 0 \<or> use_in_auth c))"

text \<open>
  The packet as \<open>_libssh2_packet_add\<close> gets it: the payload, the verdict on the MAC, the number of the packet.  A length that does
  not fit the block is \<open>None\<close>, as the packet would be handed on with it, whether anyone reads it or not.
\<close>

definition finish_packet :: "'a receiver \<Rightarrow> (bytes \<times> bool \<times> u32, 'a) stage" where
  "finish_packet r =
     (let seq = seqno (remote_end r); len = unat (packet_length r - 1) in
      stage_then (check_mac r) (\<lambda>mac_ok r1.
        let r2 = upd_far (seqno_update (\<lambda>q. q + 1)) r1; payload_len = size_sub len (unat (padding_length r2)) in
        (case payload r2 of
           Live p \<Rightarrow>
             (case peek 0 payload_len p of
                None \<Rightarrow> None
              | Some bytes \<Rightarrow>
                  (case (if rx_compressed r2 then comp_abstract (remote_end r2) else None) of
                     None \<Rightarrow> Some (Inr (bytes, mac_ok, seq), r2\<lparr>payload := Dangling\<rparr>)
                   | Some a \<Rightarrow>
                       (case decomp r2 bytes a of
                          (Inl rc, a1) \<Rightarrow> Some (Inl rc, upd_far (comp_abstract_update (\<lambda>_. Some a1)) (r2\<lparr>payload := Dangling\<rparr>))
                        | (Inr z, a1) \<Rightarrow>
                            Some (Inr (z, mac_ok, seq), upd_far (comp_abstract_update (\<lambda>_. Some a1)) (r2\<lparr>payload := Dangling\<rparr>)))))
         | _ \<Rightarrow> None)))"

section \<open>The loop\<close>

partial_function (option) collect_loop :: "'a receiver \<Rightarrow> (bytes \<times> bool \<times> u32, 'a) stage" where
  "collect_loop r0 =
     (if rx_down r0 then Some (Inl E_SOCKET_DISCONNECT, r0)
      else case rx_block r0 of
        None \<Rightarrow> None
      | Some bs \<Rightarrow>
          (case refill bs r0 of
             None \<Rightarrow> None
           | Some (Inl rc, r1) \<Rightarrow> Some (Inl rc, r1)
           | Some (Inr _, r1) \<Rightarrow>
               let remainbuf = writeidx r1 - readidx r1 in
               (case (if total_num r1 = 0 then start_packet bs remainbuf r1 else Some (Inr (int remainbuf), r1)) of
                  None \<Rightarrow> None
                | Some (Inl rc, r2) \<Rightarrow> Some (Inl rc, r2)
                | Some (Inr numbytes, r2) \<Rightarrow>
                    (case collect_part bs numbytes r2 of
                       None \<Rightarrow> None
                     | Some (Inl rc, r3) \<Rightarrow> Some (Inl rc, r3)
                     | Some (Inr complete, r3) \<Rightarrow>
                         if complete then
                           (case finish_packet r3 of
                              None \<Rightarrow> None
                            | Some (x, r4) \<Rightarrow> Some (x, r4\<lparr>total_num := 0\<rparr>))
                         else collect_loop r3))))"

definition transport_collect :: "'a receiver \<Rightarrow> (bytes \<times> bool \<times> u32, 'a) stage" where
  "transport_collect r = collect_loop (r\<lparr>block_inbound := False\<rparr>)"

end
