(* ===== verification/Transport_Stream.thy ===== *)
theory Transport_Stream
  imports Transport_Send
begin

text \<open>
  What the peer gets to see of the sending half: the bytes that went out and those still owed are always a sequence of whole
  frames.
\<close>

section \<open>The stream that the session has committed itself to\<close>

definition owes :: "'a sender \<Rightarrow> bytes" where
  "owes t = (if olen t = 0 then [] else drop (osent t) (take (ototal_num t) (outbuf t)))"

definition pending_ok :: "'a sender \<Rightarrow> bool" where
  "pending_ok t \<longleftrightarrow> (olen t \<noteq> 0 \<longrightarrow> osent t \<le> ototal_num t \<and> ototal_num t \<le> length (outbuf t))"

definition redirected :: "'a sender \<Rightarrow> bool" where
  "redirected t \<longleftrightarrow> tp_state t AND STATE_EXCHANGING_KEYS \<noteq> 0 \<and> tp_state t AND STATE_KEX_ACTIVE = 0"

definition frame_of :: "bytes \<Rightarrow> bytes \<Rightarrow> 'a sender \<Rightarrow> bytes" where
  "frame_of data data2 t =
     (case build_frame data data2 (t\<lparr>block_outbound := False\<rparr>) of Some (Inr n, t1) \<Rightarrow> take n (outbuf t1) | _ \<Rightarrow> [])"

text \<open>Everything but the script of the socket, the log and the fields of the frame under way.\<close>

lemma sock_send_result:
  assumes "sock_send bs t = (r, t')"
  obtains rs where "r < 0" "t' = t\<lparr>sock := rs\<rparr>"
    | rs n where "r = int n" "n \<le> length bs" "t' = t\<lparr>sock := rs, wire := wire t @ take n bs\<rparr>"
proof (cases "sock t")
  case Nil
  then have "r = int (length bs)" "t' = t\<lparr>sock := [], wire := wire t @ take (length bs) bs\<rparr>"
    using assms by (auto simp: sock_send_def)
  then show thesis using that(2) by blast
next
  case (Cons q rs)
  show thesis
  proof (cases "q < 0")
    case True
    then show thesis using that(1) [of rs] assms Cons by (auto simp: sock_send_def)
  next
    case False
    then show thesis using that(2) [of "min (nat q) (length bs)" rs] assms Cons by (auto simp: sock_send_def Let_def)
  qed
qed

lemma peek_SomeD: "peek off n m = Some bs \<Longrightarrow> bs = take n (drop off m) \<and> off + n \<le> length m \<and> length bs = n"
  by (auto simp: peek_def split: if_splits)

lemma send_existing_owed:
  assumes ok: "pending_ok t" and p: "olen t \<noteq> 0" and e: "send_existing ptr data t = Some ((rc, ret), t')"
  shows "pending_ok t' \<and> wire t' @ owes t' = wire t @ owes t \<and> (rc = 0 \<longrightarrow> owes t' = [] \<and> ret) \<and>
    (Some ptr \<noteq> odata t \<or> length data \<noteq> olen t \<longrightarrow> rc = E_EAGAIN \<and> t' = t)"
proof (cases "Some ptr \<noteq> odata t \<or> length data \<noteq> olen t")
  case True
  then show ?thesis using ok p e by (auto simp: send_existing_def)
next
  case False
  obtain rest where rest: "peek (osent t) (ototal_num t - osent t) (outbuf t) = Some rest"
    using e p False by (auto simp: send_existing_def split: option.splits)
  have o: "owes t = rest" "length rest = ototal_num t - osent t" "osent t \<le> ototal_num t" "ototal_num t \<le> length (outbuf t)"
    using peek_SomeD [OF rest] ok p by (auto simp add: owes_def pending_ok_def drop_take)
  obtain r t1 where r: "sock_send rest t = (r, t1)" by fastforce
  have e': "(if r = int (length rest) then Some ((0, True), t1\<lparr>ototal_num := 0, olen := 0\<rparr>)
          else if r < 0 then
            (if r \<noteq> - ERRNO_EAGAIN then Some ((E_SOCKET_SEND, True), t1)
             else Some ((E_EAGAIN, True), t1\<lparr>block_outbound := True\<rparr>))
          else
            Some ((if r < int (length rest) then E_EAGAIN else 0, True), t1\<lparr>osent := osent t1 + nat r\<rparr>)) = Some ((rc, ret), t')"
    using e p False rest r by (simp add: send_existing_def Let_def)
  from r show ?thesis
  proof (cases rule: sock_send_result)
    case (1 rs)
    then show ?thesis using e' ok p False by (auto simp: pending_ok_def owes_def split: if_splits)
  next
    case (2 rs n)
    show ?thesis
    proof (cases "n = length rest")
      case True
      then show ?thesis using e' 2 False o p by (auto simp: pending_ok_def owes_def)
    next
      case n: False
      then have t': "t' = t\<lparr>sock := rs, wire := wire t @ take n rest, osent := osent t + n\<rparr>" "rc = E_EAGAIN" "n < length rest"
        using e' 2 by auto
      have "owes t' = drop n (owes t)" using p by (simp add: t' owes_def add.commute)
      then show ?thesis using t' o False by (auto simp add: pending_ok_def)
    qed
  qed
qed

lemma take_drop_take: "k \<le> n \<Longrightarrow> take k xs @ drop k (take n xs) = take n xs"
  by (metis append_take_drop_id min.absorb1 take_take)

section \<open>What building a frame leaves alone\<close>

definition outside :: "'a sender \<Rightarrow> 'a sender \<Rightarrow> bool" where
  "outside t t' \<longleftrightarrow> wire t' = wire t \<and> olen t' = olen t \<and> sock t' = sock t \<and> tp_state t' = tp_state t \<and>
     tp_kex_strict t' = tp_kex_strict t \<and> length (outbuf t') = length (outbuf t) \<and> odata t' = odata t"

lemma outside_refl [simp]: "outside t t"
  by (simp add: outside_def)

lemma outside_trans: "outside t u \<Longrightarrow> outside u v \<Longrightarrow> outside t v"
  by (simp add: outside_def)

lemma outside_upd [simp]:
  "outside t (upd_end f u) \<longleftrightarrow> outside t u" "outside (upd_end f t) u \<longleftrightarrow> outside t u"
  "outside t (snd (libssh2_error u c m)) \<longleftrightarrow> outside t u" "outside t (u\<lparr>block_outbound := b\<rparr>) \<longleftrightarrow> outside t u"
  "outside (t\<lparr>block_outbound := b\<rparr>) u \<longleftrightarrow> outside t u"
  by (simp_all add: outside_def upd_end_def libssh2_error_def libssh2_error_flags_def)

lemma put_out_outside: "put_out off bs u = Some u' \<Longrightarrow> outside t u' \<longleftrightarrow> outside t u"
  by (auto simp: put_out_def outside_def dest: poke_length)

lemma random_outside: "random_bytes n u = (r, u') \<Longrightarrow> outside t u' \<longleftrightarrow> outside t u"
  by (auto simp: random_bytes_def outside_def split: list.splits)

lemma comp_into_outside: "comp_into off space data u = Some (r, u') \<Longrightarrow> outside t u' \<longleftrightarrow> outside t u"
  by (auto simp: comp_into_def put_out_outside split: option.splits prod.splits sum.splits)

lemma fill_outside: "fill_payload data data2 u = Some (r, u') \<Longrightarrow> outside t u' \<longleftrightarrow> outside t u"
  by (auto simp: fill_payload_def comp_into_outside put_out_outside Let_def bind_eq_Some_conv
      split: if_splits option.splits prod.splits sum.splits)

lemma error_outside: "libssh2_error u c m = (r, u') \<Longrightarrow> outside t u' \<longleftrightarrow> outside t u"
  by (metis outside_upd(3) snd_conv)

lemma append_mac_outside: "append_mac m n u = Some (r, u') \<Longrightarrow> outside t u' \<longleftrightarrow> outside t u"
  by (auto simp: append_mac_def put_out_outside error_outside split: option.splits prod.splits)

lemma crypt_range_outside: "crypt_range c q off n pos u = Some (r, u') \<Longrightarrow> outside t u' \<longleftrightarrow> outside t u"
  by (auto simp: crypt_range_def put_out_outside split: option.splits prod.splits)

text \<open>The loop, with the step of a block written as its length.\<close>

definition block_len :: "'a crypt_method \<Rightarrow> nat \<Rightarrow> nat \<Rightarrow> nat" where
  "block_len c n i =
     (let b = min (blocksize c) (n - i) in if \<not> integrated_mac c \<and> i > size_sub n (2 * b) then n - i else b)"

definition pos_of :: "'a crypt_method \<Rightarrow> nat \<Rightarrow> nat \<Rightarrow> block_pos" where
  "pos_of c n i =
     (if i = 0 then FIRST_BLOCK
      else if \<not> integrated_mac c \<and> i = size_sub n (blocksize c) then LAST_BLOCK else MIDDLE_BLOCK)"

lemma block_len_bounds: "0 < blocksize c \<Longrightarrow> i < n \<Longrightarrow> 0 < block_len c n i \<and> i + block_len c n i \<le> n"
  by (auto simp: block_len_def Let_def)

lemma crypt_blocks_end: "0 < blocksize c \<Longrightarrow> n \<le> i \<Longrightarrow> crypt_blocks c n i buf a = Some (True, buf, a)"
  by (simp add: crypt_blocks.simps)

lemma crypt_blocks_step:
  assumes "0 < blocksize c" "i < n"
  shows "crypt_blocks c n i buf a =
     (case peek i (block_len c n i) buf of
        None \<Rightarrow> None
      | Some block \<Rightarrow>
          (case crypt c 0 block a (pos_of c n i) of
             None \<Rightarrow> Some (False, buf, a)
           | Some (out, a1) \<Rightarrow>
               (case poke i out buf of None \<Rightarrow> None | Some buf1 \<Rightarrow> crypt_blocks c n (i + block_len c n i) buf1 a1)))"
proof -
  let ?b = "min (blocksize c) (n - i)" let ?join = "\<not> integrated_mac c \<and> i > size_sub n (2 * ?b)"
  have "crypt_blocks c n (if ?join then i + (if ?join then n - i else ?b) else i + blocksize c) buf1 a1 =
      crypt_blocks c n (i + block_len c n i) buf1 a1" for buf1 a1
  proof (cases "?join \<or> blocksize c \<le> n - i")
    case True
    then show ?thesis by (auto simp: block_len_def Let_def min_def)
  next
    case False
    then have "n \<le> i + blocksize c" "n \<le> i + block_len c n i" by (auto simp: block_len_def Let_def)
    then show ?thesis using False assms(1) by (simp add: crypt_blocks_end)
  qed
  then show ?thesis
    using assms by (subst crypt_blocks.simps) (simp add: block_len_def pos_of_def Let_def cong: option.case_cong)
qed

lemma crypt_blocks_length: "crypt_blocks c n i buf a = Some (ok, buf', a') \<Longrightarrow> length buf' = length buf"
proof (induction "n - i" arbitrary: i buf a rule: less_induct)
  case less
  have b: "0 < blocksize c" using less.prems by (subst (asm) crypt_blocks.simps) (auto split: if_splits)
  show ?case
  proof (cases "i < n")
    case True
    then show ?thesis
      using less.prems crypt_blocks_step [OF b True] block_len_bounds [OF b True]
      by (auto split: option.splits prod.splits dest!: less.hyps [rotated] poke_length)
  next
    case False
    then show ?thesis using less.prems crypt_blocks_end [OF b] by simp
  qed
qed

lemma encrypt_blocks_outside: "encrypt_blocks c i n u = Some (r, u') \<Longrightarrow> outside t u' \<longleftrightarrow> outside t u"
  by (auto simp: encrypt_blocks_def outside_def upd_end_def split: option.splits prod.splits dest: crypt_blocks_length)

lemma next_step_outside:
  assumes "next_step x f = Some (r, u')" and "\<And>q v. x = Some (q, v) \<Longrightarrow> outside t v"
    and "\<And>v q w. f v = Some (q, w) \<Longrightarrow> outside t v \<Longrightarrow> outside t w"
  shows "outside t u'"
  using assms by (auto simp: next_step_def split: option.splits if_splits)

lemma encrypt_outside:
  assumes "encrypt_frame lm e n k u = Some (r, u')" "outside t u"
  shows "outside t u'"
proof -
  obtain c where c: "ep_crypt (local_end u) = Some c" using assms(1) by (auto simp: encrypt_frame_def split: option.splits)
  note step = assms(1) [unfolded encrypt_frame_def c option.case(2)]
  show ?thesis
    by (rule next_step_outside [OF step]; (erule next_step_outside)?)
       (use assms(2) in \<open>auto simp: append_mac_outside crypt_range_outside encrypt_blocks_outside
          split: option.splits if_splits elim!: next_step_outside\<close>)
qed

lemma wrap_outside: "wrap_payload n pad u = Some (r, u') \<Longrightarrow> outside t u' \<longleftrightarrow> outside t u"
  by (auto simp: wrap_payload_def put_out_outside error_outside random_outside split: option.splits prod.splits)

lemma build_outside:
  assumes "build_frame data data2 u = Some (r, u')"
  shows "outside u u'"
  using assms
  by (auto simp: build_frame_def Let_def fill_outside wrap_outside
      split: option.splits sum.splits prod.splits if_splits elim!: next_step_outside encrypt_outside)

section \<open>The stream grows by whole frames\<close>

text \<open>
  C15: What goes out is always a sequence of whole frames, however the socket cuts it.  The bytes sent and the bytes still owed
  together change only when a new packet is accepted, and then by exactly its frame; the session owes nothing once a call has
  succeeded; while a frame is under way, a call with other data changes nothing and returns \<open>EAGAIN\<close>; and a failure sends nothing.
\<close>

theorem transport_output_whole_frames:
  assumes "pending_ok t" "\<not> redirected t" "data \<noteq> []" and out: "transport_output kex ptr data data2 t = Some (rc, t')"
  shows "pending_ok t' \<and>
    wire t' @ owes t' = wire t @ owes t @ (if olen t = 0 \<and> rc \<in> {0, E_EAGAIN} then frame_of data data2 t else []) \<and>
    (rc = 0 \<longrightarrow> owes t' = []) \<and>
    (olen t \<noteq> 0 \<and> (Some ptr \<noteq> odata t \<or> length data \<noteq> olen t) \<longrightarrow> rc = E_EAGAIN \<and> t' = t) \<and>
    (rc \<notin> {0, E_EAGAIN} \<longrightarrow> wire t' = wire t)"
proof (cases "olen t = 0")
  case False
  obtain q ret t1 where e: "send_existing ptr data t = Some ((q, ret), t1)"
    using out assms(2) by (auto simp: transport_output_def redirected_def next_step_def split: option.splits if_splits)
  have s: "pending_ok t1 \<and> wire t1 @ owes t1 = wire t @ owes t \<and> (q = 0 \<longrightarrow> owes t1 = [] \<and> ret) \<and>
    (Some ptr \<noteq> odata t \<or> length data \<noteq> olen t \<longrightarrow> q = E_EAGAIN \<and> t1 = t)"
    by (rule send_existing_owed [OF assms(1) False e])
  have f: "q \<notin> {0, E_EAGAIN} \<longrightarrow> wire t1 = wire t"
    using e by (auto simp: send_existing_def sock_send_def Let_def split: if_splits option.splits list.splits)
  have "rc = q \<and> t' = (if q = 0 then t1\<lparr>block_outbound := False\<rparr> else t1)"
    using out assms(2) e s by (auto simp: transport_output_def redirected_def next_step_def Let_def split: if_splits)
  then show ?thesis using s f False by (auto simp: owes_def pending_ok_def)
next
  case True
  let ?t = "t\<lparr>block_outbound := False\<rparr>"
  have out': "(case build_frame data data2 ?t of None \<Rightarrow> None | Some (Inl rc, t3) \<Rightarrow> Some (rc, t3)
      | Some (Inr total_length, t3) \<Rightarrow> send_frame ptr data total_length t3) = Some (rc, t')"
    using out assms(2) True by (auto simp: transport_output_def redirected_def next_step_def send_existing_def Let_def split: if_splits)
  then obtain r t3 where b: "build_frame data data2 ?t = Some (r, t3)" by (cases "build_frame data data2 ?t") auto
  have t3: "wire t3 = wire t" "olen t3 = 0" using build_outside [OF b] True by (simp_all add: outside_def)
  show ?thesis
  proof (cases r)
    case (Inl q)
    then show ?thesis using out' b t3 True by (auto simp: owes_def pending_ok_def frame_of_def)
  next
    case (Inr n)
    let ?u = "upd_end (seqno_update (\<lambda>q. if tp_kex_strict t3 \<and> data ! 0 = MSG_NEWKEYS then 0 else q + 1)) t3"
    have u: "wire ?u = wire t" "outbuf ?u = outbuf t3" "olen ?u = 0" using t3 by (simp_all add: upd_end_def)
    have sf: "send_frame ptr data n t3 = Some (rc, t')" using out' b Inr by simp
    then obtain frame where fr: "peek 0 n (outbuf ?u) = Some frame" using assms(3) by (auto simp: send_frame_def Let_def split: option.splits)
    have frame: "frame = take n (outbuf t3)" "n \<le> length (outbuf t3)" "length frame = n"
      using peek_SomeD [OF fr] u(2) by auto
    have the_frame: "frame_of data data2 t = frame" using b Inr frame(1) by (simp add: frame_of_def)
    obtain q t2 where q: "sock_send frame ?u = (q, t2)" by fastforce
    have e: "(if q \<noteq> int n then
               if q \<ge> 0 \<or> q = - ERRNO_EAGAIN then
                 Some (E_EAGAIN, t2\<lparr>block_outbound := True, odata := Some ptr, olen := length data, osent := nat (max 0 q),
                   ototal_num := n\<rparr>)
               else Some (E_SOCKET_SEND, t2)
             else Some (0, t2\<lparr>odata := None, olen := 0\<rparr>)) = Some (rc, t')"
      using sf fr q assms(3) by (simp add: send_frame_def Let_def)
    from q show ?thesis
    proof (cases rule: sock_send_result)
      case (1 rs)
      then show ?thesis using e u True the_frame frame assms(3)
        by (auto simp: owes_def pending_ok_def split: if_splits)
    next
      case (2 rs k)
      then show ?thesis using e u True the_frame frame assms(3)
        by (auto simp: owes_def pending_ok_def take_drop_take split: if_splits)
    qed
  qed
qed

section \<open>An instance\<close>

text \<open>A frame of four bytes, of which one went out; the socket takes two more and then would block.\<close>

definition owing :: "nat sender" where
  "owing = \<lparr>err_code = 0, err_msg = None, err_dup = False, tp_state = 0, tp_kex_strict = False,
     local_end = \<lparr>ep_crypt = None, crypt_abstract = 0, ep_mac = None, seqno = 3, mac_abstract = 0, ep_comp_method = None, comp_abstract = None\<rparr>,
     remote_crypt = None, outbuf = [9, 8, 7, 6, 0, 0], ototal_num = 4, odata = Some 77, olen = 1, osent = 1,
     block_outbound = True, rnd = [], sock = [2, - ERRNO_EAGAIN], wire = [9]\<rparr>"

lemma transport_output_whole_frames_witness:
  "\<exists>t'. transport_output (\<lambda>t. None) 77 [5] [] owing = Some (E_EAGAIN, t') \<and> wire t' = [9, 8, 7] \<and> wire t' @ owes t' = [9, 8, 7, 6]"
proof -
  have o: "pending_ok owing" "\<not> redirected owing" "olen owing \<noteq> 0" "wire owing @ owes owing = [9, 8, 7, 6]"
    by (simp_all add: owing_def pending_ok_def redirected_def owes_def)
  obtain t' where t': "transport_output (\<lambda>t. None) 77 [5] [] owing = Some (E_EAGAIN, t')" "wire t' = [9, 8, 7]"
    by (simp add: transport_output_def next_step_def send_existing_def owing_def peek_def sock_send_def)
  show ?thesis
    using transport_output_whole_frames [OF o(1,2) _ t'(1)] o(3,4) t' by simp
qed

end
