(* ===== verification/Transport_Frame.thy ===== *)
theory Transport_Frame
  imports Transport_Stream
begin

text \<open>
  The frame that \<open>build_frame\<close> leaves in the buffer: its layout and bounds, and its encryption, which the code does block by
  block.
\<close>

section \<open>The frame\<close>

text \<open>The plain text of a frame: length, length of the padding, payload, padding.\<close>

definition frame_text :: "bytes \<Rightarrow> bytes \<Rightarrow> bytes" where
  "frame_text payload junk =
     htonu32 (word_of_nat (1 + length payload + length junk)) @ [word_of_nat (length junk)] @ payload @ junk"

definition junk_of :: "nat \<Rightarrow> 'a sender \<Rightarrow> bytes option" where
  "junk_of n t = fst (random_bytes n t)"

lemma length_frame_text [simp]: "length (frame_text payload junk) = 5 + length payload + length junk"
  by (simp add: frame_text_def)

lemma junk_length: "junk_of n t = Some junk \<Longrightarrow> length junk = n"
  by (auto simp: junk_of_def random_bytes_def split: list.splits option.splits)

lemma pad_length_bounds:
  assumes "4 \<le> bs" "k \<le> n"
  shows "4 \<le> pad_length bs n k" "pad_length bs n k < bs + 4" "bs dvd n - k + pad_length bs n k"
proof -
  have m: "(n - k) mod bs < bs" using assms by simp
  then show "4 \<le> pad_length bs n k" "pad_length bs n k < bs + 4"
    unfolding pad_length_def Let_def using assms(1) by (auto simp del: mod_less_divisor)
  have "n - k + (bs - (n - k) mod bs) = bs * ((n - k) div bs) + bs"
    using m mult_div_mod_eq [of bs "n - k"] by linarith
  then have "bs dvd n - k + (bs - (n - k) mod bs)" by simp
  then show "bs dvd n - k + pad_length bs n k" by (auto simp: pad_length_def Let_def simp flip: add.assoc)
qed

text \<open>The buffer after the plain frame has been written, and what else has changed.\<close>

definition framed :: "bytes \<Rightarrow> 'a sender \<Rightarrow> 'a sender \<Rightarrow> bool" where
  "framed text t t' \<longleftrightarrow> take (length text) (outbuf t') = text \<and> length (outbuf t') = length (outbuf t) \<and> local_end t' = local_end t"

lemma put_out_room:
  "off + length bs \<le> length (outbuf t) \<Longrightarrow>
    put_out off bs t = Some (t\<lparr>outbuf := take off (outbuf t) @ bs @ drop (off + length bs) (outbuf t)\<rparr>)"
  by (simp add: put_out_def poke_def)

lemma plain_framed:
  assumes "length (outbuf t) = MAX_SSH_PACKET_LEN" "length data + length data2 < MAX_SSH_PACKET_LEN - 0x100" "pad \<le> 200"
    and t1: "Option.bind (put_out 5 data t) (put_out (5 + length data) data2) = Some t1"
    and t2: "put_out 0 (htonu32 (word_of_nat k) @ [word_of_nat pad]) t1 = Some t2"
    and junk: "random_bytes pad t2 = (Some junk, t3)" and t4: "put_out (5 + (length data + length data2)) junk t3 = Some t4"
    and k: "k = 1 + length data + length data2 + pad"
  shows "framed (frame_text (data @ data2) junk) t t4 \<and> junk_of pad t = Some junk"
proof -
  have o1: "outbuf t1 = take 5 (outbuf t) @ data @ data2 @ drop (5 + length data + length data2) (outbuf t)"
      "local_end t1 = local_end t" "rnd t1 = rnd t"
    using t1 assms(1,2) by (auto simp: put_out_room ac_simps)
  have o2: "outbuf t2 = (htonu32 (word_of_nat k) @ [word_of_nat pad]) @ drop 5 (outbuf t1)" "local_end t2 = local_end t1" "rnd t2 = rnd t1"
    using t2 assms(1,2) o1 by (auto simp: put_out_room)
  have o3: "outbuf t3 = outbuf t2" "local_end t3 = local_end t2" "junk_of pad t = Some junk"
    using junk o1(3) o2(3) by (auto simp: random_bytes_def junk_of_def split: list.splits)
  have l: "length junk = pad" by (rule junk_length [OF o3(3)])
  have "outbuf t4 = take (5 + (length data + length data2)) (outbuf t3) @ junk @ drop (5 + (length data + length data2) + pad) (outbuf t3)"
      "local_end t4 = local_end t3"
    using t4 assms(1,2,3) o1 o2 o3 l by (auto simp: put_out_room)
  then show ?thesis
    using o1 o2 o3 l k assms(1,2,3) by (simp add: framed_def frame_text_def)
qed

text \<open>
  The cases covered here: no compression, and ciphers of the block kind on both sides, which neither need the whole packet nor
  leave its length in the clear.
\<close>

definition block_mode :: "nat \<Rightarrow> 'a sender \<Rightarrow> bool" where
  "block_mode bs t \<longleftrightarrow> \<not> (compressed t \<and> comp_abstract (local_end t) \<noteq> None) \<and> block_size t = Some bs \<and> 8 \<le> bs \<and> bs \<le> 64 \<and>
     \<not> crypt_flag requires_full_packet (remote_crypt t) \<and> \<not> crypt_flag pktlen_aad (remote_crypt t) \<and>
     \<not> crypt_flag requires_full_packet (ep_crypt (local_end t)) \<and> \<not> crypt_flag integrated_mac (ep_crypt (local_end t)) \<and>
     length (outbuf t) = MAX_SSH_PACKET_LEN"

definition pad_of :: "nat \<Rightarrow> nat \<Rightarrow> 'a sender \<Rightarrow> nat" where
  "pad_of bs n t = pad_length bs (n + 5) (if is_etm t then 4 else 0)"

lemma block_modeD:
  assumes "block_mode bs t"
  shows "tag_len t = 0" "local_mac t = ep_mac (local_end t)" "crypt_offset t = (if is_etm t then 4 else 0)" "block_size t = Some bs"
    "8 \<le> bs" "bs \<le> 64" "length (outbuf t) = MAX_SSH_PACKET_LEN"
proof -
  have f: "\<not> full_packets t" using assms by (simp add: block_mode_def full_packets_def)
  show t: "tag_len t = 0" using f by (simp add: tag_len_def split: option.split)
  show "local_mac t = ep_mac (local_end t)" using f by (simp add: local_mac_def)
  show "crypt_offset t = (if is_etm t then 4 else 0)" using assms t by (auto simp: crypt_offset_def block_mode_def)
qed (use assms in \<open>simp_all add: block_mode_def\<close>)

lemma pad_of_bounds:
  assumes "8 \<le> bs"
  shows "4 \<le> pad_of bs n t" "pad_of bs n t < bs + 4" "bs dvd n + 5 - (if is_etm t then 4 else 0) + pad_of bs n t"
proof -
  have "(if is_etm t then 4 else 0) \<le> n + 5" "4 \<le> bs" using assms by simp_all
  note b = pad_length_bounds [OF this(2,1)]
  show "4 \<le> pad_of bs n t" "pad_of bs n t < bs + 4" "bs dvd n + 5 - (if is_etm t then 4 else 0) + pad_of bs n t"
    using b unfolding pad_of_def .
qed

lemma fill_plain:
  assumes "block_mode bs t" "length data + length data2 < MAX_SSH_PACKET_LEN - 0x100"
  shows "fill_payload data data2 t =
    map_option (Pair (Inr (length data + length data2))) (Option.bind (put_out 5 data t) (put_out (5 + length data) data2))"
proof -
  have "\<not> (encrypted t \<and> compressed t \<and> comp_abstract (local_end t) \<noteq> None)" using assms(1) by (auto simp: block_mode_def)
  then show ?thesis using assms(2) unfolding fill_payload_def by (subst if_not_P) simp_all
qed

lemma build_frame_text:
  assumes mode: "block_mode bs t" and small: "length data + length data2 < MAX_SSH_PACKET_LEN - 0x100"
    and junk: "junk_of (pad_of bs (length data + length data2) t) t = Some junk"
  obtains t4 where "framed (frame_text (data @ data2) junk) t t4"
    "build_frame data data2 t =
       (let n = length (frame_text (data @ data2) junk); total = n + mac_length t in
        case (if encrypted t then encrypt_frame (local_mac t) (is_etm t) n total t4 else Some (0, t4)) of
          None \<Rightarrow> None
        | Some (rc, t5) \<Rightarrow> Some (if rc = 0 then Inr total else Inl rc, t5))"
proof -
  let ?n = "length data + length data2" let ?pad = "pad_of bs ?n t"
  note m = block_modeD [OF mode] and len = block_modeD(7) [OF mode]
  have pad: "?pad \<le> 200" using pad_of_bounds(2) [OF m(5), of ?n t] m(6) by simp
  obtain t1 where t1: "Option.bind (put_out 5 data t) (put_out (5 + length data) data2) = Some t1"
    using len small by (simp add: put_out_room)
  have o1: "length (outbuf t1) = MAX_SSH_PACKET_LEN" "rnd t1 = rnd t"
    using t1 len small by (auto simp: put_out_room)
  obtain t2 where t2: "put_out 0 (htonu32 (word_of_nat (?n + 5 + ?pad - 4)) @ [word_of_nat ?pad]) t1 = Some t2"
    using o1 by (simp add: put_out_room)
  have o2: "length (outbuf t2) = MAX_SSH_PACKET_LEN" "rnd t2 = rnd t" using t2 o1 by (auto simp: put_out_room)
  obtain t3 where t3: "random_bytes ?pad t2 = (Some junk, t3)" "length (outbuf t3) = MAX_SSH_PACKET_LEN"
    using junk o2 by (auto simp: junk_of_def random_bytes_def split: list.splits)
  have l: "length junk = ?pad" by (rule junk_length [OF junk])
  obtain t4 where t4: "put_out (5 + ?n) junk t3 = Some t4"
    using t3(2) small pad l by (simp add: put_out_room)
  have f: "framed (frame_text (data @ data2) junk) t t4"
    using plain_framed [OF len small pad t1 t2 t3(1) t4] by simp
  have w: "wrap_payload ?n ?pad t1 = Some (0, t4)"
    using t2 t3(1) t4 unfolding wrap_payload_def by simp
  have b: "build_frame data data2 t = (let total = ?n + 5 + ?pad + mac_length t in
        case (if encrypted t then encrypt_frame (local_mac t) (is_etm t) (?n + 5 + ?pad) total t4 else Some (0, t4)) of
          None \<Rightarrow> None
        | Some (rc, t5) \<Rightarrow> Some (if rc = 0 then Inr total else Inl rc, t5))"
    using w m(5) unfolding build_frame_def m(1,3,4) fill_plain [OF mode small] t1
    by (simp add: Let_def next_step_def flip: pad_of_def)
  have e: "length (frame_text (data @ data2) junk) = ?n + 5 + ?pad" using l by simp
  show thesis by (rule that [OF f]) (simp only: b e Let_def)
qed

section \<open>Encryption block by block is encryption at once\<close>

text \<open>
  What the code relies on in a cipher and a MAC of the backend: a cipher works on whole blocks, keeps their length, and goes on
  where it stopped; a MAC has a fixed length.
\<close>

definition stream_cipher :: "'a crypt_method \<Rightarrow> ('a \<Rightarrow> bytes \<Rightarrow> bytes) \<Rightarrow> ('a \<Rightarrow> bytes \<Rightarrow> 'a) \<Rightarrow> bool" where
  "stream_cipher c enc adv \<longleftrightarrow>
     (\<forall>a xs pos. blocksize c dvd length xs \<longrightarrow> crypt c 0 xs a pos = Some (enc a xs, adv a xs) \<and> length (enc a xs) = length xs) \<and>
     (\<forall>a xs ys. blocksize c dvd length xs \<longrightarrow> enc a (xs @ ys) = enc a xs @ enc (adv a xs) ys \<and> adv a (xs @ ys) = adv (adv a xs) ys) \<and>
     (\<forall>a. adv a [] = a)"

definition mac_works :: "'a mac_method \<Rightarrow> (u32 \<Rightarrow> bytes \<Rightarrow> 'a \<Rightarrow> bytes) \<Rightarrow> bool" where
  "mac_works m tag \<longleftrightarrow> mac_len m \<le> 64 \<and>
     (\<forall>q xs a. mac_hash m q xs a = Some (tag q xs a, a) \<and> length (tag q xs a) = mac_len m)"

lemma stream_cipherD:
  assumes "stream_cipher c enc adv"
  shows "blocksize c dvd length xs \<Longrightarrow> crypt c 0 xs a pos = Some (enc a xs, adv a xs)"
    and "blocksize c dvd length xs \<Longrightarrow> length (enc a xs) = length xs"
    and "blocksize c dvd length xs \<Longrightarrow> enc a (xs @ ys) = enc a xs @ enc (adv a xs) ys"
    and "blocksize c dvd length xs \<Longrightarrow> adv a (xs @ ys) = adv (adv a xs) ys"
    and "adv a [] = a" and "enc a [] = []"
proof -
  show "adv a [] = a" using assms by (simp add: stream_cipher_def)
  have "length (enc a []) = length ([] :: bytes)" using assms dvd_0_right [of "blocksize c"] unfolding stream_cipher_def by (metis list.size(3))
  then show "enc a [] = []" by simp
qed (use assms in \<open>simp_all add: stream_cipher_def\<close>)

lemma whole_block:
  assumes "0 < blocksize c" "\<not> integrated_mac c" "i < n" "n < 2 ^ 63" "blocksize c dvd n - i"
  shows "block_len c n i = blocksize c"
proof -
  have le: "blocksize c \<le> n - i" using assms(3,5) by (simp add: dvd_imp_le)
  show ?thesis
  proof (cases "2 * blocksize c \<le> n")
    case True
    have "n - i = blocksize c" if "i > n - 2 * blocksize c"
    proof -
      obtain q where q: "n - i = blocksize c * q" using assms(5) by (rule dvdE)
      have "blocksize c * q < blocksize c * 2" using that q assms(3) True by linarith
      then have "q < 2" using assms(1) by simp
      moreover have "q \<noteq> 0" using q assms(3) by (intro notI) simp
      ultimately show ?thesis using q by (simp add: less_2_cases_iff)
    qed
    then show ?thesis using le True assms(4) by (auto simp: block_len_def Let_def min_def)
  next
    case False
    have "size_sub n (2 * blocksize c) = 2 ^ 64 + n - 2 * blocksize c"
      using False le assms(4) by (intro size_sub_wrap) auto
    then have "\<not> i > size_sub n (2 * blocksize c)" using le assms(3,4) by simp
    then show ?thesis using le by (simp add: block_len_def Let_def min_def)
  qed
qed

lemma crypt_blocks_run:
  assumes c: "0 < blocksize c" "\<not> integrated_mac c" "stream_cipher c enc adv"
  shows "i \<le> n \<Longrightarrow> n \<le> length buf \<Longrightarrow> n < 2 ^ 63 \<Longrightarrow> blocksize c dvd n - i \<Longrightarrow>
    crypt_blocks c n i buf a =
      Some (True, take i buf @ enc a (take (n - i) (drop i buf)) @ drop n buf, adv a (take (n - i) (drop i buf)))"
proof (induction "n - i" arbitrary: i buf a rule: less_induct)
  case less
  note sc = stream_cipherD [OF c(3)]
  show ?case
  proof (cases "i < n")
    case False
    then show ?thesis using less.prems c(1) by (simp add: crypt_blocks_end sc)
  next
    case True
    let ?b = "blocksize c"
    have bl: "block_len c n i = ?b" using whole_block [OF c(1,2) True] less.prems by simp
    have le: "?b \<le> n - i" using True less.prems by (simp add: dvd_imp_le)
    let ?x = "take ?b (drop i buf)" let ?z = "take (n - i - ?b) (drop (i + ?b) buf)"
    have x: "length ?x = ?b" using le less.prems by simp
    have pk: "peek i ?b buf = Some ?x" using le less.prems by (simp add: peek_def)
    have lx: "length (enc a ?x) = ?b" using sc(2) [of ?x] x by simp
    let ?buf = "take i buf @ enc a ?x @ drop (i + ?b) buf"
    have po: "poke i (enc a ?x) buf = Some ?buf" using le less.prems lx by (simp add: poke_def)
    have l: "length ?buf = length buf" using le less.prems lx by simp
    have step: "crypt_blocks c n i buf a = crypt_blocks c n (i + ?b) ?buf (adv a ?x)"
      using x pk po sc(1) [of ?x] by (simp add: crypt_blocks_step [OF c(1) True] bl)
    have d: "?b dvd n - (i + ?b)" using less.prems(4) le by (metis diff_diff_left dvd_diff_nat dvd_refl)
    have ih: "crypt_blocks c n (i + ?b) ?buf (adv a ?x) =
        Some (True, take (i + ?b) ?buf @ enc (adv a ?x) (take (n - (i + ?b)) (drop (i + ?b) ?buf)) @ drop n ?buf,
          adv (adv a ?x) (take (n - (i + ?b)) (drop (i + ?b) ?buf)))"
      by (rule less.hyps) (use True le less.prems l d c(1) in auto)
    have s: "take (i + ?b) ?buf = take i buf @ enc a ?x" "drop (i + ?b) ?buf = drop (i + ?b) buf" "drop n ?buf = drop n buf"
      using le less.prems lx by simp_all
    have t: "take (n - i) (drop i buf) = ?x @ ?z"
    proof -
      have "n - i = ?b + (n - i - ?b)" using le by simp
      then have "take (n - i) (drop i buf) = take ?b (drop i buf) @ take (n - i - ?b) (drop ?b (drop i buf))" by (metis take_add)
      then show ?thesis by (simp add: add.commute)
    qed
    have "crypt_blocks c n i buf a =
        Some (True, (take i buf @ enc a ?x) @ enc (adv a ?x) ?z @ drop n buf, adv (adv a ?x) ?z)"
      using step ih by (simp only: s diff_diff_left)
    moreover have "enc a (?x @ ?z) = enc a ?x @ enc (adv a ?x) ?z" "adv a (?x @ ?z) = adv (adv a ?x) ?z"
      using x sc(3,4) [of ?x] by simp_all
    ultimately show ?thesis by (simp only: t append_assoc)
  qed
qed

section \<open>The sealed frame\<close>

text \<open>What goes over the wire for a plain frame: ciphertext and MAC, of the plain text or of the ciphertext with its clear length.\<close>

definition sealed ::
  "('a \<Rightarrow> bytes \<Rightarrow> bytes) \<Rightarrow> (u32 \<Rightarrow> bytes \<Rightarrow> 'a \<Rightarrow> bytes) \<Rightarrow> bool \<Rightarrow> 'a endpoint_data \<Rightarrow> bytes \<Rightarrow> bytes" where
  "sealed enc tag encrypt_then_mac e text =
     (if encrypt_then_mac then
        (let body = take 4 text @ enc (crypt_abstract e) (drop 4 text) in body @ tag (seqno e) body (mac_abstract e))
      else enc (crypt_abstract e) text @ tag (seqno e) text (mac_abstract e))"

lemma take_front: "length xs = k \<Longrightarrow> take k (xs @ ys) = xs"
  by simp

lemma append_mac_works:
  assumes "mac_works m tag" "n + mac_len m \<le> length (outbuf t)"
  obtains t' where "append_mac m n t = Some (0, t')" "local_end t' = local_end t"
    "outbuf t' = take n (outbuf t) @ tag (seqno (local_end t)) (take n (outbuf t)) (mac_abstract (local_end t)) @
       drop (n + mac_len m) (outbuf t)"
proof -
  let ?tag = "tag (seqno (local_end t)) (take n (outbuf t)) (mac_abstract (local_end t))"
  let ?u = "upd_end (mac_abstract_update (\<lambda>_. mac_abstract (local_end t))) t"
  have tag: "mac_hash m (seqno (local_end t)) (take n (outbuf t)) (mac_abstract (local_end t)) = Some (?tag, mac_abstract (local_end t))"
      "length ?tag = mac_len m"
    using assms(1) by (simp_all add: mac_works_def)
  have u: "outbuf ?u = outbuf t" "local_end ?u = local_end t" by (simp_all add: upd_end_def)
  have "append_mac m n t = map_option (Pair 0) (put_out n ?tag ?u)"
    using assms(2) tag by (simp add: append_mac_def peek_def)
  also have "put_out n ?tag ?u = Some (?u\<lparr>outbuf := take n (outbuf t) @ ?tag @ drop (n + mac_len m) (outbuf t)\<rparr>)"
    using assms(2) tag(2) u by (subst put_out_room) simp_all
  finally show thesis using that u by simp
qed

lemma encrypt_blocks_run:
  assumes "0 < blocksize c" "\<not> integrated_mac c" "stream_cipher c enc adv"
    and "i \<le> n" "n \<le> length (outbuf t)" "n < 2 ^ 63" "blocksize c dvd n - i"
  obtains t' where "encrypt_blocks c i n t = Some (0, t')" "seqno (local_end t') = seqno (local_end t)"
    "mac_abstract (local_end t') = mac_abstract (local_end t)"
    "outbuf t' = take i (outbuf t) @ enc (crypt_abstract (local_end t)) (take (n - i) (drop i (outbuf t))) @ drop n (outbuf t)"
  using that crypt_blocks_run [OF assms, of "crypt_abstract (local_end t)"] by (simp add: encrypt_blocks_def upd_end_def)

lemma encrypt_frame_sealed:
  assumes c: "ep_crypt (local_end t) = Some c" "0 < blocksize c" "\<not> integrated_mac c" "\<not> requires_full_packet c" "stream_cipher c enc adv"
    and m: "mac_works m tag"
    and t: "take n (outbuf t) = text" "length text = n" "n + 64 \<le> length (outbuf t)" "length (outbuf t) < 2 ^ 63"
    and n: "4 \<le> n" "blocksize c dvd n - (if e then 4 else 0)"
  shows "\<exists>t'. encrypt_frame (Some m) e n k t = Some (0, t') \<and>
    take (n + mac_len m) (outbuf t') = sealed enc tag e (local_end t) text"
proof -
  let ?a = "crypt_abstract (local_end t)"
  have ml: "mac_len m \<le> 64" "length (tag q xs a) = mac_len m" for q xs a using m by (simp_all add: mac_works_def)
  note sc = stream_cipherD [OF c(5)]
  have n64: "n < 2 ^ 63" using t(3,4) by simp
  show ?thesis
  proof (cases e)
    case False
    obtain t1 where t1: "append_mac m n t = Some (0, t1)" "local_end t1 = local_end t"
      "outbuf t1 = text @ tag (seqno (local_end t)) text (mac_abstract (local_end t)) @ drop (n + mac_len m) (outbuf t)"
      by (rule append_mac_works [OF m, of n t]) (use t ml in simp_all)
    have l1: "length (outbuf t1) = length (outbuf t)" using t1(3) t ml by simp
    obtain t2 where t2: "encrypt_blocks c 0 n t1 = Some (0, t2)"
      "outbuf t2 = take 0 (outbuf t1) @ enc (crypt_abstract (local_end t1)) (take (n - 0) (drop 0 (outbuf t1))) @ drop n (outbuf t1)"
      by (rule encrypt_blocks_run [OF c(2,3,5), of 0 n t1]) (use l1 t n64 n False in simp_all)
    have "encrypt_frame (Some m) e n k t = Some (0, t2)"
      using c(1,3,4) False t1(1) t2(1) by (simp add: encrypt_frame_def next_step_def)
    moreover have "outbuf t2 = enc ?a text @ tag (seqno (local_end t)) text (mac_abstract (local_end t)) @ drop (n + mac_len m) (outbuf t)"
      using t2(2) t1(2,3) t(2) by simp
    moreover have "length (enc ?a text) = n" using sc(2) [of "text"] n False t(2) by simp
    ultimately show ?thesis using False ml by (simp add: sealed_def)
  next
    case True
    obtain t1 where t1: "encrypt_blocks c 4 n t = Some (0, t1)" "seqno (local_end t1) = seqno (local_end t)"
      "mac_abstract (local_end t1) = mac_abstract (local_end t)"
      "outbuf t1 = take 4 (outbuf t) @ enc ?a (take (n - 4) (drop 4 (outbuf t))) @ drop n (outbuf t)"
      by (rule encrypt_blocks_run [OF c(2,3,5), of 4 n t]) (use t n64 n True in simp_all)
    let ?body = "take 4 text @ enc ?a (drop 4 text)"
    have b: "take 4 (outbuf t) = take 4 text" "take (n - 4) (drop 4 (outbuf t)) = drop 4 text"
      using t(1) n(1) by (auto simp: min_def drop_take)
    have le: "length (enc ?a (drop 4 text)) = n - 4" using sc(2) [of "drop 4 text"] n True t(2) by simp
    have o1: "outbuf t1 = ?body @ drop n (outbuf t)" "length ?body = n" using t1(4) b le n(1) t(2) by simp_all
    obtain t2 where t2: "append_mac m n t1 = Some (0, t2)"
      "outbuf t2 = take n (outbuf t1) @ tag (seqno (local_end t1)) (take n (outbuf t1)) (mac_abstract (local_end t1)) @ drop (n + mac_len m) (outbuf t1)"
      by (rule append_mac_works [OF m, of n t1]) (use o1 t ml in simp_all)
    have "encrypt_frame (Some m) e n k t = Some (0, t2)"
      using c(1,3,4) True t1(1) t2(1) by (simp add: encrypt_frame_def next_step_def)
    moreover have "outbuf t2 = (?body @ tag (seqno (local_end t)) ?body (mac_abstract (local_end t))) @ drop (n + mac_len m) (outbuf t1)"
    proof -
      have "take n (outbuf t1) = ?body" unfolding o1(1) by (rule take_front [OF o1(2)])
      then show ?thesis using t2(2) t1(2,3) by (simp only: append_assoc)
    qed
    moreover have "length (?body @ tag (seqno (local_end t)) ?body (mac_abstract (local_end t))) = n + mac_len m"
      using o1(2) ml(2) by (simp only: length_append)
    ultimately show ?thesis using True n(1) by (simp add: sealed_def Let_def min_absorb2)
  qed
qed

section \<open>What goes out\<close>

lemma mode_unblocked [simp]:
  "block_mode bs (t\<lparr>block_outbound := b\<rparr>) = block_mode bs t" "pad_of bs n (t\<lparr>block_outbound := b\<rparr>) = pad_of bs n t"
  "junk_of n (t\<lparr>block_outbound := b\<rparr>) = junk_of n t" "encrypted (t\<lparr>block_outbound := b\<rparr>) = encrypted t"
  "is_etm (t\<lparr>block_outbound := b\<rparr>) = is_etm t" "mac_length (t\<lparr>block_outbound := b\<rparr>) = mac_length t"
  "local_mac (t\<lparr>block_outbound := b\<rparr>) = local_mac t"
  by (simp_all add: block_mode_def pad_of_def junk_of_def random_bytes_def encrypted_def is_etm_def mac_length_def local_mac_def
      full_packets_def compressed_def block_size_def split: list.split cong: option.case_cong)

lemma frame_plain:
  assumes "block_mode bs t" "length data + length data2 < MAX_SSH_PACKET_LEN - 0x100"
    and "junk_of (pad_of bs (length data + length data2) t) t = Some junk" and "\<not> encrypted t"
  shows "frame_of data data2 t = frame_text (data @ data2) junk"
proof -
  let ?t = "t\<lparr>block_outbound := False\<rparr>"
  obtain t4 where "framed (frame_text (data @ data2) junk) ?t t4"
    "build_frame data data2 ?t =
     (let n = length (frame_text (data @ data2) junk); k = n + mac_length ?t in
      case (if encrypted ?t then encrypt_frame (local_mac ?t) (is_etm ?t) n k t4 else Some (0, t4)) of
        None \<Rightarrow> None
      | Some (rc, t5) \<Rightarrow> Some (if rc = 0 then Inr k else Inl rc, t5))"
    using assms(1-3) by (auto intro: build_frame_text [of bs ?t data data2 junk])
  then show ?thesis using assms(4) by (simp add: frame_of_def framed_def mac_length_def)
qed


text \<open>
  C18: Encrypting block by block gives what encrypting at once would give.  For a cipher that works on whole blocks and a MAC of
  at most 64 bytes, the bytes of a frame are the encryption of its whole text followed by the MAC of the text under the number of the
  packet; with a method that encrypts first, the clear length, the encryption of the rest, and the MAC of both.
\<close>

theorem frame_sealed:
  assumes "block_mode bs t" "length data + length data2 < MAX_SSH_PACKET_LEN - 0x100"
    and "junk_of (pad_of bs (length data + length data2) t) t = Some junk"
    and "encrypted t" "ep_crypt (local_end t) = Some c" "stream_cipher c enc adv"
    and "ep_mac (local_end t) = Some m" "mac_works m tag"
  shows "frame_of data data2 t = sealed enc tag (etm m) (local_end t) (frame_text (data @ data2) junk) \<and>
    length (frame_of data data2 t) \<le> MAX_SSH_PACKET_LEN"
proof -
  let ?t = "t\<lparr>block_outbound := False\<rparr>" let ?text = "frame_text (data @ data2) junk"
  note mode = block_modeD [OF assms(1)] and b = pad_of_bounds [OF block_modeD(5) [OF assms(1)]]
  have c: "blocksize c = bs" "\<not> integrated_mac c" "\<not> requires_full_packet c"
    using assms(1,4,5) by (simp_all add: block_mode_def block_size_def crypt_flag_def)
  have e: "local_mac t = Some m" "is_etm t = etm m" "mac_length t = mac_len m" "mac_len m \<le> 64"
    using mode(2) assms(4,7,8) by (simp_all add: is_etm_def mac_length_def mac_works_def)
  have l: "length junk = pad_of bs (length data + length data2) t" by (rule junk_length [OF assms(3)])
  have d: "bs dvd length ?text - (if etm m then 4 else 0)"
    using b(3) [of "length data + length data2" t] l e(2) by (simp add: ac_simps)
  have n: "length ?text + 64 \<le> MAX_SSH_PACKET_LEN" "4 \<le> length ?text"
    using b(2) [of "length data + length data2" t] mode(6) l assms(2) by simp_all
  obtain t4 where t4: "framed ?text ?t t4"
      "build_frame data data2 ?t =
       (let n = length ?text; k = n + mac_length ?t in
        case (if encrypted ?t then encrypt_frame (local_mac ?t) (is_etm ?t) n k t4 else Some (0, t4)) of
          None \<Rightarrow> None
        | Some (rc, t5) \<Rightarrow> Some (if rc = 0 then Inr k else Inl rc, t5))"
    using assms(1-3) by (auto intro: build_frame_text [of bs ?t data data2 junk])
  have f: "local_end t4 = local_end t" "take (length ?text) (outbuf t4) = ?text" "length (outbuf t4) = MAX_SSH_PACKET_LEN"
    using t4(1) mode(7) by (simp_all add: framed_def)
  have "\<exists>t5. encrypt_frame (Some m) (etm m) (length ?text) (length ?text + mac_len m) t4 = Some (0, t5) \<and>
      take (length ?text + mac_len m) (outbuf t5) = sealed enc tag (etm m) (local_end t4) ?text"
    by (rule encrypt_frame_sealed [OF _ _ c(2,3) assms(6,8)]) (use assms(5) f c(1) mode(5) n d in simp_all)
  then obtain t5 where t5: "encrypt_frame (Some m) (etm m) (length ?text) (length ?text + mac_len m) t4 = Some (0, t5)"
      "take (length ?text + mac_len m) (outbuf t5) = sealed enc tag (etm m) (local_end t) ?text"
    using f(1) by auto
  have "frame_of data data2 t = take (length ?text + mac_len m) (outbuf t5)"
    using t4(2) t5(1) e assms(4) by (simp add: frame_of_def Let_def)
  moreover have "length (take (length ?text + mac_len m) (outbuf t5)) \<le> MAX_SSH_PACKET_LEN"
    using n(1) e(4) unfolding length_take by linarith
  ultimately show ?thesis unfolding t5(2) by simp
qed

section \<open>Instances\<close>

text \<open>
  A connection before and one after the new keys are in use, with a toy cipher that adds a running number to every byte of a block of
  eight, and a MAC of one byte.
\<close>

definition toy_enc :: "nat \<Rightarrow> bytes \<Rightarrow> bytes" where
  "toy_enc a xs = map (\<lambda>(i, x). x + word_of_nat i) (enumerate a xs)"

definition toy_crypt :: "nat crypt_method" where
  "toy_crypt = \<lparr>blocksize = 8, auth_len = 0, integrated_mac = False, pktlen_aad = False, requires_full_packet = False,
     crypt = (\<lambda>_ xs a _. Some (toy_enc a xs, a + length xs))\<rparr>"

definition toy_tag :: "u32 \<Rightarrow> bytes \<Rightarrow> nat \<Rightarrow> bytes" where
  "toy_tag q xs a = [ucast q + word_of_nat (length xs)]"

definition toy_mac :: "nat mac_method" where
  "toy_mac = \<lparr>mac_len = 1, etm = True, mac_hash = (\<lambda>q xs a. Some (toy_tag q xs a, a))\<rparr>"

definition toy_end :: "nat endpoint_data" where
  "toy_end = \<lparr>ep_crypt = Some toy_crypt, crypt_abstract = 7, ep_mac = Some toy_mac, seqno = 3, mac_abstract = 0,
     ep_comp_method = None, comp_abstract = None\<rparr>"

definition sample_plain :: "nat sender" where
  "sample_plain = \<lparr>err_code = 0, err_msg = None, err_dup = False, tp_state = 0, tp_kex_strict = False, local_end = toy_end,
     remote_crypt = Some toy_crypt, outbuf = replicate MAX_SSH_PACKET_LEN 0, ototal_num = 0, odata = None, olen = 0, osent = 0,
     block_outbound = False, rnd = [], sock = [5, - ERRNO_EAGAIN], wire = []\<rparr>"

definition sample_secret :: "nat sender" where
  "sample_secret = sample_plain\<lparr>tp_state := STATE_NEWKEYS\<rparr>"

lemma toy_cipher: "stream_cipher toy_crypt toy_enc (\<lambda>a xs. a + length xs)"
proof -
  have "enumerate a (xs @ ys) = enumerate a xs @ enumerate (a + length xs) ys" for a and xs ys :: bytes
    by (induction xs arbitrary: a) simp_all
  then show ?thesis by (simp add: stream_cipher_def toy_crypt_def toy_enc_def)
qed

lemma sample_modes: "block_mode 8 sample_plain" "\<not> encrypted sample_plain" "block_mode 8 sample_secret" "encrypted sample_secret"
    "is_etm sample_secret" "local_end sample_plain = toy_end" "local_end sample_secret = toy_end"
    "\<not> redirected sample_plain" "pending_ok sample_plain" "olen sample_plain = 0"
  by (simp_all add: block_mode_def compressed_def block_size_def encrypted_def crypt_flag_def sample_plain_def sample_secret_def
      toy_end_def toy_crypt_def toy_mac_def is_etm_def local_mac_def full_packets_def redirected_def pending_ok_def)

lemma sample_pads: "pad_of 8 (Suc (Suc 0)) sample_plain = 9" "pad_of 8 (Suc (Suc 0)) sample_secret = 5"
  using sample_modes(2,5) by (simp_all add: pad_of_def pad_length_def is_etm_def)

lemma sample_junk: "junk_of n sample_plain = Some (replicate n 0)" "junk_of n sample_secret = Some (replicate n 0)"
  by (simp_all add: junk_of_def random_bytes_def sample_plain_def sample_secret_def)


lemma frame_sealed_witness:
  "frame_of [94] [1] sample_secret = sealed toy_enc toy_tag True toy_end (frame_text [94, 1] (replicate 5 0))"
proof -
  have m: "mac_works toy_mac toy_tag" "ep_mac toy_end = Some toy_mac" "ep_crypt toy_end = Some toy_crypt" "etm toy_mac = True"
    by (simp_all add: mac_works_def toy_mac_def toy_tag_def toy_end_def)
  show ?thesis
    using frame_sealed [of 8 sample_secret "[94]" "[1]" "replicate 5 0" toy_crypt toy_enc "\<lambda>a xs. a + length xs" toy_mac toy_tag]
      sample_modes sample_pads sample_junk(2) [of 5] toy_cipher m by simp
qed

end
