(* ===== verification/Transport_Receive.thy ===== *)
theory Transport_Receive
  imports Transport_Collect Transport_Frame
begin

text \<open>
  What the receiving half makes of a stream of bytes before encryption is on: it takes whole frames off the front, however the
  socket cuts the stream and however often a call would block.
\<close>

section \<open>The stream that is still to be delivered\<close>

definition chunks :: "(int + bytes) list \<Rightarrow> bytes" where
  "chunks xs = concat (map (case_sum (\<lambda>_. []) id) xs)"

lemma chunks_simps [simp]: "chunks [] = []" "chunks (Inl e # xs) = chunks xs" "chunks (Inr bs # xs) = bs @ chunks xs"
  by (simp_all add: chunks_def)

definition buffered :: "'a receiver \<Rightarrow> bytes" where
  "buffered r = take (writeidx r - readidx r) (drop (readidx r) (inbuf r))"

definition begun :: "'a receiver \<Rightarrow> bytes" where
  "begun r =
     (if total_num r = 0 then []
      else htonu32 (packet_length r) @ [padding_length r] @ (case payload r of Live p \<Rightarrow> take (data_num r) p | _ \<Rightarrow> []))"

definition unread :: "'a receiver \<Rightarrow> bytes" where
  "unread r = begun r @ buffered r @ chunks (net r)"

definition buffer_ok :: "'a receiver \<Rightarrow> bool" where
  "buffer_ok r \<longleftrightarrow> readidx r \<le> writeidx r \<and> writeidx r \<le> PACKETBUFSIZE \<and> length (inbuf r) = PACKETBUFSIZE"

definition packet_ok :: "'a receiver \<Rightarrow> bool" where
  "packet_ok r \<longleftrightarrow> total_num r \<noteq> 0 \<and> total_num r \<le> PACKET_MAXPAYLOAD \<and> unat (packet_length r) = total_num r + 1 \<and>
     unat (padding_length r) \<le> total_num r \<and> wptr r = data_num r \<and> data_num r \<le> total_num r \<and>
     (\<exists>p. payload r = Live p \<and> length p = total_num r)"

text \<open>The state of an unencrypted connection between two rounds of the loop.\<close>

definition plain_mode :: "'a receiver \<Rightarrow> bool" where
  "plain_mode r \<longleftrightarrow> \<not> rx_encrypted r \<and> \<not> rx_down r \<and> \<not> (rx_compressed r \<and> comp_abstract (remote_end r) \<noteq> None)"

definition plain_ok :: "'a receiver \<Rightarrow> bool" where
  "plain_ok r \<longleftrightarrow> plain_mode r \<and> buffer_ok r \<and>
     (total_num r \<noteq> 0 \<longrightarrow> packet_ok r \<and> data_num r < total_num r \<and> readidx r = writeidx r)"

section \<open>One round\<close>

lemma plain_flags:
  assumes "plain_mode r"
  shows "rx_full r = False" "rx_etm r = False" "rx_mac r = None" "rx_mac_len r = 0" "rx_block r = Some 5" "rx_encrypted r = False"
    "rx_tag_len r = 0"
  using assms by (simp_all add: plain_mode_def rx_full_def rx_etm_def rx_mac_def rx_mac_len_def rx_block_def rx_tag_len_def)

text \<open>What a stage leaves alone: the modes, and what of the stream is not its own.\<close>

definition same_mode :: "'a receiver \<Rightarrow> 'a receiver \<Rightarrow> bool" where
  "same_mode r r' \<longleftrightarrow> rx_state r' = rx_state r \<and> rx_down r' = rx_down r \<and> remote_end r' = remote_end r \<and>
     rx_local_comp r' = rx_local_comp r"

lemma same_mode_plain: "same_mode r r' \<Longrightarrow> plain_mode r' = plain_mode r"
  by (simp add: same_mode_def plain_mode_def rx_encrypted_def rx_compressed_def cong: option.case_cong)

text \<open>A script without errors and without the end of the stream; its weight, which every chunk that is read lowers.\<close>

definition clean :: "(int + bytes) list \<Rightarrow> bool" where
  "clean xs = list_all (case_sum (\<lambda>_. False) (\<lambda>bs. bs \<noteq> [])) xs"

definition weight :: "(int + bytes) list \<Rightarrow> nat" where
  "weight xs = sum_list (map (case_sum (\<lambda>_. 1) (\<lambda>bs. Suc (length bs))) xs)"

lemma recv_chunk_result:
  assumes "recv_chunk n r = (x, r')" and "0 < n"
  obtains e xs where "x = Inl e" "r' = r\<lparr>net := xs\<rparr>" "chunks xs = chunks (net r)" "clean (net r) \<Longrightarrow> e = - ERRNO_EAGAIN \<and> chunks (net r) = [] \<and> xs = []"
  | xs where "x = Inr []" "r' = r\<lparr>net := xs\<rparr>" "chunks xs = chunks (net r)" "\<not> clean (net r)"
  | bs xs where "x = Inr bs" "bs \<noteq> []" "length bs \<le> n" "r' = r\<lparr>net := xs\<rparr>" "bs @ chunks xs = chunks (net r)"
      "clean (net r) \<Longrightarrow> clean xs" "weight xs < weight (net r)"
proof (cases "net r")
  case Nil
  then have "r\<lparr>net := []\<rparr> = r" by (cases r) simp
  then show thesis using that(1) [of "- ERRNO_EAGAIN" "[]"] assms Nil by (simp add: recv_chunk_def clean_def)
next
  case (Cons y ys)
  show thesis
  proof (cases y)
    case (Inl e)
    have "x = Inl e" "r' = r\<lparr>net := ys\<rparr>" using assms(1) Cons Inl by (simp_all add: recv_chunk_def)
    then show thesis by (rule that(1)) (simp_all add: Cons Inl clean_def)
  next
    case (Inr bs)
    let ?xs = "if length bs \<le> n then ys else Inr (drop n bs) # ys"
    have r: "x = Inr (take n bs)" "r' = r\<lparr>net := ?xs\<rparr>"
      using assms Cons Inr by (auto simp: recv_chunk_def)
    have c: "take n bs @ chunks ?xs = chunks (net r)" using Cons Inr by simp
    show thesis
    proof (cases "bs = []")
      case True
      then show thesis using that(2) [of ?xs] r c Cons Inr by (simp add: clean_def)
    next
      case False
      have "weight ?xs < weight (net r)" using assms(2) False by (simp add: Cons Inr weight_def)
      moreover have "clean (net r) \<Longrightarrow> clean ?xs" by (auto simp: Cons Inr clean_def)
      ultimately show thesis using that(3) [of "take n bs" ?xs] r c False assms(2) by simp
    qed
  qed
qed

lemma poke_front: "length xs \<le> length m \<Longrightarrow> poke 0 xs m = Some (xs @ drop (length xs) m)"
  by (simp add: poke_def)

lemma buffered_fresh: "readidx q = 0 \<Longrightarrow> inbuf q = xs @ ys \<Longrightarrow> writeidx q = length xs \<Longrightarrow> buffered q = xs"
  by (simp add: buffered_def)

text \<open>Reading more: the stream stays as it is.\<close>

definition same_packet :: "'a receiver \<Rightarrow> 'a receiver \<Rightarrow> bool" where
  "same_packet r r' \<longleftrightarrow> total_num r' = total_num r \<and> data_num r' = data_num r \<and> payload r' = payload r \<and> rx_mem r' = rx_mem r \<and>
     packet_length r' = packet_length r \<and> padding_length r' = padding_length r \<and> wptr r' = wptr r"

lemma same_packetD: "same_packet r r' \<Longrightarrow> begun r' = begun r \<and> packet_ok r' = packet_ok r \<and> total_num r' = total_num r \<and> data_num r' = data_num r \<and> rx_mem r' = rx_mem r"
  by (simp add: same_packet_def begun_def packet_ok_def cong: area.case_cong)

lemma refill_plain:
  assumes ok: "buffer_ok r" and small: "total_num r \<noteq> 0 \<longrightarrow> buffered r = []"
  obtains (go) r' where "refill 5 r = Some (Inr (), r')" "same_mode r r'" "buffer_ok r'" "same_packet r r'"
      "buffered r' @ chunks (net r') = buffered r @ chunks (net r)" "clean (net r) \<Longrightarrow> clean (net r')"
      "weight (net r') < weight (net r) \<or> r' = r \<and> total_num r = 0 \<and> 5 \<le> length (buffered r)"
  | (stop) rc r' where "refill 5 r = Some (Inl rc, r')" "same_mode r r'" "buffer_ok r'" "same_packet r r'"
      "buffered r' = buffered r" "chunks (net r') = chunks (net r)" "readidx r' = 0" "length (buffered r) < 5"
      "rc = E_EAGAIN \<and> (clean (net r) \<longrightarrow> chunks (net r) = [] \<and> clean (net r')) \<or> rc = E_SOCKET_RECV \<and> \<not> clean (net r)"
proof -
  let ?b = "buffered r" and ?n = "writeidx r - readidx r"
  have n: "length ?b = ?n" using ok by (auto simp: buffered_def buffer_ok_def)
  show thesis
  proof (cases "?n < 5 \<or> remote_flag requires_full_packet r \<and> total_num r > ?n")
    case False
    have "total_num r = 0"
    proof (rule ccontr)
      assume "total_num r \<noteq> 0"
      then show "HOL.False" using small n False by simp
    qed
    moreover have "refill 5 r = Some (Inr (), r)" using False ok by (auto simp: refill_def buffer_ok_def Let_def)
    ultimately show thesis using go [of r] ok False n by (simp add: same_mode_def same_packet_def)
  next
    case True
    have n5: "?n < 5 \<or> total_num r \<noteq> 0" using True by auto
    then have lt: "?n < 5" using small n by fastforce
    let ?r1 = "r\<lparr>inbuf := ?b @ drop ?n (inbuf r), readidx := 0, writeidx := ?n\<rparr>"
    have b1: "buffered (?r1\<lparr>net := xs\<rparr>) = ?b" "buffer_ok (?r1\<lparr>net := xs\<rparr>)" "same_packet r (?r1\<lparr>net := xs\<rparr>)" "same_mode r (?r1\<lparr>net := xs\<rparr>)" for xs
      using ok n by (auto simp: buffered_def buffer_ok_def same_packet_def same_mode_def)
    obtain x r2 where x: "recv_chunk (PACKETBUFSIZE - ?n) ?r1 = (x, r2)" by fastforce
    have e: "refill 5 r =
        (case (x, r2) of
           (Inl e, r2) \<Rightarrow> if e = - ERRNO_EAGAIN then would_block r2 else Some (Inl E_SOCKET_RECV, r2)
         | (Inr [], r2) \<Rightarrow> Some (Inl E_SOCKET_RECV, r2)
         | (Inr bytes, r2) \<Rightarrow> map_option (\<lambda>buf. (Inr (), r2\<lparr>inbuf := buf, writeidx := ?n + length bytes\<rparr>)) (poke ?n bytes (inbuf r2)))"
    proof -
      have "poke 0 ?b (inbuf r) = Some (?b @ drop ?n (inbuf r))"
        using poke_front [of ?b "inbuf r"] ok n by (auto simp: buffer_ok_def)
      moreover have "\<not> writeidx r < readidx r" using ok by (simp add: buffer_ok_def)
      ultimately show ?thesis
        unfolding refill_def Let_def by (simp only: True x buffered_def [symmetric] if_True if_False option.case)
    qed
    have pos: "0 < PACKETBUFSIZE - ?n" using lt by simp
    show thesis
    proof (cases rule: recv_chunk_result [OF x pos])
      case (1 e xs)
      let ?r = "?r1\<lparr>net := xs\<rparr>"
      have c: "chunks xs = chunks (net r)" "clean (net r) \<longrightarrow> e = - ERRNO_EAGAIN \<and> chunks (net r) = [] \<and> clean xs" using 1(3,4) by (auto simp: clean_def)
      show thesis
      proof (cases "e = - ERRNO_EAGAIN")
        case True
        have "refill 5 r = Some (Inl E_EAGAIN, ?r\<lparr>block_inbound := HOL.True\<rparr>)" using e 1(1,2) True by (simp add: would_block_def)
        then show thesis
          by (rule stop) (use b1 [of xs] c lt n True in \<open>simp_all add: buffered_def buffer_ok_def same_packet_def same_mode_def\<close>)
      next
        case False
        have "refill 5 r = Some (Inl E_SOCKET_RECV, ?r)" using e 1(1,2) False by simp
        then show thesis by (rule stop) (use b1 [of xs] c lt n False in simp_all)
      qed
    next
      case (2 xs)
      have "refill 5 r = Some (Inl E_SOCKET_RECV, ?r1\<lparr>net := xs\<rparr>)" using e 2(1,2) by simp
      then show thesis by (rule stop) (use b1 [of xs] 2(3,4) lt n in simp_all)
    next
      case (3 bs xs)
      have l: "?n + length bs \<le> length (?b @ drop ?n (inbuf r))" using 3(3) lt ok n by (simp add: buffer_ok_def)
      let ?buf = "?b @ bs @ drop (?n + length bs) (inbuf r)"
      have p: "poke ?n bs (?b @ drop ?n (inbuf r)) = Some ?buf"
        using l n by (simp add: poke_def add.commute)
      let ?r = "?r1\<lparr>net := xs, inbuf := ?buf, writeidx := ?n + length bs\<rparr>"
      have f: "refill 5 r = Some (Inr (), ?r)" using e 3(1,2,4) p by (cases bs) simp_all
      have bu: "buffered ?r = ?b @ bs"
        by (rule buffered_fresh [where ys = "drop (?n + length bs) (inbuf r)"]) (use n in simp_all)
      have bo: "buffer_ok ?r" using l n ok 3(3) lt by (simp add: buffer_ok_def)
      have sm: "same_mode r ?r" "same_packet r ?r" by (simp_all add: same_packet_def same_mode_def)
      have st: "buffered ?r @ chunks (net ?r) = ?b @ chunks (net r)" unfolding bu using 3(5) by simp
      have cl: "clean (net r) \<Longrightarrow> clean (net ?r)" using 3(6) by simp
      have we: "weight (net ?r) < weight (net r)" using 3(7) by simp
      show thesis by (rule go [OF f sm(1) bo sm(2) st cl disjI1 [OF we]])
    qed
  qed
qed

text \<open>The header at the front of a stream, and when it is refused.\<close>

definition header_bad :: "bytes \<Rightarrow> bool" where
  "header_bad bs \<longleftrightarrow>
     (let n = unat (ntohu32 (take 4 bs)) in n \<le> 1 \<or> PACKET_MAXPAYLOAD < n \<or> n - 1 < unat (bs ! 4))"

lemma length_buffered: "buffer_ok r \<Longrightarrow> length (buffered r) = writeidx r - readidx r"
  by (auto simp: buffered_def buffer_ok_def)

lemma peek_buffered:
  assumes "buffer_ok r" "n \<le> length (buffered r)"
  shows "peek (readidx r) n (inbuf r) = Some (take n (buffered r))"
  using assms(2) unfolding length_buffered [OF assms(1)]
  using assms(1) by (auto simp: peek_def buffered_def buffer_ok_def min_def)

lemma buffered_advance:
  "n \<le> length (buffered r) \<Longrightarrow> buffered (r\<lparr>readidx := readidx r + n\<rparr>) = drop n (buffered r)"
  by (simp add: buffered_def drop_take add.commute)

lemma first_block_plain:
  assumes "plain_mode r" "buffer_ok r" "5 \<le> length (buffered r)"
  shows "first_block 5 k r = Some (Inr (take 5 (buffered r)),
    r\<lparr>readidx := readidx r + 5, packet_length := ntohu32 (take 4 (buffered r))\<rparr>)"
  using assms plain_flags [OF assms(1)] peek_buffered [OF assms(2,3)]
  by (simp add: first_block_def stage_then_def)

lemma packet_size_plain:
  assumes "plain_mode r" "length block = 5" "packet_length r = ntohu32 (take 4 block)"
  shows "if header_bad block then \<exists>rc r'. packet_size block r = Some (Inl rc, r') \<and> rc \<in> {E_DECRYPT, E_OUT_OF_BOUNDARY} \<or>
      packet_size block r = Some (Inr 0, r')
    else packet_size block r = Some (Inr (unat (packet_length r) - 1), r\<lparr>padding_length := block ! 4\<rparr>)"
proof -
  let ?n = "unat (packet_length r)" and ?r = "r\<lparr>padding_length := block ! 4\<rparr>"
  have u: "unat (packet_length r - 1) = ?n - 1" if "packet_length r \<noteq> 0" using that by (simp add: unat_minus_one)
  have c: "(ucast (block ! 4) > packet_length r - 1) = (?n - 1 < unat (block ! 4))" if "packet_length r \<noteq> 0"
    using u [OF that] by (simp add: word_less_nat_alt unsigned_ucast_eq take_bit_nat_eq_self less_trans [OF unat_byte_less])
  have z: "packet_length r < 1 \<longleftrightarrow> packet_length r = 0" by (simp add: word_less_nat_alt unat_eq_zero)
  show ?thesis
  proof (cases "packet_length r = 0")
    case True
    then show ?thesis using assms plain_flags [OF assms(1)] by (simp add: packet_size_def header_bad_def z)
  next
    case False
    then have n: "0 < ?n" by (simp add: unat_gt_0)
    show ?thesis
      using assms n plain_flags [OF assms(1)] c [OF False] u [OF False] False
      by (auto simp: packet_size_def header_bad_def z Let_def)
  qed
qed

text \<open>The start of a packet: its header leaves the buffer, or is refused.\<close>

lemma same_mode_refl [simp]: "same_mode r r"
  by (simp add: same_mode_def)

lemma same_mode_trans: "same_mode a b \<Longrightarrow> same_mode b c \<Longrightarrow> same_mode a c"
  by (simp add: same_mode_def)

lemma header_bad_front: "5 \<le> length bs \<Longrightarrow> header_bad (take 5 bs @ xs) = header_bad bs" "header_bad (take 5 bs) = header_bad bs"
  by (simp_all add: header_bad_def nth_append min_def)

lemma start_packet_plain:
  assumes r: "plain_mode r" "buffer_ok r" and t: "total_num r = 0" and b: "5 \<le> length (buffered r)"
  obtains (bad) rc r' where "start_packet 5 (writeidx r - readidx r) r = Some (Inl rc, r')" "rc \<in> {E_DECRYPT, E_OUT_OF_BOUNDARY}"
      "header_bad (buffered r)"
  | (full) r' where "start_packet 5 (writeidx r - readidx r) r = Some (Inl E_ALLOC, r')" "False \<in> set (rx_mem r)"
  | (go) r' where "start_packet 5 (writeidx r - readidx r) r = Some (Inr (int (length (buffered r'))), r')"
      "same_mode r r'" "buffer_ok r'" "packet_ok r'" "data_num r' = 0" "net r' = net r"
      "begun r' @ buffered r' = buffered r" "set (rx_mem r') \<subseteq> set (rx_mem r)" "\<not> header_bad (buffered r)"
proof -
  let ?h = "take 5 (buffered r)"
  let ?r1 = "r\<lparr>readidx := readidx r + 5, packet_length := ntohu32 (take 4 (buffered r))\<rparr>"
  have lh: "length ?h = 5" "take 4 ?h = take 4 (buffered r)" using b by (simp_all add: min_def)
  have m1: "plain_mode ?r1" "same_mode r ?r1" using r(1) same_mode_plain [of r ?r1] by (simp_all add: same_mode_def)
  have s: "start_packet 5 (writeidx r - readidx r) r =
      stage_then (packet_size ?h ?r1) (open_packet 5 (int (writeidx r - readidx r)) ?h)"
    using b plain_flags [OF r(1)] first_block_plain [OF r b] length_buffered [OF r(2)]
    by (simp add: start_packet_def stage_then_def)
  note ps = packet_size_plain [OF m1(1) lh(1)]
  show thesis
  proof (cases "header_bad ?h")
    case True
    then consider rc r' where "packet_size ?h ?r1 = Some (Inl rc, r')" "rc \<in> {E_DECRYPT, E_OUT_OF_BOUNDARY}"
      | r' where "packet_size ?h ?r1 = Some (Inr 0, r')"
      using ps lh(2) by auto
    then show thesis
    proof cases
      case 1
      then show thesis using bad [of rc r'] s True header_bad_front(2) by (auto simp: stage_then_def)
    next
      case 2
      then show thesis using bad [of E_OUT_OF_BOUNDARY r'] s True header_bad_front(2) by (simp add: stage_then_def open_packet_def)
    qed
  next
    case False
    let ?n = "unat (ntohu32 (take 4 (buffered r)))" let ?r2 = "?r1\<lparr>padding_length := ?h ! 4\<rparr>"
    have n: "1 < ?n" "?n \<le> PACKET_MAXPAYLOAD" "unat (?h ! 4) \<le> ?n - 1" "\<not> header_bad (buffered r)"
      using False lh(2) header_bad_front(2) [of "buffered r"] by (auto simp: header_bad_def Let_def)
    have p: "packet_size ?h ?r1 = Some (Inr (?n - 1), ?r2)" using ps False lh(2) by simp
    have m2: "plain_mode ?r2" "same_mode r ?r2" using r(1) same_mode_plain [of r ?r2] by (simp_all add: same_mode_def)
    let ?ok = "fst (rx_alloc ?r2)" and ?r3 = "snd (rx_alloc ?r2)"
    have al: "?ok \<or> False \<in> set (rx_mem r)" "set (rx_mem ?r3) \<subseteq> set (rx_mem r)"
      by (cases "rx_mem r"; simp add: rx_alloc_def; blast)+
    have o: "start_packet 5 (writeidx r - readidx r) r = open_packet 5 (int (writeidx r - readidx r)) ?h (?n - 1) ?r2"
      unfolding s p by (simp add: stage_then_def)
    show thesis
    proof (cases ?ok)
      case False
      then have "open_packet 5 (int (writeidx r - readidx r)) ?h (?n - 1) ?r2 = Some (Inl E_ALLOC, ?r3\<lparr>payload := Null\<rparr>)"
        using n plain_flags [OF m2(1)] by (simp add: open_packet_def split_beta Let_def)
      then show thesis using full o False al(1) by simp
    next
      case True
      let ?r4 = "?r3\<lparr>payload := Live (replicate (?n - 1) 0), total_num := ?n - 1, wptr := 0, data_num := 0\<rparr>"
      have m3: "plain_mode ?r3" using r(1) same_mode_plain [of r ?r3] by (simp add: same_mode_def rx_alloc_def)
      have f: "rx_full (?r3\<lparr>payload := x, total_num := y, wptr := z\<rparr>) = False" "rx_etm (?r3\<lparr>payload := x, total_num := y, wptr := z\<rparr>) = False" for x y z
        using plain_flags [of "?r3\<lparr>payload := x, total_num := y, wptr := z\<rparr>"]
          same_mode_plain [of ?r3 "?r3\<lparr>payload := x, total_num := y, wptr := z\<rparr>"] m3
        by (simp_all add: same_mode_def)
      have op: "open_packet 5 (int (writeidx r - readidx r)) ?h (?n - 1) ?r2 = Some (Inr (int (writeidx r - readidx r) - 5), ?r4)"
        using n True plain_flags [OF m2(1)] by (simp add: open_packet_def split_beta Let_def f)
      have bu: "buffered ?r4 = drop 5 (buffered r)"
        using buffered_advance [OF b] by (simp add: buffered_def rx_alloc_def)
      have st: "start_packet 5 (writeidx r - readidx r) r = Some (Inr (int (length (buffered ?r4))), ?r4)"
        unfolding o op bu using b length_buffered [OF r(2)] by simp
      have be: "begun ?r4 = ?h"
      proof -
        have "begun ?r4 = take 4 (buffered r) @ [?h ! 4]"
          using n(1) htonu32_ntohu32 [of "take 4 (buffered r)"] b by (simp add: begun_def rx_alloc_def min_def)
        also have "\<dots> = ?h" using take_Suc_conv_app_nth [of 4 "buffered r"] b by (simp add: nth_append min_def)
        finally show ?thesis .
      qed
      have "buffer_ok ?r4" using r(2) b length_buffered [OF r(2)] by (auto simp: buffer_ok_def rx_alloc_def)
      moreover have "packet_ok ?r4" using n by (simp add: packet_ok_def rx_alloc_def)
      moreover have "begun ?r4 @ buffered ?r4 = buffered r" unfolding be bu by simp
      ultimately show thesis
        using go [OF st] al(2) n(4) by (simp add: same_mode_def rx_alloc_def)
    qed
  qed
qed

text \<open>Copying what the buffer holds of the packet.\<close>

lemma collect_part_plain:
  assumes r: "plain_mode r" "buffer_ok r" "packet_ok r" "data_num r < total_num r"
  obtains r' where "collect_part 5 (int (length (buffered r))) r = Some (Inr (total_num r' = data_num r'), r')"
    "same_mode r r'" "buffer_ok r'" "packet_ok r'" "net r' = net r" "rx_mem r' = rx_mem r"
    "begun r' @ buffered r' = begun r @ buffered r" "data_num r' < total_num r' \<Longrightarrow> readidx r' = writeidx r'"
    "total_num r' = total_num r"
proof -
  obtain p where p: "payload r = Live p" "length p = total_num r" using r(3) by (auto simp: packet_ok_def)
  let ?n = "min (length (buffered r)) (total_num r - data_num r)"
  have n: "?n \<le> length (buffered r)" "data_num r + ?n \<le> total_num r" using r(4) by simp_all
  have mi: "min (int (length (buffered r))) (int (total_num r) - int (data_num r)) = int ?n" using r(4) by simp
  have pl: "decrypt_plan 5 (int ?n) r = (0, FIRST_BLOCK, int ?n)" using plain_flags [OF r(1)] by (simp add: decrypt_plan_def)
  have cp: "collect_part 5 (int (length (buffered r))) r =
      stage_then (if 0 < ?n then copy_plain ?n r else Some (Inr (), r)) (\<lambda>_ r3. Some (Inr (total_num r3 = data_num r3), r3))"
    unfolding collect_part_def Let_def mi using plain_flags [OF r(1)] pl by (simp add: stage_then_def)
  have wp: "wptr r = data_num r" "total_num r < 2 ^ 64" using r(3) by (simp_all add: packet_ok_def)
  show thesis
  proof (cases "0 < ?n")
    case False
    then have b: "buffered r = []" using r(4) by auto
    then have "readidx r = writeidx r" using length_buffered [OF r(2)] r(2) by (simp add: buffer_ok_def)
    then show thesis using that [of r] cp False r by (simp add: stage_then_def)
  next
    case True
    let ?p = "take (data_num r) p @ take ?n (buffered r) @ drop (data_num r + ?n) p"
    let ?r = "advance_by ?n (r\<lparr>payload := Live ?p\<rparr>)"
    have l: "length (take ?n (buffered r)) = ?n" by simp
    have "put_payload (take ?n (buffered r)) r = Some (r\<lparr>payload := Live ?p\<rparr>)"
      using n(2) p wp l by (simp add: put_payload_def poke_def)
    then have "copy_plain ?n r = Some (Inr (), ?r)"
      using peek_buffered [OF r(2) n(1)] n(2) wp by (simp add: copy_plain_def)
    then have c: "collect_part 5 (int (length (buffered r))) r = Some (Inr (total_num ?r = data_num ?r), ?r)"
      using cp True by (simp add: stage_then_def)
    have "buffered ?r = drop ?n (buffered r)" using buffered_advance [OF n(1)] by (simp add: buffered_def advance_by_def)
    moreover have "begun ?r = begun r @ take ?n (buffered r)"
      using n(2) p r(3,4) by (simp add: begun_def advance_by_def packet_ok_def min_def)
    ultimately have st: "begun ?r @ buffered ?r = begun r @ buffered r" by simp
    have bo: "buffer_ok ?r" using r(2) n(1) length_buffered [OF r(2)] by (auto simp: buffer_ok_def advance_by_def)
    have po: "packet_ok ?r" using r(3) n(2) p l by (simp add: packet_ok_def advance_by_def)
    have em: "readidx ?r = writeidx ?r" if "data_num ?r < total_num ?r"
    proof -
      have "?n = length (buffered r)" using that by (simp add: advance_by_def)
      then show ?thesis using length_buffered [OF r(2)] r(2) by (simp add: advance_by_def buffer_ok_def)
    qed
    show thesis
      by (rule that [OF c _ bo po _ _ st em]) (simp_all add: same_mode_def advance_by_def)
  qed
qed

text \<open>A complete packet is handed over: payload and padding are what was collected.\<close>

lemma upd_far_simps [simp]:
  "remote_end (upd_far f r) = f (remote_end r)" "payload (upd_far f r) = payload r" "padding_length (upd_far f r) = padding_length r"
  by (simp_all add: upd_far_def)

lemma finish_plain:
  assumes r: "plain_mode r" "packet_ok r" "total_num r = data_num r"
  obtains p junk r' where "finish_packet r = Some (Inr (p, True, seqno (remote_end r)), r')"
    "begun r = frame_text p junk" "length junk < 256" "length p + length junk \<le> PACKET_MAXPAYLOAD"
    "r' = upd_far (seqno_update (\<lambda>q. q + 1)) (r\<lparr>payload := Dangling\<rparr>)"
proof -
  obtain m where m: "payload r = Live m" "length m = total_num r" using r(2) by (auto simp: packet_ok_def)
  let ?k = "unat (padding_length r)" let ?n = "total_num r - ?k"
  have k: "?k \<le> total_num r" "total_num r \<le> PACKET_MAXPAYLOAD" "unat (packet_length r) = total_num r + 1"
    using r(2) by (simp_all add: packet_ok_def)
  then have pl: "unat (packet_length r - 1) = total_num r" using unat_minus_one [of "packet_length r"] by (metis Suc_eq_plus1 diff_Suc_1 unat_0 nat.distinct(1))
  have cm: "check_mac r = Some (Inr True, r)" using plain_flags [OF r(1)] by (simp add: check_mac_def)
  let ?r = "upd_far (seqno_update (\<lambda>q. q + 1)) r"
  have nc: "(if rx_compressed ?r then comp_abstract (remote_end ?r) else None) = None"
    using r(1) by (auto simp: plain_mode_def rx_compressed_def upd_far_def cong: option.case_cong)
  have f: "finish_packet r = Some (Inr (take ?n m, True, seqno (remote_end r)), ?r\<lparr>payload := Dangling\<rparr>)"
    using k m pl by (simp add: finish_packet_def cm stage_then_def Let_def peek_def nc)
  have w: "word_of_nat (1 + length (take ?n m) + length (drop ?n m)) = packet_length r" "word_of_nat (length (drop ?n m)) = padding_length r"
  proof -
    have "1 + length (take ?n m) + length (drop ?n m) = unat (packet_length r)" using k m by simp
    then show "word_of_nat (1 + length (take ?n m) + length (drop ?n m)) = packet_length r" by (simp only: of_nat_unat ucast_id)
    have "length (drop ?n m) = ?k" using k m by simp
    then show "word_of_nat (length (drop ?n m)) = padding_length r" by (simp only: of_nat_unat ucast_id)
  qed
  have "begun r = frame_text (take ?n m) (drop ?n m)"
    unfolding frame_text_def w using m r(3) r(2) by (simp add: begun_def packet_ok_def)
  moreover have "length (drop ?n m) < 256" "length (take ?n m) + length (drop ?n m) \<le> PACKET_MAXPAYLOAD" using m k by simp_all
  moreover have "?r\<lparr>payload := Dangling\<rparr> = upd_far (seqno_update (\<lambda>q. q + 1)) (r\<lparr>payload := Dangling\<rparr>)"
    by (simp add: upd_far_def)
  ultimately show thesis using that f by metis
qed

section \<open>The loop\<close>

text \<open>How a call may end.  A stream is short when it does not hold a whole frame.\<close>

definition stream_short :: "bytes \<Rightarrow> bool" where
  "stream_short bs \<longleftrightarrow> length bs < 5 \<or> length bs < 4 + unat (ntohu32 (take 4 bs))"

definition end_ok :: "'a receiver \<Rightarrow> int + bytes \<times> bool \<times> u32 \<Rightarrow> 'a receiver \<Rightarrow> bool" where
  "end_ok r x r' \<longleftrightarrow>
     (case x of
        Inr (p, ok, seq) \<Rightarrow> ok \<and> seq = seqno (remote_end r) \<and> plain_ok r' \<and> total_num r' = 0 \<and>
          remote_end r' = (remote_end r)\<lparr>seqno := seq + 1\<rparr> \<and> (clean (net r) \<longrightarrow> clean (net r')) \<and>
          set (rx_mem r') \<subseteq> set (rx_mem r) \<and> weight (net r') \<le> weight (net r) \<and>
          (\<exists>junk. length junk < 256 \<and> length p + length junk \<le> PACKET_MAXPAYLOAD \<and> unread r = frame_text p junk @ unread r')
      | Inl rc \<Rightarrow>
          rc \<in> {E_EAGAIN, E_SOCKET_RECV} \<and> plain_ok r' \<and> remote_end r' = remote_end r \<and> unread r' = unread r \<and>
            set (rx_mem r') \<subseteq> set (rx_mem r) \<and>
            (rc = E_EAGAIN \<and> (clean (net r) \<longrightarrow> clean (net r') \<and> (stream_short (unread r) \<or> weight (net r') < weight (net r))) \<or> rc = E_SOCKET_RECV \<and> \<not> clean (net r)) \<or>
          rc \<in> {E_DECRYPT, E_OUT_OF_BOUNDARY} \<and> 5 \<le> length (unread r) \<and> header_bad (unread r) \<or>
          rc = E_ALLOC \<and> False \<in> set (rx_mem r))"

lemma end_ok_step:
  assumes "end_ok r1 x r'" "unread r1 = unread r" "remote_end r1 = remote_end r" "clean (net r) \<Longrightarrow> clean (net r1)"
    "set (rx_mem r1) \<subseteq> set (rx_mem r)" "weight (net r1) \<le> weight (net r)"
  shows "end_ok r x r'"
  using assms by (auto simp: end_ok_def split: sum.splits)

lemma plain_step:
  assumes ok: "plain_ok r"
  shows "(\<exists>x r'. collect_loop r = Some (x, r') \<and> end_ok r x r') \<or>
    (\<exists>r'. collect_loop r = collect_loop r' \<and> plain_ok r' \<and> unread r' = unread r \<and> remote_end r' = remote_end r \<and>
      (clean (net r) \<longrightarrow> clean (net r')) \<and> set (rx_mem r') \<subseteq> set (rx_mem r) \<and> total_num r' \<noteq> 0 \<and>
      (weight (net r') < weight (net r) \<or> net r' = net r \<and> total_num r = 0))"
proof -
  have m: "plain_mode r" "buffer_ok r" using ok by (simp_all add: plain_ok_def)
  have small: "total_num r \<noteq> 0 \<longrightarrow> buffered r = []" using ok by (simp add: plain_ok_def buffered_def)
  have fl: "rx_down r = False" "rx_block r = Some 5" using m(1) plain_flags [OF m(1)] by (simp_all add: plain_mode_def)
  show ?thesis
  proof (cases rule: refill_plain [OF m(2) small])
    case (2 rc r')
    have "collect_loop r = Some (Inl rc, r')" using 2(1) fl by (simp add: collect_loop.simps [of r])
    moreover have "end_ok r (Inl rc) r'"
    proof -
      have sp: "begun r' = begun r" "packet_ok r' = packet_ok r" "total_num r' = total_num r" "data_num r' = data_num r" "rx_mem r' = rx_mem r"
        using same_packetD [OF 2(4)] by simp_all
      have un: "unread r' = unread r" using sp(1) 2(5,6) by (simp add: unread_def)
      have "total_num r' \<noteq> 0 \<Longrightarrow> readidx r' = writeidx r'" 
        using small sp(3) 2(3,5,7) length_buffered [OF 2(3)] by (simp add: buffer_ok_def)
      then have po: "plain_ok r'" using ok sp same_mode_plain [OF 2(2)] 2(3) by (simp add: plain_ok_def)
      have sh: "stream_short (unread r)" if "chunks (net r) = []"
      proof (cases "total_num r = 0")
        case True
        then show ?thesis using that 2(8) by (simp add: unread_def begun_def stream_short_def)
      next
        case False
        then have p: "packet_ok r" "data_num r < total_num r" "buffered r = []" using ok small by (simp_all add: plain_ok_def)
        then obtain q where q: "payload r = Live q" "length q = total_num r" by (auto simp: packet_ok_def)
        have "unread r = htonu32 (packet_length r) @ [padding_length r] @ take (data_num r) q"
          using False p(3) q that by (simp add: unread_def begun_def)
        then show ?thesis using p q by (simp add: stream_short_def packet_ok_def)
      qed
      show ?thesis using 2(2,9) un po sh sp(5) by (auto simp: end_ok_def same_mode_def)
    qed
    ultimately show ?thesis by blast
  next
    case (1 r1)
    have sp: "begun r1 = begun r" "packet_ok r1 = packet_ok r" "total_num r1 = total_num r" "data_num r1 = data_num r" "rx_mem r1 = rx_mem r"
      using same_packetD [OF 1(4)] by simp_all
    have m1: "plain_mode r1" using m(1) same_mode_plain [OF 1(2)] by simp
    have un1: "unread r1 = unread r" using sp(1) 1(5) by (simp add: unread_def)
    let ?start = "if total_num r1 = 0 then start_packet 5 (writeidx r1 - readidx r1) r1 else Some (Inr (int (writeidx r1 - readidx r1)), r1)"
    have loop: "collect_loop r =
       (case ?start of
          None \<Rightarrow> None
        | Some (Inl rc, r2) \<Rightarrow> Some (Inl rc, r2)
        | Some (Inr numbytes, r2) \<Rightarrow>
            (case collect_part 5 numbytes r2 of
               None \<Rightarrow> None
             | Some (Inl rc, r3) \<Rightarrow> Some (Inl rc, r3)
             | Some (Inr complete, r3) \<Rightarrow>
                 if complete then
                   (case finish_packet r3 of None \<Rightarrow> None | Some (x, r4) \<Rightarrow> Some (x, r4\<lparr>total_num := 0\<rparr>))
                 else collect_loop r3))"
      using 1(1) fl by (simp add: collect_loop.simps [of r] Let_def)
    have stop: "collect_loop r = Some (Inl rc, r2) \<Longrightarrow> end_ok r (Inl rc) r2 \<Longrightarrow> ?thesis" for rc r2 by blast
    have part: ?thesis
      if st: "?start = Some (Inr (int (length (buffered r2))), r2)" and r2: "same_mode r1 r2" "buffer_ok r2" "packet_ok r2"
        "data_num r2 < total_num r2" "net r2 = net r1" "begun r2 @ buffered r2 = begun r1 @ buffered r1" "set (rx_mem r2) \<subseteq> set (rx_mem r1)" for r2
    proof -
      have m2: "plain_mode r2" using m1 same_mode_plain [OF r2(1)] by simp
      show ?thesis
      proof (rule collect_part_plain [OF m2 r2(2,3,4)])
        fix r3 assume c: "collect_part 5 (int (length (buffered r2))) r2 = Some (Inr (total_num r3 = data_num r3), r3)"
          and r3: "same_mode r2 r3" "buffer_ok r3" "packet_ok r3" "net r3 = net r2" "rx_mem r3 = rx_mem r2"
            "begun r3 @ buffered r3 = begun r2 @ buffered r2" "data_num r3 < total_num r3 \<Longrightarrow> readidx r3 = writeidx r3"
            "total_num r3 = total_num r2"
        have m3: "plain_mode r3" using m2 same_mode_plain [OF r3(1)] by simp
        have "unread r3 = (begun r1 @ buffered r1) @ chunks (net r1)" unfolding unread_def append_assoc [symmetric] r3(6) r2(6) r3(4) r2(5) ..
        then have un3: "unread r3 = unread r" using un1 by (simp add: unread_def)
        have re: "remote_end r3 = remote_end r" using 1(2) r2(1) r3(1) by (simp add: same_mode_def)
        have cl: "clean (net r) \<Longrightarrow> clean (net r3)" using 1(6) r2(5) r3(4) by simp
        have we: "weight (net r3) \<le> weight (net r)" using 1(7) r2(5) r3(4) by auto
        have me: "set (rx_mem r3) \<subseteq> set (rx_mem r)" using r2(7) r3(5) sp(5) by simp
        show ?thesis
        proof (cases "total_num r3 = data_num r3")
          case True
          obtain p junk r4 where f: "finish_packet r3 = Some (Inr (p, HOL.True, seqno (remote_end r3)), r4)" "begun r3 = frame_text p junk"
              "length junk < 256" "length p + length junk \<le> PACKET_MAXPAYLOAD" "r4 = upd_far (seqno_update (\<lambda>q. q + 1)) (r3\<lparr>payload := Dangling\<rparr>)"
            by (rule finish_plain [OF m3 r3(3) True])
          let ?r5 = "r4\<lparr>total_num := 0\<rparr>"
          have un5: "unread ?r5 = buffered r3 @ chunks (net r3)" by (simp add: unread_def begun_def buffered_def f(5) upd_far_def)
          have fr: "unread r = frame_text p junk @ unread ?r5" unfolding un5 using un3 f(2) by (simp add: unread_def)
          have po: "plain_ok ?r5" using m3 r3(2)
            by (simp add: plain_ok_def plain_mode_def buffer_ok_def rx_encrypted_def rx_compressed_def f(5) upd_far_def cong: option.case_cong)
          have "end_ok r (Inr (p, HOL.True, seqno (remote_end r3))) ?r5"
            unfolding end_ok_def using po re cl f(3,4,5) fr me we by (auto simp: upd_far_def)
          moreover have "collect_loop r = Some (Inr (p, HOL.True, seqno (remote_end r3)), ?r5)" using loop st c f(1) True by simp
          ultimately show ?thesis by blast
        next
          case False
          then have "data_num r3 < total_num r3" using r3(3) by (simp add: packet_ok_def)
          then have "plain_ok r3" using m3 r3(2,3,7) by (simp add: plain_ok_def)
          moreover have "collect_loop r = collect_loop r3" using loop st c False by simp
          moreover have "weight (net r3) < weight (net r) \<or> net r3 = net r \<and> total_num r = 0" using 1(7) r2(5) r3(4) by auto
          moreover have "total_num r3 \<noteq> 0" using r3(3) by (simp add: packet_ok_def)
          ultimately show ?thesis using un3 re cl me by blast
        qed
      qed
    qed
    show ?thesis
    proof (cases "total_num r1 = 0")
      case False
      have "packet_ok r1" "data_num r1 < total_num r1" using ok sp False by (simp_all add: plain_ok_def)
      then show ?thesis using part [of r1] 1(3) False length_buffered [OF 1(3)] by simp
    next
      case True
      note b = length_buffered [OF 1(3)]
      have be: "begun r1 = []" using True by (simp add: begun_def)
      show ?thesis
      proof (cases "5 \<le> length (buffered r1)")
        case False
        have "start_packet 5 (writeidx r1 - readidx r1) r1 = would_block r1"
          using False b plain_flags [OF m1] by (simp add: start_packet_def)
        then have c: "collect_loop r = Some (Inl E_EAGAIN, r1\<lparr>block_inbound := HOL.True\<rparr>)" using loop True by (simp add: would_block_def)
        have "plain_ok (r1\<lparr>block_inbound := HOL.True\<rparr>)"
          using m1 1(3) True by (simp add: plain_ok_def plain_mode_def buffer_ok_def rx_encrypted_def rx_compressed_def cong: option.case_cong)
        moreover have "unread (r1\<lparr>block_inbound := HOL.True\<rparr>) = unread r"
          using un1 True by (simp add: unread_def begun_def buffered_def)
        moreover have "weight (net r1) < weight (net r)" using 1(7) False by auto
        ultimately have "end_ok r (Inl E_EAGAIN) (r1\<lparr>block_inbound := HOL.True\<rparr>)"
          using 1(2,6) sp(5) by (simp add: end_ok_def same_mode_def)
        then show ?thesis using c by blast
      next
        case b5: True
        have hb: "header_bad (unread r) = header_bad (buffered r1)" "5 \<le> length (unread r)"
          using b5 un1 [symmetric] be by (simp_all add: unread_def header_bad_def nth_append)
        show ?thesis
        proof (cases rule: start_packet_plain [OF m1 1(3) True b5])
          case (1 rc r2)
          then have "collect_loop r = Some (Inl rc, r2)" using loop True by simp
          then show ?thesis by (rule stop) (use 1 hb in \<open>auto simp: end_ok_def\<close>)
        next
          case (2 r2)
          then have "collect_loop r = Some (Inl E_ALLOC, r2)" using loop True by simp
          then show ?thesis by (rule stop) (use 2 sp(5) in \<open>simp add: end_ok_def\<close>)
        next
          case (3 r2)
          then show ?thesis using part [of r2] True be by (simp add: packet_ok_def)
        qed
      qed
    qed
  qed
qed

text \<open>Every round reads from the socket or opens the packet, so the loop ends.\<close>

lemma collect_plain:
  "plain_ok r \<Longrightarrow> \<exists>x r'. collect_loop r = Some (x, r') \<and> end_ok r x r'"
proof (induction "2 * weight (net r) + (if total_num r = 0 then 1 else 0)" arbitrary: r rule: less_induct)
  case less
  from plain_step [OF less.prems] show ?case
  proof (elim disjE)
    assume "\<exists>r1. collect_loop r = collect_loop r1 \<and> plain_ok r1 \<and> unread r1 = unread r \<and> remote_end r1 = remote_end r \<and>
      (clean (net r) \<longrightarrow> clean (net r1)) \<and> set (rx_mem r1) \<subseteq> set (rx_mem r) \<and> total_num r1 \<noteq> 0 \<and>
      (weight (net r1) < weight (net r) \<or> net r1 = net r \<and> total_num r = 0)"
    then obtain r1 where r1: "collect_loop r = collect_loop r1" "plain_ok r1" "unread r1 = unread r" "remote_end r1 = remote_end r"
      "clean (net r) \<longrightarrow> clean (net r1)" "set (rx_mem r1) \<subseteq> set (rx_mem r)" "total_num r1 \<noteq> 0"
      "weight (net r1) < weight (net r) \<or> net r1 = net r \<and> total_num r = 0" by blast
    have "2 * weight (net r1) + (if total_num r1 = 0 then 1 else 0) < 2 * weight (net r) + (if total_num r = 0 then 1 else 0)"
      using r1(7,8) by auto
    from less.hyps [OF this r1(2)] obtain x r' where x: "collect_loop r1 = Some (x, r')" "end_ok r1 x r'" by blast
    have "weight (net r1) \<le> weight (net r)" using r1(8) by auto
    then have "end_ok r x r'" using end_ok_step [OF x(2) r1(3,4) _ r1(6)] r1(5) by blast
    then show ?case using r1(1) x(1) by auto
  qed
qed

lemma block_inbound_irrelevant [simp]:
  "plain_ok (r\<lparr>block_inbound := b\<rparr>) = plain_ok r" "unread (r\<lparr>block_inbound := b\<rparr>) = unread r"
  by (simp_all add: plain_ok_def plain_mode_def buffer_ok_def packet_ok_def unread_def begun_def buffered_def rx_encrypted_def
      rx_compressed_def cong: option.case_cong area.case_cong)

lemma collect_call:
  assumes "plain_ok r"
  obtains x r' where "transport_collect r = Some (x, r')" "end_ok r x r'"
proof -
  obtain x r' where x: "collect_loop (r\<lparr>block_inbound := False\<rparr>) = Some (x, r')" "end_ok (r\<lparr>block_inbound := False\<rparr>) x r'"
    using collect_plain [of "r\<lparr>block_inbound := False\<rparr>"] assms by auto
  have "end_ok r x r'" by (rule end_ok_step [OF x(2)]) simp_all
  then show thesis using x(1) that by (simp add: transport_collect_def)
qed

section \<open>Frames at the front\<close>

lemma frame_header:
  assumes "length p + length junk \<le> PACKET_MAXPAYLOAD" "length junk < 256"
  shows "unat (ntohu32 (take 4 (frame_text p junk @ z))) = 1 + length p + length junk"
    and "unat ((frame_text p junk @ z) ! 4) = length junk"
proof -
  have "unat (word_of_nat (1 + length p + length junk) :: u32) = 1 + length p + length junk"
    using assms unfolding unat_of_nat by simp
  then show "unat (ntohu32 (take 4 (frame_text p junk @ z))) = 1 + length p + length junk"
    unfolding frame_text_def append_assoc by (simp only: take_front [OF length_htonu32] ntohu32_htonu32)
  have "unat (word_of_nat (length junk) :: byte) = length junk" using assms by (simp add: unat_of_nat take_bit_nat_eq_self)
  then show "unat ((frame_text p junk @ z) ! 4) = length junk" by (simp add: frame_text_def nth_append)
qed

lemma frame_text_inj:
  assumes "length p + length junk \<le> PACKET_MAXPAYLOAD" "length junk < 256"
    and "length p' + length junk' \<le> PACKET_MAXPAYLOAD" "length junk' < 256"
    and eq: "frame_text p junk @ z = frame_text p' junk' @ z'"
  shows "p = p' \<and> z = z'"
proof -
  have l: "length p = length p'" "length junk = length junk'"
    using frame_header [OF assms(1,2), of z] frame_header [OF assms(3,4), of z'] unfolding eq by simp_all
  then show ?thesis using eq by (simp add: frame_text_def)
qed

lemma frame_front:
  assumes "length p + length junk < PACKET_MAXPAYLOAD" "length junk < 256" "p \<noteq> []"
  shows "\<not> header_bad (frame_text p junk @ z)" "\<not> stream_short (frame_text p junk @ z)"
  using frame_header [OF less_imp_le [OF assms(1)] assms(2), of z] assms by (simp_all add: header_bad_def stream_short_def Let_def)

section \<open>Calling again\<close>

text \<open>A caller that calls again while the result is \<open>EAGAIN\<close>, and one that takes a number of packets.\<close>

fun read_again :: "nat \<Rightarrow> 'a receiver \<Rightarrow> (bytes \<times> bool \<times> u32, 'a) stage" where
  "read_again n r =
     (case transport_collect r of
        Some (Inl rc, r') \<Rightarrow>
          if rc = E_EAGAIN then (case n of 0 \<Rightarrow> Some (Inl rc, r') | Suc n \<Rightarrow> read_again n r') else Some (Inl rc, r')
      | x \<Rightarrow> x)"

declare read_again.simps [simp del]

fun read_packets :: "nat \<Rightarrow> 'a receiver \<Rightarrow> (bytes list \<times> 'a receiver) option" where
  "read_packets 0 r = Some ([], r)"
| "read_packets (Suc k) r =
     (case read_again (weight (net r)) r of
        Some (Inr (p, ok, seq), r1) \<Rightarrow> map_option (\<lambda>(ps, r2). (p # ps, r2)) (read_packets k r1)
      | _ \<Rightarrow> None)"

definition sound :: "'a receiver \<Rightarrow> bool" where
  "sound r \<longleftrightarrow> plain_ok r \<and> clean (net r) \<and> False \<notin> set (rx_mem r)"

definition same_far :: "nat \<Rightarrow> 'a receiver \<Rightarrow> 'a receiver \<Rightarrow> bool" where
  "same_far k r r' \<longleftrightarrow> remote_end r' = (remote_end r)\<lparr>seqno := seqno (remote_end r) + word_of_nat k\<rparr>"

lemma one_call:
  assumes "sound r" "unread r = frame_text p junk @ z"
    and "length p + length junk < PACKET_MAXPAYLOAD" "length junk < 256" "p \<noteq> []"
  obtains (packet) r' where "transport_collect r = Some (Inr (p, True, seqno (remote_end r)), r')" "sound r'" "unread r' = z"
      "same_far 1 r r'"
  | (later) r' where "transport_collect r = Some (Inl E_EAGAIN, r')" "sound r'" "unread r' = unread r" "remote_end r' = remote_end r"
      "weight (net r') < weight (net r)"
proof -
  have r: "plain_ok r" "clean (net r)" "False \<notin> set (rx_mem r)" using assms(1) by (simp_all add: sound_def)
  note front = frame_front [OF assms(3-5), of z, folded assms(2)]
  obtain x r' where x: "transport_collect r = Some (x, r')" "end_ok r x r'" by (rule collect_call [OF r(1)])
  show thesis
  proof (cases x)
    case (Inl rc)
    then have "rc = E_EAGAIN" "sound r'" "unread r' = unread r" "remote_end r' = remote_end r" "weight (net r') < weight (net r)"
      using x(2) r front by (auto simp: end_ok_def sound_def)
    then show thesis using later x(1) Inl by simp
  next
    case (Inr y)
    obtain q ok seq where y: "y = (q, ok, seq)" by (cases y)
    have e: "ok" "seq = seqno (remote_end r)" "sound r'" "same_far 1 r r'"
      using x(2) r Inr y by (auto simp: end_ok_def sound_def same_far_def)
    obtain junk' where j: "length junk' < 256" "length q + length junk' \<le> PACKET_MAXPAYLOAD" "unread r = frame_text q junk' @ unread r'"
      using x(2) Inr y by (auto simp: end_ok_def)
    have "p = q \<and> z = unread r'"
      by (rule frame_text_inj [OF less_imp_le [OF assms(3)] assms(4) j(2,1)]) (use assms(2) j(3) in simp)
    then show thesis using packet x(1) Inr y e by simp
  qed
qed

lemma one_frame:
  assumes "length p + length junk < PACKET_MAXPAYLOAD" "length junk < 256" "p \<noteq> []"
  shows "sound r \<Longrightarrow> unread r = frame_text p junk @ z \<Longrightarrow> weight (net r) \<le> n \<Longrightarrow>
    \<exists>r'. read_again n r = Some (Inr (p, True, seqno (remote_end r)), r') \<and> sound r' \<and> unread r' = z \<and> same_far 1 r r'"
proof (induction n arbitrary: r)
  case 0
  show ?case
  proof (cases rule: one_call [OF 0(1,2) assms])
    case (1 r')
    then show ?thesis by (simp add: read_again.simps)
  next
    case (2 r')
    then show ?thesis using 0(3) by simp
  qed
next
  case (Suc n)
  show ?case
  proof (cases rule: one_call [OF Suc.prems(1,2) assms])
    case (1 r')
    then show ?thesis by (simp add: read_again.simps)
  next
    case (2 r')
    then have "\<exists>r''. read_again n r' = Some (Inr (p, True, seqno (remote_end r')), r'') \<and> sound r'' \<and> unread r'' = z \<and> same_far 1 r' r''"
      using Suc.IH [of r'] Suc.prems by simp
    then show ?thesis using 2 by (simp add: read_again.simps [of "Suc n"] same_far_def)
  qed
qed

lemma frames_in_order:
  assumes "\<forall>(p, junk) \<in> set fs. length p + length junk < PACKET_MAXPAYLOAD \<and> length junk < 256 \<and> p \<noteq> []"
  shows "sound r \<Longrightarrow> unread r = concat (map (\<lambda>(p, junk). frame_text p junk) fs) @ z \<Longrightarrow>
    \<exists>r'. read_packets (length fs) r = Some (map fst fs, r') \<and> sound r' \<and> unread r' = z \<and> same_far (length fs) r r'"
  using assms
proof (induction fs arbitrary: r)
  case Nil
  then show ?case by (simp add: same_far_def)
next
  case (Cons f fs)
  obtain p junk where f: "f = (p, junk)" by (cases f)
  have b: "length p + length junk < PACKET_MAXPAYLOAD" "length junk < 256" "p \<noteq> []" using Cons.prems(3) f by simp_all
  obtain r1 where r1: "read_again (weight (net r)) r = Some (Inr (p, True, seqno (remote_end r)), r1)" "sound r1"
      "unread r1 = concat (map (\<lambda>(p, junk). frame_text p junk) fs) @ z" "same_far 1 r r1"
    using one_frame [OF b Cons.prems(1), of "concat (map (\<lambda>(p, junk). frame_text p junk) fs) @ z"] Cons.prems(2) f by auto
  obtain r2 where r2: "read_packets (length fs) r1 = Some (map fst fs, r2)" "sound r2" "unread r2 = z" "same_far (length fs) r1 r2"
    using Cons.IH [OF r1(2,3)] Cons.prems(3) by auto
  have "same_far (length (f # fs)) r r2" using r1(4) r2(4) by (simp add: same_far_def ac_simps)
  then show ?case using r1(1) r2 f by simp
qed

section \<open>Properties\<close>

text \<open>
  C16: Before encryption is on, collecting takes whole frames off the stream.  Every call returns, whatever the socket does; the
  bytes not yet delivered stay as they are unless a packet is delivered, and then they lose exactly its frame at the front, while the
  sequence number advances by one; the other ends are that the stream would block or fails, a header that announces less than two or more
  than 40000 bytes or more padding than there is room for, and a failed allocation.
\<close>

theorem transport_collect_takes_frames:
  assumes "plain_ok r"
  shows "\<exists>x r'. transport_collect r = Some (x, r') \<and>
    (case x of
       Inr (p, mac_ok, seq) \<Rightarrow>
         mac_ok \<and> seq = seqno (remote_end r) \<and> seqno (remote_end r') = seq + 1 \<and> plain_ok r' \<and>
         (\<exists>junk. length junk < 256 \<and> unread r = frame_text p junk @ unread r')
     | Inl rc \<Rightarrow>
         rc \<in> {E_EAGAIN, E_SOCKET_RECV} \<and> plain_ok r' \<and> seqno (remote_end r') = seqno (remote_end r) \<and> unread r' = unread r \<or>
         rc \<in> {E_DECRYPT, E_OUT_OF_BOUNDARY} \<and> 5 \<le> length (unread r) \<and> header_bad (unread r) \<or>
         rc = E_ALLOC \<and> False \<in> set (rx_mem r))"
proof -
  obtain x r' where x: "transport_collect r = Some (x, r')" "end_ok r x r'" by (rule collect_call [OF assms])
  then show ?thesis by (cases x) (auto simp: end_ok_def)
qed


section \<open>Instances\<close>

text \<open>
  The frame of \<^verbatim>\<open>[21, 1]\<close> arrives in two chunks of a byte and the rest, with three bytes of the next frame, and a call in
  between that would block.
\<close>

definition sample_frame :: bytes where
  "sample_frame = frame_text [21, 1] (replicate 9 0)"

definition sample_rx :: "nat receiver" where
  "sample_rx = \<lparr>rx_state = 0, rx_down = False, remote_end = toy_end, remote_len = None, crypt_rc = - 1, decomp = (\<lambda>bs a. (Inr bs, a)),
     rx_local_crypt = None, rx_local_comp = None, inbuf = replicate PACKETBUFSIZE 0, writeidx = 0, readidx = 0,
     init_bytes = [], packet_length = 0, padding_length = 0, data_num = 0, total_num = 0, payload = Null, wptr = 0,
     block_inbound = False, net = [Inr (take 1 sample_frame), Inr (drop 1 sample_frame @ [1, 2, 3])], rx_mem = []\<rparr>"

lemma sample_rx_ok: "sound sample_rx" "unread sample_rx = frame_of [21] [1] sample_plain @ [1, 2, 3]" "seqno (remote_end sample_rx) = 3"
proof -
  have "frame_of [21] [1] sample_plain = sample_frame"
    using frame_plain [of 8 sample_plain "[21]" "[1]" "replicate 9 0"] sample_modes(1,2) sample_pads(1) sample_junk(1) [of 9]
    by (simp add: sample_frame_def)
  moreover have "unread sample_rx = sample_frame @ [1, 2, 3]"
    by (simp add: sample_rx_def unread_def begun_def buffered_def flip: append_assoc)
  ultimately show "unread sample_rx = frame_of [21] [1] sample_plain @ [1, 2, 3]" by simp
  show "seqno (remote_end sample_rx) = 3" by (simp add: sample_rx_def toy_end_def)
  show "sound sample_rx"
    using length_htonu32 [of 12]
    by (auto simp: sound_def sample_rx_def plain_ok_def plain_mode_def rx_encrypted_def buffer_ok_def rx_compressed_def clean_def sample_frame_def
        frame_text_def simp del: length_htonu32)
qed

lemma transport_collect_takes_frames_witness:
  "\<exists>x r'. transport_collect sample_rx = Some (x, r') \<and> x \<noteq> Inl E_ALLOC"
proof -
  have "plain_ok sample_rx" "rx_mem sample_rx = []" using sample_rx_ok(1) by (simp_all add: sound_def sample_rx_def)
  then show ?thesis using transport_collect_takes_frames [of sample_rx] by fastforce
qed


end
