(* ===== verification/Transport_Etm.thy ===== *)
theory Transport_Etm
  imports Transport_Receive
begin

text \<open>
  A packet that was encrypted before its MAC: what \<open>fullpacket\<close> makes of the frame that the sending half has sealed, and of one
  that is shorter than a block.
\<close>

section \<open>Decryption with a cipher of the backend\<close>

lemma decrypt_loop_run:
  assumes "0 < blocksize c" "stream_cipher c dec adv"
  shows "blocksize c dvd length src \<Longrightarrow> decrypt_loop c False src pos a = Some (True, dec a src, adv a src)"
proof (induction "length src" arbitrary: src a rule: less_induct)
  case less
  note sc = stream_cipherD [OF assms(2)]
  show ?case
  proof (cases "src = []")
    case True
    then show ?thesis using assms(1) sc by (simp add: decrypt_loop.simps)
  next
    case False
    let ?b = "blocksize c"
    have le: "?b \<le> length src" using False less.prems by (simp add: dvd_imp_le)
    have x: "?b dvd length (take ?b src)" "length (take ?b src) = ?b" using le by simp_all
    have ih: "decrypt_loop c False (drop ?b src) pos (adv a (take ?b src)) =
        Some (True, dec (adv a (take ?b src)) (drop ?b src), adv (adv a (take ?b src)) (drop ?b src))"
      by (rule less.hyps) (use False less.prems assms(1) le in \<open>simp_all add: dvd_diff_nat\<close>)
    have "dec a src = dec a (take ?b src) @ dec (adv a (take ?b src)) (drop ?b src)" "adv a src = adv (adv a (take ?b src)) (drop ?b src)"
      using sc(3,4) [OF x(1), of a "drop ?b src"] by simp_all
    then show ?thesis
      using False assms(1) le ih sc(1) [OF x(1)] sc(2) [OF x(1), of a] x(2) by (simp add: decrypt_loop.simps [of c False src] min_def Let_def)
  qed
qed

definition block_reader :: "'a crypt_method \<Rightarrow> 'a receiver \<Rightarrow> bool" where
  "block_reader c r \<longleftrightarrow> ep_crypt (remote_end r) = Some c \<and> \<not> crypt_flag pktlen_aad (rx_local_crypt r) \<and>
     0 < blocksize c \<and> blocksize c \<le> MAX_BLOCKSIZE"

lemma decrypt_run:
  assumes "block_reader c r" "stream_cipher c dec adv" "blocksize c dvd length src"
  shows "decrypt src pos r =
    Some (Inr (dec (crypt_abstract (remote_end r)) src), upd_far (crypt_abstract_update (\<lambda>a. adv a src)) r)"
proof -
  have "upd_far (crypt_abstract_update (\<lambda>_. adv (crypt_abstract (remote_end r)) src)) r = upd_far (crypt_abstract_update (\<lambda>a. adv a src)) r"
    by (cases r, cases "remote_end r") (simp add: upd_far_def)
  then show ?thesis
    using assms(1,3) decrypt_loop_run [OF _ assms(2,3), of pos "crypt_abstract (remote_end r)"]
    by (simp add: decrypt_def block_reader_def dvd_eq_mod_eq_0)
qed

text \<open>The first block and the rest are decrypted into a new block of memory, one byte further to the front.\<close>

lemma etm_decrypt_run:
  assumes c: "block_reader c r" "stream_cipher c dec adv"
    and m: "payload r = Live (h @ x @ y @ t)" "length h = 4" "length x = blocksize c" "blocksize c dvd length y"
    and k: "length t = n" "total_num r = 4 + length x + length y + n" and mem: "fst (alloc_next (rx_mem r))"
    and body: "dec (crypt_abstract (remote_end r)) (x @ y) = body"
  shows "\<exists>r'. etm_decrypt (blocksize c) n r = Some (Inr (), r') \<and> payload r' = Live (tl body @ [0]) \<and> padding_length r' = hd body \<and>
    packet_length r' = packet_length r \<and> same_mode (r\<lparr>remote_end := remote_end r'\<rparr>) r' \<and> decomp r' = decomp r \<and>
    seqno (remote_end r') = seqno (remote_end r) \<and> comp_abstract (remote_end r') = comp_abstract (remote_end r)"
proof -
  let ?b = "blocksize c" let ?a = "crypt_abstract (remote_end r)"
  note sc = stream_cipherD [OF c(2)]
  have b: "0 < ?b" "?b \<le> MAX_BLOCKSIZE" using c(1) by (simp_all add: block_reader_def)
  have dv: "?b dvd length x" "?b dvd length y" using m(3,4) by simp_all
  obtain z zs where first: "dec ?a x = z # zs" "length zs = ?b - 1"
    using sc(2) [OF dv(1), of ?a] m(3) b(1) by (cases "dec ?a x") auto
  have bd: "body = z # zs @ dec (adv ?a x) y" using sc(3) [OF dv(1), of ?a y] first(1) body by simp
  have ly: "length (dec (adv ?a x) y) = length y" by (rule sc(2) [OF dv(2)])
  let ?r1 = "upd_far (crypt_abstract_update (\<lambda>a. adv a x)) r"
  have d1: "decrypt x FIRST_BLOCK r = Some (Inr (z # zs), ?r1)" using decrypt_run [OF c dv(1)] first(1) by simp
  let ?r3 = "(snd (rx_alloc ?r1))\<lparr>padding_length := z\<rparr>"
  have al: "fst (rx_alloc ?r1)" using mem by (simp add: rx_alloc_def upd_far_def)
  have ca: "crypt_abstract (remote_end ?r3) = adv ?a x" by (simp add: rx_alloc_def upd_far_def)
  have rd: "block_reader c ?r3" using c(1) by (simp add: block_reader_def rx_alloc_def upd_far_def)
  have d2: "decrypt y LAST_BLOCK ?r3 = Some (Inr (dec (adv ?a x) y), upd_far (crypt_abstract_update (\<lambda>a. adv a y)) ?r3)"
    using decrypt_run [OF rd c(2) dv(2), of LAST_BLOCK] unfolding ca .
  have p1: "peek 4 ?b (h @ x @ y @ t) = Some x" using m(2,3) by (simp add: peek_def)
  have p2: "peek (?b + 4) (length y) (h @ x @ y @ t) = Some y" using m(2,3) by (simp add: peek_def)
  let ?buf = "zs @ replicate (Suc (length y)) 0"
  have k1: "poke 0 zs (replicate (length x + length y) 0) = Some ?buf"
    using first(2) m(3) b(1) by (simp add: poke_def)
  have k2: "poke (?b - 1) (dec (adv ?a x) y) ?buf = Some (zs @ dec (adv ?a x) y @ [0])"
  proof -
    have "drop (length y) (replicate (Suc (length y)) (0 :: byte)) = [0]" by (simp flip: replicate_append_same)
    then show ?thesis using first(2) ly by (simp add: poke_def)
  qed
  have ds: "int (total_num r) - int n - 4 = int (length x + length y)" using k by simp
  obtain ok r2 where r2: "rx_alloc ?r1 = (ok, r2)" by fastforce
  have ok: "ok" "?r3 = r2\<lparr>padding_length := z\<rparr>" using al r2 by simp_all
  have e: "etm_decrypt ?b n r =
     (if int ?b < int (length x + length y) then
        (case peek (?b + 4) (length x + length y - ?b) (h @ x @ y @ t) of
           None \<Rightarrow> None
         | Some src2 \<Rightarrow>
             stage_then (decrypt src2 LAST_BLOCK ?r3) (\<lambda>rest r4. map_option (\<lambda>b. (Inr (), r4\<lparr>payload := Live b\<rparr>)) (poke (?b - 1) rest ?buf)))
      else Some (Inr (), ?r3\<lparr>payload := Live ?buf\<rparr>))"
    using b p1 d1 ok(1) r2 k1 ds by (simp add: etm_decrypt_def m(1) stage_then_def ok(2) Let_def del: of_nat_add cong: option.case_cong)
  show ?thesis
  proof (cases "y = []")
    case True
    then have "etm_decrypt ?b n r = Some (Inr (), ?r3\<lparr>payload := Live (zs @ [0])\<rparr>)" using e m(3) by simp
    then show ?thesis using bd True sc(6) by (simp add: rx_alloc_def upd_far_def same_mode_def)
  next
    case False
    have "etm_decrypt ?b n r = Some (Inr (), (upd_far (crypt_abstract_update (\<lambda>a. adv a y)) ?r3)\<lparr>payload := Live (zs @ dec (adv ?a x) y @ [0])\<rparr>)"
      using e False m(3) p2 d2 k2 by (simp add: stage_then_def)
    then show ?thesis using bd by (simp add: rx_alloc_def upd_far_def same_mode_def)
  qed
qed

section \<open>Complete packets\<close>

definition etm_reader :: "'a crypt_method \<Rightarrow> 'a mac_method \<Rightarrow> 'a receiver \<Rightarrow> bool" where
  "etm_reader c m r \<longleftrightarrow> block_reader c r \<and> rx_encrypted r \<and> \<not> remote_flag requires_full_packet r \<and> \<not> remote_flag integrated_mac r \<and>
     ep_mac (remote_end r) = Some m \<and> etm m"

text \<open>A MAC that is right leads to the decryption.\<close>

lemma check_mac_etm:
  assumes r: "etm_reader c m r" "mac_works m tag"
    and p: "payload r = Live (ct @ tag (seqno (remote_end r)) ct (mac_abstract (remote_end r)))" "total_num r = length ct + mac_len m"
  shows "check_mac r = stage_then (etm_decrypt (blocksize c) (mac_len m) r) (\<lambda>_ r. Some (Inr True, r))"
proof -
  let ?tag = "tag (seqno (remote_end r)) ct (mac_abstract (remote_end r))"
  have t: "mac_hash m q xs a = Some (tag q xs a, a)" "length (tag q xs a) = mac_len m" for q xs a
    using r(2) by (simp_all add: mac_works_def)
  have u: "upd_far (mac_abstract_update (\<lambda>_. mac_abstract (remote_end r))) r = r" by (cases r, cases "remote_end r") (simp add: upd_far_def)
  have p1: "peek 0 (total_num r - mac_len m) (ct @ ?tag) = Some ct" using p(2) by (simp add: peek_def)
  have p2: "peek (total_num r - mac_len m) (mac_len m) (ct @ ?tag) = Some ?tag" using p(2) t(2) by (simp add: peek_def)
  have "ep_mac (remote_end r) = Some m" "etm m" "ep_crypt (remote_end r) = Some c" "rx_encrypted r"
    "\<not> remote_flag requires_full_packet r" "\<not> remote_flag integrated_mac r"
    using r(1) by (simp_all add: etm_reader_def block_reader_def)
  then show ?thesis using t p1 p2 u by (simp add: check_mac_def p(1))
qed

text \<open>
  C19: A packet sealed with encryption before the MAC is opened.  When the collected bytes are what the sending half makes of a
  payload and its padding, the sequence numbers and the keys of both sides agree, and the cipher inverts the sender's, the payload is
  handed over with its MAC found right, and the sequence number advances.
\<close>

theorem etm_packet_opens:
  assumes "etm_reader c m r" "stream_cipher c dec adv" "mac_works m tag"
    and "seqno (remote_end r) = seqno e" "mac_abstract (remote_end r) = mac_abstract e"
    and "\<forall>xs. length (enc (crypt_abstract e) xs) = length xs \<and>
      (blocksize c dvd length xs \<longrightarrow> dec (crypt_abstract (remote_end r)) (enc (crypt_abstract e) xs) = xs)"
    and "payload r = Live (sealed enc tag True e (frame_text p junk))" "total_num r = length (frame_text p junk) + mac_len m"
    and "packet_length r = word_of_nat (1 + length p + length junk)"
    and "blocksize c dvd 1 + length p + length junk" "length junk < 256" "length p + length junk < PACKET_MAXPAYLOAD"
    and "fst (alloc_next (rx_mem r))" "\<not> (rx_compressed r \<and> comp_abstract (remote_end r) \<noteq> None)"
  shows "\<exists>r'. finish_packet r = Some (Inr (p, True, seqno e), r') \<and> seqno (remote_end r') = seqno e + 1"
proof -
  let ?n = "1 + length p + length junk" let ?text = "frame_text p junk" let ?b = "blocksize c"
  let ?h = "htonu32 (word_of_nat ?n)" let ?body = "word_of_nat (length junk) # p @ junk"
  let ?ct = "enc (crypt_abstract e) ?body" let ?t = "tag (seqno e) (?h @ ?ct) (mac_abstract e)"
  have tx: "take 4 ?text = ?h" "drop 4 ?text = ?body" by (simp_all add: frame_text_def)
  have lc: "length ?ct = ?n" using assms(6) by simp
  have inv: "dec (crypt_abstract (remote_end r)) ?ct = ?body" using assms(6,10) by simp
  have lt: "length ?t = mac_len m" using assms(3) by (simp add: mac_works_def)
  have pay: "payload r = Live ((?h @ ?ct) @ ?t)" using assms(7) by (simp add: sealed_def tx Let_def)
  have cm: "check_mac r = stage_then (etm_decrypt ?b (mac_len m) r) (\<lambda>_ r. Some (Inr True, r))"
    by (rule check_mac_etm [OF assms(1,3), of "?h @ ?ct"]) (use pay lc in \<open>simp_all add: assms(4,5,8)\<close>)
  have br: "block_reader c r" using assms(1) by (simp add: etm_reader_def)
  have le: "?b \<le> length ?ct" unfolding lc by (rule dvd_imp_le [OF assms(10)]) simp
  obtain x y where ct: "?ct = x @ y" "length x = ?b" "?b dvd length y"
    by (rule that [of "take ?b ?ct" "drop ?b ?ct"]) (use le lc assms(10) in \<open>simp_all add: dvd_diff_nat\<close>)
  have m: "payload r = Live (?h @ x @ y @ ?t)" using pay by (simp only: ct(1) append_assoc)
  have tn: "total_num r = 4 + length x + length y + mac_len m"
    using assms(8) lc unfolding ct(1) by simp
  obtain r1 where r1: "etm_decrypt ?b (mac_len m) r = Some (Inr (), r1)" "payload r1 = Live (tl ?body @ [0])" "padding_length r1 = hd ?body"
      "packet_length r1 = packet_length r" "same_mode (r\<lparr>remote_end := remote_end r1\<rparr>) r1" "seqno (remote_end r1) = seqno (remote_end r)"
      "comp_abstract (remote_end r1) = comp_abstract (remote_end r)"
    using etm_decrypt_run [OF br assms(2) m length_htonu32 ct(2,3) lt tn assms(13) inv [unfolded ct(1)]] by blast
  have junk: "unat (word_of_nat (length junk) :: byte) = length junk" using assms(11) by (simp add: unat_of_nat take_bit_nat_eq_self)
  have pl: "unat (packet_length r - 1) = length p + length junk"
  proof -
    have "packet_length r - 1 = word_of_nat (length p + length junk)" using assms(9) by simp
    then show ?thesis using assms(12) by (simp only: unat_of_nat) simp
  qed
  have nc: "\<not> (rx_compressed r1 \<and> comp_abstract (remote_end r1) \<noteq> None)"
    using assms(14) r1(5,7) by (simp add: same_mode_def rx_compressed_def cong: option.case_cong)
  have nc2: "(if rx_compressed (upd_far (seqno_update (\<lambda>q. q + 1)) r1) then comp_abstract (remote_end (upd_far (seqno_update (\<lambda>q. q + 1)) r1)) else None) = None"
    using nc by (auto simp: upd_far_def rx_compressed_def cong: option.case_cong)
  have ss: "size_sub (length p + length junk) (length junk) = length p" using assms(12) by simp
  have "finish_packet r = Some (Inr (p, True, seqno e), (upd_far (seqno_update (\<lambda>q. q + 1)) r1)\<lparr>payload := Dangling\<rparr>)"
    using cm r1(1,2,3) junk pl assms(4) nc2 ss by (simp add: finish_packet_def stage_then_def Let_def peek_def)
  then show ?thesis using r1(6) assms(4) by (auto simp: upd_far_def)
qed

text \<open>
  C20: A packet shorter than a block.  In the mode that encrypts before the MAC the announced length is not tested - it is the length
  of the packet before that is - and neither is it when the packet is opened: with a right MAC and a length of less than a block and a
  byte fewer the first block is written past the memory that was allocated for the packet.
\<close>

theorem etm_short_packet_overflow:
  assumes "rx_mac r0 = Some m" "1 \<le> packet_length r0" "unat (packet_length r0) \<le> PACKET_MAXPAYLOAD"
    and "etm_reader c m r" "stream_cipher c dec adv" "mac_works m tag"
    and "payload r = Live (ct @ tag (seqno (remote_end r)) ct (mac_abstract (remote_end r)))" "total_num r = length ct + mac_len m"
    and "length ct = 4 + n" "n + 1 < blocksize c" "blocksize c \<le> n + mac_len m" "fst (alloc_next (rx_mem r))"
  shows "packet_size (htonu32 (word_of_nat n)) r0 = Some (Inr (total_num r), r0\<lparr>packet_length := word_of_nat n\<rparr>) \<and>
    finish_packet r = None"
proof
  let ?b = "blocksize c" let ?t = "tag (seqno (remote_end r)) ct (mac_abstract (remote_end r))"
  have m: "mac_len m \<le> 64" "length ?t = mac_len m" "etm m" using assms(4,6) by (simp_all add: mac_works_def etm_reader_def)
  have b: "block_reader c r" "?b \<le> MAX_BLOCKSIZE" "0 < ?b" using assms(4) by (simp_all add: etm_reader_def block_reader_def)
  have w: "unat (4 + word_of_nat n + word_of_nat (mac_len m) :: u32) = 4 + n + mac_len m"
  proof -
    have "4 + word_of_nat n + word_of_nat (mac_len m) = (word_of_nat (4 + n + mac_len m) :: u32)" by simp
    then show ?thesis using m(1) b(2) assms(10) by (simp only: unat_of_nat) simp
  qed
  have f: "\<not> rx_full r0" "rx_etm r0" "rx_mac_len r0 = mac_len m"
    using assms(1) m(3) by (auto simp: rx_mac_def rx_etm_def rx_mac_len_def split: if_splits)
  have nz: "packet_length r0 \<noteq> 0" using assms(2) by auto
  show "packet_size (htonu32 (word_of_nat n)) r0 = Some (Inr (total_num r), r0\<lparr>packet_length := word_of_nat n\<rparr>)"
    using f w assms(3,8,9) nz by (simp add: packet_size_def Let_def)
  let ?src = "take ?b (drop 4 (ct @ ?t))"
  have src: "peek 4 ?b (ct @ ?t) = Some ?src" "length ?src = ?b" using assms(9,11) m(2) by (simp_all add: peek_def)
  let ?a = "crypt_abstract (remote_end r)"
  have d: "decrypt ?src FIRST_BLOCK r = Some (Inr (dec ?a ?src), upd_far (crypt_abstract_update (\<lambda>a. adv a ?src)) r)"
    by (rule decrypt_run [OF b(1) assms(5)]) (simp only: src(2) dvd_refl)
  have l: "length (dec ?a ?src) = ?b" using stream_cipherD(2) [OF assms(5), of ?src ?a] by (simp only: src(2) dvd_refl)
  have po: "poke 0 (tl (dec ?a ?src)) (replicate n 0) = None" using l assms(10) by (simp add: poke_def)
  have ds: "int (total_num r) - int (mac_len m) - 4 = int n" using assms(8,9) by simp
  obtain ok r2 where r2: "rx_alloc (upd_far (crypt_abstract_update (\<lambda>a. adv a ?src)) r) = (ok, r2)" by fastforce
  have ok: "ok" using r2 assms(12) by (auto simp: rx_alloc_def upd_far_def)
  have "etm_decrypt ?b (mac_len m) r = None"
    unfolding etm_decrypt_def assms(7) area.case src(1) option.case d ds
    using b(2,3) r2 ok po by (simp add: stage_then_def)
  then show "finish_packet r = None"
    using check_mac_etm [OF assms(4,6,7,8)] by (simp add: finish_packet_def stage_then_def Let_def)
qed

section \<open>Instances\<close>

definition toy_dec :: "nat \<Rightarrow> bytes \<Rightarrow> bytes" where
  "toy_dec a xs = map (\<lambda>(i, x). x - word_of_nat i) (enumerate a xs)"

definition toy_decrypt :: "nat crypt_method" where
  "toy_decrypt = toy_crypt\<lparr>crypt := \<lambda>_ xs a _. Some (toy_dec a xs, a + length xs)\<rparr>"

lemma toy_dec_enc: "toy_dec a (toy_enc a xs) = xs"
  by (induction xs arbitrary: a) (simp_all add: toy_dec_def toy_enc_def)

lemma toy_decipher: "stream_cipher toy_decrypt toy_dec (\<lambda>a xs. a + length xs)"
proof -
  have "enumerate a (xs @ ys) = enumerate a xs @ enumerate (a + length xs) ys" for a and xs ys :: bytes
    by (induction xs arbitrary: a) simp_all
  then show ?thesis by (simp add: stream_cipher_def toy_decrypt_def toy_crypt_def toy_dec_def)
qed

definition sample_sealed :: "nat receiver" where
  "sample_sealed = sample_rx\<lparr>rx_state := STATE_NEWKEYS, remote_end := toy_end\<lparr>ep_crypt := Some toy_decrypt\<rparr>,
     payload := Live (sealed toy_enc toy_tag True toy_end (frame_text [94, 1] (replicate 5 0))), total_num := 13, packet_length := 8\<rparr>"

lemma toy_mac_works: "mac_works toy_mac toy_tag"
  by (simp add: mac_works_def toy_mac_def toy_tag_def)

lemma sample_sealed_reader: "etm_reader toy_decrypt toy_mac sample_sealed"
  by (simp add: etm_reader_def block_reader_def sample_sealed_def sample_rx_def toy_end_def toy_decrypt_def toy_crypt_def toy_mac_def
      rx_encrypted_def remote_flag_def crypt_flag_def)

lemma etm_packet_opens_witness:
  "\<exists>r'. finish_packet sample_sealed = Some (Inr ([94, 1], True, 3), r') \<and> seqno (remote_end r') = 4"
proof -
  have inv: "\<forall>xs. length (toy_enc (crypt_abstract toy_end) xs) = length xs \<and>
      (blocksize toy_decrypt dvd length xs \<longrightarrow> toy_dec (crypt_abstract (remote_end sample_sealed)) (toy_enc (crypt_abstract toy_end) xs) = xs)"
    by (simp add: sample_sealed_def toy_end_def toy_dec_enc) (simp add: toy_enc_def)
  have f: "seqno (remote_end sample_sealed) = seqno toy_end" "mac_abstract (remote_end sample_sealed) = mac_abstract toy_end" "seqno toy_end = 3"
    "payload sample_sealed = Live (sealed toy_enc toy_tag True toy_end (frame_text [94, 1] (replicate 5 0)))"
    "total_num sample_sealed = length (frame_text [94, 1] (replicate 5 0)) + mac_len toy_mac"
    "packet_length sample_sealed = word_of_nat (1 + length [94, 1 :: byte] + length (replicate 5 (0 :: byte)))"
    "blocksize toy_decrypt dvd 1 + length [94, 1 :: byte] + length (replicate 5 (0 :: byte))"
    "length (replicate 5 (0 :: byte)) < 256" "length [94, 1 :: byte] + length (replicate 5 (0 :: byte)) < PACKET_MAXPAYLOAD"
    "fst (alloc_next (rx_mem sample_sealed))" "\<not> (rx_compressed sample_sealed \<and> comp_abstract (remote_end sample_sealed) \<noteq> None)"
    by (simp_all add: sample_sealed_def sample_rx_def toy_end_def toy_mac_def toy_decrypt_def toy_crypt_def)
  show ?thesis
    using etm_packet_opens [OF sample_sealed_reader toy_decipher toy_mac_works f(1,2) inv f(4-11)] by (simp add: f(3))
qed

definition wide_mac :: "nat mac_method" where
  "wide_mac = \<lparr>mac_len = 8, etm = True, mac_hash = (\<lambda>q xs a. Some (replicate 8 0, a))\<rparr>"

definition sample_short :: "nat receiver" where
  "sample_short = sample_sealed\<lparr>remote_end := toy_end\<lparr>ep_crypt := Some toy_decrypt, ep_mac := Some wide_mac\<rparr>,
     payload := Live (htonu32 2 @ [5, 5] @ replicate 8 0), total_num := 14\<rparr>"

lemma etm_short_packet_overflow_witness:
  "packet_size (htonu32 2) sample_short = Some (Inr 14, sample_short\<lparr>packet_length := 2\<rparr>) \<and> finish_packet sample_short = None"
proof -
  have f: "rx_mac sample_short = Some wide_mac" "1 \<le> packet_length sample_short" "unat (packet_length sample_short) \<le> PACKET_MAXPAYLOAD"
    "etm_reader toy_decrypt wide_mac sample_short" "mac_works wide_mac (\<lambda>_ _ _. replicate 8 0)"
    "payload sample_short = Live ((htonu32 2 @ [5, 5]) @ replicate 8 0)" "total_num sample_short = length (htonu32 2 @ [5, 5]) + mac_len wide_mac"
    "length (htonu32 2 @ [5, 5]) = 4 + 2" "2 + 1 < blocksize toy_decrypt" "blocksize toy_decrypt \<le> 2 + mac_len wide_mac"
    "fst (alloc_next (rx_mem sample_short))" "total_num sample_short = 14"
    by (simp_all add: sample_short_def sample_sealed_def sample_rx_def toy_end_def wide_mac_def toy_decrypt_def toy_crypt_def rx_mac_def
        rx_encrypted_def rx_full_def remote_flag_def crypt_flag_def etm_reader_def block_reader_def mac_works_def)
  show ?thesis
    using etm_short_packet_overflow [OF f(1-4) toy_decipher f(5-11)] by (simp add: f(12))
qed

end
