(* ===== verification/Spec2Isabelle.thy ===== *)
theory Spec2Isabelle
  imports Knownhost_Lines Find_Eol Scp_Safety Sftp_Attrs Keepalive Transport_Etm
begin

text \<open>
  A verification development for ssh2-python, the Cython bindings around the bundled libssh2.

  \<^bold>\<open>The program.\<close>  The bindings (\<^verbatim>\<open>ssh2/*.pyx\<close>) call libssh2 and turn its result codes into Python exceptions.  Inside
  libssh2 the transport layer (\<^verbatim>\<open>transport.c\<close>) assembles packets, \<^verbatim>\<open>packet.c\<close> handles each of them or queues it in the
  \<^emph>\<open>brigade\<close> of the session, \<^verbatim>\<open>channel.c\<close> takes data out of the brigade and keeps the flow-control windows, \<^verbatim>\<open>kex.c\<close>
  negotiates the algorithms, \<^verbatim>\<open>knownhost.c\<close> keeps the store of host keys, and \<^verbatim>\<open>misc.c\<close> holds the wire codec, base64,
  the intrusive lists and the error record.  On top of the channels, \<^verbatim>\<open>scp.c\<close> starts the transfer of one file and
  \<^verbatim>\<open>sftp.c\<close> codes the attributes of files; \<^verbatim>\<open>keepalive.c\<close> sends a request on a timer.

  \<^bold>\<open>The theories.\<close>
  \<^item> \<open>Prelude\<close>: types of bytes and machine words, the collections of simplification rules, generic lemmas.
  \<^item> \<open>Wire\<close>: integers, strings and bignums on the wire and the bounds-checked reader \<open>string_buf\<close> (\<^verbatim>\<open>misc.c\<close>).
  \<^item> \<open>Base64\<close>: encoder and decoder (\<^verbatim>\<open>misc.c\<close>); a write outside the allocated block is a value of the model.
  \<^item> \<open>Linked_List\<close>: the doubly linked list on an explicit heap, refining sequences (\<^verbatim>\<open>misc.c\<close>).
  \<^item> \<open>Errors\<close>: the session's error record and \<open>handle_error_codes\<close> (\<^verbatim>\<open>misc.c\<close>, \<^verbatim>\<open>utils.pyx\<close>).
  \<^item> \<open>Find_Eol\<close>: line splitting for channels (\<^verbatim>\<open>ext/find_eol.c\<close>, \<^verbatim>\<open>utils.pyx\<close>).
  \<^item> \<open>Knownhost\<close>, \<open>Knownhost_Store\<close>, \<open>Knownhost_Lines\<close>: the store of known hosts, its queries and its file format
    (\<^verbatim>\<open>knownhost.c\<close>); the backend's HMAC-SHA1 is an argument.
  \<^item> \<open>Kex_Agree\<close>: preferences, the KEXINIT message and the choice of the methods (\<^verbatim>\<open>kex.c\<close>); the method tables that
    the build selects are an argument.
  \<^item> \<open>Session_State\<close>: the structures of the connection layer, channel numbers, the receive window, disconnecting
    (\<^verbatim>\<open>libssh2_priv.h\<close>, \<^verbatim>\<open>channel.c\<close>, \<^verbatim>\<open>session.c\<close>).
  \<^item> \<open>Packet\<close>: \<open>_libssh2_packet_add\<close> with every handler, channels opened by the server, searching the brigade (\<^verbatim>\<open>packet.c\<close>).
  \<^item> \<open>Packet_Window\<close>, \<open>Packet_Inv\<close>: the invariant of the receive windows and its preservation by every message.
  \<^item> \<open>Packet_Safety\<close>: strict key exchange, extraction from the brigade, ownership of the packet's memory.
  \<^item> \<open>Packet_Resume\<close>: delivery of channel data; operations that do not survive being resumed after \<open>EAGAIN\<close>.
  \<^item> \<open>Transport_Read\<close>, \<open>Transport_Inv\<close>, \<open>Transport_Drain\<close>: \<open>_libssh2_transport_read\<close> on whole packets (\<^verbatim>\<open>transport.c\<close>), what
    a packet cannot change, and the loop that drains the input.
  \<^item> \<open>Transport_Send\<close>: \<open>_libssh2_transport_send\<close> and \<open>send_existing\<close>: payload, padding, MAC, encryption, partial writes (\<^verbatim>\<open>transport.c\<close>).
  \<^item> \<open>Transport_Stream\<close>, \<open>Transport_Frame\<close>: what goes out is a sequence of whole frames, and what a frame consists of.
  \<^item> \<open>Transport_Collect\<close>: the loop of \<open>_libssh2_transport_read\<close> that collects and decrypts a packet, \<open>decrypt\<close>, and the part of
    \<open>fullpacket\<close> that checks the MAC and takes off the padding (\<^verbatim>\<open>transport.c\<close>).
  \<^item> \<open>Transport_Receive\<close>: collecting takes whole frames off the stream, and what the sending half made arrives.
  \<^item> \<open>Transport_Etm\<close>: opening a packet that was encrypted before its MAC, and where that writes past its memory.
  \<^item> \<open>Packet_Require\<close>: waiting for a packet of a wanted type, discarding the next one (\<^verbatim>\<open>packet.c\<close>).
  \<^item> \<open>Channel_Read\<close>: reading as a queue of bytes per stream, the receive window, end of file (\<^verbatim>\<open>channel.c\<close>).
  \<^item> \<open>Channel_Write\<close>: writing, end of file, closing, discarding and releasing (\<^verbatim>\<open>channel.c\<close>).
  \<^item> \<open>Channel_Safety\<close>: writes stay within the peer's window and reach the peer's stream, a released channel leaves nothing
    behind, and where closing and discarding differ from what their comments say.
  \<^item> \<open>Channel_Open\<close>, \<open>Channel_Open_Inv\<close>: opening channels and listeners; the invariant over every answer and repeated call.
  \<^item> \<open>Channel_Request\<close>, \<open>Request_Safety\<close>: the requests on a channel, which share one course with the five fields of state that
    provide the interface \<open>request_field\<close>.
  \<^item> \<open>Scp_Quote\<close>: quoting a path for the remote shell, and how a shell reads the command line (\<^verbatim>\<open>scp.c\<close>).
  \<^item> \<open>Scp\<close>: \<open>scp_recv\<close> and \<open>scp_send\<close> with their states, parsers and error labels (\<^verbatim>\<open>scp.c\<close>).
  \<^item> \<open>Scp_Lines\<close>, \<open>Scp_Safety\<close>: printed and parsed numbers and lines, collecting a line over interrupted calls, and what
    the two functions promise.
  \<^item> \<open>Sftp_Attrs\<close>: the attributes of a file on the wire (\<^verbatim>\<open>sftp.c\<close>), with the readers of pairs and extensions as further
    instances of the codec interfaces.
  \<^item> \<open>Keepalive\<close>: the timer of \<^verbatim>\<open>keepalive.c\<close>; the clock is an argument.

  \<^bold>\<open>State and environment.\<close>  The session is a record that every operation returns updated; channels live at addresses.
  What the environment decides is part of the record as scripts: outcomes of allocations, return codes of
  \<open>_libssh2_transport_send\<close> and of the key exchange, and the packets that arrive.  Theorems quantify over the scripts,
  so they cover every interleaving of would-block results with the operations.  An exhausted script of return codes
  means success, an exhausted input means \<open>EAGAIN\<close>.  A result \<open>None\<close> stands for an access through a null pointer or
  outside a buffer.  The two halves of the transport have records of their own, with the fields that they use: the bytes that the socket
  takes, the chunks that it returns and the methods of the crypto backend are part of them.  The connection layer above sees
  of the transport the return codes of sending and a list of complete packets, which is what \<open>transport_collect\<close> yields.
  A call that would block leaves its progress in the state variables of the session (\<open>calls\<close>) or of the
  channel and is made again with the same arguments, as the library's callers do.

  \<^bold>\<open>What the theorems show.\<close>  The codecs and the store of known hosts: round trips, memory safety and functional behaviour on
  every branch.  Transport: the bytes that go out are whole frames however the socket cuts them, the frame is aligned, fits its buffer
  and is encrypted as if at once, and before the keys are in use the reader delivers the payloads in order; with encryption before the MAC a complete packet is opened to what was sealed.  Packets: every message keeps the accounts of the receive windows (\<open>brigade_inv\<close>), strict key exchange
  rejects what it must, a packet's memory has one owner.  Channels: a stream is a queue of bytes, writing on one side
  appends to the queue of the other, operations on one channel leave the others alone, opening and releasing keep the
  accounts, requests end as the server decides.  File transfer: the command line reaches the shell as meant, the receiver
  understands the sender's lines wherever a call was interrupted, the state variables stay consistent over every end of
  a call.  Attributes: a round trip and memory safety.  Keepalive: a caller that keeps to the answered times sends one
  request per interval.  Where the code does not keep its promise, a theorem states what it does
  instead.

  \<^bold>\<open>Bounds and termination.\<close>  No definition uses fuel.  Loops over lists and buffers are structural; the loop that drains
  the input terminates because every call of \<open>_libssh2_transport_read\<close> that succeeds uses up input, which is a theorem.
  The loop that collects a line is bounded by its buffer of 256 bytes.  Two loops may go on for ever and are partial functions: \<open>free_wait\<close>
  around the release of a channel on a non-blocking session, and \<open>collect_loop\<close>; \<open>None\<close> is then also a call that does not
  return.  For \<open>collect_loop\<close> it is proved that it returns while encryption is off, whatever the socket does; with encryption on
  it depends on the methods of the backend.  \<open>read_packets\<close>, the
  caller that tries again, has as many attempts as the script of the socket has bytes and results, which is proved to be enough.
  Lengths of buffers are natural numbers where the code uses \<^verbatim>\<open>size_t\<close> for objects in memory; windows, channel numbers
  and lengths on the wire are 32-bit words.

  \<^bold>\<open>Not modelled.\<close>  The primitives of the crypto backends and of the compression, which are outside the repository or need its build
  configuration; theorems about ciphers and MACs name what they rely on (\<open>stream_cipher\<close>, \<open>mac_works\<close>).  The key exchange, which is
  a script of return codes; session startup and the blocking wait on the socket; user
  authentication, the requests of SFTP, the public-key subsystem and the agent, which are protocols on top of the parts above with
  queues and read-ahead of their own; the C files that Cython generates from the \<^verbatim>\<open>.pyx\<close> files; vendored zlib; examples, tests and packaging.
\<close>

end
